(* ===== verification/Prelude.thy ===== *)
theory Prelude
  imports Complex_Main "HOL-Library.Multiset" "HOL-Library.Sublist" "HOL-Library.AList"
begin

text \<open>
  Shared vocabulary of the development: the types the Go code passes between its packages
  (instants, durations, zones), the units of \<^verbatim>\<open>time.Duration\<close>, the collections of
  facts the components add to, and the generic facts on folds, lists and maps that more than one
  component uses.

  A \<^verbatim>\<open>time.Time\<close> is the instant it denotes: the integer number of nanoseconds since the Unix
  epoch. Two Go values for the same instant in different zones are therefore the same instant here;
  the zone an operation reads an instant in is always an explicit argument.
  A \<^verbatim>\<open>time.Duration\<close> is an integer number of nanoseconds.
\<close>

type_synonym instant = int
type_synonym duration = int

text \<open>
  A zone is the function from an instant, in Unix seconds, to the offset from UTC in seconds that is in
  force then. The IANA database behind \<^verbatim>\<open>*time.Location\<close> is data, so a zone is an argument
  of every definition that uses one.
\<close>

type_synonym location = "int \<Rightarrow> int"

definition utc :: location where
  "utc = (\<lambda>_. 0)"

lemma utc_apply [simp]: "utc t = 0"
  by (simp add: utc_def)

definition second :: duration where "second = 1000000000"
definition minute :: duration where "minute = 60 * second"
definition hour :: duration where "hour = 60 * minute"

lemmas duration_units = second_def minute_def hour_def

text \<open>The zero \<^verbatim>\<open>time.Time{}\<close>: midnight UTC on 1 January of year 1.\<close>

definition zero_time :: instant where
  "zero_time = -62135596800 * second"

named_theorems step_defs \<open>definitions of the operations of a component\<close>
named_theorems inv_intros \<open>preservation of a component's invariant by its operations\<close>

section \<open>Lists\<close>

text \<open>
  A \<open>break\<close> that looks for the first element with a property is \<open>find\<close>; these are its two
  readings.
\<close>

lemma find_Some_prefix:
  "find P xs = Some x \<longleftrightarrow> (\<exists>ys zs. xs = ys @ x # zs \<and> P x \<and> (\<forall>y \<in> set ys. \<not> P y))"
proof (induction xs)
  case (Cons a xs)
  show ?case
  proof (cases "P a")
    case True
    then show ?thesis by (auto simp: Cons_eq_append_conv)
  next
    case False
    then show ?thesis
      using Cons by (auto simp: Cons_eq_append_conv) (metis append_Cons set_ConsD)
  qed
qed simp

lemma sorted_find_least:
  assumes "sorted xs" "find P xs = Some x" "y \<in> set xs" "P y"
  shows "x \<le> y"
  using assms by (induction xs) (auto split: if_splits)

lemma list_all_iff_filter: "list_all P xs \<longleftrightarrow> filter P xs = xs"
  by (simp add: list_all_iff filter_id_conv)

lemma filter_partition_length:
  "length xs = length (filter P xs) + length (filter (\<lambda>x. \<not> P x) xs)"
  by (simp add: sum_length_filter_compl)

lemma foldl_invariant:
  assumes "I s" "\<And>s x. x \<in> set xs \<Longrightarrow> I s \<Longrightarrow> I (f s x)"
  shows "I (foldl f s xs)"
  using assms by (induction xs arbitrary: s) auto

lemma distinct_nth_neq:
  "distinct xs \<Longrightarrow> i < length xs \<Longrightarrow> j < length xs \<Longrightarrow> i \<noteq> j \<Longrightarrow> xs ! i \<noteq> xs ! j"
  by (simp add: nth_eq_iff_index_eq)

section \<open>Maps built by a loop\<close>

text \<open>
  \<open>for _, x := range xs { m[key(x)] = val(x) }\<close>: later entries overwrite earlier ones.
\<close>

definition map_of_loop :: "('a \<Rightarrow> 'k) \<Rightarrow> ('a \<Rightarrow> 'v) \<Rightarrow> 'a list \<Rightarrow> ('k \<rightharpoonup> 'v)" where
  "map_of_loop key val xs = foldl (\<lambda>m x. m(key x \<mapsto> val x)) Map.empty xs"

lemma map_of_loop_Nil [simp]: "map_of_loop key val [] = Map.empty"
  by (simp add: map_of_loop_def)

lemma map_of_loop_snoc [simp]:
  "map_of_loop key val (xs @ [x]) = (map_of_loop key val xs)(key x \<mapsto> val x)"
  by (simp add: map_of_loop_def)

lemma dom_map_of_loop [simp]: "dom (map_of_loop key val xs) = key ` set xs"
proof (induction xs rule: rev_induct)
  case (snoc x xs)
  then show ?case by (simp only: map_of_loop_snoc dom_fun_upd) simp
qed simp

lemma map_of_loop_last:
  "map_of_loop key val xs k = map_option val (find (\<lambda>x. key x = k) (rev xs))"
  by (induction xs rule: rev_induct) auto

lemma map_of_loop_key:
  assumes "\<And>x y. x \<in> set xs \<Longrightarrow> y \<in> set xs \<Longrightarrow> key x = key y \<Longrightarrow> val x = val y" "x \<in> set xs"
  shows "map_of_loop key val xs (key x) = Some (val x)"
proof -
  have "find (\<lambda>x'. key x' = key x) (rev xs) \<noteq> None"
    using assms(2) by (auto simp: find_None_iff)
  then obtain y where y: "find (\<lambda>x'. key x' = key x) (rev xs) = Some y" by blast
  then obtain ys zs where "rev xs = ys @ y # zs" "key y = key x" by (auto simp: find_Some_prefix)
  then have "y \<in> set (rev xs)" "key y = key x" by simp_all
  then have "y \<in> set xs" "key y = key x" by simp_all
  then have "val y = val x" using assms by blast
  then show ?thesis using y by (simp add: map_of_loop_last)
qed

lemma map_of_loop_id:
  "map_of_loop (\<lambda>x. x) val xs k = (if k \<in> set xs then Some (val k) else None)"
  by (induction xs rule: rev_induct) auto

lemma map_of_filter_distinct:
  "distinct (map fst xs) \<Longrightarrow> map_of (filter (\<lambda>(k, v). P v) xs) k = (case map_of xs k of None \<Rightarrow> None | Some v \<Rightarrow> if P v then Some v else None)"
  by (induction xs) (auto split: option.split simp: map_of_eq_None_iff dest: weak_map_of_SomeI)

lemma length_update: "length (AList.update k v xs) = (if k \<in> fst ` set xs then length xs else Suc (length xs))"
  by (induction xs) auto

end
