(* ===== verification/GoTime.thy ===== *)
theory GoTime
  imports Prelude
begin

text \<open>
  The part of the Go package \<^verbatim>\<open>time\<close> the program computes with: the proleptic Gregorian
  calendar (\<open>epoch_days\<close>, \<open>civil_of_days\<close>), reading an instant in a zone (\<open>date_in\<close>,
  \<open>clock_in\<close>, \<open>hour_in\<close>, \<open>weekday_in\<close>), and the two constructors \<^verbatim>\<open>time.Date\<close> and
  \<^verbatim>\<open>Time.AddDate\<close>, which never fail: a month or day out of range is normalised and a wall clock
  that a zone skips is shifted. \<open>zone_ok\<close> states what the code relies on about a zone near the wall clocks it reads.
\<close>

section \<open>The Gregorian calendar\<close>

definition leap :: "int \<Rightarrow> bool" where
  "leap y \<longleftrightarrow> y mod 4 = 0 \<and> (y mod 100 \<noteq> 0 \<or> y mod 400 = 0)"

definition leap_day :: "int \<Rightarrow> int" where
  "leap_day y = (if leap y then 1 else 0)"

text \<open>Days from 1 January of year 1 to 1 January of the year.\<close>

definition year_start :: "int \<Rightarrow> int" where
  "year_start y = 365 * (y - 1) + (y - 1) div 4 - (y - 1) div 100 + (y - 1) div 400"

definition month_start :: "int \<Rightarrow> int \<Rightarrow> int" where
  "month_start l m =
     (if m \<le> 1 then 0 else if m = 2 then 31 else if m = 3 then 59 + l else if m = 4 then 90 + l
      else if m = 5 then 120 + l else if m = 6 then 151 + l else if m = 7 then 181 + l
      else if m = 8 then 212 + l else if m = 9 then 243 + l else if m = 10 then 273 + l
      else if m = 11 then 304 + l else if m = 12 then 334 + l else 365 + l)"

text \<open>The number of days since 1 January 1970. Months outside 1..12 carry into the year.\<close>

definition epoch_days :: "int \<Rightarrow> int \<Rightarrow> int \<Rightarrow> int" where
  "epoch_days y m d =
     (let y' = y + (m - 1) div 12; m' = (m - 1) mod 12 + 1
      in year_start y' + month_start (leap_day y') m' + d - 1 - 719162)"

definition valid_date :: "int \<Rightarrow> int \<Rightarrow> int \<Rightarrow> bool" where
  "valid_date y m d \<longleftrightarrow> 1 \<le> m \<and> m \<le> 12 \<and> 1 \<le> d
     \<and> d \<le> month_start (leap_day y) (m + 1) - month_start (leap_day y) m"

function year_from :: "int \<Rightarrow> int \<Rightarrow> int" where
  "year_from n y = (if n < year_start y then year_from n (y - 1)
     else if year_start (y + 1) \<le> n then year_from n (y + 1) else y)"
  by pat_completeness auto

lemma div_step:
  assumes "0 < (n::int)"
  shows "y div n - (y - 1) div n = (if y mod n = 0 then 1 else 0)"
proof -
  have y: "y = n * (y div n) + y mod n" by simp
  have r: "0 \<le> y mod n" "y mod n < n" using assms by auto
  show ?thesis
  proof (cases "y mod n = 0")
    case True
    have "(y - 1) div n = y div n - 1"
      using y True assms by (intro int_div_pos_eq [where r = "n - 1"]) (auto simp: algebra_simps)
    then show ?thesis using True by simp
  next
    case False
    have "(y - 1) div n = y div n"
      using y r False by (intro int_div_pos_eq [where r = "y mod n - 1"]) auto
    then show ?thesis using False by simp
  qed
qed

lemma leap_day_bounds: "0 \<le> leap_day y \<and> leap_day y \<le> 1"
  by (simp add: leap_day_def)

lemma leap_cases:
  "(C \<longrightarrow> B) \<Longrightarrow> (B \<longrightarrow> A) \<Longrightarrow> (if A \<and> (\<not> B \<or> C) then 1 else (0::int))
     = (if A then 1 else 0) - (if B then 1 else 0) + (if C then 1 else 0)"
  by (cases A; cases B; cases C) simp_all

lemma year_start_Suc: "year_start (y + 1) = year_start y + 365 + leap_day y"
proof -
  have "y mod 100 = 0 \<Longrightarrow> y mod 4 = 0" "y mod 400 = 0 \<Longrightarrow> y mod 100 = 0"
    using dvd_trans [of 4 100 y] dvd_trans [of 100 400 y] by (simp_all add: dvd_eq_mod_eq_0)
  then have l: "leap_day y = (if y mod 4 = 0 then 1 else 0) - (if y mod 100 = 0 then 1 else 0)
      + (if y mod 400 = 0 then 1 else 0)"
    unfolding leap_day_def leap_def by (intro leap_cases) blast+
  have "year_start (y + 1) - year_start y = 365 + (y div 4 - (y - 1) div 4)
      - (y div 100 - (y - 1) div 100) + (y div 400 - (y - 1) div 400)"
    by (simp add: year_start_def)
  also have "\<dots> = 365 + leap_day y"
    unfolding l by (simp only: div_step zero_less_numeral)
  finally show ?thesis by simp
qed

lemma year_start_pred: "year_start y = year_start (y - 1) + 365 + leap_day (y - 1)"
  using year_start_Suc [of "y - 1"] by simp

termination year_from
proof (relation "measure (\<lambda>(n, y). if n < year_start y then nat (1 + year_start y - n)
    else if year_start (y + 1) \<le> n then nat (1 + n - year_start y) else 0)", goal_cases)
  case (2 n y)
  then show ?case
    using year_start_pred [of y] leap_day_bounds [of "y - 1"] by auto
next
  case (3 n y)
  then show ?case
    using year_start_Suc [of y] leap_day_bounds [of y] by auto
qed simp

declare year_from.simps [simp del]

definition year_of :: "int \<Rightarrow> int" where
  "year_of n = year_from n (n * 400 div 146097 + 1)"

definition month_of :: "int \<Rightarrow> int \<Rightarrow> int" where
  "month_of l yd =
     (if yd < 31 then 1 else if yd < 59 + l then 2 else if yd < 90 + l then 3
      else if yd < 120 + l then 4 else if yd < 151 + l then 5 else if yd < 181 + l then 6
      else if yd < 212 + l then 7 else if yd < 243 + l then 8 else if yd < 273 + l then 9
      else if yd < 304 + l then 10 else if yd < 334 + l then 11 else 12)"

definition civil_of_days :: "int \<Rightarrow> int \<times> int \<times> int" where
  "civil_of_days n =
     (let n' = n + 719162; y = year_of n'; yd = n' - year_start y; l = leap_day y; m = month_of l yd
      in (y, m, yd - month_start l m + 1))"

lemma year_from_bounds: "year_start (year_from n y) \<le> n \<and> n < year_start (year_from n y + 1)"
proof (induction n y rule: year_from.induct)
  case (1 n y)
  show ?case
    using 1 by (cases "n < year_start y"; cases "year_start (y + 1) \<le> n")
      (simp_all add: year_from.simps [of n y])
qed

lemma year_of_bounds: "year_start (year_of n) \<le> n \<and> n < year_start (year_of n + 1)"
  unfolding year_of_def by (rule year_from_bounds)

lemma year_start_strict_mono: "a < b \<Longrightarrow> year_start a < year_start b"
proof -
  have step: "year_start y < year_start (y + 1)" for y
    using year_start_Suc [of y] leap_day_bounds [of y] by simp
  show "a < b \<Longrightarrow> year_start a < year_start b"
  proof (induction "nat (b - a - 1)" arbitrary: b)
    case 0
    then have "b = a + 1" by simp
    then show ?case using step by simp
  next
    case (Suc n)
    then have "year_start a < year_start (b - 1)" by (intro Suc.hyps(1)) auto
    then show ?case using step [of "b - 1"] by simp
  qed
qed

lemma year_start_mono: "a \<le> b \<Longrightarrow> year_start a \<le> year_start b"
  using year_start_strict_mono [of a b] by (cases "a = b") auto

lemma year_of_unique:
  assumes "year_start y \<le> n" "n < year_start (y + 1)"
  shows "year_of n = y"
proof -
  let ?z = "year_of n"
  have z: "year_start ?z \<le> n" "n < year_start (?z + 1)"
    using year_from_bounds by (auto simp: year_of_def)
  have "\<not> y < ?z" using year_start_mono [of "y + 1" ?z] z assms by auto
  moreover have "\<not> ?z < y" using year_start_mono [of "?z + 1" y] z assms by auto
  ultimately show ?thesis by simp
qed

lemma month_of_bounds:
  assumes "0 \<le> l" "l \<le> 1" "0 \<le> yd" "yd < 365 + l"
  shows "1 \<le> month_of l yd \<and> month_of l yd \<le> 12 \<and> month_start l (month_of l yd) \<le> yd
     \<and> yd < month_start l (month_of l yd + 1)"
  using assms by (simp add: month_of_def month_start_def)

lemma month_of_unique:
  assumes "0 \<le> l" "l \<le> 1" "1 \<le> m" "m \<le> 12" "month_start l m \<le> yd" "yd < month_start l (m + 1)"
  shows "month_of l yd = m"
proof -
  have "m = 1 \<or> m = 2 \<or> m = 3 \<or> m = 4 \<or> m = 5 \<or> m = 6 \<or> m = 7 \<or> m = 8 \<or> m = 9
      \<or> m = 10 \<or> m = 11 \<or> m = 12"
    using assms(3,4) by presburger
  then show ?thesis
    using assms by (elim disjE) (simp_all add: month_of_def month_start_def)
qed

lemma month_end_le:
  assumes "0 \<le> l" "1 \<le> m" "m \<le> 12"
  shows "month_start l (m + 1) \<le> 365 + l \<and> 0 \<le> month_start l m"
  using assms by (simp add: month_start_def)

theorem civil_of_epoch_days:
  assumes "valid_date y m d"
  shows "civil_of_days (epoch_days y m d) = (y, m, d)"
proof -
  let ?l = "leap_day y" and ?yd = "month_start (leap_day y) m + d - 1"
  have m: "1 \<le> m" "m \<le> 12" "1 \<le> d" "d \<le> month_start ?l (m + 1) - month_start ?l m"
    using assms by (auto simp: valid_date_def)
  have l: "0 \<le> ?l" "?l \<le> 1" using leap_day_bounds by auto
  have carry: "(m - 1) div 12 = 0" "(m - 1) mod 12 = m - 1" using m by auto
  then have e: "epoch_days y m d + 719162 = year_start y + ?yd"
    by (simp add: epoch_days_def Let_def)
  have y: "year_of (year_start y + ?yd) = y"
    using m l month_end_le [of ?l m] year_start_Suc [of y]
    by (intro year_of_unique) auto
  have "month_of ?l ?yd = m"
    using m l by (intro month_of_unique) auto
  then show ?thesis
    unfolding civil_of_days_def e by (simp add: y Let_def)
qed

lemma civil_of_days_valid:
  "case civil_of_days n of (y, m, d) \<Rightarrow> valid_date y m d \<and> epoch_days y m d = n"
proof -
  let ?n = "n + 719162"
  let ?y = "year_of ?n"
  let ?l = "leap_day ?y" and ?yd = "?n - year_start ?y"
  let ?m = "month_of ?l ?yd"
  have y: "year_start ?y \<le> ?n" "?n < year_start (?y + 1)"
    using year_from_bounds by (auto simp: year_of_def)
  have l: "0 \<le> ?l" "?l \<le> 1" using leap_day_bounds by auto
  have m: "1 \<le> ?m" "?m \<le> 12" "month_start ?l ?m \<le> ?yd" "?yd < month_start ?l (?m + 1)"
    using month_of_bounds [of ?l ?yd] l y year_start_Suc [of ?y] by auto
  have carry: "(?m - 1) div 12 = 0" "(?m - 1) mod 12 = ?m - 1" using m by auto
  show ?thesis
    using m by (simp add: civil_of_days_def Let_def valid_date_def epoch_days_def carry)
qed

lemma epoch_days_day_linear: "epoch_days y m (d + k) = epoch_days y m d + k"
  by (simp add: epoch_days_def Let_def)

section \<open>Reading an instant in a zone\<close>

definition unix_sec :: "instant \<Rightarrow> int" where
  "unix_sec t = t div second"

definition local_sec :: "location \<Rightarrow> instant \<Rightarrow> int" where
  "local_sec loc t = unix_sec t + loc (unix_sec t)"

definition date_in :: "location \<Rightarrow> instant \<Rightarrow> int \<times> int \<times> int" where
  "date_in loc t = civil_of_days (local_sec loc t div 86400)"

definition clock_in :: "location \<Rightarrow> instant \<Rightarrow> int \<times> int \<times> int" where
  "clock_in loc t =
     (let s = local_sec loc t mod 86400 in (s div 3600, s mod 3600 div 60, s mod 60))"

definition hour_in :: "location \<Rightarrow> instant \<Rightarrow> int" where
  "hour_in loc t = local_sec loc t mod 86400 div 3600"

text \<open>\<^verbatim>\<open>time.Weekday\<close>: Sunday is 0; 1 January 1970 was a Thursday.\<close>

definition weekday_in :: "location \<Rightarrow> instant \<Rightarrow> int" where
  "weekday_in loc t = (local_sec loc t div 86400 + 4) mod 7"

lemma hour_in_bounds: "0 \<le> hour_in loc t \<and> hour_in loc t < 24"
  unfolding hour_in_def by linarith

section \<open>Building an instant from a wall clock\<close>

text \<open>The wall clock as seconds, as if the zone were UTC.\<close>

definition wall_sec :: "int \<Rightarrow> int \<Rightarrow> int \<Rightarrow> int \<Rightarrow> int \<Rightarrow> int \<Rightarrow> int" where
  "wall_sec y m d h mi s = epoch_days y m d * 86400 + h * 3600 + mi * 60 + s"

text \<open>
  \<^verbatim>\<open>time.Date\<close>: the offset in force at the wall clock read as UTC is tried first, and replaced by
  the offset in force at the instant it leads to.
\<close>

definition unix_of_wall :: "location \<Rightarrow> int \<Rightarrow> int" where
  "unix_of_wall loc u = (if loc u = 0 then u else u - loc (u - loc u))"

definition time_date :: "int \<Rightarrow> int \<Rightarrow> int \<Rightarrow> int \<Rightarrow> int \<Rightarrow> int \<Rightarrow> int \<Rightarrow> location \<Rightarrow> instant" where
  "time_date y m d h mi s ns loc = unix_of_wall loc (wall_sec y m d h mi s) * second + ns"

definition add_date :: "location \<Rightarrow> instant \<Rightarrow> int \<Rightarrow> int \<Rightarrow> int \<Rightarrow> instant" where
  "add_date loc t years months days =
     (case date_in loc t of (y, m, d) \<Rightarrow> case clock_in loc t of (h, mi, s) \<Rightarrow>
        time_date (y + years) (m + months) (d + days) h mi s (t mod second) loc)"

lemma wall_sec_local:
  assumes "date_in loc t = (y, m, d)" "clock_in loc t = (h, mi, s)"
  shows "wall_sec y m d h mi s = local_sec loc t"
proof -
  let ?L = "local_sec loc t"
  have "epoch_days y m d = ?L div 86400"
    using civil_of_days_valid [of "?L div 86400"] assms(1) by (simp add: date_in_def)
  moreover have "x div 3600 * 3600 + x mod 3600 div 60 * 60 + x mod 60 = x" for x :: int
  proof -
    have "x mod 3600 mod 60 = x mod 60" by (simp add: mod_mod_cancel)
    then show ?thesis
      using div_mult_mod_eq [of x 3600] div_mult_mod_eq [of "x mod 3600" 60] by linarith
  qed
  then have "h * 3600 + mi * 60 + s = ?L mod 86400"
    using assms(2) by (auto simp: clock_in_def Let_def)
  ultimately show ?thesis using div_mult_mod_eq [of ?L 86400] unfolding wall_sec_def by linarith
qed

lemma date_clock_of_wall:
  assumes "local_sec loc t = wall_sec y m d h mi s" "valid_date y m d"
    and "0 \<le> h" "h < 24" "0 \<le> mi" "mi < 60" "0 \<le> s" "s < 60"
  shows "date_in loc t = (y, m, d) \<and> clock_in loc t = (h, mi, s)"
proof -
  have r: "0 \<le> h * 3600 + mi * 60 + s" "h * 3600 + mi * 60 + s < 86400" using assms by auto
  have "local_sec loc t = epoch_days y m d * 86400 + (h * 3600 + mi * 60 + s)"
    using assms(1) by (simp add: wall_sec_def)
  then have day: "local_sec loc t div 86400 = epoch_days y m d"
    "local_sec loc t mod 86400 = h * 3600 + mi * 60 + s"
    using r by auto
  have h: "(h * 3600 + mi * 60 + s) div 3600 = h" "(h * 3600 + mi * 60 + s) mod 60 = s"
    using int_div_pos_eq [of "h * 3600 + mi * 60 + s" 3600 h "mi * 60 + s"]
      int_mod_pos_eq [of "h * 3600 + mi * 60 + s" 60 "h * 60 + mi" s] assms by simp_all
  have rest: "(h * 3600 + mi * 60 + s) mod 3600 = mi * 60 + s"
    using int_mod_pos_eq [of "h * 3600 + mi * 60 + s" 3600 h "mi * 60 + s"] assms by simp
  have "(mi * 60 + s) div 60 = mi"
    using int_div_pos_eq [of "mi * 60 + s" 60 mi s] assms by simp
  then have "clock_in loc t = (h, mi, s)" unfolding clock_in_def Let_def day rest h by simp
  moreover have "date_in loc t = (y, m, d)"
    unfolding date_in_def day by (rule civil_of_epoch_days [OF assms(2)])
  ultimately show ?thesis by simp
qed

lemma date_in_utc_midnight:
  "date_in utc (time_date y m d 0 0 0 0 utc) = civil_of_days (epoch_days y m d)"
  by (simp add: date_in_def time_date_def unix_of_wall_def wall_sec_def local_sec_def unix_sec_def
      second_def)

section \<open>Zones\<close>

text \<open>
  Around \<open>u\<close> (four days each way) the zone changes its offset at most once, from \<open>a\<close> to \<open>b\<close> at \<open>T\<close>.
\<close>

definition zone_step :: "location \<Rightarrow> int \<Rightarrow> int \<Rightarrow> int \<Rightarrow> int \<Rightarrow> bool" where
  "zone_step loc u T a b \<longleftrightarrow>
     (\<forall>t. \<bar>t - u\<bar> \<le> 4 * 86400 \<longrightarrow> loc t = (if t < T then a else b))"

text \<open>
  What the code relies on where it reads the wall clocks \<open>us\<close>: an offset is at most a day, no two
  transitions are within four days of such a clock, and one that turns the clock back does so by half an
  hour, one hour or two. The zone need not be so elsewhere, and real zones are not: local mean time ended
  with odd steps, and Antarctica/Casey has gone back by three hours.
\<close>

definition zone_ok :: "location \<Rightarrow> int set \<Rightarrow> bool" where
  "zone_ok loc us \<longleftrightarrow> (\<forall>t. \<bar>loc t\<bar> \<le> 86400) \<and>
     (\<forall>u \<in> us. \<exists>T a b. zone_step loc u T a b \<and> (a \<le> b \<or> a - b \<in> {1800, 3600, 7200}))"

lemma zone_ok_subset: "zone_ok loc us \<Longrightarrow> vs \<subseteq> us \<Longrightarrow> zone_ok loc vs"
  by (auto simp: zone_ok_def)

text \<open>New York in March 2026, the zone of the witnesses: EST until 8 March, 07:00 UTC, then EDT.\<close>

definition new_york_spring :: location where
  "new_york_spring t = (if t < 1772953200 then -18000 else -14400)"

definition new_york_autumn :: location where
  "new_york_autumn t = (if t < 1793512800 then -14400 else -18000)"

lemma zone_ok_spring: "zone_ok new_york_spring us"
  unfolding zone_ok_def zone_step_def new_york_spring_def
  by (intro conjI allI ballI exI [of _ 1772953200] exI [of _ "-18000"] exI [of _ "-14400"]) auto

lemma zone_ok_autumn: "zone_ok new_york_autumn us"
  unfolding zone_ok_def zone_step_def new_york_autumn_def
  by (intro conjI allI ballI exI [of _ 1793512800] exI [of _ "-14400"] exI [of _ "-18000"]) auto

lemma zone_ok_fixed: "\<bar>c\<bar> \<le> 86400 \<Longrightarrow> zone_ok (\<lambda>_. c) us"
  unfolding zone_ok_def zone_step_def by auto

section \<open>Differences\<close>

text \<open>\<^verbatim>\<open>Time.Sub\<close> saturates.\<close>

definition time_sub :: "instant \<Rightarrow> instant \<Rightarrow> duration" where
  "time_sub t u = max (- (2 ^ 63)) (min (2 ^ 63 - 1) (t - u))"

lemma time_sub_mono: "t \<le> u \<Longrightarrow> time_sub t v \<le> time_sub u v"
  by (simp add: time_sub_def)

end
