(* ===== verification/GoText.thy ===== *)
theory GoText
  imports GoTime "HOL-Library.Char_ord"
begin

text \<open>
  What the program uses of Go's text packages. A Go string is its sequence of bytes, so a \<open>string\<close>
  here is one too. \<open>runes\<close> splits a string the way \<^verbatim>\<open>utf8.DecodeRuneInString\<close> does (an invalid
  byte is a rune of its own); \<open>trim_space\<close> is \<^verbatim>\<open>strings.TrimSpace\<close> over the white space of
  Unicode, \<open>atoi\<close> is \<^verbatim>\<open>strconv.Atoi\<close> with its sign and its 64-bit range, \<open>pad_int\<close> is the
  verb \<^verbatim>\<open>%0<w>d\<close>, and \<open>parse_iso_date\<close> is \<^verbatim>\<open>time.Parse\<close> with the layout
  \<^verbatim>\<open>2006-01-02\<close>.
\<close>

section \<open>Runes\<close>

abbreviation byte :: "char \<Rightarrow> nat" where
  "byte c \<equiv> of_char c"

definition continuation :: "char \<Rightarrow> bool" where
  "continuation c \<longleftrightarrow> 128 \<le> byte c \<and> byte c \<le> 191"

text \<open>The width of the first rune; 1 for a byte that starts no valid sequence.\<close>

definition rune_width :: "string \<Rightarrow> nat" where
  "rune_width s = (case s of
     a # b # rest \<Rightarrow>
       (if 194 \<le> byte a \<and> byte a \<le> 223 \<and> continuation b then 2
        else (case rest of
          c # rest' \<Rightarrow>
            (if 224 \<le> byte a \<and> byte a \<le> 239 \<and> continuation b \<and> continuation c
                \<and> (byte a = 224 \<longrightarrow> 160 \<le> byte b) \<and> (byte a = 237 \<longrightarrow> byte b \<le> 159) then 3
             else (case rest' of
               d # _ \<Rightarrow>
                 (if 240 \<le> byte a \<and> byte a \<le> 244 \<and> continuation b \<and> continuation c \<and> continuation d
                     \<and> (byte a = 240 \<longrightarrow> 144 \<le> byte b) \<and> (byte a = 244 \<longrightarrow> byte b \<le> 143) then 4 else 1)
             | [] \<Rightarrow> 1))
        | [] \<Rightarrow> 1))
   | _ \<Rightarrow> 1)"

lemma rune_width_pos: "0 < rune_width s"
  by (auto simp: rune_width_def split: list.split)

function runes :: "string \<Rightarrow> string list" where
  "runes [] = []"
| "runes (c # s) = take (rune_width (c # s)) (c # s) # runes (drop (rune_width (c # s)) (c # s))"
  by pat_completeness auto

termination
  by (relation "measure length") (use rune_width_pos in \<open>auto simp: Suc_le_eq\<close>)

definition rune_count :: "string \<Rightarrow> nat" where
  "rune_count s = length (runes s)"

definition rune_value :: "string \<Rightarrow> nat" where
  "rune_value r = (case map byte r of
     [a] \<Rightarrow> (if a < 128 then a else 65533)
   | [a, b] \<Rightarrow> (a - 192) * 64 + (b - 128)
   | [a, b, c] \<Rightarrow> ((a - 224) * 64 + (b - 128)) * 64 + (c - 128)
   | [a, b, c, d] \<Rightarrow> (((a - 240) * 64 + (b - 128)) * 64 + (c - 128)) * 64 + (d - 128)
   | _ \<Rightarrow> 65533)"

text \<open>\<^verbatim>\<open>unicode.IsSpace\<close>.\<close>

definition is_space :: "string \<Rightarrow> bool" where
  "is_space r \<longleftrightarrow> rune_value r \<in> {9, 10, 11, 12, 13, 32, 133, 160, 5760, 8232, 8233, 8239, 8287, 12288}
     \<or> 8192 \<le> rune_value r \<and> rune_value r \<le> 8202"

definition trim_space :: "string \<Rightarrow> string" where
  "trim_space s = concat (rev (dropWhile is_space (rev (dropWhile is_space (runes s)))))"

section \<open>Numbers\<close>

definition digit_char :: "nat \<Rightarrow> char" where
  "digit_char n = char_of (48 + n)"

definition is_digit :: "char \<Rightarrow> bool" where
  "is_digit c \<longleftrightarrow> 48 \<le> byte c \<and> byte c \<le> 57"

fun decimal :: "nat \<Rightarrow> string" where
  "decimal n = (if n < 10 then [digit_char n] else decimal (n div 10) @ [digit_char (n mod 10)])"

declare decimal.simps [simp del]

definition digits_value :: "string \<Rightarrow> nat" where
  "digits_value s = foldl (\<lambda>a c. 10 * a + (byte c - 48)) 0 s"

definition itoa :: "int \<Rightarrow> string" where
  "itoa n = (if n < 0 then ''-'' @ decimal (nat (- n)) else decimal (nat n))"

definition pad_int :: "nat \<Rightarrow> int \<Rightarrow> string" where
  "pad_int w n =
     (let d = decimal (nat \<bar>n\<bar>) in
      if n < 0 then ''-'' @ replicate (w - 1 - length d) (CHR ''0'') @ d else replicate (w - length d) (CHR ''0'') @ d)"

definition nat_of_digits :: "string \<Rightarrow> nat option" where
  "nat_of_digits s = (if s \<noteq> [] \<and> list_all is_digit s then Some (digits_value s) else None)"

definition atoi :: "string \<Rightarrow> int option" where
  "atoi s = (case s of
     c # rest \<Rightarrow>
       (let neg = c = CHR ''-'';
            body = (if c = CHR ''-'' \<or> c = CHR ''+'' then rest else s)
        in case nat_of_digits body of
             None \<Rightarrow> None
           | Some n \<Rightarrow> (let v = (if neg then - int n else int n) in
               if - (2 ^ 63) \<le> v \<and> v < 2 ^ 63 then Some v else None))
   | [] \<Rightarrow> None)"

text \<open>\<^verbatim>\<open>strings.Cut\<close> at the first occurrence of a character.\<close>

definition cut :: "char \<Rightarrow> string \<Rightarrow> (string \<times> string) option" where
  "cut c s = (if c \<in> set s then Some (takeWhile (\<lambda>x. x \<noteq> c) s, tl (dropWhile (\<lambda>x. x \<noteq> c) s)) else None)"

primrec join :: "string \<Rightarrow> string list \<Rightarrow> string" where
  "join sep [] = ''''"
| "join sep (s # ss) = (if ss = [] then s else s @ sep @ join sep ss)"

section \<open>Dates\<close>

definition parse_iso_date :: "string \<Rightarrow> (int \<times> int \<times> int) option" where
  "parse_iso_date s =
     (if length s = 10 \<and> s ! 4 = CHR ''-'' \<and> s ! 7 = CHR ''-'' then
        (case (nat_of_digits (take 4 s), nat_of_digits (take 2 (drop 5 s)), nat_of_digits (drop 8 s)) of
           (Some y, Some m, Some d) \<Rightarrow> if valid_date (int y) (int m) (int d) then Some (int y, int m, int d) else None
         | _ \<Rightarrow> None)
      else None)"

section \<open>Facts\<close>

lemma byte_digit_char: "n < 10 \<Longrightarrow> byte (digit_char n) = 48 + n"
  by (simp add: digit_char_def)

lemma is_digit_digit_char: "n < 10 \<Longrightarrow> is_digit (digit_char n)"
  by (simp add: is_digit_def byte_digit_char)

lemma decimal_digits: "list_all is_digit (decimal n) \<and> decimal n \<noteq> []"
proof (induction n rule: decimal.induct)
  case (1 n)
  then show ?case by (subst (1 2) decimal.simps) (auto simp: is_digit_digit_char)
qed

lemma digits_value_snoc: "digits_value (s @ [c]) = 10 * digits_value s + (byte c - 48)"
  by (simp add: digits_value_def)

lemma digits_value_bound: "list_all is_digit s \<Longrightarrow> digits_value s < 10 ^ length s"
proof (induction s rule: rev_induct)
  case (snoc c s)
  then have "digits_value s < 10 ^ length s" "byte c - 48 \<le> (9::nat)" by (auto simp: is_digit_def)
  then show ?case unfolding digits_value_snoc length_append_singleton power_Suc by linarith
qed (simp add: digits_value_def)

lemma digits_value_decimal: "digits_value (decimal n) = n"
proof (induction n rule: decimal.induct)
  case (1 n)
  then show ?case
    by (subst decimal.simps) (auto simp: digits_value_snoc byte_digit_char, simp add: digits_value_def byte_digit_char)
qed

lemma digits_value_zeros: "digits_value (replicate k (CHR ''0'') @ s) = digits_value s"
proof -
  have "foldl (\<lambda>a c. 10 * a + (byte c - 48)) 0 (replicate k (CHR ''0'')) = (0::nat)" by (induction k) simp_all
  then show ?thesis by (simp add: digits_value_def)
qed

lemma decimal_length: "n < 10 ^ k \<Longrightarrow> 0 < k \<Longrightarrow> length (decimal n) \<le> k"
proof (induction k arbitrary: n)
  case (Suc k)
  show ?case
  proof (cases "n < 10")
    case True
    then show ?thesis by (subst decimal.simps) simp
  next
    case False
    then have "0 < k" using Suc.prems by (cases k) auto
    moreover have "n div 10 < 10 ^ k" using Suc.prems by (simp add: div_less_iff_less_mult mult.commute)
    ultimately show ?thesis using Suc.IH [of "n div 10"] False by (subst decimal.simps) simp
  qed
qed simp

lemma pad_int_nonneg: "0 \<le> n \<Longrightarrow> pad_int w n = replicate (w - length (decimal (nat n))) (CHR ''0'') @ decimal (nat n)"
  by (simp add: pad_int_def Let_def)

lemma pad_int_digits:
  assumes "0 \<le> n" "n < 10 ^ w" "0 < w"
  shows "list_all is_digit (pad_int w n)" "length (pad_int w n) = w" "nat_of_digits (pad_int w n) = Some (nat n)"
proof -
  have "nat n < 10 ^ w" using assms(1,2) by (simp add: nat_less_iff)
  then have le: "length (decimal (nat n)) \<le> w" using decimal_length assms(3) by blast
  have d: "list_all is_digit (replicate k (CHR ''0''))" for k by (induction k) (simp_all add: is_digit_def)
  show dig: "list_all is_digit (pad_int w n)" using d decimal_digits by (simp add: pad_int_nonneg assms(1))
  show len: "length (pad_int w n) = w" using le by (simp add: pad_int_nonneg assms(1))
  have "pad_int w n \<noteq> []" using len assms(3) by auto
  then show "nat_of_digits (pad_int w n) = Some (nat n)"
    using dig by (simp add: nat_of_digits_def pad_int_nonneg assms(1) digits_value_zeros digits_value_decimal)
qed

lemma digit_not_sign: "is_digit c \<Longrightarrow> c \<noteq> CHR ''-'' \<and> c \<noteq> CHR ''+'' \<and> c \<noteq> CHR '':''"
  by (auto simp: is_digit_def)

lemma atoi_digits:
  assumes "nat_of_digits s = Some n" "n < 2 ^ 63"
  shows "atoi s = Some (int n)"
proof -
  from assms(1) obtain c rest where s: "s = c # rest" "is_digit c"
    by (cases s) (auto simp: nat_of_digits_def split: if_splits)
  have "int n < 2 ^ 63" using assms(2) by (metis of_nat_less_iff of_nat_numeral of_nat_power)
  then show ?thesis using assms(1) digit_not_sign [OF s(2)] s(1) by (simp add: atoi_def Let_def)
qed

lemma cut_digits:
  "list_all is_digit a \<Longrightarrow> cut (CHR '':'') (a @ CHR '':'' # b) = Some (a, b)"
proof -
  assume a: "list_all is_digit a"
  then have "x \<noteq> CHR '':''" if "x \<in> set a" for x using that digit_not_sign by (auto simp: list_all_iff)
  then have "takeWhile (\<lambda>x. x \<noteq> CHR '':'') (a @ CHR '':'' # b) = a" "dropWhile (\<lambda>x. x \<noteq> CHR '':'') (a @ CHR '':'' # b) = CHR '':'' # b"
    by (simp_all add: takeWhile_append2 dropWhile_append2)
  then show ?thesis by (simp add: cut_def)
qed

lemma parse_iso_date_format:
  assumes "0 \<le> y" "y < 10000" "valid_date y m d"
  shows "parse_iso_date (pad_int 4 y @ ''-'' @ pad_int 2 m @ ''-'' @ pad_int 2 d) = Some (y, m, d)"
proof -
  have "month_start (leap_day y) (m + 1) - month_start (leap_day y) m \<le> 31"
    using leap_day_bounds [of y] by (simp add: month_start_def)
  then have md: "0 \<le> m" "m < 100" "0 \<le> d" "d < 100" using assms(3) by (auto simp: valid_date_def)
  note p4 = pad_int_digits [of y 4] and pm = pad_int_digits [of m 2] and pd = pad_int_digits [of d 2]
  have lens: "length (pad_int 4 y) = 4" "length (pad_int 2 m) = 2" "length (pad_int 2 d) = 2"
    using p4(2) pm(2) pd(2) assms(1,2) md by simp_all
  show ?thesis
    using p4(3) pm(3) pd(3) assms md lens
    by (simp add: parse_iso_date_def nth_append)
qed

lemma concat_runes: "concat (runes s) = s"
  by (induction s rule: runes.induct) simp_all

lemma rune_width_ascii: "byte c < 128 \<Longrightarrow> rune_width (c # s) = 1"
  by (auto simp: rune_width_def split: list.split)

lemma runes_ascii: "list_all (\<lambda>c. byte c < 128) s \<Longrightarrow> runes s = map (\<lambda>c. [c]) s"
  by (induction s) (simp_all add: rune_width_ascii)

declare runes.simps(2) [simp del]

end
