(* ===== verification/Slots.thy ===== *)
theory Slots
  imports GoTime "HOL-Library.Signed_Division"
begin

text \<open>
  \<^verbatim>\<open>api/internal/slots/slots.go\<close>: the expansion of an organizer's window (dates, a daily band and
  a slot length, all in one zone) into instants. \<open>resolve\<close> maps one wall clock to an instant and says
  how it mapped; \<open>expand\<close> lays the grid out day by day, drops wall clocks the zone skips, and resolves
  wall clocks that occur twice to the first occurrence.

  Main facts: \<open>resolve_correct\<close> (at a wall clock near which the zone satisfies \<open>zone_ok\<close> the
  classification is exact and the instant is the first one that reads the wall clock) and \<open>expand_exact\<close> (the result lists exactly
  the grid, in ascending order, or reports that it is too large).
\<close>

section \<open>Data\<close>

datatype date = Date (d_year: int) (d_month: int) (d_day: int)

record time_of_day =
  tod_hour :: int
  tod_minute :: int

definition minutes :: "time_of_day \<Rightarrow> int" where
  "minutes t = tod_hour t * 60 + tod_minute t"

record window =
  w_start :: date
  w_end :: date
  w_day_start :: time_of_day
  w_day_end :: time_of_day
  w_slot_minutes :: int
  w_loc :: "location option"

datatype kind = KindNormal | KindNonexistent | KindAmbiguous

record anomaly =
  an_date :: date
  an_local :: time_of_day
  an_kind :: kind
  an_chosen :: instant

record expansion =
  starts :: "instant list"
  skipped :: "anomaly list"
  ambiguous :: "anomaly list"

datatype slots_error =
  ErrNoLocation | ErrBadSlotSize | ErrBadDayBand | ErrBadDateRange | ErrTooManySlots

definition max_slots :: nat where
  "max_slots = 5000"

section \<open>Dates\<close>

definition next_date :: "date \<Rightarrow> date" where
  "next_date d =
     (case date_in utc (add_date utc (time_date (d_year d) (d_month d) (d_day d) 0 0 0 0 utc) 0 0 1)
      of (y, m, k) \<Rightarrow> Date y m k)"

definition date_after :: "date \<Rightarrow> date \<Rightarrow> bool" where
  "date_after d o' =
     (if d_year d \<noteq> d_year o' then d_year o' < d_year d
      else if d_month d \<noteq> d_month o' then d_month o' < d_month d
      else d_day o' < d_day d)"

text \<open>The order the code compares dates with is a linear order.\<close>

instantiation date :: linorder
begin

definition less_date :: "date \<Rightarrow> date \<Rightarrow> bool" where
  "less_date d e \<longleftrightarrow> date_after e d"

definition less_eq_date :: "date \<Rightarrow> date \<Rightarrow> bool" where
  "less_eq_date d e \<longleftrightarrow> \<not> date_after d e"

instance
proof
  fix x y z :: date
  show "(x < y) = (x \<le> y \<and> \<not> y \<le> x)" "x \<le> x" "x \<le> y \<or> y \<le> x"
    by (auto simp: less_date_def less_eq_date_def date_after_def)
  show "x \<le> y \<Longrightarrow> y \<le> z \<Longrightarrow> x \<le> z" "x \<le> y \<Longrightarrow> y \<le> x \<Longrightarrow> x = y"
    by (cases x; cases y; cases z; auto simp: less_eq_date_def date_after_def split: if_splits)+
qed

end

section \<open>Validation\<close>

definition validate :: "window \<Rightarrow> slots_error option" where
  "validate w =
     (if w_loc w = None then Some ErrNoLocation
      else if w_slot_minutes w \<le> 0 then Some ErrBadSlotSize
      else if minutes (w_day_end w) \<le> minutes (w_day_start w) then Some ErrBadDayBand
      else if date_after (w_start w) (w_end w) then Some ErrBadDateRange
      else None)"

section \<open>One wall clock\<close>

definition matches :: "location \<Rightarrow> instant \<Rightarrow> date \<Rightarrow> time_of_day \<Rightarrow> bool" where
  "matches loc t d tod \<longleftrightarrow>
     date_in loc t = (d_year d, d_month d, d_day d)
     \<and> clock_in loc t = (tod_hour tod, tod_minute tod, 0)"

definition probe_deltas :: "duration list" where
  "probe_deltas = [hour, - hour, 30 * minute, - (30 * minute), 2 * hour, - (2 * hour)]"

definition resolve :: "date \<Rightarrow> time_of_day \<Rightarrow> location \<Rightarrow> instant \<times> kind" where
  "resolve d tod loc =
     (let t = time_date (d_year d) (d_month d) (d_day d) (tod_hour tod) (tod_minute tod) 0 0 loc
      in if \<not> matches loc t d tod then (t, KindNonexistent)
         else case find (\<lambda>delta. matches loc (t + delta) d tod) probe_deltas of
                Some delta \<Rightarrow> (if t + delta < t then t + delta else t, KindAmbiguous)
              | None \<Rightarrow> (t, KindNormal))"

section \<open>The grid\<close>

text \<open>The inner loop: minutes of the day from the band's start, as long as the slot fits the band.\<close>

function minutes_from :: "int \<Rightarrow> int \<Rightarrow> int \<Rightarrow> int list" where
  "minutes_from m bound step =
     (if m \<le> bound \<and> 0 < step then m # minutes_from (m + step) bound step else [])"
  by pat_completeness auto
termination
  by (relation "measure (\<lambda>(m, bound, step). nat (bound - m + 1))") auto

declare minutes_from.simps [simp del]

abbreviation day_number :: "date \<Rightarrow> int" where
  "day_number d \<equiv> epoch_days (d_year d) (d_month d) (d_day d)"

abbreviation valid_day :: "date \<Rightarrow> bool" where
  "valid_day d \<equiv> valid_date (d_year d) (d_month d) (d_day d)"

lemma next_date_civil:
  "next_date d = (case civil_of_days (day_number d + 1) of (y, m, k) \<Rightarrow> Date y m k)"
proof -
  let ?t = "time_date (d_year d) (d_month d) (d_day d) 0 0 0 0 utc"
  obtain y m k where ymk: "civil_of_days (day_number d) = (y, m, k)" by (cases "civil_of_days (day_number d)")
  have "date_in utc ?t = (y, m, k)" by (simp add: date_in_utc_midnight ymk)
  moreover have "clock_in utc ?t = (0, 0, 0)" "?t mod second = 0"
    by (simp_all add: clock_in_def local_sec_def unix_sec_def time_date_def unix_of_wall_def
        wall_sec_def second_def)
  ultimately have "add_date utc ?t 0 0 1 = time_date y m (k + 1) 0 0 0 0 utc"
    by (simp add: add_date_def)
  moreover have "epoch_days y m k = day_number d"
    using civil_of_days_valid [of "day_number d"] ymk by simp
  ultimately show ?thesis
    by (simp add: next_date_def date_in_utc_midnight epoch_days_day_linear)
qed

lemma next_date_valid: "valid_day (next_date d)"
  and day_number_next: "day_number (next_date d) = day_number d + 1"
  using civil_of_days_valid [of "day_number d + 1"] by (auto simp: next_date_civil split: prod.splits)

lemma valid_day_number:
  "valid_day d \<Longrightarrow> year_start (d_year d) \<le> day_number d + 719162
     \<and> day_number d + 719162 < year_start (d_year d + 1)"
  using civil_of_epoch_days [of "d_year d" "d_month d" "d_day d"]
    year_of_bounds [of "day_number d + 719162"]
  by (simp add: civil_of_days_def Let_def)

function dates_from :: "date \<Rightarrow> date \<Rightarrow> date list" where
  "dates_from d e = (if date_after d e then [] else d # dates_from (next_date d) e)"
  by pat_completeness auto
termination
proof (relation "measures [\<lambda>(d, e). if valid_day d then 0 else 1,
      \<lambda>(d, e). nat (year_start (d_year e + 1) - (day_number d + 719162))]", goal_cases)
  case (2 d e)
  show ?case
  proof (cases "valid_day d")
    case True
    have "d_year d \<le> d_year e" using 2 by (auto simp: date_after_def split: if_splits)
    then have "year_start (d_year d + 1) \<le> year_start (d_year e + 1)" by (intro year_start_mono) simp
    with valid_day_number [OF True] True show ?thesis
      by (simp add: next_date_valid day_number_next)
  qed (simp add: next_date_valid)
qed simp

declare dates_from.simps [simp del]

definition grid :: "window \<Rightarrow> (date \<times> int) list" where
  "grid w = concat (map (\<lambda>d. map (Pair d)
       (minutes_from (minutes (w_day_start w)) (minutes (w_day_end w) - w_slot_minutes w)
          (w_slot_minutes w)))
     (dates_from (w_start w) (w_end w)))"

section \<open>Expansion\<close>

definition local_of_minute :: "int \<Rightarrow> time_of_day" where
  "local_of_minute m = \<lparr>tod_hour = m sdiv 60, tod_minute = m smod 60\<rparr>"

text \<open>
  The set of what was seen holds instants, where the code has their \<^verbatim>\<open>UnixNano\<close>: two starts share one only
  if they are 584 years apart, and the limit on the number of slots ends the loop long before that.
\<close>

fun expand_loop :: "location \<Rightarrow> (date \<times> int) list \<Rightarrow> expansion \<Rightarrow> instant set
    \<Rightarrow> slots_error + expansion" where
  "expand_loop loc [] ex seen = Inr ex"
| "expand_loop loc ((d, m) # rest) ex seen =
     (let tod = local_of_minute m; (t, k) = resolve d tod loc
      in if k = KindNonexistent
         then expand_loop loc rest
           (ex\<lparr>skipped := skipped ex @ [\<lparr>an_date = d, an_local = tod, an_kind = k, an_chosen = zero_time\<rparr>]\<rparr>)
           seen
         else let ex1 = (if k = KindAmbiguous
               then ex\<lparr>ambiguous := ambiguous ex @ [\<lparr>an_date = d, an_local = tod, an_kind = k, an_chosen = t\<rparr>]\<rparr>
               else ex)
           in if t \<in> seen then expand_loop loc rest ex1 seen
              else let ex2 = ex1\<lparr>starts := starts ex1 @ [t]\<rparr>
                in if max_slots < length (starts ex2) then Inl ErrTooManySlots
                   else expand_loop loc rest ex2 (insert t seen))"

definition no_expansion :: expansion where
  "no_expansion = \<lparr>starts = [], skipped = [], ambiguous = []\<rparr>"

definition expand :: "window \<Rightarrow> slots_error + expansion" where
  "expand w =
     (case validate w of
        Some e \<Rightarrow> Inl e
      | None \<Rightarrow> (case w_loc w of
          None \<Rightarrow> Inl ErrNoLocation
        | Some loc \<Rightarrow> expand_loop loc (grid w) no_expansion {}))"


section \<open>Correctness of one wall clock\<close>

text \<open>
  The wall clock \<open>(d, m)\<close> as seconds; an instant \<open>s\<close> (in Unix seconds) reads it in the zone when
  \<open>s + loc s\<close> is that number.
\<close>

definition wall_of :: "date \<Rightarrow> int \<Rightarrow> int" where
  "wall_of d m = day_number d * 86400 + m * 60"

definition reads :: "location \<Rightarrow> int \<Rightarrow> int \<Rightarrow> bool" where
  "reads loc u s \<longleftrightarrow> s + loc s = u"

lemma local_of_minute_div:
  "0 \<le> m \<Longrightarrow> local_of_minute m = \<lparr>tod_hour = m div 60, tod_minute = m mod 60\<rparr>"
  by (simp add: local_of_minute_def signed_divide_int_def signed_modulo_int_def sgn_if)

lemma minute_of_day:
  assumes "0 \<le> (m::int)" "m < 1440"
  shows "0 \<le> m div 60" "m div 60 < 24" "0 \<le> m mod 60" "m mod 60 < 60"
    and "x + m div 60 * 3600 + m mod 60 * 60 = x + m * 60"
  using assms div_mult_mod_eq [of m 60] by linarith+

lemma matches_reads:
  assumes "valid_day d" "0 \<le> m" "m < 1440"
  shows "matches loc (s * second) d (local_of_minute m) \<longleftrightarrow> reads loc (wall_of d m) s"
proof -
  note b = minute_of_day [OF assms(2,3)]
  have w: "wall_sec (d_year d) (d_month d) (d_day d) (m div 60) (m mod 60) 0 = wall_of d m"
    using b(5) by (simp add: wall_sec_def wall_of_def)
  have l: "local_sec loc (s * second) = s + loc s"
    by (simp add: local_sec_def unix_sec_def second_def)
  show ?thesis
    using wall_sec_local [of loc "s * second" "d_year d" "d_month d" "d_day d" "m div 60" "m mod 60" 0]
      date_clock_of_wall [OF _ assms(1), of loc "s * second" "m div 60" "m mod 60" 0] b w l
    by (auto simp: matches_def local_of_minute_div assms(2) reads_def)
qed

definition probe_secs :: "int list" where
  "probe_secs = [3600, -3600, 1800, -1800, 7200, -7200]"

lemma probe_deltas_secs: "probe_deltas = map (\<lambda>x. x * second) probe_secs"
  by (simp add: probe_deltas_def probe_secs_def duration_units)

text \<open>\<open>resolve\<close> in seconds: the candidate of \<^verbatim>\<open>time.Date\<close>, then the probes.\<close>

definition resolve_secs :: "location \<Rightarrow> int \<Rightarrow> int \<times> kind" where
  "resolve_secs loc u =
     (let r = unix_of_wall loc u
      in if \<not> reads loc u r then (r, KindNonexistent)
         else case find (\<lambda>x. reads loc u (r + x)) probe_secs of
                Some x \<Rightarrow> (min r (r + x), KindAmbiguous)
              | None \<Rightarrow> (r, KindNormal))"

lemma find_map: "find P (map f xs) = map_option f (find (P \<circ> f) xs)"
  by (induction xs) auto

lemma resolve_eq_secs:
  assumes "valid_day d" "0 \<le> m" "m < 1440"
  shows "resolve d (local_of_minute m) loc
    = (case resolve_secs loc (wall_of d m) of (s, k) \<Rightarrow> (s * second, k))"
proof -
  let ?u = "wall_of d m" and ?tod = "local_of_minute m"
  have "second > 0" by (simp add: second_def)
  have t: "time_date (d_year d) (d_month d) (d_day d) (tod_hour ?tod) (tod_minute ?tod) 0 0 loc
      = unix_of_wall loc ?u * second"
    by (simp add: time_date_def local_of_minute_div assms(2) wall_sec_def wall_of_def
        minute_of_day(5) [OF assms(2,3)])
  have p: "(\<lambda>delta. matches loc (unix_of_wall loc ?u * second + delta) d ?tod) \<circ> (\<lambda>x. x * second)
      = (\<lambda>x. reads loc ?u (unix_of_wall loc ?u + x))"
    using matches_reads [OF assms] by (auto simp: fun_eq_iff simp flip: distrib_right)
  have pick: "(if r * second + x * second < r * second then r * second + x * second else r * second)
      = min r (r + x) * second" for r x
    by (simp add: second_def min_def)
  define r where "r = unix_of_wall loc ?u"
  have eq: "resolve d ?tod loc = (if \<not> reads loc ?u r then (r * second, KindNonexistent)
      else case map_option (\<lambda>x. x * second) (find (\<lambda>x. reads loc ?u (r + x)) probe_secs) of
        Some delta \<Rightarrow> (if r * second + delta < r * second then r * second + delta else r * second,
           KindAmbiguous)
      | None \<Rightarrow> (r * second, KindNormal))"
    unfolding resolve_def t Let_def matches_reads [OF assms] probe_deltas_secs find_map p r_def
    by (rule refl)
  show ?thesis
  proof (cases "find (\<lambda>x. reads loc ?u (r + x)) probe_secs")
    case (Some x)
    then show ?thesis
      unfolding eq resolve_secs_def Let_def r_def [symmetric] by (simp only: Some option.map option.case pick) simp
  qed (simp add: eq resolve_secs_def Let_def flip: r_def)
qed

lemma resolve_secs_correct:
  assumes "zone_ok loc {u}"
  shows "case resolve_secs loc u of (s, k) \<Rightarrow>
      (k = KindNonexistent \<longleftrightarrow> (\<forall>s'. \<not> reads loc u s'))
    \<and> (k = KindAmbiguous \<longleftrightarrow> (\<exists>s1 s2. s1 \<noteq> s2 \<and> reads loc u s1 \<and> reads loc u s2))
    \<and> (k \<noteq> KindNonexistent \<longrightarrow> reads loc u s \<and> (\<forall>s'. reads loc u s' \<longrightarrow> s \<le> s'))"
proof -
  obtain T a b where step: "zone_step loc u T a b" and ab: "a \<le> b \<or> a - b \<in> {1800, 3600, 7200}"
    using assms unfolding zone_ok_def by blast
  have bound: "\<bar>loc t\<bar> \<le> 86400" for t using assms by (simp add: zone_ok_def)
  have near: "loc t = (if t < T then a else b)" if "\<bar>t - u\<bar> \<le> 4 * 86400" for t
    using step that by (simp add: zone_step_def)
  define sa where "sa \<longleftrightarrow> \<bar>a\<bar> \<le> 86400 \<and> u - a < T"
  define sb where "sb \<longleftrightarrow> \<bar>b\<bar> \<le> 86400 \<and> T \<le> u - b"
  have reads_iff: "reads loc u s \<longleftrightarrow> (s = u - a \<and> sa) \<or> (s = u - b \<and> sb)" for s
  proof
    assume r: "reads loc u s"
    then have "\<bar>s - u\<bar> \<le> 86400" using bound [of s] by (auto simp: reads_def)
    with r near [of s] bound [of s] show "(s = u - a \<and> sa) \<or> (s = u - b \<and> sb)"
      by (auto simp: reads_def sa_def sb_def split: if_splits)
  next
    assume "(s = u - a \<and> sa) \<or> (s = u - b \<and> sb)"
    with near [of s] show "reads loc u s" by (auto simp: reads_def sa_def sb_def)
  qed
  define r where "r = unix_of_wall loc u"
  have r_eq: "r = u - loc (u - loc u)" by (simp add: r_def unix_of_wall_def)
  have o1: "loc u = (if u < T then a else b)" using near [of u] by simp
  have o2: "loc (u - loc u) = (if u - loc u < T then a else b)"
    using near [of "u - loc u"] bound [of u] by simp
  have r: "reads loc u r \<longleftrightarrow> sa \<or> sb"
    using o1 o2 bound [of u] bound [of "u - loc u"] unfolding reads_iff r_eq sa_def sb_def
    by (auto split: if_splits)
  let ?P = "\<lambda>x. reads loc u (r + x)"
  show ?thesis
  proof (cases "sa \<and> sb")
    case True
    then have "a - b \<in> {1800, 3600, 7200}" using ab by (auto simp: sa_def sb_def)
    then have d: "a - b \<in> set probe_secs" "b - a \<in> set probe_secs" and lt: "u - a < u - b"
      by (auto simp: probe_secs_def)
    have "r = u - a \<or> r = u - b" using True r reads_iff by blast
    then have "find ?P probe_secs \<noteq> None"
      using True d unfolding reads_iff find_None_iff by force
    then obtain x where x: "find ?P probe_secs = Some x" by blast
    then have px: "?P x" "x \<in> set probe_secs" by (auto simp: find_Some_iff)
    then have "x \<noteq> 0" by (auto simp: probe_secs_def)
    then have "min r (r + x) = u - a"
      using px(1) \<open>r = u - a \<or> r = u - b\<close> lt unfolding reads_iff by auto
    moreover have "reads loc u r" using True r by blast
    ultimately have "resolve_secs loc u = (u - a, KindAmbiguous)"
      using x by (simp add: resolve_secs_def Let_def flip: r_def)
    moreover have ne: "u - a \<noteq> u - b" and "reads loc u (u - a)" "reads loc u (u - b)"
      using True lt by (simp_all add: reads_iff)
    then have "\<exists>s1 s2. s1 \<noteq> s2 \<and> reads loc u s1 \<and> reads loc u s2" by blast
    moreover have "reads loc u s' \<Longrightarrow> u - a \<le> s'" for s' using lt by (auto simp: reads_iff)
    ultimately show ?thesis using \<open>reads loc u (u - a)\<close> by (simp, blast)
  next
    case False
    have unique: "s1 = s2" if "reads loc u s1" "reads loc u s2" for s1 s2
      using that False by (auto simp: reads_iff)
    have "\<not> ?P x" if "reads loc u r" "x \<in> set probe_secs" for x
    proof
      assume "?P x"
      from unique [OF that(1) this] have "x = 0" by simp
      then show False using that(2) by (simp add: probe_secs_def)
    qed
    then have "find ?P probe_secs = None" if "reads loc u r"
      using that by (simp add: find_None_iff)
    then have "resolve_secs loc u = (r, if reads loc u r then KindNormal else KindNonexistent)"
      by (simp add: resolve_secs_def Let_def flip: r_def)
    then show ?thesis
    proof (cases "reads loc u r")
      case True
      then have eq: "resolve_secs loc u = (r, KindNormal)"
        using \<open>resolve_secs loc u = _\<close> by simp
      have "r \<le> s'" if "reads loc u s'" for s' using unique [OF True that] by simp
      then show ?thesis using True unique unfolding eq by auto
    next
      case n: False
      then have eq: "resolve_secs loc u = (r, KindNonexistent)"
        using \<open>resolve_secs loc u = _\<close> by simp
      have "\<not> reads loc u s'" for s' using n r unfolding reads_iff by blast
      then show ?thesis unfolding eq by auto
    qed
  qed
qed


lemma first_instant_mono:
  assumes "zone_ok loc {u1}" "u1 < u2" "reads loc u1 s1" "reads loc u2 s2"
    and least: "\<And>s. reads loc u1 s \<Longrightarrow> s1 \<le> s"
  shows "s1 < s2"
proof (rule ccontr)
  assume "\<not> s1 < s2"
  have bound: "\<bar>loc t\<bar> \<le> 86400" for t using assms(1) by (simp add: zone_ok_def)
  have r: "s1 + loc s1 = u1" "s2 + loc s2 = u2" using assms(3,4) by (auto simp: reads_def)
  obtain T a b where "zone_step loc u1 T a b" using assms(1) unfolding zone_ok_def by blast
  then have near: "loc t = (if t < T then a else b)" if "\<bar>t - u1\<bar> \<le> 4 * 86400" for t
    using that by (simp add: zone_step_def)
  have s: "\<bar>s1 - u1\<bar> \<le> 86400" "\<bar>s2 - u2\<bar> \<le> 86400" using r bound [of s1] bound [of s2] by auto
  then have "u2 - u1 \<le> 2 * 86400" using \<open>\<not> s1 < s2\<close> by linarith
  then have l: "loc s1 = (if s1 < T then a else b)" "loc s2 = (if s2 < T then a else b)"
    using s assms(2) near [of s1] near [of s2] by linarith+
  then have "s2 < T" "T \<le> s1" using r assms(2) \<open>\<not> s1 < s2\<close> by (auto split: if_splits)
  then have a: "loc s2 = a" using l by simp
  have "u1 - a < T" using \<open>s2 < T\<close> a r assms(2) by linarith
  moreover have "\<bar>u1 - a - u1\<bar> \<le> 4 * 86400" using a bound [of s2] by simp
  ultimately have "reads loc u1 (u1 - a)" using near [of "u1 - a"] by (simp add: reads_def)
  then have "s1 \<le> u1 - a" by (rule least)
  then show False using a r assms(2) \<open>s2 < T\<close> \<open>T \<le> s1\<close> by linarith
qed

section \<open>The grid in order\<close>

lemma minutes_from_bounds: "m' \<in> set (minutes_from m e step) \<Longrightarrow> m \<le> m' \<and> m' \<le> e"
proof (induction m e step rule: minutes_from.induct)
  case (1 m e step)
  show ?case
  proof (cases "m \<le> e \<and> 0 < step")
    case True
    with 1 have "m' = m \<or> m + step \<le> m' \<and> m' \<le> e"
      by (auto simp: minutes_from.simps [of m e step])
    with True show ?thesis by auto
  next
    case False
    with 1 show ?thesis by (simp add: minutes_from.simps [of m e step])
  qed
qed

lemma minutes_from_sorted: "sorted_wrt (<) (minutes_from m e step)"
proof (induction m e step rule: minutes_from.induct)
  case (1 m e step)
  show ?case
  proof (cases "m \<le> e \<and> 0 < step")
    case True
    with 1 show ?thesis
      by (auto simp: minutes_from.simps [of m e step] dest: minutes_from_bounds)
  next
    case False
    then show ?thesis by (auto simp: minutes_from.simps [of m e step])
  qed
qed

lemma minutes_from_set:
  assumes "0 < step"
  shows "set (minutes_from m e step) = {m' . m' \<le> e \<and> (\<exists>k \<ge> 0. m' = m + k * step)}"
  using assms
proof (induction m e step rule: minutes_from.induct)
  case (1 m e step)
  have split: "(\<exists>k \<ge> 0. m' = m + k * step) \<longleftrightarrow> m' = m \<or> (\<exists>k \<ge> 0. m' = m + step + k * step)" for m'
  proof
    assume "\<exists>k \<ge> 0. m' = m + k * step"
    then obtain k where k: "0 \<le> k" "m' = m + k * step" by blast
    show "m' = m \<or> (\<exists>k \<ge> 0. m' = m + step + k * step)"
    proof (cases "k = 0")
      case False
      with k have "0 \<le> k - 1" "m' = m + step + (k - 1) * step" by (auto simp: algebra_simps)
      then show ?thesis by blast
    qed (use k in simp)
  next
    assume "m' = m \<or> (\<exists>k \<ge> 0. m' = m + step + k * step)"
    then show "\<exists>k \<ge> 0. m' = m + k * step"
    proof
      assume "\<exists>k \<ge> 0. m' = m + step + k * step"
      then obtain k where "0 \<le> k" "m' = m + step + k * step" by blast
      then have "0 \<le> k + 1" "m' = m + (k + 1) * step" by (auto simp: algebra_simps)
      then show ?thesis by blast
    qed (intro exI [of _ 0], simp)
  qed
  show ?case
  proof (cases "m \<le> e")
    case True
    then have "set (minutes_from m e step)
        = insert m {m'. m' \<le> e \<and> (\<exists>k \<ge> 0. m' = m + step + k * step)}"
      using 1 by (subst minutes_from.simps) simp
    then show ?thesis using True unfolding split by auto
  next
    case False
    have "\<not> m' \<le> e" if "0 \<le> k" "m' = m + k * step" for k m'
    proof -
      have "0 \<le> k * step" using that(1) 1(2) by simp
      then show ?thesis using that(2) False by linarith
    qed
    then show ?thesis using False by (auto simp: minutes_from.simps [of m e step])
  qed
qed

lemma month_start_mono:
  assumes "0 \<le> l" "a \<le> b"
  shows "month_start l a \<le> month_start l b"
proof -
  have step: "month_start l m \<le> month_start l (m + 1)" for m
    using assms(1) by (simp add: month_start_def)
  show ?thesis
    using assms(2)
  proof (induction "nat (b - a)" arbitrary: b)
    case (Suc n)
    then have "month_start l a \<le> month_start l (b - 1)" by (intro Suc.hyps(1)) auto
    then show ?case using step [of "b - 1"] by simp
  qed simp
qed

lemma day_number_eq:
  assumes "valid_day d"
  shows "day_number d = year_start (d_year d) + month_start (leap_day (d_year d)) (d_month d)
    + d_day d - 719163"
proof -
  have "(d_month d - 1) div 12 = 0" "(d_month d - 1) mod 12 = d_month d - 1"
    using assms by (auto simp: valid_date_def)
  then show ?thesis by (simp add: epoch_days_def Let_def)
qed

lemma day_number_mono:
  assumes "valid_day d" "valid_day e" "d < e"
  shows "day_number d < day_number e"
proof -
  let ?l = "leap_day (d_year d)"
  have l: "0 \<le> ?l" using leap_day_bounds by simp
  consider (year) "d_year d < d_year e"
    | (month) "d_year d = d_year e" "d_month d < d_month e"
    | (day) "d_year d = d_year e" "d_month d = d_month e" "d_day d < d_day e"
    using assms(3) by (auto simp: less_date_def date_after_def split: if_splits)
  then show ?thesis
  proof cases
    case year
    then have "year_start (d_year d + 1) \<le> year_start (d_year e)" by (intro year_start_mono) simp
    then show ?thesis
      using valid_day_number [OF assms(1)] valid_day_number [OF assms(2)] by linarith
  next
    case month
    then have "month_start ?l (d_month d + 1) \<le> month_start ?l (d_month e)"
      using l by (intro month_start_mono) auto
    then show ?thesis
      using month assms(1,2) day_number_eq [OF assms(1)] day_number_eq [OF assms(2)]
      unfolding valid_date_def by simp
  next
    case day
    then show ?thesis
      using day_number_eq [OF assms(1)] day_number_eq [OF assms(2)] by simp
  qed
qed

lemma day_number_less_iff:
  "valid_day d \<Longrightarrow> valid_day e \<Longrightarrow> day_number d < day_number e \<longleftrightarrow> d < e"
  by (metis day_number_mono less_asym' neqE)

lemma dates_from_numbers:
  assumes "valid_day e"
  shows "valid_day d \<Longrightarrow> map day_number (dates_from d e) = [day_number d .. day_number e]
     \<and> list_all valid_day (dates_from d e)"
  using assms
proof (induction d e rule: dates_from.induct)
  case (1 d e)
  show ?case
  proof (cases "date_after d e")
    case True
    then have "day_number e < day_number d" using 1 by (simp add: day_number_less_iff less_date_def)
    then show ?thesis using True by (simp add: dates_from.simps [of d e])
  next
    case False
    then have "day_number d \<le> day_number e"
      using 1 by (metis day_number_less_iff less_date_def not_less)
    then have "[day_number d .. day_number e] = day_number d # [day_number d + 1 .. day_number e]"
      by (rule upto_rec1)
    then show ?thesis
      using 1 False by (simp add: dates_from.simps [of d e] next_date_valid day_number_next)
  qed
qed

lemma sorted_grid_aux:
  assumes "sorted_wrt (\<lambda>d e. day_number d < day_number e) ds" "sorted_wrt (<) ms"
    and "\<And>m. m \<in> set ms \<Longrightarrow> 0 \<le> m \<and> m < 1440"
  shows "sorted_wrt (\<lambda>(d, m) (d', m'). wall_of d m < wall_of d' m')
    (concat (map (\<lambda>d. map (Pair d) ms) ds))"
  using assms(1)
proof (induction ds)
  case (Cons d ds)
  have "sorted_wrt (\<lambda>(d, m) (d', m'). wall_of d m < wall_of d' m') (map (Pair d) ms)"
    using assms(2) by (auto simp: sorted_wrt_map wall_of_def elim: sorted_wrt_mono_rel [rotated])
  moreover have "wall_of d m < wall_of d' m'"
    if "m \<in> set ms" "m' \<in> set ms" "d' \<in> set ds" for m m' d'
  proof -
    have "day_number d + 1 \<le> day_number d'" using Cons.prems that(3) by auto
    then show ?thesis using assms(3) [OF that(1)] assms(3) [OF that(2)] by (simp add: wall_of_def)
  qed
  ultimately show ?case using Cons by (auto simp: sorted_wrt_append)
qed simp


section \<open>Correctness of the expansion\<close>

text \<open>
  What the loop records for one point of the grid, and the windows the handlers build: real dates and a
  band inside one day.
\<close>

definition slot_instant :: "location \<Rightarrow> date \<times> int \<Rightarrow> instant" where
  "slot_instant loc g = fst (resolve (fst g) (local_of_minute (snd g)) loc)"

definition slot_kind :: "location \<Rightarrow> date \<times> int \<Rightarrow> kind" where
  "slot_kind loc g = snd (resolve (fst g) (local_of_minute (snd g)) loc)"

definition anomaly_at :: "location \<Rightarrow> date \<times> int \<Rightarrow> anomaly" where
  "anomaly_at loc g = \<lparr>an_date = fst g, an_local = local_of_minute (snd g), an_kind = slot_kind loc g,
     an_chosen = (if slot_kind loc g = KindNonexistent then zero_time else slot_instant loc g)\<rparr>"

definition occurs :: "location \<Rightarrow> date \<times> int \<Rightarrow> bool" where
  "occurs loc g \<longleftrightarrow> slot_kind loc g \<noteq> KindNonexistent"

definition grid_starts :: "location \<Rightarrow> window \<Rightarrow> instant list" where
  "grid_starts loc w = map (slot_instant loc) (filter (occurs loc) (grid w))"

definition well_formed :: "window \<Rightarrow> bool" where
  "well_formed w \<longleftrightarrow> valid_day (w_start w) \<and> valid_day (w_end w)
     \<and> 0 \<le> minutes (w_day_start w) \<and> minutes (w_day_end w) \<le> 1440"

lemma expand_loop_eq:
  assumes "distinct (map (slot_instant loc) (filter (occurs loc) gs))"
    and "slot_instant loc ` set (filter (occurs loc) gs) \<inter> seen = {}"
    and "length (starts ex) \<le> max_slots"
  shows "expand_loop loc gs ex seen =
    (let ss = starts ex @ map (slot_instant loc) (filter (occurs loc) gs)
     in if max_slots < length ss then Inl ErrTooManySlots
        else Inr \<lparr>starts = ss,
          skipped = skipped ex @ map (anomaly_at loc) (filter (\<lambda>g. \<not> occurs loc g) gs),
          ambiguous = ambiguous ex @ map (anomaly_at loc) (filter (\<lambda>g. slot_kind loc g = KindAmbiguous) gs)\<rparr>)"
  using assms
proof (induction gs arbitrary: ex seen)
  case Nil
  then show ?case by simp
next
  case (Cons g gs)
  obtain d m where g: "g = (d, m)" by (cases g)
  obtain t k where tk: "resolve d (local_of_minute m) loc = (t, k)" by (cases "resolve d (local_of_minute m) loc")
  have inst: "slot_instant loc g = t" "slot_kind loc g = k"
    by (simp_all add: slot_instant_def slot_kind_def g tk)
  show ?case
  proof (cases "k = KindNonexistent")
    case True
    then have "\<not> occurs loc g" by (simp add: occurs_def inst)
    then show ?thesis
      using Cons True inst g tk by (simp add: anomaly_at_def Let_def)
  next
    case False
    then have o': "occurs loc g" by (simp add: occurs_def inst)
    then have fresh: "t \<notin> seen" "t \<notin> slot_instant loc ` set (filter (occurs loc) gs)"
      using Cons.prems(1,2) inst by auto
    have a: "anomaly_at loc (d, m) = \<lparr>an_date = d, an_local = local_of_minute m, an_kind = k, an_chosen = t\<rparr>"
      using False inst g by (simp add: anomaly_at_def)
    have step: "expand_loop loc (g # gs) ex seen =
      (let ex2 = (if k = KindAmbiguous then ex\<lparr>ambiguous := ambiguous ex @ [anomaly_at loc g]\<rparr> else ex)
           \<lparr>starts := starts ex @ [t]\<rparr>
       in if max_slots < length (starts ex2) then Inl ErrTooManySlots
          else expand_loop loc gs ex2 (insert t seen))"
      using False fresh(1) by (simp add: g tk Let_def a)
    show ?thesis
    proof (cases "length (starts ex) = max_slots")
      case True
      then show ?thesis unfolding step using o' inst by (simp add: Let_def)
    next
      case False
      have "distinct (map (slot_instant loc) (filter (occurs loc) gs))"
        "slot_instant loc ` set (filter (occurs loc) gs) \<inter> insert t seen = {}"
        using Cons.prems(1,2) fresh o' by auto
      note ih = Cons.IH [OF this]
      have "Suc (length (starts ex)) \<le> max_slots" using False Cons.prems(3) by simp
      then show ?thesis
        unfolding step using o' inst by (auto simp: Let_def ih)
    qed
  qed
qed

lemma slot_instant_first:
  assumes "zone_ok loc {wall_of d m}" "valid_day d" "0 \<le> m" "m < 1440" "occurs loc (d, m)"
  shows "\<exists>s. slot_instant loc (d, m) = s * second \<and> reads loc (wall_of d m) s
    \<and> (\<forall>s'. reads loc (wall_of d m) s' \<longrightarrow> s \<le> s')"
  using resolve_secs_correct [OF assms(1)] assms(5)
  by (auto simp: slot_instant_def slot_kind_def occurs_def resolve_eq_secs [OF assms(2-4)]
      split: prod.splits)

lemma slot_first_iff:
  assumes "zone_ok loc {wall_of d m}" "valid_day d" "0 \<le> m" "m < 1440"
  shows "occurs loc (d, m) \<and> t = slot_instant loc (d, m)
    \<longleftrightarrow> (\<exists>s. t = s * second \<and> s + loc s = wall_of d m \<and> (\<forall>s'. s' + loc s' = wall_of d m \<longrightarrow> s \<le> s'))"
    (is "_ \<longleftrightarrow> ?F t")
proof
  assume "occurs loc (d, m) \<and> t = slot_instant loc (d, m)"
  then show "?F t" using slot_instant_first [OF assms] unfolding reads_def by auto
next
  assume f: "?F t"
  then have "\<exists>s. reads loc (wall_of d m) s" by (auto simp: reads_def)
  then have o': "occurs loc (d, m)"
    using resolve_secs_correct [OF assms(1)]
    by (auto simp: occurs_def slot_kind_def resolve_eq_secs [OF assms(2-4)] split: prod.splits)
  from slot_instant_first [OF assms this] f have "t = slot_instant loc (d, m)"
    unfolding reads_def by (metis order_antisym)
  with o' show "occurs loc (d, m) \<and> t = slot_instant loc (d, m)" by simp
qed

lemma grid_point:
  assumes "well_formed w" "validate w = None" "(d, m) \<in> set (grid w)"
  shows "valid_day d \<and> minutes (w_day_start w) \<le> m \<and> m + w_slot_minutes w \<le> minutes (w_day_end w)
    \<and> 0 \<le> m \<and> m < 1440"
proof -
  have v: "valid_day (w_start w)" "valid_day (w_end w)" "0 < w_slot_minutes w"
    using assms(1,2) by (auto simp: well_formed_def validate_def split: if_splits)
  have "d \<in> set (dates_from (w_start w) (w_end w))"
    and m: "m \<in> set (minutes_from (minutes (w_day_start w)) (minutes (w_day_end w) - w_slot_minutes w)
          (w_slot_minutes w))"
    using assms(3) by (auto simp: grid_def)
  then have "valid_day d" using dates_from_numbers [OF v(2,1)] by (simp add: list_all_iff)
  then show ?thesis
    using minutes_from_bounds [OF m] assms(1) v(3) by (simp add: well_formed_def)
qed

text \<open>The wall clocks of a window's dates, from the first midnight to the last.\<close>

definition window_walls :: "window \<Rightarrow> int set" where
  "window_walls w = {wall_of (w_start w) 0 .. wall_of (w_end w) 1440}"

lemma grid_zone:
  assumes "well_formed w" "validate w = None" "(d, m) \<in> set (grid w)" "zone_ok loc (window_walls w)"
  shows "zone_ok loc {wall_of d m}"
proof -
  have v: "valid_day (w_start w)" "valid_day (w_end w)"
    using assms(1,2) by (auto simp: well_formed_def validate_def split: if_splits)
  have "d \<in> set (dates_from (w_start w) (w_end w))" using assms(3) by (auto simp: grid_def)
  then have "day_number d \<in> set (map day_number (dates_from (w_start w) (w_end w)))" by simp
  then have "day_number (w_start w) \<le> day_number d" "day_number d \<le> day_number (w_end w)"
    using dates_from_numbers [OF v(2,1)] by simp_all
  then have "wall_of d m \<in> window_walls w"
    using grid_point [OF assms(1-3)] by (simp add: window_walls_def wall_of_def)
  then show ?thesis using assms(4) zone_ok_subset by blast
qed

lemma grid_sorted:
  assumes "well_formed w" "validate w = None"
  shows "sorted_wrt (\<lambda>(d, m) (d', m'). wall_of d m < wall_of d' m') (grid w)"
proof -
  have v: "valid_day (w_start w)" "valid_day (w_end w)" "0 < w_slot_minutes w"
    using assms by (auto simp: well_formed_def validate_def split: if_splits)
  have "sorted_wrt (<) (map day_number (dates_from (w_start w) (w_end w)))"
    using dates_from_numbers [OF v(2,1)] by (simp add: sorted_wrt_upto)
  moreover have "0 \<le> m \<and> m < 1440" if "m \<in> set (minutes_from (minutes (w_day_start w))
      (minutes (w_day_end w) - w_slot_minutes w) (w_slot_minutes w))" for m
    using minutes_from_bounds [OF that] assms(1) v(3) by (simp add: well_formed_def)
  ultimately show ?thesis
    unfolding grid_def by (intro sorted_grid_aux minutes_from_sorted) (auto simp: sorted_wrt_map)
qed

lemma grid_starts_sorted:
  assumes "well_formed w" "validate w = None" "zone_ok loc (window_walls w)"
  shows "sorted_wrt (<) (grid_starts loc w)"
proof -
  have "sorted_wrt (\<lambda>(d, m) (d', m'). wall_of d m < wall_of d' m') (filter (occurs loc) (grid w))"
    using grid_sorted [OF assms(1,2)] by (rule sorted_wrt_filter)
  moreover have "slot_instant loc g < slot_instant loc g'"
    if g: "g \<in> set (filter (occurs loc) (grid w))" "g' \<in> set (filter (occurs loc) (grid w))"
      and lt: "(\<lambda>(d, m) (d', m'). wall_of d m < wall_of d' m') g g'" for g g'
  proof -
    obtain d m d' m' where eq: "g = (d, m)" "g' = (d', m')" by (cases g; cases g')
    note p = grid_point [OF assms(1,2), of d m] and p' = grid_point [OF assms(1,2), of d' m']
    have o': "occurs loc (d, m)" "occurs loc (d', m')" "(d, m) \<in> set (grid w)" "(d', m') \<in> set (grid w)"
      using g eq by auto
    note z = grid_zone [OF assms(1,2) _ assms(3)]
    obtain s where "slot_instant loc g = s * second" "reads loc (wall_of d m) s"
      and "\<And>x. reads loc (wall_of d m) x \<Longrightarrow> s \<le> x"
      using slot_instant_first [OF z, of d m] p o' eq by blast
    moreover obtain s' where "slot_instant loc g' = s' * second" "reads loc (wall_of d' m') s'"
      using slot_instant_first [OF z, of d' m'] p' o' eq by blast
    ultimately show ?thesis
      using first_instant_mono [OF z, of d m "wall_of d' m'" s s'] lt eq o'(3)
      by (simp add: second_def)
  qed
  ultimately have "sorted_wrt (\<lambda>g g'. slot_instant loc g < slot_instant loc g') (filter (occurs loc) (grid w))"
    by (rule sorted_wrt_mono_rel [rotated])
  then show ?thesis by (simp add: grid_starts_def sorted_wrt_map)
qed

lemma grid_starts_distinct:
  assumes "well_formed w" "validate w = None" "zone_ok loc (window_walls w)"
  shows "distinct (grid_starts loc w)"
  using grid_starts_sorted [OF assms] by (simp add: strict_sorted_iff)

lemma validate_loc: "validate w = None \<Longrightarrow> \<exists>loc. w_loc w = Some loc"
  by (auto simp: validate_def split: if_splits)

lemma expand_eq_grid:
  assumes "well_formed w" "validate w = None" "zone_ok loc (window_walls w)" "w_loc w = Some loc"
  shows "expand w =
    (if max_slots < length (grid_starts loc w) then Inl ErrTooManySlots
     else Inr \<lparr>starts = grid_starts loc w,
       skipped = map (anomaly_at loc) (filter (\<lambda>g. \<not> occurs loc g) (grid w)),
       ambiguous = map (anomaly_at loc) (filter (\<lambda>g. slot_kind loc g = KindAmbiguous) (grid w))\<rparr>)"
  using expand_loop_eq [of loc "grid w" "{}" no_expansion] grid_starts_distinct [OF assms(1-3)] assms(2,4)
  by (simp add: expand_def grid_starts_def no_expansion_def Let_def)

lemma dates_from_set:
  assumes "valid_day a" "valid_day b"
  shows "set (dates_from a b) = {d. valid_day d \<and> a \<le> d \<and> d \<le> b}"
proof (rule set_eqI)
  fix d
  note n = dates_from_numbers [OF assms(2,1)]
  have le: "x \<le> y \<longleftrightarrow> day_number x \<le> day_number y" if "valid_day x" "valid_day y" for x y
    using day_number_less_iff [OF that(2,1)] by (simp add: linorder_not_less [symmetric])
  show "d \<in> set (dates_from a b) \<longleftrightarrow> d \<in> {d. valid_day d \<and> a \<le> d \<and> d \<le> b}"
  proof
    assume d: "d \<in> set (dates_from a b)"
    then have v: "valid_day d" using n by (simp add: list_all_iff)
    have "day_number d \<in> set (map day_number (dates_from a b))" using d by force
    then have "day_number d \<in> {day_number a .. day_number b}" using n by simp
    then show "d \<in> {d. valid_day d \<and> a \<le> d \<and> d \<le> b}" using v le assms by simp
  next
    assume "d \<in> {d. valid_day d \<and> a \<le> d \<and> d \<le> b}"
    then have v: "valid_day d" "day_number d \<in> {day_number a .. day_number b}" using le assms by auto
    then have "day_number d \<in> set (map day_number (dates_from a b))" using n by simp
    then obtain e where e: "e \<in> set (dates_from a b)" "day_number e = day_number d" by auto
    moreover from e have "valid_day e" using n by (simp add: list_all_iff)
    ultimately have "e = d" using day_number_mono v(1) by (metis less_irrefl neqE)
    then show "d \<in> set (dates_from a b)" using e by simp
  qed
qed

lemma grid_set:
  assumes "well_formed w" "validate w = None"
  shows "(d, m) \<in> set (grid w) \<longleftrightarrow> valid_day d \<and> w_start w \<le> d \<and> d \<le> w_end w
    \<and> (\<exists>k \<ge> 0. m = minutes (w_day_start w) + k * w_slot_minutes w)
    \<and> m + w_slot_minutes w \<le> minutes (w_day_end w)"
proof -
  have v: "valid_day (w_start w)" "valid_day (w_end w)" "0 < w_slot_minutes w"
    using assms by (auto simp: well_formed_def validate_def split: if_splits)
  show ?thesis
    by (auto simp: grid_def dates_from_set [OF v(1,2)] minutes_from_set [OF v(3)] image_iff)
qed

lemma expand_loop_bounds:
  "expand_loop loc gs ex seen = Inr ex' \<Longrightarrow> set (starts ex) \<subseteq> seen \<Longrightarrow> distinct (starts ex)
    \<Longrightarrow> length (starts ex) \<le> max_slots \<Longrightarrow> distinct (starts ex') \<and> length (starts ex') \<le> max_slots"
proof (induction loc gs ex seen rule: expand_loop.induct)
  case (2 loc d m rest ex seen)
  obtain t k where "resolve d (local_of_minute m) loc = (t, k)" by (cases "resolve d (local_of_minute m) loc")
  with 2 show ?case by (fastforce simp: Let_def split: if_splits)
qed auto

lemma expand_loop_error: "expand_loop loc gs ex seen = Inl e \<Longrightarrow> e = ErrTooManySlots"
proof (induction loc gs ex seen rule: expand_loop.induct)
  case (2 loc d m rest ex seen)
  obtain t k where "resolve d (local_of_minute m) loc = (t, k)" by (cases "resolve d (local_of_minute m) loc")
  with 2 show ?case by (auto simp: Let_def split: if_splits)
qed simp

lemma slot_kind_iff:
  assumes "zone_ok loc {wall_of d m}" "valid_day d" "0 \<le> m" "m < 1440"
  shows "occurs loc (d, m) \<longleftrightarrow> (\<exists>s. matches loc (s * second) d (local_of_minute m))"
    and "slot_kind loc (d, m) = KindAmbiguous \<longleftrightarrow> (\<exists>s1 s2. s1 < s2
       \<and> matches loc (s1 * second) d (local_of_minute m) \<and> matches loc (s2 * second) d (local_of_minute m))"
proof -
  have "slot_kind loc (d, m) = snd (resolve_secs loc (wall_of d m))"
    by (simp add: slot_kind_def resolve_eq_secs [OF assms(2-4)] split: prod.splits)
  moreover have "(\<exists>s1 s2. s1 \<noteq> s2 \<and> P s1 \<and> P s2) \<longleftrightarrow> (\<exists>s1 s2. s1 < s2 \<and> P s1 \<and> P s2)" for P :: "int \<Rightarrow> bool"
    by (metis neqE order_less_irrefl)
  ultimately show "occurs loc (d, m) \<longleftrightarrow> (\<exists>s. matches loc (s * second) d (local_of_minute m))"
    "slot_kind loc (d, m) = KindAmbiguous \<longleftrightarrow> (\<exists>s1 s2. s1 < s2
       \<and> matches loc (s1 * second) d (local_of_minute m) \<and> matches loc (s2 * second) d (local_of_minute m))"
    using resolve_secs_correct [OF assms(1)] unfolding matches_reads [OF assms(2-4)]
    by (auto simp: occurs_def split: prod.splits)
qed

lemma grid_starts_set:
  assumes "well_formed w" "validate w = None" "zone_ok loc (window_walls w)"
  shows "set (grid_starts loc w) = {t. \<exists>d m s. (d, m) \<in> set (grid w) \<and> t = s * second
      \<and> s + loc s = wall_of d m \<and> (\<forall>s'. s' + loc s' = wall_of d m \<longrightarrow> s \<le> s')}"
proof -
  have "set (grid_starts loc w) = {t. \<exists>d m. (d, m) \<in> set (grid w) \<and> occurs loc (d, m)
      \<and> t = slot_instant loc (d, m)}"
    by (auto simp: grid_starts_def)
  moreover have "occurs loc (d, m) \<and> t = slot_instant loc (d, m)
      \<longleftrightarrow> (\<exists>s. t = s * second \<and> s + loc s = wall_of d m \<and> (\<forall>s'. s' + loc s' = wall_of d m \<longrightarrow> s \<le> s'))"
    if g: "(d, m) \<in> set (grid w)" for d m t
    using grid_point [OF assms(1,2) g] by (intro slot_first_iff [OF grid_zone [OF assms(1,2) g assms(3)]]) auto
  ultimately show ?thesis by blast
qed

section \<open>Properties\<close>

text \<open>Evaluation on concrete windows.\<close>

lemmas slots_eval = resolve_eq_secs resolve_secs_def Let_def unix_of_wall_def reads_def wall_of_def
  probe_secs_def epoch_days_def year_start_def month_start_def leap_day_def leap_def valid_date_def

definition spring_window :: window where
  "spring_window = \<lparr>w_start = Date 2026 3 8, w_end = Date 2026 3 8,
     w_day_start = \<lparr>tod_hour = 1, tod_minute = 0\<rparr>, w_day_end = \<lparr>tod_hour = 4, tod_minute = 0\<rparr>,
     w_slot_minutes = 60, w_loc = Some new_york_spring\<rparr>"

definition spring_expansion :: expansion where
  "spring_expansion = \<lparr>starts = [1772949600 * second, 1772953200 * second],
     skipped = [\<lparr>an_date = Date 2026 3 8, an_local = \<lparr>tod_hour = 2, tod_minute = 0\<rparr>,
       an_kind = KindNonexistent, an_chosen = zero_time\<rparr>], ambiguous = []\<rparr>"

lemma spring_grid: "grid spring_window = [(Date 2026 3 8, 60), (Date 2026 3 8, 120), (Date 2026 3 8, 180)]"
proof -
  have "next_date (Date 2026 3 8) = Date 2026 3 9" by code_simp
  then have "dates_from (Date 2026 3 8) (Date 2026 3 8) = [Date 2026 3 8]"
    by (simp add: dates_from.simps date_after_def)
  moreover have "minutes_from 60 180 60 = [60, 120, 180]" by (simp add: minutes_from.simps)
  ultimately show ?thesis by (simp add: grid_def spring_window_def minutes_def)
qed

lemma spring_valid: "validate spring_window = None" "well_formed spring_window"
  by (simp_all add: validate_def well_formed_def spring_window_def minutes_def date_after_def slots_eval)

lemma spring_expand: "expand spring_window = Inr spring_expansion"
proof -
  have "resolve (Date 2026 3 8) (local_of_minute 60) new_york_spring = (1772949600 * second, KindNormal)"
    "resolve (Date 2026 3 8) (local_of_minute 120) new_york_spring = (1772949600 * second, KindNonexistent)"
    "resolve (Date 2026 3 8) (local_of_minute 180) new_york_spring = (1772953200 * second, KindNormal)"
    by (simp_all add: slots_eval new_york_spring_def)
  moreover have "w_loc spring_window = Some new_york_spring" by (simp add: spring_window_def)
  ultimately show ?thesis
    using spring_valid(1)
    by (simp add: expand_def spring_grid spring_expansion_def no_expansion_def local_of_minute_div max_slots_def
        second_def)
qed

text \<open>
  C15: \<open>resolve\<close> is exact at every wall clock near which the zone behaves: has at most one transition within
  four days, which if it turns the clock back does so by half an hour, one hour or two. Such a clock is
  reported as nonexistent exactly when no instant reads it, as ambiguous exactly when two distinct
  instants read it, and otherwise the instant returned reads it and is the first one that does.
\<close>

theorem resolve_correct:
  assumes "zone_ok loc {wall_of d m}" "valid_day d" "0 \<le> m" "m < 1440" "resolve d (local_of_minute m) loc = (t, k)"
  shows "(k = KindNonexistent \<longleftrightarrow> (\<forall>s. \<not> matches loc (s * second) d (local_of_minute m)))
    \<and> (k = KindAmbiguous \<longleftrightarrow> (\<exists>s1 s2. s1 \<noteq> s2 \<and> matches loc (s1 * second) d (local_of_minute m)
          \<and> matches loc (s2 * second) d (local_of_minute m)))
    \<and> (k \<noteq> KindNonexistent \<longrightarrow> matches loc t d (local_of_minute m)
          \<and> (\<forall>s. matches loc (s * second) d (local_of_minute m) \<longrightarrow> t \<le> s * second))"
proof -
  obtain s where s: "resolve_secs loc (wall_of d m) = (s, k)" "t = s * second"
    using assms(5) by (auto simp: resolve_eq_secs [OF assms(2-4)] split: prod.splits)
  have le: "s * second \<le> s' * second \<longleftrightarrow> s \<le> s'" for s' by (simp add: second_def)
  show ?thesis
    using resolve_secs_correct [OF assms(1)]
    unfolding s matches_reads [OF assms(2-4)] le by simp
qed

lemma resolve_correct_witness:
  "matches new_york_autumn (1793509200 * second) (Date 2026 11 1) (local_of_minute 60)
   \<and> resolve (Date 2026 11 1) (local_of_minute 60) new_york_autumn = (1793509200 * second, KindAmbiguous)"
proof -
  have r: "resolve (Date 2026 11 1) (local_of_minute 60) new_york_autumn = (1793509200 * second, KindAmbiguous)"
    by (simp add: slots_eval new_york_autumn_def)
  have "valid_day (Date 2026 11 1)" by (simp add: slots_eval)
  with resolve_correct [OF zone_ok_autumn _ _ _ r] r show ?thesis by simp
qed

text \<open>
  C14: What a window expands to, stated without the program's own definitions of the grid: the starts are
  strictly ascending (so also deduplicated), and they are exactly the first instants of the wall clocks
  of every date from the first to the last, stepping from the band's start by the slot length, whose
  slot fits the band and which occur in the zone. Near the window's own dates the zone is to have no
  two transitions within four days of a wall clock, and to go back by half an hour, one hour or two only.
\<close>

theorem expand_sound_complete:
  assumes "well_formed w" "w_loc w = Some loc" "zone_ok loc (window_walls w)" "expand w = Inr ex"
  shows "sorted_wrt (<) (starts ex)
    \<and> set (starts ex) = {s * second | s d k. valid_day d \<and> w_start w \<le> d \<and> d \<le> w_end w \<and> 0 \<le> k
      \<and> minutes (w_day_start w) + k * w_slot_minutes w + w_slot_minutes w \<le> minutes (w_day_end w)
      \<and> s + loc s = wall_of d (minutes (w_day_start w) + k * w_slot_minutes w)
      \<and> (\<forall>s'. s' + loc s' = wall_of d (minutes (w_day_start w) + k * w_slot_minutes w) \<longrightarrow> s \<le> s')}"
proof -
  have v: "validate w = None" using assms(4) by (auto simp: expand_def split: option.splits)
  have st: "starts ex = grid_starts loc w"
    using assms(4) expand_eq_grid [OF assms(1) v assms(3,2)] by (auto split: if_splits)
  have "sorted_wrt (<) (starts ex)" using grid_starts_sorted [OF assms(1) v assms(3)] st by simp
  then show ?thesis
    unfolding st grid_starts_set [OF assms(1) v assms(3)] grid_set [OF assms(1) v] by blast
qed

lemma expand_sound_complete_witness:
  "sorted_wrt (<) (starts spring_expansion) \<and> expand spring_window = Inr spring_expansion"
  using expand_sound_complete [OF spring_valid(2) _ zone_ok_spring spring_expand] spring_expand
  by (simp add: spring_window_def)

text \<open>The contract of the whole result, over instants instead of \<open>resolve\<close>'s report.\<close>

definition expansion_spec :: "location \<Rightarrow> window \<Rightarrow> slots_error + expansion" where
  "expansion_spec loc w =
    (let occ = (\<lambda>(d, m). \<exists>s. matches loc (s * second) d (local_of_minute m));
         twice = (\<lambda>(d, m). \<exists>s1 s2. s1 < s2 \<and> matches loc (s1 * second) d (local_of_minute m)
           \<and> matches loc (s2 * second) d (local_of_minute m));
         inst = (\<lambda>(d, m). fst (resolve d (local_of_minute m) loc));
         gs = filter occ (grid w)
     in if max_slots < length gs then Inl ErrTooManySlots
        else Inr \<lparr>starts = map inst gs,
          skipped = map (\<lambda>(d, m). \<lparr>an_date = d, an_local = local_of_minute m, an_kind = KindNonexistent,
            an_chosen = zero_time\<rparr>) (filter (\<lambda>g. \<not> occ g) (grid w)),
          ambiguous = map (\<lambda>(d, m). \<lparr>an_date = d, an_local = local_of_minute m, an_kind = KindAmbiguous,
            an_chosen = inst (d, m)\<rparr>) (filter twice (grid w))\<rparr>)"

text \<open>
  The rest of the result, on a window that passes validation: the whole expansion is refused exactly
  when more than \<open>max_slots\<close> wall clocks of the grid occur; otherwise the skipped list is the grid's
  wall clocks that never occur and the ambiguous list those that occur twice, both in grid order, an
  ambiguous one recorded with the instant chosen for it.
\<close>

theorem expand_exact:
  assumes "well_formed w" "validate w = None" "zone_ok loc (window_walls w)" "w_loc w = Some loc"
  shows "expand w = expansion_spec loc w"
proof -
  let ?occ = "\<lambda>(d, m). \<exists>s. matches loc (s * second) d (local_of_minute m)"
  let ?twice = "\<lambda>(d, m). \<exists>s1 s2. s1 < s2 \<and> matches loc (s1 * second) d (local_of_minute m)
           \<and> matches loc (s2 * second) d (local_of_minute m)"
  have occ: "occurs loc g \<longleftrightarrow> ?occ g" and twice: "slot_kind loc g = KindAmbiguous \<longleftrightarrow> ?twice g"
    if "g \<in> set (grid w)" for g
    using slot_kind_iff [OF grid_zone [OF assms(1,2) _ assms(3)]] grid_point [OF assms(1,2)] that by (cases g; fastforce)+
  have eqs: "filter (occurs loc) (grid w) = filter ?occ (grid w)"
    "filter (\<lambda>g. \<not> occurs loc g) (grid w) = filter (\<lambda>g. \<not> ?occ g) (grid w)"
    "filter (\<lambda>g. slot_kind loc g = KindAmbiguous) (grid w) = filter ?twice (grid w)"
    by (intro filter_cong [OF refl], simp only: occ twice)+
  have "expansion_spec loc w = (if max_slots < length (grid_starts loc w) then Inl ErrTooManySlots
     else Inr \<lparr>starts = grid_starts loc w,
       skipped = map (anomaly_at loc) (filter (\<lambda>g. \<not> occurs loc g) (grid w)),
       ambiguous = map (anomaly_at loc) (filter (\<lambda>g. slot_kind loc g = KindAmbiguous) (grid w))\<rparr>)"
    unfolding expansion_spec_def Let_def eqs [symmetric]
    by (auto simp: grid_starts_def anomaly_at_def occurs_def slot_instant_def split: if_splits)
  then show ?thesis unfolding expand_eq_grid [OF assms] by simp
qed

lemma expand_exact_witness: "expansion_spec new_york_spring spring_window = Inr spring_expansion"
proof -
  have "w_loc spring_window = Some new_york_spring" by (simp add: spring_window_def)
  from expand_exact [OF spring_valid(2,1) zone_ok_spring this] spring_expand show ?thesis by simp
qed

text \<open>
  For every zone, with no assumption on its transitions: an expansion that is returned has passed
  validation, holds at most \<open>max_slots\<close> starts and no instant twice; an error is either the one
  validation reports or, on a valid window, the size limit.
\<close>

theorem expand_bounds:
  "case expand w of
     Inr ex \<Rightarrow> validate w = None \<and> length (starts ex) \<le> max_slots \<and> distinct (starts ex)
   | Inl e \<Rightarrow> (case validate w of Some e' \<Rightarrow> e = e' | None \<Rightarrow> e = ErrTooManySlots)"
proof (cases "validate w")
  case None
  then obtain loc where "w_loc w = Some loc" using validate_loc by blast
  then show ?thesis
    using None expand_loop_bounds [of loc "grid w" no_expansion "{}"]
      expand_loop_error [of loc "grid w" no_expansion "{}"]
    by (auto simp: expand_def no_expansion_def split: sum.splits)
qed (simp add: expand_def)

text \<open>
  A window whose band is shorter than one slot passes validation and expands to no slot at all,
  without an error.
\<close>

theorem expand_slot_longer_than_band:
  assumes "validate w = None" "minutes (w_day_end w) - minutes (w_day_start w) < w_slot_minutes w"
  shows "expand w = Inr no_expansion"
proof -
  obtain loc where "w_loc w = Some loc" using validate_loc [OF assms(1)] by blast
  moreover have "minutes_from (minutes (w_day_start w)) (minutes (w_day_end w) - w_slot_minutes w)
      (w_slot_minutes w) = []"
    using assms(2) by (subst minutes_from.simps) simp
  then have "grid w = []" by (simp add: grid_def)
  ultimately show ?thesis using assms(1) by (simp add: expand_def)
qed

lemma expand_slot_longer_than_band_witness:
  "expand (spring_window\<lparr>w_slot_minutes := 240\<rparr>) = Inr no_expansion"
  by (rule expand_slot_longer_than_band)
    (simp_all add: spring_window_def validate_def minutes_def date_after_def)

text \<open>
  The probes do not see every repeated wall clock. Where a zone turns its clock back by three hours
  (as \<^verbatim>\<open>Antarctica/Casey\<close> has done), a wall clock read at two instants is reported as normal, and
  the instant chosen is the second one.
\<close>

definition three_hours_back :: location where
  "three_hours_back t = (if t < 1583596800 then 39600 else 28800)"

theorem resolve_misses_three_hours:
  "resolve (Date 2020 3 8) (local_of_minute 60) three_hours_back = (1583600400 * second, KindNormal)
   \<and> matches three_hours_back (1583600400 * second) (Date 2020 3 8) (local_of_minute 60)
   \<and> matches three_hours_back (1583589600 * second) (Date 2020 3 8) (local_of_minute 60)"
  by (simp add: slots_eval matches_reads three_hours_back_def)

end
