(* ===== verification/GoFloat.thy ===== *)
theory GoFloat
  imports Prelude "HOL-Library.Log_Nat"
begin

text \<open>
  IEEE 754 binary64 arithmetic, as the Go compiler applies it to \<^verbatim>\<open>float64\<close>: a value is the
  rational number it denotes, and every operation is the exact rational operation followed by
  \<open>fl64\<close>, the rounding to 53 significant bits with ties to even. The exponent is unbounded: the
  program's values (scores in [0,1], token counts, ages in hours) neither overflow nor become
  subnormal, and no operation of the modelled code produces a NaN. Products and sums are rounded
  separately (no fused multiply-add).

  The locale \<open>rounding\<close> states what the clients (the solver and the rate limiter) use of the rounding;
  \<open>fl64\<close> is interpreted in it at the end of this theory.
\<close>

section \<open>Powers of two\<close>

definition pow2 :: "int \<Rightarrow> rat" where
  "pow2 k = (if 0 \<le> k then 2 ^ nat k else 1 / 2 ^ nat (- k))"

lemma pow2_powi: "pow2 k = 2 powi k"
  by (simp add: pow2_def power_int_def field_simps)

lemma pow2_pos [simp]: "0 < pow2 k"
  by (simp add: pow2_def)

lemma pow2_nonzero [simp]: "pow2 k \<noteq> 0"
  using pow2_pos [of k] by linarith

lemma pow2_add: "pow2 (a + b) = pow2 a * pow2 b"
  by (simp add: pow2_powi power_int_add)

lemma pow2_minus: "pow2 (- a) = 1 / pow2 a"
  by (simp add: pow2_powi power_int_minus field_simps)

lemma pow2_diff: "pow2 (a - b) = pow2 a / pow2 b"
  using pow2_add [of a "- b"] by (simp add: pow2_minus)

lemma pow2_mono: "a \<le> b \<Longrightarrow> pow2 a \<le> pow2 b"
  by (simp add: pow2_powi power_int_increasing)

lemma pow2_less_iff: "pow2 a < pow2 b \<longleftrightarrow> a < b"
  by (metis linorder_not_less nle_le order_less_irrefl pow2_mono pow2_powi power_int_strict_increasing one_less_numeral_iff semiring_norm(76))

lemma pow2_le_iff: "pow2 a \<le> pow2 b \<longleftrightarrow> a \<le> b"
  by (meson linorder_not_le pow2_less_iff)

lemma pow2_0 [simp]: "pow2 0 = 1" by (simp add: pow2_def)
lemma pow2_1: "pow2 1 = 2" by (simp add: pow2_def)
lemma pow2_nat: "pow2 (int n) = 2 ^ n" by (simp add: pow2_def)

section \<open>Rounding to an integer, ties to even\<close>

definition round_half_even :: "rat \<Rightarrow> int" where
  "round_half_even x = (let n = \<lfloor>x\<rfloor>; f = x - of_int n in
     if f < 1/2 then n else if 1/2 < f then n + 1 else if even n then n else n + 1)"

lemma round_half_even_of_int [simp]: "round_half_even (of_int n) = n"
  by (simp add: round_half_even_def)

lemma round_half_even_floor: "\<lfloor>x\<rfloor> \<le> round_half_even x \<and> round_half_even x \<le> \<lfloor>x\<rfloor> + 1"
  by (simp add: round_half_even_def Let_def)

lemma round_half_even_mono:
  assumes "x \<le> y"
  shows "round_half_even x \<le> round_half_even y"
proof (cases "\<lfloor>x\<rfloor> = \<lfloor>y\<rfloor>")
  case True
  with assms show ?thesis by (auto simp: round_half_even_def Let_def)
next
  case False
  with floor_mono [OF assms] have "\<lfloor>x\<rfloor> + 1 \<le> \<lfloor>y\<rfloor>" by linarith
  with round_half_even_floor [of x] round_half_even_floor [of y] show ?thesis by linarith
qed

lemma round_half_even_le_of_int: "x \<le> of_int n \<Longrightarrow> round_half_even x \<le> n"
  using round_half_even_mono [of x "of_int n"] by simp

lemma round_half_even_ge_of_int: "of_int n \<le> x \<Longrightarrow> n \<le> round_half_even x"
  using round_half_even_mono [of "of_int n" x] by simp

section \<open>The binary exponent of a positive rational\<close>

definition binexp :: "rat \<Rightarrow> int" where
  "binexp x = (let (p, q) = quotient_of x; k = bitlen p - bitlen q
     in if x < pow2 k then k - 1 else k)"

lemma bitlen_pow2_bounds:
  assumes "0 < p"
  shows "pow2 (bitlen p - 1) \<le> of_int p \<and> of_int p < pow2 (bitlen p)"
proof -
  have b: "2 ^ nat (bitlen p - 1) \<le> p" "p < 2 ^ nat (bitlen p)"
    using bitlen_bounds [OF assms] by auto
  have pos: "0 < bitlen p"
    using assms bitlen_eq_zero_iff bitlen_nonneg by (metis linorder_not_less order_le_less)
  have "(of_int (2 ^ nat (bitlen p - 1)) :: rat) \<le> of_int p" using b(1) by (simp only: of_int_le_iff)
  moreover have "(of_int p :: rat) < of_int (2 ^ nat (bitlen p))" using b(2) by (simp only: of_int_less_iff)
  ultimately show ?thesis using pos by (simp add: pow2_def)
qed

lemma binexp_bounds:
  assumes "0 < x"
  shows "pow2 (binexp x) \<le> x \<and> x < pow2 (binexp x + 1)"
proof -
  obtain p q where pq: "quotient_of x = (p, q)" by (cases "quotient_of x")
  have q: "0 < q" using quotient_of_denom_pos [OF pq] .
  have x: "x = of_int p / of_int q" using quotient_of_div [OF pq] .
  have p: "0 < p"
  proof -
    have "0 < (of_int p :: rat)" using assms q x by (simp add: zero_less_divide_iff)
    then show ?thesis by simp
  qed
  let ?k = "bitlen p - bitlen q"
  from bitlen_pow2_bounds [OF p] bitlen_pow2_bounds [OF q]
  have b: "pow2 (bitlen p - 1) \<le> of_int p" "of_int p < pow2 (bitlen p)"
      "pow2 (bitlen q - 1) \<le> of_int q" "of_int q < pow2 (bitlen q)" by auto
  have qq: "0 < (of_int q :: rat)" using q by simp
  have "x < pow2 (bitlen p) / pow2 (bitlen q - 1)"
    unfolding x using b qq by (intro frac_less) (auto simp: p less_imp_le)
  then have hi: "x < pow2 (?k + 1)"
    using pow2_diff [of "bitlen p" "bitlen q - 1"] by (simp add: algebra_simps)
  have "pow2 (bitlen p - 1) / pow2 (bitlen q) \<le> x"
    unfolding x using b qq p by (intro frac_le) (auto simp: less_imp_le)
  then have lo: "pow2 (?k - 1) \<le> x"
    using pow2_diff [of "bitlen p - 1" "bitlen q"] by (simp add: algebra_simps)
  show ?thesis
  proof (cases "x < pow2 ?k")
    case True
    then show ?thesis using lo by (simp add: binexp_def pq)
  next
    case False
    then show ?thesis using hi by (simp add: binexp_def pq)
  qed
qed

lemma binexp_unique:
  assumes "pow2 e \<le> x" "x < pow2 (e + 1)"
  shows "binexp x = e"
proof -
  have "0 < x" using assms(1) pow2_pos [of e] by linarith
  from binexp_bounds [OF this] assms have "pow2 (binexp x) < pow2 (e + 1)" "pow2 e < pow2 (binexp x + 1)"
    by auto
  then show ?thesis by (simp add: pow2_less_iff)
qed

lemma binexp_mono: "0 < x \<Longrightarrow> x \<le> y \<Longrightarrow> binexp x \<le> binexp y"
proof -
  assume "0 < x" "x \<le> y"
  then have "pow2 (binexp x) < pow2 (binexp y + 1)"
    using binexp_bounds [of x] binexp_bounds [of y] by linarith
  then show ?thesis by (simp add: pow2_less_iff)
qed

section \<open>Rounding to 53 significant bits\<close>

definition fl64 :: "rat \<Rightarrow> rat" where
  "fl64 x = (if x = 0 then 0
     else let s = 52 - binexp \<bar>x\<bar>
          in sgn x * of_int (round_half_even (\<bar>x\<bar> * pow2 s)) / pow2 s)"

lemma fl64_0 [simp]: "fl64 0 = 0"
  by (simp add: fl64_def)

lemma fl64_minus: "fl64 (- x) = - fl64 x"
  by (simp add: fl64_def Let_def sgn_minus)

lemma fl64_pos_eq:
  assumes "0 < x"
  shows "fl64 x = of_int (round_half_even (x * pow2 (52 - binexp x))) / pow2 (52 - binexp x)"
  using assms by (simp add: fl64_def Let_def)

lemma scaled_bounds:
  assumes "0 < x"
  shows "of_int (2 ^ 52) \<le> x * pow2 (52 - binexp x) \<and> x * pow2 (52 - binexp x) < of_int (2 ^ 53)"
proof -
  let ?e = "binexp x"
  from binexp_bounds [OF assms] have b: "pow2 ?e \<le> x" "x < pow2 (?e + 1)" by auto
  have "pow2 ?e * pow2 (52 - ?e) \<le> x * pow2 (52 - ?e)"
    using b(1) by (intro mult_right_mono) (auto simp: less_imp_le)
  moreover have "x * pow2 (52 - ?e) < pow2 (?e + 1) * pow2 (52 - ?e)"
    using b(2) by (intro mult_strict_right_mono) auto
  moreover have "pow2 ?e * pow2 (52 - ?e) = pow2 52" "pow2 (?e + 1) * pow2 (52 - ?e) = pow2 53"
    by (simp_all flip: pow2_add)
  ultimately show ?thesis by (simp add: pow2_def)
qed

lemma significand_bounds:
  assumes "0 < x"
  shows "2 ^ 52 \<le> round_half_even (x * pow2 (52 - binexp x))
       \<and> round_half_even (x * pow2 (52 - binexp x)) \<le> 2 ^ 53"
  using scaled_bounds [OF assms]
  by (auto intro: round_half_even_le_of_int round_half_even_ge_of_int less_imp_le
           simp del: of_int_power of_int_numeral)

lemma fl64_binade:
  assumes "0 < x"
  shows "pow2 (binexp x) \<le> fl64 x \<and> fl64 x \<le> pow2 (binexp x + 1)"
proof -
  let ?s = "52 - binexp x" and ?m = "round_half_even (x * pow2 (52 - binexp x))"
  have m: "(of_int (2 ^ 52) :: rat) \<le> of_int ?m" "(of_int ?m :: rat) \<le> of_int (2 ^ 53)"
    using significand_bounds [OF assms] by (simp_all only: of_int_le_iff)
  have "pow2 52 / pow2 ?s \<le> of_int ?m / pow2 ?s" "of_int ?m / pow2 ?s \<le> pow2 53 / pow2 ?s"
    using m by (simp_all add: pow2_def divide_right_mono)
  moreover have "pow2 52 / pow2 ?s = pow2 (binexp x)" "pow2 53 / pow2 ?s = pow2 (binexp x + 1)"
    by (simp_all add: add.commute flip: pow2_diff)
  ultimately show ?thesis by (simp add: fl64_pos_eq [OF assms])
qed

lemma fl64_pos: "0 < x \<Longrightarrow> 0 < fl64 x"
  using fl64_binade [of x] pow2_pos [of "binexp x"] by linarith

lemma fl64_mono_pos:
  assumes "0 < x" "x \<le> y"
  shows "fl64 x \<le> fl64 y"
proof (cases "binexp x = binexp y")
  case True
  have "0 < y" using assms by simp
  have "x * pow2 (52 - binexp y) \<le> y * pow2 (52 - binexp y)"
    using assms(2) by (intro mult_right_mono) (auto simp: less_imp_le)
  then show ?thesis
    using round_half_even_mono True
    by (simp add: fl64_pos_eq \<open>0 < x\<close> \<open>0 < y\<close> divide_right_mono less_imp_le)
next
  case False
  with binexp_mono [OF assms] have "binexp x + 1 \<le> binexp y" by simp
  then have "pow2 (binexp x + 1) \<le> pow2 (binexp y)" by (rule pow2_mono)
  with fl64_binade [of x] fl64_binade [of y] assms show ?thesis by linarith
qed

lemma fl64_mono: "x \<le> y \<Longrightarrow> fl64 x \<le> fl64 y"
proof -
  assume xy: "x \<le> y"
  consider "0 < x" | "x \<le> 0" "0 \<le> y" | "y < 0" by linarith
  then show ?thesis
  proof cases
    case 1
    then show ?thesis using xy by (rule fl64_mono_pos)
  next
    case 2
    have "fl64 x \<le> 0" using 2(1) fl64_pos [of "- x"] by (cases "x = 0") (auto simp: fl64_minus)
    moreover have "0 \<le> fl64 y" using 2(2) fl64_pos [of y] by (cases "y = 0") auto
    ultimately show ?thesis by simp
  next
    case 3
    then have "fl64 (- y) \<le> fl64 (- x)" using xy by (intro fl64_mono_pos) auto
    then show ?thesis by (simp add: fl64_minus)
  qed
qed

lemma fl64_exact:
  assumes "x = of_int m * pow2 k" "\<bar>m\<bar> \<le> 2 ^ 53"
  shows "fl64 x = x"
proof -
  have main: "fl64 x = x" if x: "x = of_int m * pow2 k" and m: "0 < m" "m \<le> 2 ^ 53" for x m
  proof -
    have "0 < x" using m by (simp add: x)
    have "(of_int m :: rat) \<le> of_int (2 ^ 53)" using m(2) by (simp only: of_int_le_iff)
    then have "x \<le> pow2 53 * pow2 k"
      unfolding x by (intro mult_right_mono) (auto simp: pow2_def less_imp_le)
    then have "x \<le> pow2 (53 + k)" by (simp add: pow2_add)
    show ?thesis
    proof (cases "x = pow2 (53 + k)")
      case True
      then have "binexp x = 53 + k" by (intro binexp_unique) (auto simp: pow2_less_iff)
      moreover have "x * pow2 (52 - (53 + k)) = pow2 (53 + k + (52 - (53 + k)))"
        by (simp only: True pow2_add [symmetric])
      moreover have "\<dots> = of_int (2 ^ 52)" by (simp add: pow2_def)
      ultimately have "x * pow2 (52 - binexp x) = of_int (2 ^ 52)" by simp
      then have "fl64 x = of_int (2 ^ 52) / pow2 (52 - binexp x)"
        by (simp only: fl64_pos_eq [OF \<open>0 < x\<close>] round_half_even_of_int)
      also have "\<dots> = x" using \<open>x * pow2 (52 - binexp x) = of_int (2 ^ 52)\<close>
        by (simp add: field_simps)
      finally show ?thesis .
    next
      case False
      with \<open>x \<le> pow2 (53 + k)\<close> binexp_bounds [OF \<open>0 < x\<close>]
      have "pow2 (binexp x) < pow2 (53 + k)" by linarith
      then have "binexp x < 53 + k" by (simp add: pow2_less_iff)
      then have "pow2 (k + (52 - binexp x)) = of_int (2 ^ nat (k + (52 - binexp x)))"
        by (simp add: pow2_def)
      then have eq: "x * pow2 (52 - binexp x) = of_int (m * 2 ^ nat (k + (52 - binexp x)))"
        by (simp add: x pow2_add mult.assoc)
      then have "fl64 x = of_int (m * 2 ^ nat (k + (52 - binexp x))) / pow2 (52 - binexp x)"
        by (simp only: fl64_pos_eq [OF \<open>0 < x\<close>] round_half_even_of_int)
      also have "\<dots> = x" by (simp only: eq [symmetric]) simp
      finally show ?thesis .
    qed
  qed
  consider "m = 0" | "0 < m" | "m < 0" by linarith
  then show ?thesis
  proof cases
    case 1
    then show ?thesis by (simp add: assms(1))
  next
    case 2
    then show ?thesis using assms by (intro main) auto
  next
    case 3
    then have "fl64 (- x) = - x" using assms by (intro main [of _ "- m"]) auto
    then show ?thesis by (simp add: fl64_minus)
  qed
qed

lemma fl64_idem [simp]: "fl64 (fl64 x) = fl64 x"
proof -
  have pos: "fl64 (fl64 x) = fl64 x" if "0 < x" for x
    using significand_bounds [OF that]
    by (intro fl64_exact [where m = "round_half_even (x * pow2 (52 - binexp x))" and k = "binexp x - 52"])
       (auto simp: fl64_pos_eq [OF that] pow2_diff field_simps)
  consider "x = 0" | "0 < x" | "x < 0" by linarith
  then show ?thesis
    using pos [of x] pos [of "- x"] by cases (auto simp: fl64_minus)
qed

lemma fl64_of_int: "\<bar>n\<bar> \<le> 2 ^ 53 \<Longrightarrow> fl64 (of_int n) = of_int n"
  by (rule fl64_exact [where k = 0 and m = n]) auto

lemma fl64_1 [simp]: "fl64 1 = 1"
  using fl64_of_int [of 1] by simp

text \<open>
  The value of a rounding, from the significand \<open>m\<close> and the scale \<open>k\<close>: the form in which concrete
  roundings are checked.
\<close>

lemma fl64_eqI:
  assumes "2 ^ 52 \<le> x * 2 ^ k" "x * 2 ^ k < 2 ^ 53" "2 * \<bar>x * 2 ^ k - of_int m\<bar> < 1 \<or> 2 * \<bar>x * 2 ^ k - of_int m\<bar> = 1 \<and> even m"
  shows "fl64 x = of_int m / 2 ^ k"
proof -
  have p: "pow2 (int k) = 2 ^ k" by (simp add: pow2_def)
  have "0 < x * 2 ^ k" using assms(1) by (rule less_le_trans [rotated]) simp
  then have x: "0 < x" by (simp add: zero_less_mult_iff)
  have scaled: "x * 2 ^ k = x / pow2 (- int k)" by (simp add: pow2_def)
  have "binexp x = 52 - int k"
  proof (rule binexp_unique)
    have "pow2 (52 - int k) * 2 ^ k = 2 ^ 52" "pow2 (52 - int k + 1) * 2 ^ k = 2 ^ 53"
      unfolding p [symmetric] pow2_add [symmetric] by (simp_all add: pow2_def)
    then have "pow2 (52 - int k) * 2 ^ k \<le> x * 2 ^ k" "x * 2 ^ k < pow2 (52 - int k + 1) * 2 ^ k"
      using assms(1,2) by (simp_all only:)
    moreover have "(0::rat) \<le> 2 ^ k" "(0::rat) < 2 ^ k" by simp_all
    ultimately show "pow2 (52 - int k) \<le> x" "x < pow2 (52 - int k + 1)"
      by (blast intro: mult_right_le_imp_le mult_right_less_imp_less)+
  qed
  moreover have "round_half_even (x * 2 ^ k) = m"
  proof -
    let ?y = "x * 2 ^ k"
    have y: "of_int m - 1 / 2 \<le> ?y" "?y \<le> of_int m + 1 / 2"
      and tie: "\<bar>?y - of_int m\<bar> = 1 / 2 \<Longrightarrow> even m"
      using assms(3) by (auto simp: abs_if split: if_splits)
    show ?thesis
    proof (cases "of_int m \<le> ?y")
      case True
      then have "\<lfloor>?y\<rfloor> = m" using y by (simp add: floor_eq_iff)
      then show ?thesis using y tie by (auto simp: round_half_even_def Let_def)
    next
      case False
      then have "\<lfloor>?y\<rfloor> = m - 1" using y by (simp add: floor_eq_iff)
      then show ?thesis using y tie False by (auto simp: round_half_even_def Let_def abs_if)
    qed
  qed
  ultimately show ?thesis using x by (simp add: fl64_pos_eq p)
qed

lemma fl64_eqI2:
  assumes "2 ^ 52 \<le> x * 2 ^ k" "x * 2 ^ k < 2 ^ 53" "2 * \<bar>x * 2 ^ k - of_int m\<bar> < 1 \<or> 2 * \<bar>x * 2 ^ k - of_int m\<bar> = 1 \<and> even m" "of_int m / 2 ^ k = y"
  shows "fl64 x = y"
  using fl64_eqI [OF assms(1-3)] assms(4) by simp

text \<open>Small integers and halves are exact.\<close>

lemma fl64_numeral [simp]: "(numeral n :: int) \<le> 2 ^ 53 \<Longrightarrow> fl64 (numeral n) = numeral n"
  using fl64_of_int [of "numeral n"] by simp

lemma fl64_half [simp]: "fl64 (1 / 2) = 1 / 2"
  by (rule fl64_exact [where k = "-1" and m = 1]) (simp_all add: pow2_def)

lemma fl64_halves [simp]: "(numeral n :: int) \<le> 2 ^ 53 \<Longrightarrow> fl64 (numeral n / 2) = numeral n / 2"
  by (rule fl64_exact [where k = "-1" and m = "numeral n"]) (simp_all add: pow2_def)

text \<open>The operators of \<^verbatim>\<open>float64\<close>.\<close>

abbreviation fadd :: "rat \<Rightarrow> rat \<Rightarrow> rat" where "fadd a b \<equiv> fl64 (a + b)"
abbreviation fsub :: "rat \<Rightarrow> rat \<Rightarrow> rat" where "fsub a b \<equiv> fl64 (a - b)"
abbreviation fmul :: "rat \<Rightarrow> rat \<Rightarrow> rat" where "fmul a b \<equiv> fl64 (a * b)"
abbreviation fdiv :: "rat \<Rightarrow> rat \<Rightarrow> rat" where "fdiv a b \<equiv> fl64 (a / b)"

section \<open>What clients use of a rounding\<close>

locale rounding =
  fixes rnd :: "rat \<Rightarrow> rat"
  assumes rnd_mono: "x \<le> y \<Longrightarrow> rnd x \<le> rnd y"
    and rnd_idem: "rnd (rnd x) = rnd x"
    and rnd_0: "rnd 0 = 0"
    and rnd_1: "rnd 1 = 1"
begin

lemma rnd_nonneg: "0 \<le> x \<Longrightarrow> 0 \<le> rnd x"
  using rnd_mono [of 0 x] by (simp add: rnd_0)

lemma rnd_nonpos: "x \<le> 0 \<Longrightarrow> rnd x \<le> 0"
  using rnd_mono [of x 0] by (simp add: rnd_0)

lemma rnd_le_1: "x \<le> 1 \<Longrightarrow> rnd x \<le> 1"
  using rnd_mono [of x 1] by (simp add: rnd_1)

lemma add_mono: "a \<le> b \<Longrightarrow> x \<le> y \<Longrightarrow> rnd (a + x) \<le> rnd (b + y)"
  by (rule rnd_mono) simp

lemma mult_mono: "0 \<le> a \<Longrightarrow> x \<le> y \<Longrightarrow> rnd (a * x) \<le> rnd (a * y)"
  by (rule rnd_mono) (rule mult_left_mono)

lemma mult_right_mono: "0 \<le> a \<Longrightarrow> x \<le> y \<Longrightarrow> rnd (x * a) \<le> rnd (y * a)"
  by (rule rnd_mono) (rule Rings.mult_right_mono)

lemma div_mono: "0 < c \<Longrightarrow> x \<le> y \<Longrightarrow> rnd (x / c) \<le> rnd (y / c)"
  by (rule rnd_mono) (simp add: divide_right_mono)

text \<open>Adding a non-negative term to a representable accumulator never lowers it.\<close>

lemma accumulate_ge: "rnd a = a \<Longrightarrow> 0 \<le> x \<Longrightarrow> a \<le> rnd (a + x)"
  using rnd_mono [of a "a + x"] by simp

lemma ratio_bounds:
  assumes "0 \<le> a" "a \<le> b" "0 < b"
  shows "0 \<le> rnd (a / b) \<and> rnd (a / b) \<le> 1"
  using assms by (auto intro: rnd_nonneg rnd_le_1)

text \<open>A scaled weight stays below the weight when the factor is at most one.\<close>

lemma scale_le: "rnd w = w \<Longrightarrow> 0 \<le> w \<Longrightarrow> v \<le> 1 \<Longrightarrow> rnd (v * w) \<le> w"
  using rnd_mono [of "v * w" "1 * w"] Rings.mult_right_mono [of v 1 w] by simp

end

interpretation ieee: rounding fl64
  by unfold_locales (simp_all add: fl64_mono)

end
