(* ===== verification/Scoring.thy ===== *)
theory Scoring
  imports GoFloat GoTime
begin

text \<open>
  \<^verbatim>\<open>api/internal/solver/solver.go\<close>, lines 16 to 260: tiers, participants, responses, the scoring
  parameters and the score of one slot. Scores are binary64 values: every arithmetic operation of the
  code is the exact rational operation followed by \<open>fl64\<close>, in the order of the code.

  Main facts: the result accounts for every participant exactly once (\<open>score_slot_accounts\<close>), a slot is
  eliminated exactly by a required refusal, scores and penalties are in range (\<open>score_slot_range\<close>), and
  on answered slots the score is monotone in every answer (\<open>score_slot_mono\<close>), which is what the bounds
  of the dominance analysis rest on.
\<close>

section \<open>Tiers, participants, responses\<close>

datatype tier = TierNo | TierIfNeeded | TierOK | TierPreferred

primrec tier_rank :: "tier \<Rightarrow> nat" where
  "tier_rank TierNo = 0"
| "tier_rank TierIfNeeded = 1"
| "tier_rank TierOK = 2"
| "tier_rank TierPreferred = 3"

instantiation tier :: linorder
begin

definition less_eq_tier :: "tier \<Rightarrow> tier \<Rightarrow> bool" where
  "less_eq_tier a b \<longleftrightarrow> tier_rank a \<le> tier_rank b"

definition less_tier :: "tier \<Rightarrow> tier \<Rightarrow> bool" where
  "less_tier a b \<longleftrightarrow> tier_rank a < tier_rank b"

instance
proof
  fix a b c :: tier
  show "a \<le> b \<Longrightarrow> b \<le> a \<Longrightarrow> a = b"
    by (cases a; cases b; simp add: less_eq_tier_def)
qed (auto simp: less_eq_tier_def less_tier_def)

end

primrec tier_value :: "tier \<Rightarrow> rat" where
  "tier_value TierPreferred = 1"
| "tier_value TierOK = fl64 (7 / 10)"
| "tier_value TierIfNeeded = fl64 (3 / 10)"
| "tier_value TierNo = 0"

primrec tier_string :: "tier \<Rightarrow> string" where
  "tier_string TierPreferred = ''preferred''"
| "tier_string TierOK = ''ok''"
| "tier_string TierIfNeeded = ''if_needed''"
| "tier_string TierNo = ''no''"

datatype role = RoleOptional | RoleRequired

record participant =
  p_id :: string
  p_name :: string
  p_role :: role
  p_loc :: "location option"

definition location_of :: "participant \<Rightarrow> location" where
  "location_of p = (case p_loc p of None \<Rightarrow> utc | Some l \<Rightarrow> l)"

type_synonym responses = "string \<rightharpoonup> (instant \<rightharpoonup> tier)"
type_synonym lookup = "string \<Rightarrow> instant \<Rightarrow> tier option"

definition get :: "responses \<Rightarrow> lookup" where
  "get r pid slot = (case r pid of None \<Rightarrow> None | Some by_slot \<Rightarrow> by_slot slot)"

section \<open>Parameters\<close>

record config =
  alpha :: rat
  optional_weight :: rat
  unsociable_penalty :: rat
  unsociable_cap :: rat
  day_start_hour :: int
  day_end_hour :: int
  history_epsilon :: rat

definition default_config :: config where
  "default_config = \<lparr>alpha = fl64 (7 / 10), optional_weight = fl64 (1 / 2),
     unsociable_penalty = fl64 (15 / 100), unsociable_cap = fl64 (45 / 100),
     day_start_hour = 8, day_end_hour = 21, history_epsilon = fl64 (5 / 100)\<rparr>"

section \<open>The score of a slot\<close>

record slot_score =
  start_at :: instant
  eliminated :: bool
  eliminated_by :: "string list"
  excludes :: "string list"
  unknown :: "string list"
  coverage :: nat
  total :: nat
  score :: rat
  penalty :: rat

definition unsociable :: "instant \<Rightarrow> location \<Rightarrow> config \<Rightarrow> bool" where
  "unsociable start loc cfg =
     (let h = hour_in loc start in h < day_start_hour cfg \<or> h \<ge> day_end_hour cfg)"

text \<open>The local variables of the loop, beside the score under construction.\<close>

record accumulator =
  acc_score :: slot_score
  weighted :: rat
  weights :: rat
  min_required :: rat
  have_required :: bool
  penalized :: nat

definition score_step :: "instant \<Rightarrow> config \<Rightarrow> lookup \<Rightarrow> accumulator \<Rightarrow> participant \<Rightarrow> accumulator" where
  "score_step start cfg look a p =
     (let s = acc_score a in
      case look (p_id p) start of
        None \<Rightarrow> a\<lparr>acc_score := s\<lparr>unknown := unknown s @ [p_name p]\<rparr>\<rparr>
      | Some tier \<Rightarrow>
          if tier = TierNo then
            (if p_role p = RoleRequired
             then a\<lparr>acc_score := s\<lparr>eliminated := True, eliminated_by := eliminated_by s @ [p_name p]\<rparr>\<rparr>
             else a\<lparr>acc_score := s\<lparr>excludes := excludes s @ [p_name p]\<rparr>,
                    weights := fadd (weights a) (optional_weight cfg)\<rparr>)
          else
            let s' = s\<lparr>coverage := coverage s + 1\<rparr>;
                required = (p_role p = RoleRequired);
                w = (if required then 1 else optional_weight cfg);
                v = tier_value tier
            in a\<lparr>acc_score := s',
                 have_required := have_required a \<or> required,
                 min_required := (if required \<and> v < min_required a then v else min_required a),
                 weighted := fadd (weighted a) (fmul v w),
                 weights := fadd (weights a) w,
                 penalized := (if unsociable start (location_of p) cfg then penalized a + 1
                               else penalized a)\<rparr>)"

definition score_init :: "instant \<Rightarrow> participant list \<Rightarrow> accumulator" where
  "score_init start ps =
     \<lparr>acc_score = \<lparr>start_at = start, eliminated = False, eliminated_by = [], excludes = [], unknown = [],
        coverage = 0, total = length ps, score = 0, penalty = 0\<rparr>,
      weighted = 0, weights = 0, min_required = 1, have_required = False, penalized = 0\<rparr>"

definition score_finish :: "config \<Rightarrow> accumulator \<Rightarrow> slot_score" where
  "score_finish cfg a =
     (let s = acc_score a in
      if eliminated s \<or> weights a = 0 then s
      else
        let mean = fdiv (weighted a) (weights a);
            floor_term = (if have_required a then min_required a else mean);
            base = fadd (fmul (alpha cfg) mean) (fmul (fsub 1 (alpha cfg)) floor_term);
            pen0 = fmul (of_nat (penalized a)) (unsociable_penalty cfg);
            pen = (if unsociable_cap cfg < pen0 then unsociable_cap cfg else pen0);
            sc = fsub base pen
        in s\<lparr>penalty := pen, score := (if sc < 0 then 0 else sc)\<rparr>)"

definition score_slot_with :: "instant \<Rightarrow> participant list \<Rightarrow> config \<Rightarrow> lookup \<Rightarrow> slot_score" where
  "score_slot_with start ps cfg look =
     score_finish cfg (foldl (score_step start cfg look) (score_init start ps) ps)"

definition score_slot :: "instant \<Rightarrow> participant list \<Rightarrow> responses \<Rightarrow> config \<Rightarrow> slot_score" where
  "score_slot start ps rs cfg = score_slot_with start ps cfg (get rs)"

section \<open>Tier values\<close>

lemma tier_consts:
  "fl64 (7 / 10) = 3152519739159347 / 4503599627370496"
  "fl64 (3 / 10) = 5404319552844595 / 18014398509481984"
  by code_simp+

lemma tier_value_bounds: "0 \<le> tier_value t" "tier_value t \<le> 1"
  by (cases t; simp add: tier_consts)+

lemma tier_value_mono: "a \<le> b \<Longrightarrow> tier_value a \<le> tier_value b"
  by (cases a; cases b; simp add: less_eq_tier_def tier_consts)

lemma tier_value_pos: "t \<noteq> TierNo \<Longrightarrow> 0 < tier_value t"
  by (cases t; simp add: tier_consts)

lemma tier_extremes [simp]: "TierNo \<le> t" "t \<le> TierPreferred"
  by (cases t; simp add: less_eq_tier_def)+

lemma role_cases: "r \<noteq> RoleRequired \<longleftrightarrow> r = RoleOptional"
  by (cases r) auto

section \<open>Who is counted where\<close>

definition vetoes :: "lookup \<Rightarrow> instant \<Rightarrow> participant \<Rightarrow> bool" where
  "vetoes look start p \<longleftrightarrow> look (p_id p) start = Some TierNo \<and> p_role p = RoleRequired"

definition declines :: "lookup \<Rightarrow> instant \<Rightarrow> participant \<Rightarrow> bool" where
  "declines look start p \<longleftrightarrow> look (p_id p) start = Some TierNo \<and> p_role p = RoleOptional"

definition silent :: "lookup \<Rightarrow> instant \<Rightarrow> participant \<Rightarrow> bool" where
  "silent look start p \<longleftrightarrow> look (p_id p) start = None"

definition attends :: "lookup \<Rightarrow> instant \<Rightarrow> participant \<Rightarrow> bool" where
  "attends look start p \<longleftrightarrow> (case look (p_id p) start of None \<Rightarrow> False | Some t \<Rightarrow> t \<noteq> TierNo)"

lemmas answer_defs = vetoes_def declines_def silent_def attends_def

lemma score_fold_accounts:
  "acc_score (foldl (score_step start cfg look) a ps) =
     (acc_score a)\<lparr>eliminated := eliminated (acc_score a) \<or> (\<exists>p \<in> set ps. vetoes look start p),
       eliminated_by := eliminated_by (acc_score a) @ map p_name (filter (vetoes look start) ps),
       excludes := excludes (acc_score a) @ map p_name (filter (declines look start) ps),
       unknown := unknown (acc_score a) @ map p_name (filter (silent look start) ps),
       coverage := coverage (acc_score a) + length (filter (attends look start) ps)\<rparr>"
proof (induction ps arbitrary: a)
  case (Cons p ps)
  have "acc_score (score_step start cfg look a p) =
     (acc_score a)\<lparr>eliminated := eliminated (acc_score a) \<or> vetoes look start p,
       eliminated_by := eliminated_by (acc_score a) @ (if vetoes look start p then [p_name p] else []),
       excludes := excludes (acc_score a) @ (if declines look start p then [p_name p] else []),
       unknown := unknown (acc_score a) @ (if silent look start p then [p_name p] else []),
       coverage := coverage (acc_score a) + (if attends look start p then 1 else 0)\<rparr>"
    by (cases "look (p_id p) start"; cases "p_role p")
      (auto simp: score_step_def Let_def answer_defs)
  then show ?case by (simp add: Cons)
qed simp

lemma score_finish_fields:
  "start_at (score_finish cfg a) = start_at (acc_score a)"
  "eliminated (score_finish cfg a) = eliminated (acc_score a)"
  "eliminated_by (score_finish cfg a) = eliminated_by (acc_score a)"
  "excludes (score_finish cfg a) = excludes (acc_score a)"
  "unknown (score_finish cfg a) = unknown (acc_score a)"
  "coverage (score_finish cfg a) = coverage (acc_score a)"
  "total (score_finish cfg a) = total (acc_score a)"
  by (simp_all add: score_finish_def Let_def)

lemma score_fields:
  "start_at (score_slot_with start ps cfg look) = start"
  "eliminated (score_slot_with start ps cfg look) \<longleftrightarrow> (\<exists>p \<in> set ps. vetoes look start p)"
  "eliminated_by (score_slot_with start ps cfg look) = map p_name (filter (vetoes look start) ps)"
  "excludes (score_slot_with start ps cfg look) = map p_name (filter (declines look start) ps)"
  "unknown (score_slot_with start ps cfg look) = map p_name (filter (silent look start) ps)"
  "coverage (score_slot_with start ps cfg look) = length (filter (attends look start) ps)"
  "total (score_slot_with start ps cfg look) = length ps"
  by (simp_all add: score_slot_with_def score_finish_fields score_fold_accounts score_init_def)

lemma answer_cases_length:
  "length (filter (attends look start) ps) + length (filter (declines look start) ps)
    + length (filter (silent look start) ps) + length (filter (vetoes look start) ps) = length ps"
proof (induction ps)
  case (Cons p ps)
  then show ?case
    by (cases "look (p_id p) start"; cases "p_role p") (auto simp: answer_defs)
qed simp

section \<open>Ranges\<close>

text \<open>What scoring needs of its parameters; the code only ever uses \<open>default_config\<close>.\<close>

definition config_ok :: "config \<Rightarrow> bool" where
  "config_ok cfg \<longleftrightarrow> 0 \<le> alpha cfg \<and> alpha cfg \<le> 1 \<and> fl64 (alpha cfg) = alpha cfg
     \<and> fadd (alpha cfg) (fsub 1 (alpha cfg)) \<le> 1
     \<and> 0 \<le> optional_weight cfg \<and> fl64 (optional_weight cfg) = optional_weight cfg
     \<and> 0 \<le> unsociable_penalty cfg \<and> 0 \<le> unsociable_cap cfg"

lemma default_config_ok: "config_ok default_config"
proof -
  have "fadd (fl64 (7 / 10)) (fsub 1 (fl64 (7 / 10))) \<le> 1" "fl64 (7 / 10) \<le> 1" by code_simp+
  then show ?thesis
    by (simp add: config_ok_def default_config_def fl64_idem ieee.rnd_nonneg)
qed

lemma min_required_step:
  "min_required (score_step start cfg look a p) =
    (case look (p_id p) start of
       Some t \<Rightarrow> if t \<noteq> TierNo \<and> p_role p = RoleRequired then min (min_required a) (tier_value t)
                 else min_required a
     | None \<Rightarrow> min_required a)"
  by (auto simp: score_step_def Let_def min_def split: option.split)

text \<open>The invariant of the loop: sums are representable, non-negative, and at most the total weight.\<close>

definition acc_inv :: "accumulator \<Rightarrow> bool" where
  "acc_inv a \<longleftrightarrow> 0 \<le> weighted a \<and> weighted a \<le> weights a \<and> fl64 (weighted a) = weighted a
     \<and> 0 \<le> min_required a \<and> min_required a \<le> 1"

lemma weight_step:
  assumes "acc_inv a" "0 \<le> w" "fl64 w = w"
  shows "0 \<le> fadd (weighted a) (fmul (tier_value t) w)"
    and "fadd (weighted a) (fmul (tier_value t) w) \<le> fadd (weights a) w"
    and "weighted a \<le> fadd (weights a) w"
proof -
  have "0 \<le> fmul (tier_value t) w"
    using assms tier_value_bounds by (intro ieee.rnd_nonneg mult_nonneg_nonneg) auto
  moreover have "fmul (tier_value t) w \<le> w"
    using assms tier_value_bounds by (intro ieee.scale_le) auto
  ultimately show "0 \<le> fadd (weighted a) (fmul (tier_value t) w)"
    "fadd (weighted a) (fmul (tier_value t) w) \<le> fadd (weights a) w"
    using assms(1) unfolding acc_inv_def by (intro ieee.rnd_nonneg ieee.add_mono; simp)+
  show "weighted a \<le> fadd (weights a) w"
    using assms fl64_mono [of "weighted a" "weights a + w"] by (simp add: acc_inv_def)
qed

lemma acc_inv_step:
  assumes "config_ok cfg" "acc_inv a"
  shows "acc_inv (score_step start cfg look a p)"
proof -
  have ow: "0 \<le> optional_weight cfg" "fl64 (optional_weight cfg) = optional_weight cfg"
    using assms(1) by (auto simp: config_ok_def)
  have "0 \<le> (1::rat)" "fl64 1 = (1::rat)" by (simp_all add: fl64_1)
  note w = weight_step [OF assms(2) this] weight_step [OF assms(2) ow]
  have "0 \<le> min_required a \<and> min_required a \<le> 1" using assms(2) by (simp add: acc_inv_def)
  then have "0 \<le> min_required (score_step start cfg look a p)
      \<and> min_required (score_step start cfg look a p) \<le> 1"
    using tier_value_bounds by (auto simp: min_required_step min_def split: option.splits)
  moreover have "0 \<le> weighted (score_step start cfg look a p)
      \<and> weighted (score_step start cfg look a p) \<le> weights (score_step start cfg look a p)
      \<and> fl64 (weighted (score_step start cfg look a p)) = weighted (score_step start cfg look a p)"
    using w assms(2)
    by (auto simp: score_step_def Let_def fl64_idem acc_inv_def split: option.split)
  ultimately show ?thesis by (simp add: acc_inv_def)
qed

lemma acc_inv_fold:
  "config_ok cfg \<Longrightarrow> acc_inv (foldl (score_step start cfg look) (score_init start ps') ps)"
proof (rule foldl_invariant)
  show "acc_inv (score_init start ps')" by (simp add: acc_inv_def score_init_def fl64_0)
qed (rule acc_inv_step)

text \<open>The last part of the function, as a function of the mean, the floor term and the penalty.\<close>

definition blend :: "config \<Rightarrow> rat \<Rightarrow> rat \<Rightarrow> rat" where
  "blend cfg mean flr = fadd (fmul (alpha cfg) mean) (fmul (fsub 1 (alpha cfg)) flr)"

definition penalty_of :: "config \<Rightarrow> nat \<Rightarrow> rat" where
  "penalty_of cfg n = min (unsociable_cap cfg) (fmul (of_nat n) (unsociable_penalty cfg))"

lemma score_finish_alt:
  "score_finish cfg a =
    (if eliminated (acc_score a) \<or> weights a = 0 then acc_score a
     else (acc_score a)\<lparr>penalty := penalty_of cfg (penalized a),
       score := max 0 (fsub (let mean = fdiv (weighted a) (weights a)
         in blend cfg mean (if have_required a then min_required a else mean)) (penalty_of cfg (penalized a)))\<rparr>)"
  unfolding score_finish_def blend_def penalty_of_def Let_def max_def min_def by simp

lemma blend_mono:
  assumes "config_ok cfg" "m1 \<le> m2" "f1 \<le> f2"
  shows "blend cfg m1 f1 \<le> blend cfg m2 f2"
proof -
  have "0 \<le> alpha cfg" "0 \<le> fsub 1 (alpha cfg)"
    using assms(1) by (auto simp: config_ok_def intro: ieee.rnd_nonneg)
  then show ?thesis
    unfolding blend_def using assms(2,3) by (intro ieee.add_mono ieee.mult_mono) auto
qed

lemma blend_le_1:
  assumes "config_ok cfg" "m \<le> 1" "f \<le> 1"
  shows "blend cfg m f \<le> 1"
proof -
  have "blend cfg m f \<le> blend cfg 1 1" by (rule blend_mono [OF assms])
  also have "blend cfg 1 1 = fadd (alpha cfg) (fsub 1 (alpha cfg))"
    using assms(1) by (simp add: blend_def config_ok_def fl64_idem)
  also have "\<dots> \<le> 1" using assms(1) by (simp add: config_ok_def)
  finally show ?thesis .
qed

lemma penalty_of_bounds:
  "config_ok cfg \<Longrightarrow> 0 \<le> penalty_of cfg n \<and> penalty_of cfg n \<le> unsociable_cap cfg"
  by (auto simp: config_ok_def penalty_of_def intro: ieee.rnd_nonneg)

lemma score_finish_range:
  assumes "config_ok cfg" "acc_inv a" "score (acc_score a) = 0" "penalty (acc_score a) = 0"
  shows "0 \<le> score (score_finish cfg a) \<and> score (score_finish cfg a) \<le> 1
    \<and> 0 \<le> penalty (score_finish cfg a) \<and> penalty (score_finish cfg a) \<le> unsociable_cap cfg"
proof (cases "eliminated (acc_score a) \<or> weights a = 0")
  case True
  then show ?thesis using assms by (simp add: score_finish_alt config_ok_def)
next
  case False
  let ?m = "fdiv (weighted a) (weights a)" and ?p = "penalty_of cfg (penalized a)"
  let ?b = "blend cfg ?m (if have_required a then min_required a else ?m)"
  have "0 < weights a" using False assms(2) by (auto simp: acc_inv_def)
  then have "0 \<le> ?m \<and> ?m \<le> 1" using assms(2) by (intro ieee.ratio_bounds) (auto simp: acc_inv_def)
  then have b: "?b \<le> 1" using assms(1,2) by (intro blend_le_1) (auto simp: acc_inv_def)
  have "fsub ?b ?p \<le> 1" using b penalty_of_bounds [OF assms(1), of "penalized a"] by (intro ieee.rnd_le_1) auto
  then show ?thesis
    using False penalty_of_bounds [OF assms(1), of "penalized a"] by (simp add: score_finish_alt Let_def)
qed

lemma score_init_kept:
  "score (acc_score (foldl (score_step start cfg look) (score_init start ps') ps)) = 0"
  "penalty (acc_score (foldl (score_step start cfg look) (score_init start ps') ps)) = 0"
  by (simp_all add: score_fold_accounts score_init_def)

section \<open>Monotonicity\<close>

text \<open>
  Two ways of answering one slot: everybody answers the same, or one answers the slot at least as well
  in the second way and the slot is at a sociable hour for him (attending can cost the others a penalty
  otherwise).
\<close>

definition answers_le :: "lookup \<Rightarrow> lookup \<Rightarrow> instant \<Rightarrow> config \<Rightarrow> participant \<Rightarrow> bool" where
  "answers_le l1 l2 start cfg p \<longleftrightarrow> l1 (p_id p) start = l2 (p_id p) start
     \<or> (\<exists>a b. l1 (p_id p) start = Some a \<and> l2 (p_id p) start = Some b \<and> a \<le> b
          \<and> \<not> unsociable start (location_of p) cfg)"

definition acc_le :: "accumulator \<Rightarrow> accumulator \<Rightarrow> bool" where
  "acc_le a b \<longleftrightarrow> weights a = weights b \<and> weighted a \<le> weighted b \<and> have_required a = have_required b
     \<and> min_required a \<le> min_required b \<and> penalized a = penalized b"

lemma acc_le_step:
  assumes "config_ok cfg" "acc_inv a" "acc_inv b" "acc_le a b"
    and "answers_le l1 l2 start cfg p" "\<not> vetoes l1 start p"
  shows "acc_le (score_step start cfg l1 a p) (score_step start cfg l2 b p)"
proof (cases "l1 (p_id p) start = l2 (p_id p) start")
  case True
  have ow: "0 \<le> optional_weight cfg" using assms(1) by (auto simp: config_ok_def)
  show ?thesis
    using assms(4,6) True ow
    by (auto simp: acc_le_def score_step_def Let_def vetoes_def intro!: ieee.add_mono
        split: option.split)
next
  case False
  then obtain x y where xy: "l1 (p_id p) start = Some x" "l2 (p_id p) start = Some y" "x \<le> y"
    and soc: "\<not> unsociable start (location_of p) cfg"
    using assms(5) by (auto simp: answers_le_def)
  have ow: "0 \<le> optional_weight cfg" "fl64 (optional_weight cfg) = optional_weight cfg"
    using assms(1) by (auto simp: config_ok_def)
  have v: "tier_value x \<le> tier_value y" using xy(3) by (rule tier_value_mono)
  show ?thesis
  proof (cases "x = TierNo")
    case True
    then have opt: "p_role p = RoleOptional" and "y \<noteq> TierNo"
      using assms(6) xy False by (auto simp: vetoes_def role_cases)
    have "weighted a \<le> fadd (weighted b) (fmul (tier_value y) (optional_weight cfg))"
    proof -
      have "weighted a \<le> weighted b" "fl64 (weighted b) = weighted b"
        using assms(3,4) by (auto simp: acc_le_def acc_inv_def)
      moreover have "0 \<le> fmul (tier_value y) (optional_weight cfg)"
        using ow tier_value_bounds by (intro ieee.rnd_nonneg mult_nonneg_nonneg) auto
      ultimately show ?thesis using ieee.accumulate_ge order_trans by blast
    qed
    then show ?thesis
      using True opt \<open>y \<noteq> TierNo\<close> xy soc assms(4) by (simp add: acc_le_def score_step_def Let_def)
  next
    case xNo: False
    then have "y \<noteq> TierNo" using xy(3) by (cases x; auto simp: less_eq_tier_def)
    have "fadd (weighted a) (fmul (tier_value x) w) \<le> fadd (weighted b) (fmul (tier_value y) w)"
      if "0 \<le> w" for w
      using assms(4) v that by (intro ieee.add_mono ieee.mult_right_mono) (auto simp: acc_le_def)
    from this [of 1] this [OF ow(1)] show ?thesis
      using xNo \<open>y \<noteq> TierNo\<close> xy soc assms(4) v by (auto simp: acc_le_def score_step_def Let_def)
  qed
qed

lemma acc_le_fold:
  assumes "config_ok cfg" "acc_inv a" "acc_inv b" "acc_le a b"
    and "\<forall>p \<in> set ps. answers_le l1 l2 start cfg p \<and> \<not> vetoes l1 start p"
  shows "acc_le (foldl (score_step start cfg l1) a ps) (foldl (score_step start cfg l2) b ps)"
  using assms(2-)
proof (induction ps arbitrary: a b)
  case (Cons p ps)
  have "acc_le (score_step start cfg l1 a p) (score_step start cfg l2 b p)"
    using assms(1) Cons.prems by (intro acc_le_step) auto
  then show ?case using Cons acc_inv_step [OF assms(1)] by simp
qed simp

lemma vetoes_mono: "answers_le l1 l2 start cfg p \<Longrightarrow> vetoes l2 start p \<Longrightarrow> vetoes l1 start p"
proof -
  have "a \<le> TierNo \<Longrightarrow> a = TierNo" for a by (cases a) (auto simp: less_eq_tier_def)
  then show "answers_le l1 l2 start cfg p \<Longrightarrow> vetoes l2 start p \<Longrightarrow> vetoes l1 start p"
    by (auto simp: answers_le_def vetoes_def)
qed

lemma score_mono_aux:
  assumes "config_ok cfg" "\<forall>p \<in> set ps. answers_le l1 l2 start cfg p"
    and "\<not> eliminated (score_slot_with start ps cfg l1)"
  shows "\<not> eliminated (score_slot_with start ps cfg l2)
    \<and> score (score_slot_with start ps cfg l1) \<le> score (score_slot_with start ps cfg l2)"
proof -
  let ?a = "foldl (score_step start cfg l1) (score_init start ps) ps"
  let ?b = "foldl (score_step start cfg l2) (score_init start ps) ps"
  have nv: "\<forall>p \<in> set ps. \<not> vetoes l1 start p" using assms(3) by (simp add: score_fields)
  then have nv2: "\<forall>p \<in> set ps. \<not> vetoes l2 start p" using assms(2) vetoes_mono by blast
  have inv: "acc_inv ?a" "acc_inv ?b" using acc_inv_fold [OF assms(1)] by auto
  have le: "acc_le ?a ?b"
    using assms(1,2) nv acc_inv_fold [OF assms(1), of start l1 ps "[]"]
    by (intro acc_le_fold) (auto simp: acc_le_def)
  have el: "\<not> eliminated (acc_score ?a)" "\<not> eliminated (acc_score ?b)"
    using nv nv2 by (simp_all add: score_fold_accounts score_init_def)
  have "score (score_finish cfg ?a) \<le> score (score_finish cfg ?b)"
  proof (cases "weights ?a = 0")
    case True
    then show ?thesis using le by (simp add: score_finish_alt score_init_kept acc_le_def)
  next
    case False
    then have "0 < weights ?a" using inv by (auto simp: acc_inv_def)
    then have m: "fdiv (weighted ?a) (weights ?a) \<le> fdiv (weighted ?b) (weights ?b)"
      using le by (auto simp: acc_le_def intro: ieee.div_mono)
    then have "blend cfg (fdiv (weighted ?a) (weights ?a))
        (if have_required ?a then min_required ?a else fdiv (weighted ?a) (weights ?a))
      \<le> blend cfg (fdiv (weighted ?b) (weights ?b))
        (if have_required ?b then min_required ?b else fdiv (weighted ?b) (weights ?b))"
      using le by (intro blend_mono [OF assms(1)]) (auto simp: acc_le_def)
    then have "fsub (blend cfg (fdiv (weighted ?a) (weights ?a))
        (if have_required ?a then min_required ?a else fdiv (weighted ?a) (weights ?a))) (penalty_of cfg (penalized ?a))
      \<le> fsub (blend cfg (fdiv (weighted ?b) (weights ?b))
        (if have_required ?b then min_required ?b else fdiv (weighted ?b) (weights ?b))) (penalty_of cfg (penalized ?b))"
      using le by (intro fl64_mono) (simp add: acc_le_def)
    moreover have "weights ?b \<noteq> 0" using le False by (simp add: acc_le_def)
    ultimately show ?thesis
      using False el unfolding score_finish_alt Let_def by (simp add: max.coboundedI2 del: fl64_mono)
  qed
  then show ?thesis using nv2 by (auto simp: score_slot_with_def score_fields [unfolded score_slot_with_def])
qed

section \<open>Properties\<close>

definition ann :: participant where
  "ann = \<lparr>p_id = ''1'', p_name = ''Ann'', p_role = RoleRequired, p_loc = None\<rparr>"

definition bob :: participant where
  "bob = \<lparr>p_id = ''2'', p_name = ''Bob'', p_role = RoleOptional, p_loc = None\<rparr>"

definition cho :: participant where
  "cho = \<lparr>p_id = ''3'', p_name = ''Cho'', p_role = RoleOptional, p_loc = Some (\<lambda>_. 9 * 3600)\<rparr>"

definition ten :: instant where "ten = 10 * hour"
definition noon :: instant where "noon = 12 * hour"

text \<open>
  C24: Scoring a slot loses nobody: the names listed as vetoing, declining and not having answered are
  exactly those participants, in invitation order; everyone else who answered is counted by the
  coverage; the four groups add up to the total; and the slot is eliminated exactly when a required
  participant refused it.
\<close>

theorem score_slot_accounts:
  "let s = score_slot start ps rs cfg; look = get rs in
     eliminated_by s = map p_name (filter (\<lambda>p. look (p_id p) start = Some TierNo \<and> p_role p = RoleRequired) ps)
   \<and> excludes s = map p_name (filter (\<lambda>p. look (p_id p) start = Some TierNo \<and> p_role p = RoleOptional) ps)
   \<and> unknown s = map p_name (filter (\<lambda>p. look (p_id p) start = None) ps)
   \<and> coverage s = length (filter (\<lambda>p. look (p_id p) start \<notin> {None, Some TierNo}) ps)
   \<and> length (eliminated_by s) + length (excludes s) + length (unknown s) + coverage s = total s
   \<and> total s = length ps
   \<and> (eliminated s \<longleftrightarrow> (\<exists>p \<in> set ps. p_role p = RoleRequired \<and> look (p_id p) start = Some TierNo))"
proof -
  have a: "attends look start = (\<lambda>p. look (p_id p) start \<notin> {None, Some TierNo})" for look
    by (auto simp: fun_eq_iff attends_def split: option.split)
  have d: "vetoes look start = (\<lambda>p. look (p_id p) start = Some TierNo \<and> p_role p = RoleRequired)"
    "declines look start = (\<lambda>p. look (p_id p) start = Some TierNo \<and> p_role p = RoleOptional)"
    "silent look start = (\<lambda>p. look (p_id p) start = None)" for look
    by (simp_all add: fun_eq_iff answer_defs)
  show ?thesis
    using answer_cases_length [of "get rs" start ps]
    by (auto simp: score_slot_def Let_def score_fields a d)
qed

text \<open>
  C25: For parameters in range, every score is in the unit interval and the penalty is between zero and
  the cap, with all arithmetic rounded to binary64.
\<close>

theorem score_slot_range:
  assumes "config_ok cfg"
  shows "0 \<le> score (score_slot start ps rs cfg) \<and> score (score_slot start ps rs cfg) \<le> 1
    \<and> 0 \<le> penalty (score_slot start ps rs cfg)
    \<and> penalty (score_slot start ps rs cfg) \<le> unsociable_cap cfg"
  unfolding score_slot_def score_slot_with_def
  by (intro score_finish_range acc_inv_fold assms score_init_kept)

lemma score_slot_range_witness:
  "0 \<le> score (score_slot noon [ann, bob, cho] [''1'' \<mapsto> [noon \<mapsto> TierOK]] default_config)
   \<and> penalty (score_slot noon [ann, bob, cho] [''1'' \<mapsto> [noon \<mapsto> TierOK]] default_config)
      \<le> unsociable_cap default_config"
  using score_slot_range [OF default_config_ok] by blast

text \<open>
  C26: A better answer never hurts a slot: when every participant either gives the same answer (or none)
  in both matrices, or answers at least as well in the second one and the slot is at a sociable hour for
  him, then a slot that survives the first survives the second, with at least the same score. In
  particular a refusal by an optional participant costs at least as much as any other answer of his.
\<close>

theorem score_slot_mono:
  assumes "config_ok cfg"
    and "\<forall>p \<in> set ps. answers_le (get rs1) (get rs2) start cfg p"
    and "\<not> eliminated (score_slot start ps rs1 cfg)"
  shows "\<not> eliminated (score_slot start ps rs2 cfg)
    \<and> score (score_slot start ps rs1 cfg) \<le> score (score_slot start ps rs2 cfg)"
  using score_mono_aux [OF assms(1,2)] assms(3) by (simp add: score_slot_def)

lemma score_slot_mono_witness:
  "score (score_slot noon [ann, bob] [''1'' \<mapsto> [noon \<mapsto> TierOK], ''2'' \<mapsto> [noon \<mapsto> TierNo]] default_config)
   \<le> score (score_slot noon [ann, bob] [''1'' \<mapsto> [noon \<mapsto> TierOK], ''2'' \<mapsto> [noon \<mapsto> TierOK]] default_config)"
proof -
  have "\<not> unsociable noon (location_of bob) default_config" by code_simp
  then have "\<forall>p \<in> set [ann, bob].
      answers_le (get [''1'' \<mapsto> [noon \<mapsto> TierOK], ''2'' \<mapsto> [noon \<mapsto> TierNo]])
        (get [''1'' \<mapsto> [noon \<mapsto> TierOK], ''2'' \<mapsto> [noon \<mapsto> TierOK]]) noon default_config p"
    by (simp add: answers_le_def get_def ann_def bob_def)
  moreover have "\<not> eliminated (score_slot noon [ann, bob]
      [''1'' \<mapsto> [noon \<mapsto> TierOK], ''2'' \<mapsto> [noon \<mapsto> TierNo]] default_config)"
    by (simp add: score_slot_def score_fields vetoes_def get_def ann_def bob_def)
  ultimately show ?thesis using score_slot_mono [OF default_config_ok] by blast
qed

end
