(* ===== verification/Intervals.thy ===== *)
theory Intervals
  imports Prelude
begin

text \<open>
  \<^verbatim>\<open>api/internal/icsparse/icsparse.go\<close>, lines 25 to 88: busy intervals, their overlap and the
  normal form \<open>merge_intervals\<close> that every importer returns. The sort of the code compares starts, then
  ends; that is a linear order on intervals, so its result is the one sorted rearrangement, and the model
  uses \<open>sort\<close> on the instance of \<open>linorder\<close> below.

  Main facts: merging keeps the covered instants, leaves gaps between all its intervals, and is
  idempotent; the interface \<open>busy_normaliser\<close> is what the clients of a normalised calendar use.
\<close>

section \<open>Intervals\<close>

datatype interval = Interval (i_start: instant) (i_end: instant)

definition valid_interval :: "interval \<Rightarrow> bool" where
  "valid_interval i \<longleftrightarrow> i_end i > i_start i"

definition overlaps :: "interval \<Rightarrow> interval \<Rightarrow> bool" where
  "overlaps i j \<longleftrightarrow> i_start i < i_end j \<and> i_start j < i_end i"

text \<open>An interval is half-open: it covers its start and not its end.\<close>

definition covers :: "interval \<Rightarrow> instant \<Rightarrow> bool" where
  "covers i t \<longleftrightarrow> i_start i \<le> t \<and> t < i_end i"

lemma overlaps_iff_common:
  "valid_interval i \<Longrightarrow> valid_interval j \<Longrightarrow> overlaps i j \<longleftrightarrow> (\<exists>t. covers i t \<and> covers j t)"
  unfolding overlaps_def covers_def valid_interval_def
  by (auto intro: exI [of _ "max (i_start i) (i_start j)"])

instantiation interval :: linorder
begin

definition less_interval :: "interval \<Rightarrow> interval \<Rightarrow> bool" where
  "less_interval a b \<longleftrightarrow>
     (if i_start a = i_start b then i_end a < i_end b else i_start a < i_start b)"

definition less_eq_interval :: "interval \<Rightarrow> interval \<Rightarrow> bool" where
  "less_eq_interval a b \<longleftrightarrow> a < b \<or> a = b"

instance
proof
  fix a b c :: interval
  show "(a < b) = (a \<le> b \<and> \<not> b \<le> a)" "a \<le> a" "a \<le> b \<or> b \<le> a"
    by (cases a; cases b; auto simp: less_interval_def less_eq_interval_def split: if_splits)+
  show "a \<le> b \<Longrightarrow> b \<le> c \<Longrightarrow> a \<le> c" "a \<le> b \<Longrightarrow> b \<le> a \<Longrightarrow> a = b"
    by (cases a; cases b; cases c; auto simp: less_interval_def less_eq_interval_def split: if_splits)+
qed

end

lemma interval_le_start: "a \<le> b \<Longrightarrow> i_start a \<le> i_start b"
  by (auto simp: less_eq_interval_def less_interval_def split: if_splits)

section \<open>Merging\<close>

definition merge_step :: "interval list \<Rightarrow> interval \<Rightarrow> interval list" where
  "merge_step out cur =
     (let l = last out in
      if i_start cur > i_end l then out @ [cur]
      else if i_end cur > i_end l then butlast out @ [Interval (i_start l) (i_end cur)]
      else out)"

definition merge_intervals :: "interval list \<Rightarrow> interval list" where
  "merge_intervals xs =
     (case sort xs of [] \<Rightarrow> [] | x # rest \<Rightarrow> foldl merge_step [x] rest)"

abbreviation covered :: "interval list \<Rightarrow> instant \<Rightarrow> bool" where
  "covered xs t \<equiv> \<exists>i \<in> set xs. covers i t"

abbreviation separated :: "interval list \<Rightarrow> bool" where
  "separated \<equiv> successively (\<lambda>a b. i_end a < i_start b)"

definition merge_inv :: "interval list \<Rightarrow> interval list \<Rightarrow> bool" where
  "merge_inv seen out \<longleftrightarrow> out \<noteq> [] \<and> separated out \<and> (\<forall>t. covered out t \<longleftrightarrow> covered seen t)
     \<and> (\<exists>i \<in> set seen. i_start (last out) = i_start i) \<and> (list_all valid_interval seen \<longrightarrow> list_all valid_interval out)"

lemma merge_step_snoc:
  "merge_step (out @ [l]) cur =
     (if i_start cur > i_end l then out @ [l, cur]
      else if i_end cur > i_end l then out @ [Interval (i_start l) (i_end cur)]
      else out @ [l])"
  by (simp add: merge_step_def)

lemma merge_inv_step:
  assumes "merge_inv seen out" "\<forall>i \<in> set seen. i \<le> cur"
  shows "merge_inv (seen @ [cur]) (merge_step out cur)"
proof -
  obtain out' l where out: "out = out' @ [l]" using assms(1) by (auto simp: merge_inv_def intro: rev_exhaust)
  from assms(1) have inv: "separated (out' @ [l])" "\<And>t. covered (out' @ [l]) t \<longleftrightarrow> covered seen t"
      "\<exists>i \<in> set seen. i_start l = i_start i" "list_all valid_interval seen \<Longrightarrow> list_all valid_interval (out' @ [l])"
    by (auto simp: merge_inv_def out)
  have start: "i_start l \<le> i_start cur" using inv(3) assms(2) interval_le_start by fastforce
  consider (gap) "i_end l < i_start cur" | (grow) "i_start cur \<le> i_end l" "i_end l < i_end cur"
    | (inside) "i_start cur \<le> i_end l" "i_end cur \<le> i_end l" by linarith
  then show ?thesis
  proof cases
    case gap
    have "covered (out' @ [l, cur]) t \<longleftrightarrow> covered (seen @ [cur]) t" for t using inv(2) [of t] by auto
    moreover have "separated (out' @ [l, cur])"
      using inv(1) gap by (cases out' rule: rev_cases) (auto simp: successively_append_iff)
    ultimately show ?thesis using gap inv(4) by (auto simp: out merge_step_snoc merge_inv_def)
  next
    case grow
    let ?l = "Interval (i_start l) (i_end cur)"
    have "covers ?l t \<longleftrightarrow> covers l t \<or> covers cur t" for t using grow start by (auto simp: covers_def)
    then have "covered (out' @ [?l]) t \<longleftrightarrow> covered (seen @ [cur]) t" for t using inv(2) [of t] by auto
    moreover have "separated (out' @ [?l])"
      using inv(1) by (cases out' rule: rev_cases) (auto simp: successively_append_iff)
    ultimately show ?thesis using grow start inv(3,4)
      by (auto simp: out merge_step_snoc merge_inv_def valid_interval_def)
  next
    case inside
    have "covers cur t \<Longrightarrow> covers l t" for t using inside start by (auto simp: covers_def)
    then have "covered (out' @ [l]) t \<longleftrightarrow> covered (seen @ [cur]) t" for t using inv(2) [of t] by auto
    then show ?thesis using inside inv by (auto simp: out merge_step_snoc merge_inv_def)
  qed
qed

lemma merge_inv_fold:
  "sorted (seen @ rest) \<Longrightarrow> merge_inv seen out \<Longrightarrow> merge_inv (seen @ rest) (foldl merge_step out rest)"
proof (induction rest arbitrary: seen out)
  case (Cons c rest)
  have "merge_inv (seen @ [c]) (merge_step out c)"
    using Cons.prems by (intro merge_inv_step) (auto simp: sorted_append)
  then show ?case using Cons.IH [of "seen @ [c]"] Cons.prems(1) by simp
qed simp

lemma merge_intervals_inv:
  assumes "xs \<noteq> []"
  shows "merge_inv (sort xs) (merge_intervals xs)"
proof -
  obtain x rest where s: "sort xs = x # rest" using assms
    by (cases "sort xs") (auto dest: arg_cong [of _ _ length])
  have "sorted ([x] @ rest)" using sorted_sort [of xs] by (simp add: s)
  then have "merge_inv ([x] @ rest) (foldl merge_step [x] rest)"
    by (rule merge_inv_fold) (simp add: merge_inv_def)
  then show ?thesis by (simp add: merge_intervals_def s)
qed

lemma merge_covered: "covered (merge_intervals xs) t \<longleftrightarrow> covered xs t"
  using merge_intervals_inv [of xs] by (cases "xs = []") (auto simp: merge_inv_def merge_intervals_def)

lemma merge_separated: "separated (merge_intervals xs)"
  using merge_intervals_inv [of xs] by (cases "xs = []") (auto simp: merge_inv_def merge_intervals_def)

lemma merge_valid: "list_all valid_interval xs \<Longrightarrow> list_all valid_interval (merge_intervals xs)"
  using merge_intervals_inv [of xs] by (cases "xs = []") (auto simp: merge_inv_def merge_intervals_def list_all_iff)

lemma separated_sorted:
  assumes "separated xs" "list_all valid_interval xs"
  shows "sorted_wrt (\<lambda>a b. i_end a < i_start b) xs \<and> sorted xs"
  using assms
proof (induction xs rule: induct_list012)
  case (3 x y zs)
  then have "\<forall>z \<in> set (y # zs). i_start y \<le> i_start z"
    by (auto simp: valid_interval_def)
  then show ?case
    using 3 by (force simp: less_eq_interval_def less_interval_def valid_interval_def)
qed auto

lemma merge_id:
  assumes "separated xs" "list_all valid_interval xs"
  shows "merge_intervals xs = xs"
proof -
  have "foldl merge_step (ys @ [y]) zs = ys @ y # zs" if "separated (y # zs)" for ys y zs
    using that
  proof (induction zs arbitrary: ys y)
    case (Cons z zs)
    then show ?case using Cons.IH [of z "ys @ [y]"] by (simp add: merge_step_snoc)
  qed simp
  note fold = this [of _ _ "[]", simplified]
  have "sort xs = xs" using separated_sorted [OF assms] by (simp add: sorted_sort_id)
  then show ?thesis using assms(1) fold by (cases xs) (auto simp: merge_intervals_def)
qed

section \<open>What the clients of a normalised calendar use\<close>

locale busy_normaliser =
  fixes normalise :: "interval list \<Rightarrow> interval list"
  assumes norm_covered: "covered (normalise xs) t \<longleftrightarrow> covered xs t"
    and norm_valid: "list_all valid_interval xs \<Longrightarrow> list_all valid_interval (normalise xs)"
begin

text \<open>whether a span is free can be decided on the normal form.\<close>

lemma free_iff:
  assumes "list_all valid_interval xs" "valid_interval sp"
  shows "(\<exists>b \<in> set (normalise xs). overlaps sp b) \<longleftrightarrow> (\<exists>t. covers sp t \<and> covered xs t)"
proof -
  have "(\<exists>b \<in> set (normalise xs). overlaps sp b) \<longleftrightarrow> (\<exists>b \<in> set (normalise xs). \<exists>t. covers sp t \<and> covers b t)"
    using norm_valid [OF assms(1)] overlaps_iff_common [OF assms(2)] by (auto simp: list_all_iff)
  also have "\<dots> \<longleftrightarrow> (\<exists>t. covers sp t \<and> covered (normalise xs) t)" by blast
  finally show ?thesis by (simp only: norm_covered)
qed

lemma norm_twice: "covered (normalise (normalise xs @ normalise ys)) t \<longleftrightarrow> covered xs t \<or> covered ys t"
proof -
  have "covered (normalise xs @ normalise ys) t \<longleftrightarrow> covered (normalise xs) t \<or> covered (normalise ys) t" by auto
  then show ?thesis by (simp only: norm_covered)
qed

end

interpretation merged: busy_normaliser merge_intervals
  by unfold_locales (rule merge_covered, rule merge_valid)

section \<open>Properties\<close>

text \<open>
  C27: Merging is a normal form of free/busy data: it covers exactly the instants some interval of the
  input covers, each of its intervals ends strictly before the next one starts (so nothing overlaps or
  abuts), and merging again changes nothing.
\<close>

theorem merge_normal_form:
  assumes "list_all valid_interval xs"
  shows "(\<forall>t. (\<exists>i \<in> set (merge_intervals xs). i_start i \<le> t \<and> t < i_end i)
              \<longleftrightarrow> (\<exists>i \<in> set xs. i_start i \<le> t \<and> t < i_end i))
    \<and> sorted_wrt (\<lambda>a b. i_end a < i_start b) (merge_intervals xs)
    \<and> list_all valid_interval (merge_intervals xs)
    \<and> merge_intervals (merge_intervals xs) = merge_intervals xs"
  using merge_covered [of xs, unfolded covers_def] separated_sorted [OF merge_separated merge_valid [OF assms]]
    merge_valid [OF assms] merge_id [OF merge_separated merge_valid [OF assms]]
  by blast

lemma merge_normal_form_witness:
  "merge_intervals [Interval 5 7, Interval 1 3, Interval 3 4, Interval 6 9] = [Interval 1 4, Interval 5 9]
   \<and> merge_intervals [Interval 1 4, Interval 5 9] = [Interval 1 4, Interval 5 9]"
proof -
  have m: "merge_intervals [Interval 5 7, Interval 1 3, Interval 3 4, Interval 6 9] = [Interval 1 4, Interval 5 9]"
    by code_simp
  have "list_all valid_interval [Interval 5 7, Interval 1 3, Interval 3 4, Interval 6 9]"
    by (simp add: valid_interval_def)
  from merge_normal_form [OF this] m show ?thesis by simp
qed

end
