(* ===== verification/Effects.thy ===== *)
theory Effects
  imports Prelude
begin

text \<open>
  Fallible operations on a state, the shape of every store call and every handler: an operation takes
  the state and returns either an error (\<open>Inl\<close>) or a value (\<open>Inr\<close>) together with the state after it.
  \<open>seq\<close> is Go's \<^verbatim>\<open>if err != nil { return err }\<close> between two calls, \<open>catch\<close> a branch on the
  error, and \<open>preserves\<close> says that a predicate of the state survives an operation whatever it returns.
\<close>

type_synonym ('s, 'e, 'a) op = "'s \<Rightarrow> ('e + 'a) \<times> 's"

definition ret :: "'a \<Rightarrow> ('s, 'e, 'a) op" where
  "ret a = (\<lambda>s. (Inr a, s))"

definition fail :: "'e \<Rightarrow> ('s, 'e, 'a) op" where
  "fail e = (\<lambda>s. (Inl e, s))"

definition seq :: "('s, 'e, 'a) op \<Rightarrow> ('a \<Rightarrow> ('s, 'e, 'b) op) \<Rightarrow> ('s, 'e, 'b) op" where
  "seq m k = (\<lambda>s. case m s of (Inl e, s') \<Rightarrow> (Inl e, s') | (Inr a, s') \<Rightarrow> k a s')"

definition catch :: "('s, 'e, 'a) op \<Rightarrow> ('e \<Rightarrow> ('s, 'f, 'b) op) \<Rightarrow> ('a \<Rightarrow> ('s, 'f, 'b) op) \<Rightarrow> ('s, 'f, 'b) op" where
  "catch m h k = (\<lambda>s. case m s of (Inl e, s') \<Rightarrow> h e s' | (Inr a, s') \<Rightarrow> k a s')"

definition of_option :: "'e \<Rightarrow> 'a option \<Rightarrow> ('s, 'e, 'a) op" where
  "of_option e x = (case x of None \<Rightarrow> fail e | Some a \<Rightarrow> ret a)"

definition read :: "('s \<Rightarrow> 'a) \<Rightarrow> ('s, 'e, 'a) op" where
  "read f = (\<lambda>s. (Inr (f s), s))"

text \<open>Run an operation for every element, collecting its values.\<close>

primrec each :: "('a \<Rightarrow> ('s, 'e, 'b) op) \<Rightarrow> 'a list \<Rightarrow> ('s, 'e, 'b list) op" where
  "each f [] = ret []"
| "each f (x # xs) = seq (f x) (\<lambda>y. seq (each f xs) (\<lambda>ys. ret (y # ys)))"

named_theorems op_simps \<open>equations of the operations applied to a state\<close>

lemma ret_apply [op_simps, simp]: "ret a s = (Inr a, s)" by (simp add: ret_def)
lemma fail_apply [op_simps, simp]: "fail e s = (Inl e, s)" by (simp add: fail_def)
lemma read_apply [op_simps, simp]: "read f s = (Inr (f s), s)" by (simp add: read_def)

lemma seq_apply [op_simps]:
  "seq m k s = (case m s of (Inl e, s') \<Rightarrow> (Inl e, s') | (Inr a, s') \<Rightarrow> k a s')"
  by (simp add: seq_def)

lemma catch_apply [op_simps]:
  "catch m h k s = (case m s of (Inl e, s') \<Rightarrow> h e s' | (Inr a, s') \<Rightarrow> k a s')"
  by (simp add: catch_def)

lemma of_option_apply [op_simps]:
  "of_option e x s = (case x of None \<Rightarrow> (Inl e, s) | Some a \<Rightarrow> (Inr a, s))"
  by (simp add: of_option_def split: option.split)

lemma seq_Inr:
  "seq m k s = (Inr b, s') \<longleftrightarrow> (\<exists>a s''. m s = (Inr a, s'') \<and> k a s'' = (Inr b, s'))"
  by (auto simp: seq_apply split: prod.splits sum.splits)

lemma of_option_Inr: "of_option e x s = (Inr a, s') \<longleftrightarrow> x = Some a \<and> s' = s"
  by (auto simp: of_option_apply split: option.splits)

lemmas op_Inr = seq_Inr of_option_Inr

section \<open>Predicates an operation preserves\<close>

definition preserves :: "('s \<Rightarrow> bool) \<Rightarrow> ('s, 'e, 'a) op \<Rightarrow> bool" where
  "preserves P m \<longleftrightarrow> (\<forall>s. P s \<longrightarrow> P (snd (m s)))"

lemma preservesI: "(\<And>s. P s \<Longrightarrow> P (snd (m s))) \<Longrightarrow> preserves P m"
  by (simp add: preserves_def)

lemma preservesD: "preserves P m \<Longrightarrow> P s \<Longrightarrow> P (snd (m s))"
  by (simp add: preserves_def)

lemma preserves_ret [inv_intros]: "preserves P (ret a)"
  by (simp add: preserves_def)

lemma preserves_fail [inv_intros]: "preserves P (fail e)"
  by (simp add: preserves_def)

lemma preserves_read [inv_intros]: "preserves P (read f)"
  by (simp add: preserves_def)

lemma preserves_of_option [inv_intros]: "preserves P (of_option e x)"
  by (simp add: preserves_def of_option_apply split: option.split)

lemma preserves_seq [inv_intros]:
  assumes "preserves P m" "\<And>a. preserves P (k a)"
  shows "preserves P (seq m k)"
proof (rule preservesI)
  fix s assume s: "P s"
  show "P (snd (seq m k s))"
    using preservesD [OF assms(1) s] preservesD [OF assms(2)]
    by (auto simp: seq_apply split: prod.split sum.split)
qed

lemma preserves_catch [inv_intros]:
  assumes "preserves P m" "\<And>e. preserves P (h e)" "\<And>a. preserves P (k a)"
  shows "preserves P (catch m h k)"
proof (rule preservesI)
  fix s assume s: "P s"
  show "P (snd (catch m h k s))"
    using preservesD [OF assms(1) s] preservesD [OF assms(2)] preservesD [OF assms(3)]
    by (auto simp: catch_apply split: prod.split sum.split)
qed

lemma preserves_each [inv_intros]:
  "(\<And>x. x \<in> set xs \<Longrightarrow> preserves P (f x)) \<Longrightarrow> preserves P (each f xs)"
  by (induction xs) (auto intro!: inv_intros)

lemma preserves_if [inv_intros]:
  "(b \<Longrightarrow> preserves P m) \<Longrightarrow> (\<not> b \<Longrightarrow> preserves P n) \<Longrightarrow> preserves P (if b then m else n)"
  by simp

lemma preserves_case_option [inv_intros]:
  "(x = None \<Longrightarrow> preserves P m) \<Longrightarrow> (\<And>a. x = Some a \<Longrightarrow> preserves P (k a))
    \<Longrightarrow> preserves P (case x of None \<Rightarrow> m | Some a \<Rightarrow> k a)"
  by (cases x) auto

lemma preserves_case_sum [inv_intros]:
  "(\<And>e. x = Inl e \<Longrightarrow> preserves P (h e)) \<Longrightarrow> (\<And>a. x = Inr a \<Longrightarrow> preserves P (k a))
    \<Longrightarrow> preserves P (case x of Inl e \<Rightarrow> h e | Inr a \<Rightarrow> k a)"
  by (cases x) auto

lemma preserves_case_prod [inv_intros]:
  "(\<And>a b. x = (a, b) \<Longrightarrow> preserves P (k a b)) \<Longrightarrow> preserves P (case x of (a, b) \<Rightarrow> k a b)"
  by (cases x) auto

lemma preserves_Let [inv_intros]:
  "(\<And>a. preserves P (k a)) \<Longrightarrow> preserves P (Let x k)"
  by (simp add: Let_def)

end
