(* ===== verification/Database.thy ===== *)
theory Database
  imports Slots Scoring Intervals Effects "HOL-Library.Word" "HOL-Library.Product_Lexorder"
    "HOL-Library.List_Lexorder" "HOL-Library.Char_ord"
begin

text \<open>
  The tables of the database and the statements the program runs on them:
  \<^verbatim>\<open>api/internal/dbgen\<close> (the statements, one definition each) on the tables that
  \<^verbatim>\<open>api/migrations\<close> creates. A table is the list of its rows in insertion order. A statement is
  an operation on the \<open>world\<close>: it either succeeds or reports the constraint it would break and changes
  nothing. Defaults of columns come from the world's clock (\<^verbatim>\<open>now()\<close>) and from the environment's
  source of identifiers (\<^verbatim>\<open>gen_random_uuid()\<close>); every draw advances \<open>drawn\<close>.

  What is not under \<^verbatim>\<open>src/\<close> is a field of \<open>env\<close>: the random sources, SHA-256, the time
  zone database and the parser of identifiers in pgx. Failures of the connection are not modelled. The
  instants the program writes are whole seconds, so the microsecond precision of a timestamp loses
  nothing.
\<close>

section \<open>Rows\<close>

type_synonym uuid = "128 word"

record event_row =
  ev_id :: uuid
  ev_slug :: string
  ev_title :: string
  ev_tz :: string
  ev_window_start :: instant
  ev_window_end :: instant
  ev_day_start :: int
  ev_day_end :: int
  ev_slot_minutes :: "32 word"
  ev_status :: string
  ev_decided_slot :: "instant option"
  ev_created :: instant
  ev_expires :: instant
  ev_group :: "uuid option"
  ev_decided_at :: "instant option"

record participant_row =
  pt_id :: uuid
  pt_event :: uuid
  pt_token :: string
  pt_name :: string
  pt_tz :: string
  pt_role :: string
  pt_email :: "string option"
  pt_calendar :: string
  pt_organizer :: bool
  pt_responded :: "instant option"
  pt_created :: instant
  pt_url :: "string option"
  pt_member :: "uuid option"

text \<open>
  The check \<^verbatim>\<open>tier between 0 and 3\<close> makes the column's domain the four tiers, and the code
  stores \<^verbatim>\<open>int16(tier)\<close>, so the column is a \<open>tier\<close>.
\<close>

record response_row =
  rs_participant :: uuid
  rs_slot :: instant
  rs_tier :: tier
  rs_source :: string

text \<open>\<open>busy_blocks\<close> and \<open>group_member_busy_blocks\<close> differ in what the owner is.\<close>

record busy_row =
  bb_owner :: uuid
  bb_start :: instant
  bb_end :: instant
  bb_source :: string
  bb_fetched :: instant

record group_row =
  gr_id :: uuid
  gr_slug :: string
  gr_name :: string
  gr_created_from :: "uuid option"
  gr_created :: instant

record member_row =
  gm_id :: uuid
  gm_group :: uuid
  gm_token :: "string option"
  gm_name :: string
  gm_tz :: string
  gm_role :: string
  gm_calendar :: string
  gm_url :: "string option"
  gm_joined :: instant

record database =
  tbl_events :: "event_row list"
  tbl_participants :: "participant_row list"
  tbl_responses :: "response_row list"
  tbl_busy :: "busy_row list"
  tbl_groups :: "group_row list"
  tbl_members :: "member_row list"
  tbl_member_busy :: "busy_row list"

record env =
  env_uuid :: "nat \<Rightarrow> uuid"
  env_rand :: "nat \<Rightarrow> nat \<Rightarrow> 8 word list"
  env_hash :: "string \<Rightarrow> string"
  env_scan :: "string \<Rightarrow> uuid option"
  env_zone :: "string \<Rightarrow> location option"

record world =
  tables :: database
  drawn :: nat
  clock :: instant

datatype failure = NoRows | Violation string | NotFound | NoFreeSlug | NoParticipants | NoCallerSeat
  | BadZone | BadSlots slots_error

type_synonym 'a query = "(world, failure, 'a) op"

section \<open>Statements in general\<close>

definition draw :: "(nat \<Rightarrow> 'a) \<Rightarrow> 'a query" where
  "draw f = (\<lambda>s. (Inr (f (drawn s)), s\<lparr>drawn := Suc (drawn s)\<rparr>))"

definition now :: "instant query" where
  "now = read clock"

definition select_rows :: "(database \<Rightarrow> 'a) \<Rightarrow> 'a query" where
  "select_rows f = read (\<lambda>s. f (tables s))"

definition select_one :: "(database \<Rightarrow> 'r list) \<Rightarrow> ('r \<Rightarrow> bool) \<Rightarrow> 'r query" where
  "select_one tbl P = (\<lambda>s. of_option NoRows (find P (tbl (tables s))) s)"

text \<open>A write: the constraint it breaks, or the tables after it.\<close>

definition modify :: "(database \<Rightarrow> string option) \<Rightarrow> (database \<Rightarrow> database) \<Rightarrow> unit query" where
  "modify broken f = (\<lambda>s. case broken (tables s) of
     Some c \<Rightarrow> (Inl (Violation c), s)
   | None \<Rightarrow> (Inr (), s\<lparr>tables := f (tables s)\<rparr>))"

text \<open>The first constraint of a list that a row breaks.\<close>

fun first_broken :: "(string \<times> bool) list \<Rightarrow> string option" where
  "first_broken [] = None"
| "first_broken ((name, holds) # cs) = (if holds then first_broken cs else Some name)"

definition set_where :: "('r \<Rightarrow> bool) \<Rightarrow> ('r \<Rightarrow> 'r) \<Rightarrow> 'r list \<Rightarrow> 'r list" where
  "set_where P f rows = map (\<lambda>r. if P r then f r else r) rows"

definition present :: "string \<Rightarrow> bool" where
  "present s \<longleftrightarrow> list_ex (\<lambda>c. c \<noteq> CHR '' '') s"

section \<open>Constraints\<close>

definition event_checks :: "database \<Rightarrow> event_row list \<Rightarrow> event_row \<Rightarrow> (string \<times> bool) list" where
  "event_checks d others e =
     [(''events_day_ordered'', ev_day_start e < ev_day_end e),
      (''events_decided_has_slot'', (ev_status e = ''decided'') = (ev_decided_slot e \<noteq> None)),
      (''events_slot_minutes'', 5 \<le> sint (ev_slot_minutes e) \<and> sint (ev_slot_minutes e) \<le> 480),
      (''events_status_valid'', ev_status e \<in> {''open'', ''decided'', ''expired''}),
      (''events_title_present'', present (ev_title e)),
      (''events_window_ordered'', ev_window_start e \<le> ev_window_end e),
      (''events_pkey'', ev_id e \<notin> ev_id ` set others),
      (''events_slug_key'', ev_slug e \<notin> ev_slug ` set others),
      (''events_group_id_fkey'', case ev_group e of None \<Rightarrow> True | Some g \<Rightarrow> g \<in> gr_id ` set (tbl_groups d))]"

definition participant_checks :: "database \<Rightarrow> participant_row list \<Rightarrow> participant_row \<Rightarrow> (string \<times> bool) list" where
  "participant_checks d others p =
     [(''participants_calendar_valid'', pt_calendar p \<in> {''none'', ''google'', ''ics''}),
      (''participants_name_present'', present (pt_name p)),
      (''participants_role_valid'', pt_role p \<in> {''required'', ''optional''}),
      (''participants_pkey'', pt_id p \<notin> pt_id ` set others),
      (''participants_event_token_idx'', (pt_event p, pt_token p) \<notin> (\<lambda>q. (pt_event q, pt_token q)) ` set others),
      (''participants_event_group_member_idx'',
         pt_member p = None \<or> (pt_event p, pt_member p) \<notin> (\<lambda>q. (pt_event q, pt_member q)) ` set others),
      (''participants_event_id_fkey'', pt_event p \<in> ev_id ` set (tbl_events d)),
      (''participants_group_member_id_fkey'',
         case pt_member p of None \<Rightarrow> True | Some m \<Rightarrow> m \<in> gm_id ` set (tbl_members d))]"

definition member_checks :: "database \<Rightarrow> member_row list \<Rightarrow> member_row \<Rightarrow> (string \<times> bool) list" where
  "member_checks d others m =
     [(''group_members_calendar_valid'', gm_calendar m \<in> {''none'', ''ics''}),
      (''group_members_name_present'', present (gm_name m)),
      (''group_members_role_valid'', gm_role m \<in> {''required'', ''optional''}),
      (''group_members_pkey'', gm_id m \<notin> gm_id ` set others),
      (''group_members_group_token_idx'',
         gm_token m = None \<or> (gm_group m, gm_token m) \<notin> (\<lambda>n. (gm_group n, gm_token n)) ` set others),
      (''group_members_group_id_fkey'', gm_group m \<in> gr_id ` set (tbl_groups d))]"

definition group_checks :: "database \<Rightarrow> group_row \<Rightarrow> (string \<times> bool) list" where
  "group_checks d g =
     [(''groups_name_present'', present (gr_name g)),
      (''groups_pkey'', gr_id g \<notin> gr_id ` set (tbl_groups d)),
      (''groups_slug_key'', gr_slug g \<notin> gr_slug ` set (tbl_groups d)),
      (''groups_created_from_fkey'',
         case gr_created_from g of None \<Rightarrow> True | Some e \<Rightarrow> e \<in> ev_id ` set (tbl_events d))]"


section \<open>\<^verbatim>\<open>events.sql.go\<close>\<close>

record event_params =
  ep_slug :: string
  ep_title :: string
  ep_tz :: string
  ep_window_start :: instant
  ep_window_end :: instant
  ep_day_start :: int
  ep_day_end :: int
  ep_slot_minutes :: "32 word"

definition days_60 :: duration where
  "days_60 = 60 * 24 * hour"

definition create_event_in_group_row :: "env \<Rightarrow> event_params \<Rightarrow> uuid option \<Rightarrow> event_row query" where
  "create_event_in_group_row env arg gid =
     seq (draw (env_uuid env)) (\<lambda>key. seq now (\<lambda>t.
       let row = \<lparr>ev_id = key, ev_slug = ep_slug arg, ev_title = ep_title arg, ev_tz = ep_tz arg,
                  ev_window_start = ep_window_start arg, ev_window_end = ep_window_end arg,
                  ev_day_start = ep_day_start arg, ev_day_end = ep_day_end arg,
                  ev_slot_minutes = ep_slot_minutes arg, ev_status = ''open'', ev_decided_slot = None,
                  ev_created = t, ev_expires = t + days_60, ev_group = gid, ev_decided_at = None\<rparr>
       in seq (modify (\<lambda>d. first_broken (event_checks d (tbl_events d) row))
                      (\<lambda>d. d\<lparr>tbl_events := tbl_events d @ [row]\<rparr>)) (\<lambda>_. ret row)))"

definition create_event_row :: "env \<Rightarrow> event_params \<Rightarrow> event_row query" where
  "create_event_row env arg = create_event_in_group_row env arg None"

text \<open>
  \<^verbatim>\<open>update ... where id = $1 returning ...\<close>: the row found is checked as it will be, against
  the other rows, and \<open>NoRows\<close> is the answer when there is none.
\<close>

definition update_event :: "uuid \<Rightarrow> (event_row \<Rightarrow> event_row) \<Rightarrow> event_row query" where
  "update_event key f =
     seq (select_one tbl_events (\<lambda>e. ev_id e = key)) (\<lambda>e.
     seq (modify (\<lambda>d. first_broken (event_checks d (filter (\<lambda>x. ev_id x \<noteq> key) (tbl_events d)) (f e)))
                 (\<lambda>d. d\<lparr>tbl_events := set_where (\<lambda>x. ev_id x = key) f (tbl_events d)\<rparr>)) (\<lambda>_. ret (f e)))"

definition decide_event_row :: "uuid \<Rightarrow> instant \<Rightarrow> event_row query" where
  "decide_event_row key slot = seq now (\<lambda>t.
     update_event key (\<lambda>e. e\<lparr>ev_status := ''decided'', ev_decided_slot := Some slot, ev_decided_at := Some t\<rparr>))"

definition reopen_event_row :: "uuid \<Rightarrow> event_row query" where
  "reopen_event_row key =
     update_event key (\<lambda>e. e\<lparr>ev_status := ''open'', ev_decided_slot := None, ev_decided_at := None\<rparr>)"

definition link_event_to_group_row :: "uuid \<Rightarrow> uuid option \<Rightarrow> event_row query" where
  "link_event_to_group_row key gid = update_event key (\<lambda>e. e\<lparr>ev_group := gid\<rparr>)"

definition get_event_by_slug_row :: "string \<Rightarrow> event_row query" where
  "get_event_by_slug_row slug = select_one tbl_events (\<lambda>e. ev_slug e = slug)"

text \<open>Deleting events takes their participants, and what hangs off those, with them.\<close>

definition delete_events :: "uuid set \<Rightarrow> database \<Rightarrow> database" where
  "delete_events ids d =
     (let people = pt_id ` set (filter (\<lambda>p. pt_event p \<in> ids) (tbl_participants d)) in
      d\<lparr>tbl_events := filter (\<lambda>e. ev_id e \<notin> ids) (tbl_events d),
        tbl_participants := filter (\<lambda>p. pt_event p \<notin> ids) (tbl_participants d),
        tbl_responses := filter (\<lambda>r. rs_participant r \<notin> people) (tbl_responses d),
        tbl_busy := filter (\<lambda>b. bb_owner b \<notin> people) (tbl_busy d),
        tbl_groups := map (\<lambda>g. case gr_created_from g of None \<Rightarrow> g
           | Some e \<Rightarrow> if e \<in> ids then g\<lparr>gr_created_from := None\<rparr> else g) (tbl_groups d)\<rparr>)"

definition expired_ids :: "instant \<Rightarrow> nat \<Rightarrow> database \<Rightarrow> uuid list" where
  "expired_ids t n d = map ev_id (take n (sort_key ev_expires (filter (\<lambda>e. ev_expires e < t) (tbl_events d))))"

definition delete_expired_events :: "nat \<Rightarrow> nat query" where
  "delete_expired_events limit = seq now (\<lambda>t.
     seq (select_rows (expired_ids t limit)) (\<lambda>ids.
     seq (modify (\<lambda>_. None) (delete_events (set ids))) (\<lambda>_. ret (length ids))))"

section \<open>\<^verbatim>\<open>participants.sql.go\<close> and \<^verbatim>\<open>responses.sql.go\<close>\<close>

record participant_params =
  pp_event :: uuid
  pp_token :: string
  pp_name :: string
  pp_tz :: string
  pp_role :: string
  pp_organizer :: bool
  pp_member :: "uuid option"

definition insert_participant :: "env \<Rightarrow> participant_params \<Rightarrow> participant_row query" where
  "insert_participant env arg =
     seq (draw (env_uuid env)) (\<lambda>key. seq now (\<lambda>t.
       let row = \<lparr>pt_id = key, pt_event = pp_event arg, pt_token = pp_token arg, pt_name = pp_name arg,
                  pt_tz = pp_tz arg, pt_role = pp_role arg, pt_email = None, pt_calendar = ''none'',
                  pt_organizer = pp_organizer arg, pt_responded = None, pt_created = t, pt_url = None,
                  pt_member = pp_member arg\<rparr>
       in seq (modify (\<lambda>d. first_broken (participant_checks d (tbl_participants d) row))
                      (\<lambda>d. d\<lparr>tbl_participants := tbl_participants d @ [row]\<rparr>)) (\<lambda>_. ret row)))"

definition create_participant_row :: "env \<Rightarrow> participant_params \<Rightarrow> participant_row query" where
  "create_participant_row env arg = insert_participant env (arg\<lparr>pp_member := None\<rparr>)"

definition create_participant_from_member_row :: "env \<Rightarrow> participant_params \<Rightarrow> participant_row query" where
  "create_participant_from_member_row env arg = insert_participant env (arg\<lparr>pp_organizer := False\<rparr>)"

definition update_participant :: "uuid \<Rightarrow> (participant_row \<Rightarrow> participant_row) \<Rightarrow> participant_row query" where
  "update_participant key f =
     seq (select_one tbl_participants (\<lambda>p. pt_id p = key)) (\<lambda>p.
     seq (modify (\<lambda>d. first_broken (participant_checks d (filter (\<lambda>x. pt_id x \<noteq> key) (tbl_participants d)) (f p)))
                 (\<lambda>d. d\<lparr>tbl_participants := set_where (\<lambda>x. pt_id x = key) f (tbl_participants d)\<rparr>)) (\<lambda>_. ret (f p)))"

text \<open>An \<^verbatim>\<open>:exec\<close> update does not mind that no row matched.\<close>

definition exec_update :: "'a query \<Rightarrow> unit query" where
  "exec_update m = catch m (\<lambda>e. if e = NoRows then ret () else fail e) (\<lambda>_. ret ())"

definition link_participant_row :: "uuid \<Rightarrow> uuid option \<Rightarrow> participant_row query" where
  "link_participant_row key m = update_participant key (\<lambda>p. p\<lparr>pt_member := m\<rparr>)"

definition mark_participant_responded :: "uuid \<Rightarrow> unit query" where
  "mark_participant_responded key = seq now (\<lambda>t.
     exec_update (update_participant key (\<lambda>p. p\<lparr>pt_responded := Some t\<rparr>)))"

definition set_calendar_source :: "uuid \<Rightarrow> string \<Rightarrow> string option \<Rightarrow> unit query" where
  "set_calendar_source key source url =
     exec_update (update_participant key (\<lambda>p. p\<lparr>pt_calendar := source, pt_url := url\<rparr>))"

definition rotate_participant_token :: "uuid \<Rightarrow> string \<Rightarrow> participant_row query" where
  "rotate_participant_token key token = update_participant key (\<lambda>p. p\<lparr>pt_token := token\<rparr>)"

definition get_participant_by_token_row :: "uuid \<Rightarrow> string \<Rightarrow> participant_row query" where
  "get_participant_by_token_row event token =
     select_one tbl_participants (\<lambda>p. pt_event p = event \<and> pt_token p = token)"

definition get_participant_by_member_row :: "uuid \<Rightarrow> uuid \<Rightarrow> participant_row query" where
  "get_participant_by_member_row event m =
     select_one tbl_participants (\<lambda>p. pt_event p = event \<and> pt_member p = Some m)"

definition list_participants_rows :: "uuid \<Rightarrow> participant_row list query" where
  "list_participants_rows event = select_rows (\<lambda>d.
     sort_key (\<lambda>p. (pt_created p, pt_id p)) (filter (\<lambda>p. pt_event p = event) (tbl_participants d)))"

definition delete_responses_rows :: "uuid \<Rightarrow> unit query" where
  "delete_responses_rows key =
     modify (\<lambda>_. None) (\<lambda>d. d\<lparr>tbl_responses := filter (\<lambda>r. rs_participant r \<noteq> key) (tbl_responses d)\<rparr>)"

definition response_checks :: "database \<Rightarrow> response_row list \<Rightarrow> (string \<times> bool) list" where
  "response_checks d new =
     (let key = (\<lambda>r. (rs_participant r, rs_slot r)) in
      [(''responses_source_valid'', list_all (\<lambda>r. rs_source r \<in> {''manual'', ''calendar'', ''coarse''}) new),
       (''responses_pkey'', distinct (map key new) \<and> list_all (\<lambda>r. key r \<notin> key ` set (tbl_responses d)) new),
       (''responses_participant_id_fkey'', list_all (\<lambda>r. rs_participant r \<in> pt_id ` set (tbl_participants d)) new)])"

definition insert_responses_rows :: "response_row list \<Rightarrow> unit query" where
  "insert_responses_rows new =
     modify (\<lambda>d. first_broken (response_checks d new)) (\<lambda>d. d\<lparr>tbl_responses := tbl_responses d @ new\<rparr>)"

definition list_responses_rows :: "uuid \<Rightarrow> response_row list query" where
  "list_responses_rows key =
     select_rows (\<lambda>d. sort_key rs_slot (filter (\<lambda>r. rs_participant r = key) (tbl_responses d)))"

definition list_event_responses_rows :: "uuid \<Rightarrow> response_row list query" where
  "list_event_responses_rows event = select_rows (\<lambda>d.
     sort_key (\<lambda>r. (rs_participant r, rs_slot r))
       (filter (\<lambda>r. \<exists>p \<in> set (tbl_participants d). pt_id p = rs_participant r \<and> pt_event p = event) (tbl_responses d)))"

definition delete_busy_rows :: "uuid \<Rightarrow> unit query" where
  "delete_busy_rows key = modify (\<lambda>_. None) (\<lambda>d. d\<lparr>tbl_busy := filter (\<lambda>b. bb_owner b \<noteq> key) (tbl_busy d)\<rparr>)"

definition busy_rows :: "uuid \<Rightarrow> interval list \<Rightarrow> string \<Rightarrow> instant \<Rightarrow> busy_row list" where
  "busy_rows owner blocks source t = map (\<lambda>b. \<lparr>bb_owner = owner, bb_start = i_start b, bb_end = i_end b,
     bb_source = source, bb_fetched = t\<rparr>) blocks"

definition insert_busy_rows :: "uuid \<Rightarrow> interval list \<Rightarrow> string \<Rightarrow> unit query" where
  "insert_busy_rows owner blocks source = seq now (\<lambda>t.
     modify (\<lambda>d. first_broken
       [(''busy_blocks_ordered'', list_all valid_interval blocks),
        (''busy_blocks_source_valid'', blocks = [] \<or> source \<in> {''google'', ''ics''}),
        (''busy_blocks_participant_id_fkey'', blocks = [] \<or> owner \<in> pt_id ` set (tbl_participants d))])
      (\<lambda>d. d\<lparr>tbl_busy := tbl_busy d @ busy_rows owner blocks source t\<rparr>))"

definition list_busy_rows :: "uuid \<Rightarrow> busy_row list query" where
  "list_busy_rows key = select_rows (\<lambda>d. sort_key bb_start (filter (\<lambda>b. bb_owner b = key) (tbl_busy d)))"


section \<open>\<^verbatim>\<open>groups.sql.go\<close>\<close>

definition create_group_row :: "env \<Rightarrow> string \<Rightarrow> string \<Rightarrow> uuid option \<Rightarrow> group_row query" where
  "create_group_row env slug name from =
     seq (draw (env_uuid env)) (\<lambda>key. seq now (\<lambda>t.
       let row = \<lparr>gr_id = key, gr_slug = slug, gr_name = name, gr_created_from = from, gr_created = t\<rparr>
       in seq (modify (\<lambda>d. first_broken (group_checks d row)) (\<lambda>d. d\<lparr>tbl_groups := tbl_groups d @ [row]\<rparr>))
              (\<lambda>_. ret row)))"

record member_params =
  mp_group :: uuid
  mp_token :: "string option"
  mp_name :: string
  mp_tz :: string
  mp_role :: string

definition create_member_row :: "env \<Rightarrow> member_params \<Rightarrow> member_row query" where
  "create_member_row env arg =
     seq (draw (env_uuid env)) (\<lambda>key. seq now (\<lambda>t.
       let row = \<lparr>gm_id = key, gm_group = mp_group arg, gm_token = mp_token arg, gm_name = mp_name arg,
                  gm_tz = mp_tz arg, gm_role = mp_role arg, gm_calendar = ''none'', gm_url = None, gm_joined = t\<rparr>
       in seq (modify (\<lambda>d. first_broken (member_checks d (tbl_members d) row))
                      (\<lambda>d. d\<lparr>tbl_members := tbl_members d @ [row]\<rparr>)) (\<lambda>_. ret row)))"

definition update_member :: "uuid \<Rightarrow> (member_row \<Rightarrow> member_row) \<Rightarrow> member_row query" where
  "update_member key f =
     seq (select_one tbl_members (\<lambda>m. gm_id m = key)) (\<lambda>m.
     seq (modify (\<lambda>d. first_broken (member_checks d (filter (\<lambda>x. gm_id x \<noteq> key) (tbl_members d)) (f m)))
                 (\<lambda>d. d\<lparr>tbl_members := set_where (\<lambda>x. gm_id x = key) f (tbl_members d)\<rparr>)) (\<lambda>_. ret (f m)))"

definition claim_member_row :: "uuid \<Rightarrow> string \<Rightarrow> member_row query" where
  "claim_member_row key token = update_member key (\<lambda>m. m\<lparr>gm_token := Some token\<rparr>)"

definition set_member_calendar :: "uuid \<Rightarrow> string \<Rightarrow> string option \<Rightarrow> unit query" where
  "set_member_calendar key source url =
     exec_update (update_member key (\<lambda>m. m\<lparr>gm_calendar := source, gm_url := url\<rparr>))"

definition get_group_by_id_row :: "uuid \<Rightarrow> group_row query" where
  "get_group_by_id_row key = select_one tbl_groups (\<lambda>g. gr_id g = key)"

definition get_group_by_slug_row :: "string \<Rightarrow> group_row query" where
  "get_group_by_slug_row slug = select_one tbl_groups (\<lambda>g. gr_slug g = slug)"

definition get_member_by_id_row :: "uuid \<Rightarrow> uuid \<Rightarrow> member_row query" where
  "get_member_by_id_row key gid = select_one tbl_members (\<lambda>m. gm_id m = key \<and> gm_group m = gid)"

definition get_member_by_id_unscoped_row :: "uuid \<Rightarrow> member_row query" where
  "get_member_by_id_unscoped_row key = select_one tbl_members (\<lambda>m. gm_id m = key)"

definition get_member_by_token_row :: "uuid \<Rightarrow> string \<Rightarrow> member_row query" where
  "get_member_by_token_row gid token = select_one tbl_members (\<lambda>m. gm_group m = gid \<and> gm_token m = Some token)"

definition list_members_rows :: "uuid \<Rightarrow> member_row list query" where
  "list_members_rows gid = select_rows (\<lambda>d.
     sort_key (\<lambda>m. (gm_joined m, gm_id m)) (filter (\<lambda>m. gm_group m = gid) (tbl_members d)))"

text \<open>\<^verbatim>\<open>order by ... desc\<close> is a sort on the negated instant.\<close>

definition list_group_events_rows :: "uuid \<Rightarrow> event_row list query" where
  "list_group_events_rows gid = select_rows (\<lambda>d.
     sort_key (\<lambda>e. - ev_created e) (filter (\<lambda>e. ev_group e = Some gid) (tbl_events d)))"

definition decision_of :: "event_row \<Rightarrow> (instant \<times> instant) option" where
  "decision_of e = (case (ev_decided_slot e, ev_decided_at e) of
     (Some slot, Some t) \<Rightarrow> if ev_status e = ''decided'' then Some (slot, t) else None | _ \<Rightarrow> None)"

definition list_group_decisions_rows :: "uuid \<Rightarrow> (instant \<times> instant) list query" where
  "list_group_decisions_rows gid = select_rows (\<lambda>d.
     sort_key (\<lambda>(slot, t). - t) (List.map_filter decision_of (filter (\<lambda>e. ev_group e = Some gid) (tbl_events d))))"

definition delete_member_busy_rows :: "uuid \<Rightarrow> unit query" where
  "delete_member_busy_rows key =
     modify (\<lambda>_. None) (\<lambda>d. d\<lparr>tbl_member_busy := filter (\<lambda>b. bb_owner b \<noteq> key) (tbl_member_busy d)\<rparr>)"

definition insert_member_busy_rows :: "uuid \<Rightarrow> interval list \<Rightarrow> string \<Rightarrow> unit query" where
  "insert_member_busy_rows owner blocks source = seq now (\<lambda>t.
     modify (\<lambda>d. first_broken
       [(''gmbb_ordered'', list_all valid_interval blocks),
        (''gmbb_source_valid'', blocks = [] \<or> source = ''ics''),
        (''group_member_busy_blocks_group_member_id_fkey'', blocks = [] \<or> owner \<in> gm_id ` set (tbl_members d))])
      (\<lambda>d. d\<lparr>tbl_member_busy := tbl_member_busy d @ busy_rows owner blocks source t\<rparr>))"

definition list_member_busy_rows :: "uuid \<Rightarrow> busy_row list query" where
  "list_member_busy_rows key =
     select_rows (\<lambda>d. sort_key bb_start (filter (\<lambda>b. bb_owner b = key) (tbl_member_busy d)))"

section \<open>Transactions\<close>

text \<open>
  A transaction that fails puts the tables back; what it drew from the random sources stays drawn.
\<close>

definition transaction :: "'a query \<Rightarrow> 'a query" where
  "transaction m = (\<lambda>s. case m s of
     (Inl e, s') \<Rightarrow> (Inl e, s'\<lparr>tables := tables s\<rparr>)
   | (Inr a, s') \<Rightarrow> (Inr a, s'))"

end
