(* ===== verification/Integrity.thy ===== *)
theory Integrity
  imports Database
begin

text \<open>
  The integrity of the database, \<open>db_ok\<close>: keys and slugs are unique, every reference points at a row,
  every row satisfies the checks of its table, an event is decided exactly when it names a slot. Each
  statement preserves it, and so does a transaction of preserving statements, whether it commits or
  rolls back. The store's operations inherit the invariant from here.
\<close>

definition event_ok :: "database \<Rightarrow> event_row \<Rightarrow> bool" where
  "event_ok d e \<longleftrightarrow> ev_window_start e \<le> ev_window_end e \<and> ev_day_start e < ev_day_end e
     \<and> 5 \<le> sint (ev_slot_minutes e) \<and> sint (ev_slot_minutes e) \<le> 480 \<and> present (ev_title e)
     \<and> ev_status e \<in> {''open'', ''decided'', ''expired''}
     \<and> (ev_status e = ''decided'') = (ev_decided_slot e \<noteq> None)
     \<and> (\<forall>g. ev_group e = Some g \<longrightarrow> g \<in> gr_id ` set (tbl_groups d))"

definition participant_ok :: "database \<Rightarrow> participant_row \<Rightarrow> bool" where
  "participant_ok d p \<longleftrightarrow> pt_calendar p \<in> {''none'', ''google'', ''ics''} \<and> present (pt_name p)
     \<and> pt_role p \<in> {''required'', ''optional''} \<and> pt_event p \<in> ev_id ` set (tbl_events d)
     \<and> (\<forall>m. pt_member p = Some m \<longrightarrow> m \<in> gm_id ` set (tbl_members d))"

definition response_ok :: "database \<Rightarrow> response_row \<Rightarrow> bool" where
  "response_ok d r \<longleftrightarrow> rs_source r \<in> {''manual'', ''calendar'', ''coarse''}
     \<and> rs_participant r \<in> pt_id ` set (tbl_participants d)"

definition busy_ok :: "uuid set \<Rightarrow> string set \<Rightarrow> busy_row \<Rightarrow> bool" where
  "busy_ok owners sources b \<longleftrightarrow> bb_start b < bb_end b \<and> bb_source b \<in> sources \<and> bb_owner b \<in> owners"

definition member_ok :: "database \<Rightarrow> member_row \<Rightarrow> bool" where
  "member_ok d m \<longleftrightarrow> gm_calendar m \<in> {''none'', ''ics''} \<and> present (gm_name m)
     \<and> gm_role m \<in> {''required'', ''optional''} \<and> gm_group m \<in> gr_id ` set (tbl_groups d)"

definition group_ok :: "database \<Rightarrow> group_row \<Rightarrow> bool" where
  "group_ok d g \<longleftrightarrow> present (gr_name g)
     \<and> (\<forall>e. gr_created_from g = Some e \<longrightarrow> e \<in> ev_id ` set (tbl_events d))"

abbreviation seat_key :: "participant_row \<Rightarrow> uuid \<times> uuid option" where
  "seat_key p \<equiv> (pt_event p, pt_member p)"

abbreviation linked :: "participant_row \<Rightarrow> bool" where
  "linked p \<equiv> pt_member p \<noteq> None"

abbreviation claimed :: "member_row \<Rightarrow> bool" where
  "claimed m \<equiv> gm_token m \<noteq> None"

definition events_ok :: "database \<Rightarrow> bool" where
  "events_ok d \<longleftrightarrow> distinct (map ev_id (tbl_events d)) \<and> distinct (map ev_slug (tbl_events d))
     \<and> (\<forall>e \<in> set (tbl_events d). event_ok d e)"

definition participants_ok :: "database \<Rightarrow> bool" where
  "participants_ok d \<longleftrightarrow> distinct (map pt_id (tbl_participants d))
     \<and> distinct (map (\<lambda>p. (pt_event p, pt_token p)) (tbl_participants d))
     \<and> distinct (map seat_key (filter linked (tbl_participants d)))
     \<and> (\<forall>p \<in> set (tbl_participants d). participant_ok d p)"

definition answers_ok :: "database \<Rightarrow> bool" where
  "answers_ok d \<longleftrightarrow> distinct (map (\<lambda>r. (rs_participant r, rs_slot r)) (tbl_responses d))
     \<and> (\<forall>r \<in> set (tbl_responses d). response_ok d r)
     \<and> (\<forall>b \<in> set (tbl_busy d). busy_ok (pt_id ` set (tbl_participants d)) {''google'', ''ics''} b)"

definition groups_ok :: "database \<Rightarrow> bool" where
  "groups_ok d \<longleftrightarrow> distinct (map gr_id (tbl_groups d)) \<and> distinct (map gr_slug (tbl_groups d))
     \<and> (\<forall>g \<in> set (tbl_groups d). group_ok d g)"

definition members_ok :: "database \<Rightarrow> bool" where
  "members_ok d \<longleftrightarrow> distinct (map gm_id (tbl_members d))
     \<and> distinct (map (\<lambda>m. (gm_group m, gm_token m)) (filter claimed (tbl_members d)))
     \<and> (\<forall>m \<in> set (tbl_members d). member_ok d m)
     \<and> (\<forall>b \<in> set (tbl_member_busy d). busy_ok (gm_id ` set (tbl_members d)) {''ics''} b)"

definition db_ok :: "database \<Rightarrow> bool" where
  "db_ok d \<longleftrightarrow> events_ok d \<and> participants_ok d \<and> answers_ok d \<and> groups_ok d \<and> members_ok d"

lemmas table_ok_defs = db_ok_def events_ok_def participants_ok_def answers_ok_def groups_ok_def members_ok_def
lemmas row_ok_defs = event_ok_def participant_ok_def response_ok_def busy_ok_def member_ok_def group_ok_def

abbreviation intact :: "world \<Rightarrow> bool" where
  "intact s \<equiv> db_ok (tables s)"

section \<open>Updating one row\<close>

lemma set_where_split:
  assumes "distinct (map key xs)" "e \<in> set xs" "key e = k"
  obtains ys zs where "xs = ys @ e # zs" "set_where (\<lambda>x. key x = k) f xs = ys @ f e # zs"
    "filter (\<lambda>x. key x \<noteq> k) xs = ys @ zs"
proof -
  obtain ys zs where xs: "xs = ys @ e # zs" using assms(2) by (auto simp: in_set_conv_decomp)
  then have other: "\<forall>x \<in> set ys \<union> set zs. key x \<noteq> k" using assms(1,3) by auto (metis imageI)+
  have "set_where (\<lambda>x. key x = k) f us = us" "filter (\<lambda>x. key x \<noteq> k) us = us"
    if "\<forall>x \<in> set us. key x \<noteq> k" for us
    using that by (induction us) (auto simp: set_where_def)
  from this [of ys] this [of zs] show ?thesis
    using that [OF xs] xs other assms(3) by (auto simp: set_where_def)
qed

lemma set_where_distinct:
  assumes "distinct (map key xs)" "e \<in> set xs" "key e = k"
    "distinct (map g xs)" "g (f e) \<notin> g ` set (filter (\<lambda>x. key x \<noteq> k) xs)"
  shows "distinct (map g (set_where (\<lambda>x. key x = k) f xs))"
proof -
  obtain ys zs where s: "xs = ys @ e # zs" "set_where (\<lambda>x. key x = k) f xs = ys @ f e # zs"
    "filter (\<lambda>x. key x \<noteq> k) xs = ys @ zs" by (rule set_where_split [OF assms(1-3)])
  show ?thesis using assms(4,5) unfolding s(2,3) unfolding s(1) by auto
qed

lemma set_where_distinct_filter:
  assumes "distinct (map key xs)" "e \<in> set xs" "key e = k" "distinct (map g (filter P xs))"
    "P (f e) \<Longrightarrow> g (f e) \<notin> g ` set (filter (\<lambda>x. key x \<noteq> k) xs)"
  shows "distinct (map g (filter P (set_where (\<lambda>x. key x = k) f xs)))"
proof -
  obtain ys zs where s: "xs = ys @ e # zs" "set_where (\<lambda>x. key x = k) f xs = ys @ f e # zs"
    "filter (\<lambda>x. key x \<noteq> k) xs = ys @ zs" by (rule set_where_split [OF assms(1-3)])
  show ?thesis using assms(4,5) unfolding s(2,3) unfolding s(1) by (cases "P e") auto
qed

lemma set_where_map:
  "(\<And>x. key (f x) = key x) \<Longrightarrow> map key (set_where P f xs) = map key xs"
  by (induction xs) (auto simp: set_where_def)

lemma set_where_image: "(\<And>x. key (f x) = key x) \<Longrightarrow> key ` set (set_where P f xs) = key ` set xs"
  using set_where_map [of key f P xs] by (metis image_set)

lemma set_where_all:
  assumes "distinct (map key xs)" "e \<in> set xs" "key e = k" "\<forall>x \<in> set xs. Q x" "Q (f e)"
  shows "\<forall>x \<in> set (set_where (\<lambda>x. key x = k) f xs). Q x"
proof -
  obtain ys zs where s: "xs = ys @ e # zs" "set_where (\<lambda>x. key x = k) f xs = ys @ f e # zs"
    by (rule set_where_split [OF assms(1-3)])
  show ?thesis using assms(4,5) unfolding s(2) unfolding s(1) by auto
qed

lemma first_broken_None: "first_broken cs = None \<longleftrightarrow> list_all snd cs"
  by (induction cs rule: first_broken.induct) auto

declare first_broken.simps [simp del]

lemma find_Some_mem: "find P xs = Some x \<Longrightarrow> x \<in> set xs \<and> P x"
  by (auto simp: find_Some_prefix)

section \<open>Statements preserve integrity\<close>

lemma preserves_modify:
  assumes "\<And>d. db_ok d \<Longrightarrow> broken d = None \<Longrightarrow> db_ok (f d)"
  shows "preserves intact (modify broken f)"
  using assms by (auto simp: preserves_def modify_def split: option.split)

lemma preserves_draw [inv_intros]: "preserves intact (draw f)"
  by (simp add: preserves_def draw_def)

lemma preserves_select [inv_intros]: "preserves intact (select_one tbl P)"
  by (simp add: preserves_def select_one_def of_option_apply split: option.split)

lemma preserves_select_rows [inv_intros]: "preserves intact (select_rows f)"
  by (simp add: select_rows_def preserves_read)

lemma preserves_now [inv_intros]: "preserves intact now"
  by (simp add: now_def preserves_read)

lemma preserves_exec [inv_intros]: "preserves intact m \<Longrightarrow> preserves intact (exec_update m)"
  unfolding exec_update_def by (intro inv_intros)

lemma preserves_transaction [inv_intros]: "preserves intact m \<Longrightarrow> preserves intact (transaction m)"
  by (auto simp: preserves_def transaction_def split: prod.splits sum.splits)

text \<open>The update that a statement makes to the row it selected.\<close>

lemma preserves_select_modify:
  assumes "\<And>d e. db_ok d \<Longrightarrow> e \<in> set (tbl d) \<Longrightarrow> P e \<Longrightarrow> broken e d = None \<Longrightarrow> db_ok (f e d)"
  shows "preserves intact (seq (select_one tbl P) (\<lambda>e. seq (modify (broken e) (f e)) (\<lambda>_. ret (g e))))"
proof (rule preservesI)
  fix s assume s: "intact s"
  show "intact (snd (seq (select_one tbl P) (\<lambda>e. seq (modify (broken e) (f e)) (\<lambda>_. ret (g e))) s))"
  proof (cases "find P (tbl (tables s))")
    case (Some e)
    then show ?thesis
      using assms [OF s] s find_Some_mem [OF Some]
      by (auto simp: select_one_def modify_def op_simps split: option.split)
  qed (use s in \<open>simp add: select_one_def op_simps\<close>)
qed

lemma db_ok_insert_event:
  assumes "db_ok d" "first_broken (event_checks d (tbl_events d) e) = None"
  shows "db_ok (d\<lparr>tbl_events := tbl_events d @ [e]\<rparr>)"
  using assms unfolding first_broken_None event_checks_def
  by (auto simp: table_ok_defs row_ok_defs split: option.splits)

lemma db_ok_insert_participant:
  assumes "db_ok d" "first_broken (participant_checks d (tbl_participants d) p) = None"
  shows "db_ok (d\<lparr>tbl_participants := tbl_participants d @ [p]\<rparr>)"
  using assms unfolding first_broken_None participant_checks_def
  by (auto simp: table_ok_defs row_ok_defs split: option.splits)

lemma db_ok_insert_group:
  assumes "db_ok d" "first_broken (group_checks d g) = None"
  shows "db_ok (d\<lparr>tbl_groups := tbl_groups d @ [g]\<rparr>)"
  using assms unfolding first_broken_None group_checks_def
  by (auto simp: table_ok_defs row_ok_defs split: option.splits)

lemma db_ok_insert_member:
  assumes "db_ok d" "first_broken (member_checks d (tbl_members d) m) = None"
  shows "db_ok (d\<lparr>tbl_members := tbl_members d @ [m]\<rparr>)"
  using assms unfolding first_broken_None member_checks_def
  by (auto simp: table_ok_defs row_ok_defs split: option.splits)


lemmas check_defs = first_broken_None event_checks_def participant_checks_def member_checks_def group_checks_def

lemma db_ok_update_event:
  assumes "db_ok d" "e \<in> set (tbl_events d)" "ev_id e = k" "\<And>x. ev_id (f x) = ev_id x"
    "first_broken (event_checks d (filter (\<lambda>x. ev_id x \<noteq> k) (tbl_events d)) (f e)) = None"
  shows "db_ok (d\<lparr>tbl_events := set_where (\<lambda>x. ev_id x = k) f (tbl_events d)\<rparr>)"
proof -
  let ?es = "set_where (\<lambda>x. ev_id x = k) f (tbl_events d)"
  have ids: "distinct (map ev_id (tbl_events d))" using assms(1) by (simp add: table_ok_defs)
  note im = set_where_image [of ev_id f, OF assms(4)] set_where_map [of ev_id f, OF assms(4)]
  have "event_ok (d\<lparr>tbl_events := ?es\<rparr>) (f e)"
    using assms(5) by (auto simp: check_defs event_ok_def split: option.splits)
  moreover have "\<forall>x \<in> set (tbl_events d). event_ok (d\<lparr>tbl_events := ?es\<rparr>) x"
    using assms(1) by (auto simp: table_ok_defs event_ok_def)
  ultimately have "\<forall>x \<in> set ?es. event_ok (d\<lparr>tbl_events := ?es\<rparr>) x"
    using set_where_all [OF ids assms(2,3)] by blast
  moreover have "distinct (map ev_slug ?es)"
    using set_where_distinct [OF ids assms(2,3), of ev_slug f] assms(1,5)
    by (auto simp: table_ok_defs check_defs)
  ultimately show ?thesis
    using assms(1) ids unfolding db_ok_def events_ok_def
    by (auto simp: im participants_ok_def participant_ok_def answers_ok_def response_ok_def groups_ok_def
        group_ok_def members_ok_def member_ok_def)
qed

lemma db_ok_update_participant:
  assumes "db_ok d" "p \<in> set (tbl_participants d)" "pt_id p = k" "\<And>x. pt_id (f x) = pt_id x"
    "first_broken (participant_checks d (filter (\<lambda>x. pt_id x \<noteq> k) (tbl_participants d)) (f p)) = None"
  shows "db_ok (d\<lparr>tbl_participants := set_where (\<lambda>x. pt_id x = k) f (tbl_participants d)\<rparr>)"
proof -
  let ?ps = "set_where (\<lambda>x. pt_id x = k) f (tbl_participants d)"
  have ids: "distinct (map pt_id (tbl_participants d))" using assms(1) by (simp add: table_ok_defs)
  note im = set_where_image [of pt_id f, OF assms(4)] set_where_map [of pt_id f, OF assms(4)]
  have "participant_ok (d\<lparr>tbl_participants := ?ps\<rparr>) (f p)"
    using assms(5) by (auto simp: check_defs participant_ok_def split: option.splits)
  moreover have "\<forall>x \<in> set (tbl_participants d). participant_ok (d\<lparr>tbl_participants := ?ps\<rparr>) x"
    using assms(1) by (auto simp: table_ok_defs participant_ok_def)
  ultimately have "\<forall>x \<in> set ?ps. participant_ok (d\<lparr>tbl_participants := ?ps\<rparr>) x"
    using set_where_all [OF ids assms(2,3)] by blast
  moreover have "distinct (map (\<lambda>p. (pt_event p, pt_token p)) ?ps)"
    using set_where_distinct [OF ids assms(2,3), of "\<lambda>p. (pt_event p, pt_token p)" f] assms(1,5)
    by (auto simp: table_ok_defs check_defs)
  moreover have "distinct (map seat_key (filter linked ?ps))"
    using set_where_distinct_filter [OF ids assms(2,3), of seat_key linked f] assms(1,5)
    by (auto simp: table_ok_defs check_defs)
  ultimately show ?thesis
    using assms(1) ids unfolding db_ok_def participants_ok_def
    by (auto simp: im events_ok_def event_ok_def answers_ok_def response_ok_def groups_ok_def
        group_ok_def members_ok_def member_ok_def)
qed

lemma db_ok_update_member:
  assumes "db_ok d" "m \<in> set (tbl_members d)" "gm_id m = k" "\<And>x. gm_id (f x) = gm_id x"
    "first_broken (member_checks d (filter (\<lambda>x. gm_id x \<noteq> k) (tbl_members d)) (f m)) = None"
  shows "db_ok (d\<lparr>tbl_members := set_where (\<lambda>x. gm_id x = k) f (tbl_members d)\<rparr>)"
proof -
  let ?ms = "set_where (\<lambda>x. gm_id x = k) f (tbl_members d)"
  have ids: "distinct (map gm_id (tbl_members d))" using assms(1) by (simp add: table_ok_defs)
  note im = set_where_image [of gm_id f, OF assms(4)] set_where_map [of gm_id f, OF assms(4)]
  have "member_ok (d\<lparr>tbl_members := ?ms\<rparr>) (f m)"
    using assms(5) by (auto simp: check_defs member_ok_def split: option.splits)
  moreover have "\<forall>x \<in> set (tbl_members d). member_ok (d\<lparr>tbl_members := ?ms\<rparr>) x"
    using assms(1) by (auto simp: table_ok_defs member_ok_def)
  ultimately have "\<forall>x \<in> set ?ms. member_ok (d\<lparr>tbl_members := ?ms\<rparr>) x"
    using set_where_all [OF ids assms(2,3)] by blast
  moreover have "distinct (map (\<lambda>m. (gm_group m, gm_token m)) (filter claimed ?ms))"
    using set_where_distinct_filter [OF ids assms(2,3), of "\<lambda>m. (gm_group m, gm_token m)" claimed f] assms(1,5)
    by (auto simp: table_ok_defs check_defs)
  ultimately show ?thesis
    using assms(1) ids unfolding db_ok_def members_ok_def
    by (auto simp: im events_ok_def event_ok_def answers_ok_def response_ok_def groups_ok_def
        group_ok_def participants_ok_def participant_ok_def)
qed

lemma preserves_update_event [inv_intros]:
  "(\<And>x. ev_id (f x) = ev_id x) \<Longrightarrow> preserves intact (update_event k f)"
  unfolding update_event_def by (rule preserves_select_modify) (rule db_ok_update_event)

lemma preserves_update_participant [inv_intros]:
  "(\<And>x. pt_id (f x) = pt_id x) \<Longrightarrow> preserves intact (update_participant k f)"
  unfolding update_participant_def by (rule preserves_select_modify) (rule db_ok_update_participant)

lemma preserves_update_member [inv_intros]:
  "(\<And>x. gm_id (f x) = gm_id x) \<Longrightarrow> preserves intact (update_member k f)"
  unfolding update_member_def by (rule preserves_select_modify) (rule db_ok_update_member)

lemma filter_distinct_swap:
  "distinct (map g (filter P xs)) \<Longrightarrow> distinct (map g (filter P (filter Q xs)))"
proof -
  have "filter P (filter Q xs) = filter Q (filter P xs)" by (induction xs) auto
  then show "distinct (map g (filter P xs)) \<Longrightarrow> ?thesis" by (simp only: distinct_map_filter)
qed

lemma db_ok_delete_events: "db_ok d \<Longrightarrow> db_ok (delete_events ids d)"
proof -
  assume d: "db_ok d"
  let ?d = "delete_events ids d"
  define unset :: "group_row \<Rightarrow> group_row" where "unset = (\<lambda>g. case gr_created_from g of None \<Rightarrow> g
     | Some e \<Rightarrow> if e \<in> ids then g\<lparr>gr_created_from := None\<rparr> else g)"
  have t: "tbl_events ?d = filter (\<lambda>e. ev_id e \<notin> ids) (tbl_events d)"
    "tbl_participants ?d = filter (\<lambda>p. pt_event p \<notin> ids) (tbl_participants d)"
    "tbl_groups ?d = map unset (tbl_groups d)" "tbl_members ?d = tbl_members d"
    "tbl_member_busy ?d = tbl_member_busy d"
    by (simp_all add: delete_events_def Let_def unset_def)
  have key: "gr_id (unset g) = gr_id g" "gr_slug (unset g) = gr_slug g" "gr_name (unset g) = gr_name g"
    "gr_created_from (unset g) = Some e \<longleftrightarrow> gr_created_from g = Some e \<and> e \<notin> ids" for g e
    by (auto simp: unset_def split: option.split)
  have kids: "map gr_id (tbl_groups ?d) = map gr_id (tbl_groups d)" "map gr_slug (tbl_groups ?d) = map gr_slug (tbl_groups d)"
    by (simp_all add: t key)
  have gids: "gr_id ` set (tbl_groups ?d) = gr_id ` set (tbl_groups d)" using kids(1) by (metis image_set)
  have "events_ok ?d"
    using d unfolding events_ok_def db_ok_def event_ok_def gids by (auto simp: t distinct_map_filter)
  moreover have "participants_ok ?d"
    using d unfolding participants_ok_def db_ok_def participant_ok_def t(4)
    by (auto simp: t distinct_map_filter filter_distinct_swap simp del: filter_filter)
  moreover have "groups_ok ?d"
    using d unfolding groups_ok_def db_ok_def kids group_ok_def by (auto simp: t key)
  moreover have "members_ok ?d"
    using d unfolding members_ok_def db_ok_def member_ok_def gids by (simp add: t)
  moreover have "answers_ok ?d"
  proof -
    let ?people = "pt_id ` {p \<in> set (tbl_participants d). pt_event p \<in> ids}"
    have r: "tbl_responses ?d = filter (\<lambda>r. rs_participant r \<notin> ?people) (tbl_responses d)"
      "tbl_busy ?d = filter (\<lambda>b. bb_owner b \<notin> ?people) (tbl_busy d)"
      by (simp_all add: delete_events_def Let_def)
    have "i \<in> pt_id ` set (tbl_participants ?d)"
      if "i \<in> pt_id ` set (tbl_participants d)" "i \<notin> ?people" for i
      using that by (auto simp: t)
    then show ?thesis
      using d unfolding answers_ok_def db_ok_def response_ok_def busy_ok_def
      by (auto simp: r distinct_map_filter)
  qed
  ultimately show ?thesis by (simp add: db_ok_def)
qed


text \<open>Every statement of \<open>Database\<close>, by these rules and the constraint it checks.\<close>

lemma preserves_insert_event [inv_intros]: "preserves intact (create_event_in_group_row env arg gid)"
  unfolding create_event_in_group_row_def
  by (intro inv_intros preserves_modify) (rule db_ok_insert_event)

lemma preserves_insert_participant [inv_intros]: "preserves intact (insert_participant env arg)"
  unfolding insert_participant_def
  by (intro inv_intros preserves_modify) (rule db_ok_insert_participant)

lemma preserves_insert_group [inv_intros]: "preserves intact (create_group_row env slug name from)"
  unfolding create_group_row_def
  by (intro inv_intros preserves_modify) (rule db_ok_insert_group)

lemma preserves_insert_member [inv_intros]: "preserves intact (create_member_row env arg)"
  unfolding create_member_row_def
  by (intro inv_intros preserves_modify) (rule db_ok_insert_member)

lemma preserves_delete_expired [inv_intros]: "preserves intact (delete_expired_events n)"
  unfolding delete_expired_events_def
  by (intro inv_intros preserves_modify) (rule db_ok_delete_events)

lemma frame_responses [simp]:
  "events_ok (d\<lparr>tbl_responses := x\<rparr>) = events_ok d" "participants_ok (d\<lparr>tbl_responses := x\<rparr>) = participants_ok d"
  "groups_ok (d\<lparr>tbl_responses := x\<rparr>) = groups_ok d" "members_ok (d\<lparr>tbl_responses := x\<rparr>) = members_ok d"
  by (simp_all add: table_ok_defs row_ok_defs)

lemma frame_busy [simp]:
  "events_ok (d\<lparr>tbl_busy := x\<rparr>) = events_ok d" "participants_ok (d\<lparr>tbl_busy := x\<rparr>) = participants_ok d"
  "groups_ok (d\<lparr>tbl_busy := x\<rparr>) = groups_ok d" "members_ok (d\<lparr>tbl_busy := x\<rparr>) = members_ok d"
  by (simp_all add: table_ok_defs row_ok_defs)

lemma frame_member_busy [simp]:
  "events_ok (d\<lparr>tbl_member_busy := x\<rparr>) = events_ok d" "participants_ok (d\<lparr>tbl_member_busy := x\<rparr>) = participants_ok d"
  "groups_ok (d\<lparr>tbl_member_busy := x\<rparr>) = groups_ok d" "answers_ok (d\<lparr>tbl_member_busy := x\<rparr>) = answers_ok d"
  by (simp_all add: table_ok_defs row_ok_defs)

lemma preserves_delete_responses [inv_intros]: "preserves intact (delete_responses_rows k)"
  unfolding delete_responses_rows_def
  by (intro preserves_modify) (auto simp: db_ok_def answers_ok_def response_ok_def distinct_map_filter)

lemma distinct_map_append:
  "distinct (map k xs) \<Longrightarrow> distinct (map k ys) \<Longrightarrow> \<forall>y \<in> set ys. k y \<notin> k ` set xs \<Longrightarrow> distinct (map k (xs @ ys))"
  by auto (metis imageI)

lemma preserves_insert_responses [inv_intros]: "preserves intact (insert_responses_rows new)"
proof -
  have "answers_ok (d\<lparr>tbl_responses := tbl_responses d @ new\<rparr>)"
    if "answers_ok d" "first_broken (response_checks d new) = None" for d
  proof -
    let ?k = "\<lambda>r. (rs_participant r, rs_slot r)"
    have new: "distinct (map ?k new)" "\<forall>r \<in> set new. ?k r \<notin> ?k ` set (tbl_responses d)" "\<forall>r \<in> set new. response_ok d r"
      using that(2) by (auto simp: first_broken_None response_checks_def Let_def list_all_iff response_ok_def)
    have "distinct (map ?k (tbl_responses d))" using that(1) by (simp add: answers_ok_def)
    from distinct_map_append [OF this new(1,2)] have "distinct (map ?k (tbl_responses d @ new))" .
    then show ?thesis using that(1) new(3) by (auto simp: answers_ok_def response_ok_def)
  qed
  then show ?thesis
    unfolding insert_responses_rows_def by (intro preserves_modify) (simp add: db_ok_def)
qed

lemma preserves_delete_busy [inv_intros]: "preserves intact (delete_busy_rows k)"
  unfolding delete_busy_rows_def
  by (intro preserves_modify) (auto simp: db_ok_def answers_ok_def response_ok_def)

lemma preserves_delete_member_busy [inv_intros]: "preserves intact (delete_member_busy_rows k)"
  unfolding delete_member_busy_rows_def
  by (intro preserves_modify) (auto simp: db_ok_def members_ok_def member_ok_def)

lemma busy_rows_ok:
  "list_all valid_interval blocks \<Longrightarrow> blocks = [] \<or> source \<in> S \<Longrightarrow> blocks = [] \<or> owner \<in> O'
    \<Longrightarrow> b \<in> set (busy_rows owner blocks source t) \<Longrightarrow> busy_ok O' S b"
  by (auto simp: busy_rows_def busy_ok_def list_all_iff valid_interval_def)

lemma preserves_insert_busy [inv_intros]: "preserves intact (insert_busy_rows owner blocks source)"
proof -
  have "answers_ok (d\<lparr>tbl_busy := tbl_busy d @ busy_rows owner blocks source t\<rparr>)"
    if "answers_ok d" "list_all valid_interval blocks" "blocks = [] \<or> source \<in> {''google'', ''ics''}"
      "blocks = [] \<or> owner \<in> pt_id ` set (tbl_participants d)" for d t
    using that(1) busy_rows_ok [OF that(2-4)] by (auto simp: answers_ok_def response_ok_def)
  then show ?thesis
    unfolding insert_busy_rows_def
    by (intro inv_intros preserves_modify) (simp add: first_broken_None db_ok_def)
qed

lemma preserves_insert_member_busy [inv_intros]: "preserves intact (insert_member_busy_rows owner blocks source)"
proof -
  have "members_ok (d\<lparr>tbl_member_busy := tbl_member_busy d @ busy_rows owner blocks source t\<rparr>)"
    if "members_ok d" "list_all valid_interval blocks" "blocks = [] \<or> source \<in> {''ics''}"
      "blocks = [] \<or> owner \<in> gm_id ` set (tbl_members d)" for d t
    using that(1) busy_rows_ok [OF that(2-4)] by (auto simp: members_ok_def member_ok_def)
  then show ?thesis
    unfolding insert_member_busy_rows_def
    by (intro inv_intros preserves_modify) (simp add: first_broken_None db_ok_def)
qed

lemma preserves_statements [inv_intros]:
  "preserves intact (create_event_row env arg)"
  "preserves intact (decide_event_row k slot)"
  "preserves intact (reopen_event_row k)"
  "preserves intact (link_event_to_group_row k gid)"
  "preserves intact (create_participant_row env pp)"
  "preserves intact (create_participant_from_member_row env pp)"
  "preserves intact (link_participant_row k m)"
  "preserves intact (mark_participant_responded k)"
  "preserves intact (set_calendar_source k source url)"
  "preserves intact (rotate_participant_token k token)"
  "preserves intact (claim_member_row k token)"
  "preserves intact (set_member_calendar k source url)"
  unfolding create_event_row_def decide_event_row_def reopen_event_row_def link_event_to_group_row_def
    create_participant_row_def create_participant_from_member_row_def link_participant_row_def
    mark_participant_responded_def set_calendar_source_def rotate_participant_token_def
    claim_member_row_def set_member_calendar_def
  by (intro inv_intros, simp?)+

lemmas lookup_defs = get_event_by_slug_row_def get_participant_by_token_row_def get_participant_by_member_row_def
  list_participants_rows_def list_responses_rows_def list_event_responses_rows_def list_busy_rows_def
  get_group_by_id_row_def get_group_by_slug_row_def get_member_by_id_row_def get_member_by_id_unscoped_row_def
  get_member_by_token_row_def list_members_rows_def list_group_events_rows_def list_group_decisions_rows_def
  list_member_busy_rows_def

lemma preserves_lookups [inv_intros]:
  "preserves intact (get_event_by_slug_row slug)"
  "preserves intact (get_participant_by_token_row k token)"
  "preserves intact (get_participant_by_member_row k m)"
  "preserves intact (list_participants_rows k)"
  "preserves intact (list_responses_rows k)"
  "preserves intact (list_event_responses_rows k)"
  "preserves intact (list_busy_rows k)"
  "preserves intact (get_group_by_id_row k)"
  "preserves intact (get_group_by_slug_row slug)"
  "preserves intact (get_member_by_id_row k m)"
  "preserves intact (get_member_by_id_unscoped_row k)"
  "preserves intact (get_member_by_token_row k token)"
  "preserves intact (list_members_rows k)"
  "preserves intact (list_group_events_rows k)"
  "preserves intact (list_group_decisions_rows k)"
  "preserves intact (list_member_busy_rows k)"
  unfolding lookup_defs by (intro inv_intros)+

end
