(* ===== verification/Convert.thy ===== *)
theory Convert
  imports Integrity
begin

text \<open>
  What stands between the database and the domain: zone names (\<^verbatim>\<open>api/internal/tz/tz.go\<close>),
  identifiers, dates and times of day (the conversions of \<^verbatim>\<open>api/internal/store/events.go\<close>), slugs
  (\<^verbatim>\<open>store/slug.go\<close>) and participant tokens (\<^verbatim>\<open>store/participants.go\<close>).

  Main facts: the memo table of zones is transparent, and identifiers, dates and times of day survive
  the trip to the database and back.
\<close>

section \<open>Zones\<close>

text \<open>
  \<^verbatim>\<open>tz.Load\<close> with its memo table. The table is filled by the function itself only, so it agrees
  with the zone database; the other components use the table-free \<open>load_zone\<close>.
\<close>

type_synonym zone_cache = "string \<rightharpoonup> location"

definition load_cached :: "(string \<Rightarrow> location option) \<Rightarrow> zone_cache \<Rightarrow> string \<Rightarrow> location option \<times> zone_cache" where
  "load_cached lookup memo name =
     (if name = '''' then (None, memo)
      else if name = ''Local'' then (None, memo)
      else case memo name of
        Some loc \<Rightarrow> (Some loc, memo)
      | None \<Rightarrow> (case lookup name of
          None \<Rightarrow> (None, memo)
        | Some loc \<Rightarrow> (Some loc, memo(name \<mapsto> loc))))"

definition load_zone :: "env \<Rightarrow> string \<Rightarrow> location option" where
  "load_zone env name = fst (load_cached (env_zone env) Map.empty name)"

definition valid_zone :: "env \<Rightarrow> string \<Rightarrow> bool" where
  "valid_zone env name \<longleftrightarrow> load_zone env name \<noteq> None"

definition zones_available :: "env \<Rightarrow> bool" where
  "zones_available env \<longleftrightarrow>
     list_all (valid_zone env) [''America/New_York'', ''Europe/London'', ''Australia/Sydney'']"

definition cache_agrees :: "(string \<Rightarrow> location option) \<Rightarrow> zone_cache \<Rightarrow> bool" where
  "cache_agrees lookup memo \<longleftrightarrow> memo \<subseteq>\<^sub>m lookup"

lemma load_cached_step:
  assumes "cache_agrees lookup memo"
  shows "fst (load_cached lookup memo name) = fst (load_cached lookup Map.empty name)
     \<and> cache_agrees lookup (snd (load_cached lookup memo name))"
  using assms
  by (auto simp: load_cached_def cache_agrees_def map_le_def dom_def split: option.split)

text \<open>A sequence of lookups that share the table.\<close>

fun load_all :: "(string \<Rightarrow> location option) \<Rightarrow> zone_cache \<Rightarrow> string list \<Rightarrow> location option list" where
  "load_all lookup memo [] = []"
| "load_all lookup memo (n # ns) =
     (let (loc, memo') = load_cached lookup memo n in loc # load_all lookup memo' ns)"

lemma load_all_transparent:
  "cache_agrees lookup memo \<Longrightarrow> load_all lookup memo ns = map (\<lambda>n. fst (load_cached lookup Map.empty n)) ns"
proof (induction ns arbitrary: memo)
  case (Cons n ns)
  show ?case
    using load_cached_step [OF Cons.prems, of n] Cons.IH [of "snd (load_cached lookup memo n)"]
    by (simp add: split_def Let_def)
qed simp

lemma load_zone_eq: "load_zone env name = (if name = '''' \<or> name = ''Local'' then None else env_zone env name)"
  by (simp add: load_zone_def load_cached_def split: option.split)

section \<open>Identifiers\<close>

definition hex_digit :: "nat \<Rightarrow> char" where
  "hex_digit n = ''0123456789abcdef'' ! n"

text \<open>The 32 hexadecimal digits of the 16 bytes, most significant first.\<close>

definition hex_of :: "uuid \<Rightarrow> string" where
  "hex_of u = map (\<lambda>i. hex_digit (unat u div 16 ^ i mod 16)) (rev [0..<32])"

definition format_uuid :: "uuid option \<Rightarrow> string" where
  "format_uuid u = (case u of None \<Rightarrow> ''''
     | Some b \<Rightarrow> let h = hex_of b in take 8 h @ ''-'' @ take 4 (drop 8 h) @ ''-'' @ take 4 (drop 12 h)
                  @ ''-'' @ take 4 (drop 16 h) @ ''-'' @ drop 20 h)"

abbreviation uuid_string :: "uuid \<Rightarrow> string" where
  "uuid_string u \<equiv> format_uuid (Some u)"

text \<open>\<^verbatim>\<open>parseUUID\<close>: what pgx does not accept is reported as not found.\<close>

definition parse_uuid :: "env \<Rightarrow> string \<Rightarrow> uuid query" where
  "parse_uuid env s = of_option NotFound (env_scan env s)"

text \<open>What the code relies on: pgx reads back the canonical form of an identifier.\<close>

definition scan_ok :: "env \<Rightarrow> bool" where
  "scan_ok env \<longleftrightarrow> (\<forall>u. env_scan env (uuid_string u) = Some u)"

lemma hex_digit_inj: "a < 16 \<Longrightarrow> b < 16 \<Longrightarrow> hex_digit a = hex_digit b \<Longrightarrow> a = b"
proof -
  have "\<forall>a \<in> {0..<16}. \<forall>b \<in> {0..<16}. hex_digit a = hex_digit b \<longrightarrow> a = b" by code_simp
  then show "a < 16 \<Longrightarrow> b < 16 \<Longrightarrow> hex_digit a = hex_digit b \<Longrightarrow> a = b" by simp
qed

definition digit_value :: "char \<Rightarrow> nat" where
  "digit_value c = (if of_char c < (58::nat) then of_char c - 48 else of_char c - 87)"

lemma digit_value_hex: "n < 16 \<Longrightarrow> digit_value (hex_digit n) = n"
proof -
  have "\<forall>n \<in> {0..<16}. digit_value (hex_digit n) = n" by code_simp
  then show "n < 16 \<Longrightarrow> digit_value (hex_digit n) = n" by simp
qed

lemma hex_digit_dash: "n < 16 \<Longrightarrow> hex_digit n \<noteq> CHR ''-''"
proof -
  have "\<forall>n \<in> {0..<16}. hex_digit n \<noteq> CHR ''-''" by code_simp
  then show "n < 16 \<Longrightarrow> hex_digit n \<noteq> CHR ''-''" by simp
qed

lemma horner:
  "foldl (\<lambda>a d. 16 * a + d) 0 (map (\<lambda>i. n div 16 ^ i mod 16) (rev [0..<k])) = n mod (16::nat) ^ k"
proof (induction k arbitrary: n)
  case (Suc k)
  have "map (\<lambda>i. n div 16 ^ i mod 16) (rev [0..<Suc k])
      = map (\<lambda>i. n div 16 div 16 ^ i mod 16) (rev [0..<k]) @ [n mod 16]"
    by (subst upt_conv_Cons) (simp_all add: map_Suc_upt [symmetric] rev_map div_mult2_eq o_def del: upt_Suc)
  then show ?case
    using Suc [of "n div 16"] mod_mult2_eq [of n 16 "16 ^ k"] by simp
qed simp

text \<open>A parser of the canonical form, the instance the examples use for pgx.\<close>

definition canonical_scan :: "string \<Rightarrow> uuid option" where
  "canonical_scan s =
     (let u = word_of_nat (foldl (\<lambda>a c. 16 * a + digit_value c) 0 (filter (\<lambda>c. c \<noteq> CHR ''-'') s))
      in if uuid_string u = s then Some u else None)"

lemma hex_of_digits: "c \<in> set (hex_of u) \<Longrightarrow> c \<noteq> CHR ''-''"
  by (auto simp: hex_of_def hex_digit_dash)

lemma filter_dash_uuid: "filter (\<lambda>c. c \<noteq> CHR ''-'') (uuid_string u) = hex_of u"
proof -
  have keep: "filter (\<lambda>c. c \<noteq> CHR ''-'') xs = xs" if "set xs \<subseteq> set (hex_of u)" for xs
    using that hex_of_digits by (fastforce simp: filter_id_conv)
  let ?h = "hex_of u"
  have sub: "set (take n (drop m ?h)) \<subseteq> set ?h" "set (take n ?h) \<subseteq> set ?h" "set (drop m ?h) \<subseteq> set ?h" for n m
    using set_take_subset set_drop_subset by fastforce+
  have "filter (\<lambda>c. c \<noteq> CHR ''-'') (uuid_string u)
      = take 8 ?h @ take 4 (drop 8 ?h) @ take 4 (drop 12 ?h) @ take 4 (drop 16 ?h) @ drop 20 ?h"
    by (simp add: format_uuid_def Let_def keep sub)
  also have "\<dots> = ?h"
    using append_take_drop_id [of 8 ?h] append_take_drop_id [of 4 "drop 8 ?h"]
      append_take_drop_id [of 4 "drop 12 ?h"] append_take_drop_id [of 4 "drop 16 ?h"] by simp
  finally show ?thesis .
qed

lemma canonical_scan_uuid: "canonical_scan (uuid_string u) = Some u"
proof -
  have "foldl (\<lambda>a c. 16 * a + digit_value c) 0 (hex_of u)
      = foldl (\<lambda>a d. 16 * a + d) 0 (map (\<lambda>i. unat u div 16 ^ i mod 16) (rev [0..<32]))"
    unfolding hex_of_def by (simp add: foldl_map digit_value_hex)
  also have "\<dots> = unat u mod 16 ^ 32" by (rule horner)
  also have "\<dots> = unat u"
  proof -
    have "unat u < 2 ^ LENGTH(128)" by (rule unsigned_less)
    then show ?thesis by simp
  qed
  finally show ?thesis by (simp add: canonical_scan_def filter_dash_uuid Let_def)
qed

lemma uuid_string_inj [simp]: "uuid_string u = uuid_string v \<longleftrightarrow> u = v"
  by (metis canonical_scan_uuid option.inject)


section \<open>Dates and times of day\<close>

text \<open>A \<^verbatim>\<open>pgtype.Date\<close> is midnight UTC of the day; a \<^verbatim>\<open>pgtype.Time\<close> is a number of microseconds.\<close>

definition encode_date :: "date \<Rightarrow> instant" where
  "encode_date d = time_date (d_year d) (d_month d) (d_day d) 0 0 0 0 utc"

definition decode_date :: "instant \<Rightarrow> date" where
  "decode_date t = (case date_in utc t of (y, m, d) \<Rightarrow> Date y m d)"

definition micros_per_minute :: int where
  "micros_per_minute = 60 * 1000000"

definition encode_time_of_day :: "time_of_day \<Rightarrow> int" where
  "encode_time_of_day t = (tod_hour t * 60 + tod_minute t) * micros_per_minute"

definition decode_time_of_day :: "int \<Rightarrow> time_of_day" where
  "decode_time_of_day us =
     (let mins = us div micros_per_minute in \<lparr>tod_hour = mins div 60, tod_minute = mins mod 60\<rparr>)"

lemma decode_encode_date: "valid_day d \<Longrightarrow> decode_date (encode_date d) = d"
  by (simp add: decode_date_def encode_date_def date_in_utc_midnight civil_of_epoch_days)

lemma decode_encode_time:
  "0 \<le> tod_minute t \<Longrightarrow> tod_minute t < 60 \<Longrightarrow> decode_time_of_day (encode_time_of_day t) = t"
  by (simp add: decode_time_of_day_def encode_time_of_day_def micros_per_minute_def)

text \<open>The conversion \<^verbatim>\<open>int32(in.SlotMinutes)\<close> and back.\<close>

definition int32 :: "int \<Rightarrow> 32 word" where
  "int32 n = word_of_int n"

lemma sint_int32: "- (2 ^ 31) \<le> n \<Longrightarrow> n < 2 ^ 31 \<Longrightarrow> sint (int32 n) = n"
  by (simp add: int32_def sint_word_ariths signed_take_bit_int_eq_self_iff sint_sbintrunc')

section \<open>Slugs\<close>

definition slug_alphabet :: string where
  "slug_alphabet = ''23456789abcdefghijkmnpqrstuvwxyz''"

definition slug_length :: nat where
  "slug_length = 8"

definition slug_attempts :: nat where
  "slug_attempts = 5"

definition slug_char :: "8 word \<Rightarrow> char" where
  "slug_char c = slug_alphabet ! unat (and c 31)"

definition new_slug :: "env \<Rightarrow> string query" where
  "new_slug env = draw (\<lambda>n. map slug_char (env_rand env n slug_length))"

section \<open>Tokens\<close>

definition token_bytes :: nat where
  "token_bytes = 32"

definition url_alphabet :: string where
  "url_alphabet = ''ABCDEFGHIJKLMNOPQRSTUVWXYZabcdefghijklmnopqrstuvwxyz0123456789-_''"

definition url_char :: "nat \<Rightarrow> char" where
  "url_char n = url_alphabet ! (n mod 64)"

text \<open>\<^verbatim>\<open>base64.RawURLEncoding\<close>: six bits at a time, without padding.\<close>

fun raw_url_encode :: "8 word list \<Rightarrow> string" where
  "raw_url_encode [] = []"
| "raw_url_encode [a] = (let n = unat a * 16 in [url_char (n div 64), url_char n])"
| "raw_url_encode [a, b] = (let n = (unat a * 256 + unat b) * 4 in
     [url_char (n div 4096), url_char (n div 64), url_char n])"
| "raw_url_encode (a # b # c # rest) = (let n = (unat a * 256 + unat b) * 256 + unat c in
     [url_char (n div 262144), url_char (n div 4096), url_char (n div 64), url_char n] @ raw_url_encode rest)"

definition hash_token :: "env \<Rightarrow> string \<Rightarrow> string" where
  "hash_token env raw = env_hash env raw"

definition new_token :: "env \<Rightarrow> (string \<times> string) query" where
  "new_token env = draw (\<lambda>n. let raw = raw_url_encode (env_rand env n token_bytes) in (raw, hash_token env raw))"

lemma preserves_new_slug [inv_intros]: "preserves intact (new_slug env)"
  by (simp add: preserves_def new_slug_def draw_def)

lemma preserves_new_token [inv_intros]: "preserves intact (new_token env)"
  by (simp add: preserves_def new_token_def draw_def)

lemma preserves_parse_uuid [inv_intros]: "preserves P (parse_uuid env s)"
  unfolding parse_uuid_def by (rule preserves_of_option)

end
