(* ===== verification/Store.thy ===== *)
theory Store
  imports Convert
begin

text \<open>
  \<^verbatim>\<open>api/internal/store\<close> for events and participants: \<^verbatim>\<open>events.go\<close>,
  \<^verbatim>\<open>participants.go\<close>, \<^verbatim>\<open>calendar.go\<close> and \<^verbatim>\<open>decide.go\<close>. The domain types carry
  identifiers as strings; every operation parses them first. Main facts: what a join or a creation
  returns can be looked up again, saved responses are read back exactly and nobody else's change, the
  slug retry gets past collisions as soon as one of its draws is free (\<open>StoreFacts\<close>).
\<close>

section \<open>Domain types\<close>

record store_event =
  se_id :: string
  se_slug :: string
  se_title :: string
  se_tz :: string
  se_window_start :: date
  se_window_end :: date
  se_day_start :: time_of_day
  se_day_end :: time_of_day
  se_slot_minutes :: int
  se_status :: string
  se_decided_slot :: "instant option"
  se_decided_at :: "instant option"
  se_group :: "string option"
  se_created :: instant
  se_expires :: instant

record store_participant =
  sp_id :: string
  sp_name :: string
  sp_tz :: string
  sp_role :: string
  sp_organizer :: bool
  sp_calendar :: string
  sp_responded :: "instant option"
  sp_created :: instant

definition responded :: "store_participant \<Rightarrow> bool" where
  "responded p \<longleftrightarrow> sp_responded p \<noteq> None"

record new_participant =
  np_name :: string
  np_tz :: string
  np_role :: string
  np_organizer :: bool

record stored_response =
  sr_slot :: instant
  sr_tier :: tier
  sr_source :: string

record busy_block =
  bk_start :: instant
  bk_end :: instant
  bk_source :: string
  bk_fetched :: instant

record new_event =
  ne_title :: string
  ne_tz :: string
  ne_window_start :: date
  ne_window_end :: date
  ne_day_start :: time_of_day
  ne_day_end :: time_of_day
  ne_slot_minutes :: int
  ne_organizer :: "new_participant option"
  ne_group :: string

record created_event =
  ce_event :: store_event
  ce_organizer :: "store_participant option"
  ce_token :: string

definition or_default :: "string \<Rightarrow> string \<Rightarrow> string" where
  "or_default v def = (if v = '''' then def else v)"

definition decode_event :: "event_row \<Rightarrow> store_event" where
  "decode_event row =
     \<lparr>se_id = uuid_string (ev_id row), se_slug = ev_slug row, se_title = ev_title row, se_tz = ev_tz row,
      se_window_start = decode_date (ev_window_start row), se_window_end = decode_date (ev_window_end row),
      se_day_start = decode_time_of_day (ev_day_start row), se_day_end = decode_time_of_day (ev_day_end row),
      se_slot_minutes = sint (ev_slot_minutes row), se_status = ev_status row,
      se_decided_slot = ev_decided_slot row, se_decided_at = ev_decided_at row,
      se_group = map_option uuid_string (ev_group row), se_created = ev_created row,
      se_expires = ev_expires row\<rparr>"

definition decode_participant :: "participant_row \<Rightarrow> store_participant" where
  "decode_participant row =
     \<lparr>sp_id = uuid_string (pt_id row), sp_name = pt_name row, sp_tz = pt_tz row, sp_role = pt_role row,
      sp_organizer = pt_organizer row, sp_calendar = pt_calendar row, sp_responded = pt_responded row,
      sp_created = pt_created row\<rparr>"

definition decode_response :: "response_row \<Rightarrow> stored_response" where
  "decode_response row = \<lparr>sr_slot = rs_slot row, sr_tier = rs_tier row, sr_source = rs_source row\<rparr>"

definition decode_busy :: "busy_row \<Rightarrow> busy_block" where
  "decode_busy row = \<lparr>bk_start = bb_start row, bk_end = bb_end row, bk_source = bb_source row,
     bk_fetched = bb_fetched row\<rparr>"

section \<open>Slots of an event\<close>

definition event_window :: "env \<Rightarrow> store_event \<Rightarrow> failure + window" where
  "event_window env e = (case load_zone env (se_tz e) of
     None \<Rightarrow> Inl BadZone
   | Some loc \<Rightarrow> Inr \<lparr>w_start = se_window_start e, w_end = se_window_end e, w_day_start = se_day_start e,
       w_day_end = se_day_end e, w_slot_minutes = se_slot_minutes e, w_loc = Some loc\<rparr>)"

definition event_slots :: "env \<Rightarrow> store_event \<Rightarrow> failure + expansion" where
  "event_slots env e = (case event_window env e of
     Inl err \<Rightarrow> Inl err
   | Inr w \<Rightarrow> (case expand w of Inl err \<Rightarrow> Inl (BadSlots err) | Inr ex \<Rightarrow> Inr ex))"

section \<open>Events\<close>

text \<open>\<^verbatim>\<open>ErrNoRows\<close> becomes \<^verbatim>\<open>ErrNotFound\<close>.\<close>

definition not_found :: "'a query \<Rightarrow> 'a query" where
  "not_found m = catch m (\<lambda>e. fail (if e = NoRows then NotFound else e)) ret"

definition params_of :: "string \<Rightarrow> new_event \<Rightarrow> event_params" where
  "params_of slug inp =
     \<lparr>ep_slug = slug, ep_title = ne_title inp, ep_tz = ne_tz inp,
      ep_window_start = encode_date (ne_window_start inp), ep_window_end = encode_date (ne_window_end inp),
      ep_day_start = encode_time_of_day (ne_day_start inp), ep_day_end = encode_time_of_day (ne_day_end inp),
      ep_slot_minutes = int32 (ne_slot_minutes inp)\<rparr>"

definition parse_group :: "env \<Rightarrow> string \<Rightarrow> uuid option query" where
  "parse_group env s = (if s = '''' then ret None else seq (parse_uuid env s) (\<lambda>u. ret (Some u)))"

definition create_event_tx :: "env \<Rightarrow> string \<Rightarrow> new_event \<Rightarrow> created_event query" where
  "create_event_tx env slug inp = transaction (
     seq (parse_group env (ne_group inp)) (\<lambda>gid.
     seq (create_event_in_group_row env (params_of slug inp) gid) (\<lambda>row.
     case ne_organizer inp of
       None \<Rightarrow> ret \<lparr>ce_event = decode_event row, ce_organizer = None, ce_token = ''''\<rparr>
     | Some org \<Rightarrow>
         seq (new_token env) (\<lambda>(raw, digest).
         seq (create_participant_row env \<lparr>pp_event = ev_id row, pp_token = digest, pp_name = np_name org,
                pp_tz = or_default (np_tz org) (ne_tz inp), pp_role = ''required'', pp_organizer = True,
                pp_member = None\<rparr>) (\<lambda>prow.
         ret \<lparr>ce_event = decode_event row, ce_organizer = Some (decode_participant prow), ce_token = raw\<rparr>)))))"

text \<open>The retry loop that events and groups share: a slug that is taken is drawn again.\<close>

primrec retry_slug :: "env \<Rightarrow> string \<Rightarrow> (string \<Rightarrow> 'a query) \<Rightarrow> nat \<Rightarrow> 'a query" where
  "retry_slug env constraint tx 0 = fail NoFreeSlug"
| "retry_slug env constraint tx (Suc n) =
     seq (new_slug env) (\<lambda>slug.
     catch (tx slug) (\<lambda>e. if e = Violation constraint then retry_slug env constraint tx n else fail e) ret)"

definition create_event :: "env \<Rightarrow> new_event \<Rightarrow> created_event query" where
  "create_event env inp = retry_slug env ''events_slug_key'' (\<lambda>slug. create_event_tx env slug inp) slug_attempts"

definition event_by_slug :: "string \<Rightarrow> store_event query" where
  "event_by_slug slug = seq (not_found (get_event_by_slug_row slug)) (\<lambda>row. ret (decode_event row))"

definition decide :: "env \<Rightarrow> string \<Rightarrow> instant \<Rightarrow> store_event query" where
  "decide env event slot =
     seq (parse_uuid env event) (\<lambda>eid.
     seq (not_found (decide_event_row eid slot)) (\<lambda>row. ret (decode_event row)))"

definition reopen :: "env \<Rightarrow> string \<Rightarrow> store_event query" where
  "reopen env event =
     seq (parse_uuid env event) (\<lambda>eid.
     seq (not_found (reopen_event_row eid)) (\<lambda>row. ret (decode_event row)))"

section \<open>Participants\<close>

definition join_event :: "env \<Rightarrow> string \<Rightarrow> new_participant \<Rightarrow> (store_participant \<times> string) query" where
  "join_event env event inp =
     seq (parse_uuid env event) (\<lambda>eid.
     seq (new_token env) (\<lambda>(raw, digest).
     seq (create_participant_row env \<lparr>pp_event = eid, pp_token = digest, pp_name = np_name inp,
            pp_tz = np_tz inp, pp_role = or_default (np_role inp) ''optional'', pp_organizer = np_organizer inp,
            pp_member = None\<rparr>) (\<lambda>row.
     ret (decode_participant row, raw))))"

definition participant_by_token :: "env \<Rightarrow> string \<Rightarrow> string \<Rightarrow> store_participant query" where
  "participant_by_token env event token =
     seq (parse_uuid env event) (\<lambda>eid.
     seq (not_found (get_participant_by_token_row eid (hash_token env token))) (\<lambda>row.
     if pt_token row \<noteq> hash_token env token then fail NotFound else ret (decode_participant row)))"

definition participants_of :: "env \<Rightarrow> string \<Rightarrow> store_participant list query" where
  "participants_of env event =
     seq (parse_uuid env event) (\<lambda>eid.
     seq (list_participants_rows eid) (\<lambda>rows. ret (map decode_participant rows)))"

definition response_rows :: "uuid \<Rightarrow> stored_response list \<Rightarrow> response_row list" where
  "response_rows pid rs = map (\<lambda>r. \<lparr>rs_participant = pid, rs_slot = sr_slot r, rs_tier = sr_tier r,
     rs_source = or_default (sr_source r) ''manual''\<rparr>) rs"

definition save_responses :: "env \<Rightarrow> string \<Rightarrow> stored_response list \<Rightarrow> unit query" where
  "save_responses env participant rs =
     seq (parse_uuid env participant) (\<lambda>pid. transaction (
     seq (delete_responses_rows pid) (\<lambda>_.
     seq (if rs = [] then ret () else insert_responses_rows (response_rows pid rs)) (\<lambda>_.
     mark_participant_responded pid))))"

definition responses_for_participant :: "env \<Rightarrow> string \<Rightarrow> stored_response list query" where
  "responses_for_participant env participant =
     seq (parse_uuid env participant) (\<lambda>pid.
     seq (list_responses_rows pid) (\<lambda>rows. ret (map decode_response rows)))"

definition responses_for_event :: "env \<Rightarrow> string \<Rightarrow> (string \<rightharpoonup> stored_response list) query" where
  "responses_for_event env event =
     seq (parse_uuid env event) (\<lambda>eid.
     seq (list_event_responses_rows eid) (\<lambda>rows.
     ret (foldl (\<lambda>out r. let pid = uuid_string (rs_participant r) in
            out(pid \<mapsto> (case out pid of None \<Rightarrow> [] | Some l \<Rightarrow> l) @ [decode_response r])) Map.empty rows)))"

section \<open>Calendars\<close>

definition save_busy_blocks :: "env \<Rightarrow> string \<Rightarrow> interval list \<Rightarrow> string \<Rightarrow> string \<Rightarrow> unit query" where
  "save_busy_blocks env participant blocks source url =
     seq (parse_uuid env participant) (\<lambda>pid. transaction (
     seq (delete_busy_rows pid) (\<lambda>_.
     seq (if blocks = [] then ret () else insert_busy_rows pid blocks source) (\<lambda>_.
     set_calendar_source pid source (if url = '''' then None else Some url)))))"

definition busy_blocks :: "env \<Rightarrow> string \<Rightarrow> busy_block list query" where
  "busy_blocks env participant =
     seq (parse_uuid env participant) (\<lambda>pid.
     seq (list_busy_rows pid) (\<lambda>rows. ret (map decode_busy rows)))"

end
