(* ===== verification/Dayparts.thy ===== *)
theory Dayparts
  imports Slots Scoring
begin

text \<open>
  \<^verbatim>\<open>api/internal/dayparts/dayparts.go\<close>: the coarse grid of dates and day parts in the responder's
  zone, the grouping of slots into its cells, and the expansion of coarse selections into tiers.

  Main facts: grouping partitions the slots without reordering them, and expansion gives a slot the tier
  of the last selection of its cell and leaves every other slot out.
\<close>

section \<open>Blocks and cells\<close>

datatype block = Morning | Afternoon | Evening

definition parse_block :: "string \<Rightarrow> block option" where
  "parse_block s =
     (if s = ''morning'' then Some Morning
      else if s = ''afternoon'' then Some Afternoon
      else if s = ''evening'' then Some Evening
      else None)"

definition block_string :: "block \<Rightarrow> string" where
  "block_string b = (case b of Morning \<Rightarrow> ''morning'' | Afternoon \<Rightarrow> ''afternoon'' | Evening \<Rightarrow> ''evening'')"

definition afternoon_start_hour :: int where "afternoon_start_hour = 12"
definition evening_start_hour :: int where "evening_start_hour = 17"

datatype cell = Cell (cell_date: date) (cell_block: block)

definition block_for_hour :: "int \<Rightarrow> block" where
  "block_for_hour h =
     (if h < afternoon_start_hour then Morning
      else if h < evening_start_hour then Afternoon
      else Evening)"

definition cell_of :: "instant \<Rightarrow> location \<Rightarrow> cell" where
  "cell_of t loc =
     (case date_in loc t of (y, m, d) \<Rightarrow> Cell (Date y m d) (block_for_hour (hour_in loc t)))"

record selection =
  sel_cell :: cell
  sel_tier :: tier

section \<open>Grouping and expansion\<close>

definition group_slots :: "instant list \<Rightarrow> location \<Rightarrow> (cell \<rightharpoonup> instant list)" where
  "group_slots slots loc =
     foldl (\<lambda>out t. let c = cell_of t loc in
              out(c \<mapsto> (case out c of None \<Rightarrow> [] | Some ts \<Rightarrow> ts) @ [t])) Map.empty slots"

definition expand_selections :: "instant list \<Rightarrow> location \<Rightarrow> selection list \<Rightarrow> (instant \<rightharpoonup> tier)" where
  "expand_selections slots loc sel =
     (if sel = [] then Map.empty
      else
        let by_cell = map_of_loop sel_cell sel_tier sel
        in foldl (\<lambda>out t. case by_cell (cell_of t loc) of
                    Some tier \<Rightarrow> out(t \<mapsto> tier) | None \<Rightarrow> out) Map.empty slots)"

section \<open>Facts\<close>

lemma group_slots_lookup:
  "group_slots slots loc c =
    (let ts = filter (\<lambda>t. cell_of t loc = c) slots in if ts = [] then None else Some ts)"
proof (induction slots rule: rev_induct)
  case (snoc t slots)
  have "group_slots (slots @ [t]) loc = (group_slots slots loc)(cell_of t loc \<mapsto>
      (case group_slots slots loc (cell_of t loc) of None \<Rightarrow> [] | Some ts \<Rightarrow> ts) @ [t])"
    by (simp add: group_slots_def Let_def)
  then show ?case by (cases "cell_of t loc = c") (auto simp: snoc Let_def)
qed (simp add: group_slots_def)

lemma expand_selections_lookup:
  "expand_selections slots loc sel t =
    (if t \<in> set slots then map_option sel_tier (find (\<lambda>s. sel_cell s = cell_of t loc) (rev sel)) else None)"
proof -
  let ?m = "map_of_loop sel_cell sel_tier sel"
  have "foldl (\<lambda>out t. case ?m (cell_of t loc) of Some tier \<Rightarrow> out(t \<mapsto> tier) | None \<Rightarrow> out) Map.empty ts t
      = (if t \<in> set ts then ?m (cell_of t loc) else None)" for ts
    by (induction ts rule: rev_induct) (auto split: option.split)
  moreover have "sel = [] \<Longrightarrow> find (\<lambda>s. sel_cell s = cell_of t loc) (rev sel) = None" by simp
  ultimately show ?thesis by (auto simp: expand_selections_def Let_def map_of_loop_last)
qed

section \<open>Properties\<close>

text \<open>
  Grouping is a partition: the group of a cell is the list of its slots in their original order,
  a cell without slots has no group, and a cell is a local date with a part of that day: the hour of
  every slot of a morning is before noon, of an afternoon from noon to before five, of an evening from
  five on.
\<close>

theorem group_slots_partition:
  "group_slots slots loc c = (let ts = filter (\<lambda>t. cell_of t loc = c) slots in if ts = [] then None else Some ts)
   \<and> (\<forall>ts t. group_slots slots loc c = Some ts \<and> t \<in> set ts \<longrightarrow>
        date_in loc t = (d_year (cell_date c), d_month (cell_date c), d_day (cell_date c))
      \<and> hour_in loc t \<in> (case cell_block c of Morning \<Rightarrow> {0..<12} | Afternoon \<Rightarrow> {12..<17} | Evening \<Rightarrow> {17..<24}))"
proof (intro conjI allI impI)
  fix ts t
  assume "group_slots slots loc c = Some ts \<and> t \<in> set ts"
  then have c: "c = cell_of t loc" by (auto simp: group_slots_lookup Let_def split: if_splits)
  show "date_in loc t = (d_year (cell_date c), d_month (cell_date c), d_day (cell_date c))"
    by (auto simp: c cell_of_def split: prod.split)
  show "hour_in loc t \<in> (case cell_block c of Morning \<Rightarrow> {0..<12} | Afternoon \<Rightarrow> {12..<17} | Evening \<Rightarrow> {17..<24})"
    using hour_in_bounds [of loc t]
    by (auto simp: c cell_of_def block_for_hour_def afternoon_start_hour_def evening_start_hour_def split: prod.split)
qed (rule group_slots_lookup)

lemma group_slots_partition_witness:
  "group_slots [ten, noon] utc (cell_of noon utc) = Some [noon] \<and> hour_in utc noon \<in> {12..<17}"
proof -
  have c: "cell_of noon utc = Cell (Date 1970 1 1) Afternoon" "cell_of ten utc = Cell (Date 1970 1 1) Morning"
    by code_simp+
  then have g: "group_slots [ten, noon] utc (cell_of noon utc) = Some [noon]" by (simp add: group_slots_lookup)
  then show ?thesis using group_slots_partition [of "[ten, noon]" utc "cell_of noon utc"] c by auto
qed

text \<open>
  C30: Expanding coarse selections gives a slot the tier of the last selection made for its cell; a slot
  whose cell nobody selected, and an instant that is no slot, are absent (not refused).
\<close>

theorem expand_selections_exact:
  "expand_selections slots loc sel t = Some tier \<longleftrightarrow>
     t \<in> set slots \<and> (\<exists>earlier s later. sel = earlier @ s # later \<and> sel_cell s = cell_of t loc
       \<and> sel_tier s = tier \<and> (\<forall>s' \<in> set later. sel_cell s' \<noteq> cell_of t loc))"
proof -
  have "find (\<lambda>s. sel_cell s = cell_of t loc) (rev sel) = Some s \<longleftrightarrow>
      (\<exists>earlier later. sel = earlier @ s # later \<and> sel_cell s = cell_of t loc
        \<and> (\<forall>s' \<in> set later. sel_cell s' \<noteq> cell_of t loc))" for s
  proof -
    have "rev sel = ys @ s # zs \<longleftrightarrow> sel = rev zs @ s # rev ys" for ys zs
      by (metis append.assoc append_Cons append_Nil rev.simps(2) rev_append rev_rev_ident)
    then show ?thesis unfolding find_Some_prefix by (metis rev_rev_ident set_rev)
  qed
  then show ?thesis by (auto simp: expand_selections_lookup)
qed

definition two_taps :: "selection list" where
  "two_taps = [\<lparr>sel_cell = Cell (Date 1970 1 1) Afternoon, sel_tier = TierNo\<rparr>,
     \<lparr>sel_cell = Cell (Date 1970 1 1) Afternoon, sel_tier = TierOK\<rparr>]"

lemma expand_selections_exact_witness: "expand_selections [ten, noon] utc two_taps noon = Some TierOK"
proof -
  have "cell_of noon utc = Cell (Date 1970 1 1) Afternoon" by code_simp
  then show ?thesis
    unfolding expand_selections_exact
    by (intro conjI exI [of _ "[hd two_taps]"] exI [of _ "two_taps ! 1"] exI [of _ "[]"]) (simp_all add: two_taps_def)
qed

text \<open>The wire names of the day parts are read back exactly, and nothing else is accepted.\<close>

theorem parse_block_roundtrip: "parse_block s = Some b \<longleftrightarrow> s = block_string b"
  by (cases b) (auto simp: parse_block_def block_string_def)

end
