(* ===== verification/Requests.thy ===== *)
theory Requests
  imports GoText Store Dayparts
begin

text \<open>
  What the server reads out of a request before it touches the store: the parsers and conversions of
  \<^verbatim>\<open>api/internal/server/events.go\<close> and \<^verbatim>\<open>responses.go\<close>, and the reasons a request
  is refused for. A request body arrives decoded (\<^verbatim>\<open>encoding/json\<close> is the library's); a body that
  does not decode is \<open>None\<close> and its handler answers \<open>Malformed\<close>. Every message of the code is a
  constructor of \<open>reason\<close> that carries what the message prints.

  Main facts (\<open>RequestFacts\<close>): dates and times of day are read back from their printed form, an
  accepted event request satisfies the constraints of the table it is stored in, a submission's answers
  are exactly the fine selections laid over the coarse ones.
\<close>

datatype field_error =
    DateRequired | NotADate string | NotATime string | HourRange string | MinuteRange string | PastMidnight string

datatype reason =
    Malformed
  | TitleRequired | TitleTooLong | UnknownZone string
  | InWindowStart field_error | InWindowEnd field_error | InDayStart field_error | InDayEnd field_error
  | SlotMinutesRange | OrganizerTooLong | SlotsRefused failure | CouldNotCreateEvent
  | NoSuchEvent | CouldNotLoadEvent | CouldNotExpand | CouldNotLoadParticipants | CouldNotLoadResponses
  | NameRequired | NameTooLong | RoleInvalid | CouldNotJoin
  | CoarseBlock nat string | CoarseDate nat field_error | CoarseTier nat string
  | NotASlotAt nat instant | SlotTier nat string | ZoneRefused string | CouldNotSaveResponses
  | MissingToken | UnrecognisedToken | CouldNotVerify
  | NoSlotsToCheck | UrlBlocked string | FeedUnreadable | CouldNotSaveCalendar | CouldNotApplyCalendar
  | CouldNotDisconnect
  | CouldNotCompute | OrganizerOnly | NotASlot instant | RuledOut instant "string list" | CouldNotLock
  | CouldNotReopen | NotDecided
  | NoSuchGroup | CouldNotLoadGroup | CouldNotGraduate | CouldNotLoadMembers | CouldNotLoadEvents
  | CouldNotJoinGroup | MemberIdRequired | NoSuchMember | CouldNotClaim | EventParameterRequired
  | GroupNameTooLong | TooManyRequests int | StreamingUnavailable
  | EventNotInGroup | CouldNotPropose | EventWithoutGroup | CouldNotVerifyMembership | CouldNotClaimSeat

text \<open>\<^verbatim>\<open>if x, err = f(); err != nil { return wrap(err) }\<close>.\<close>

definition and_then :: "'e + 'a \<Rightarrow> ('a \<Rightarrow> 'e + 'b) \<Rightarrow> 'e + 'b" where
  "and_then x f = (case x of Inl e \<Rightarrow> Inl e | Inr a \<Rightarrow> f a)"

definition wrap :: "('e \<Rightarrow> 'f) \<Rightarrow> 'e + 'a \<Rightarrow> 'f + 'a" where
  "wrap g x = (case x of Inl e \<Rightarrow> Inl (g e) | Inr a \<Rightarrow> Inr a)"

section \<open>Dates and times of day\<close>

definition date_string :: "date \<Rightarrow> string" where
  "date_string d = pad_int 4 (d_year d) @ ''-'' @ pad_int 2 (d_month d) @ ''-'' @ pad_int 2 (d_day d)"

definition time_string :: "time_of_day \<Rightarrow> string" where
  "time_string t = pad_int 2 (tod_hour t) @ '':'' @ pad_int 2 (tod_minute t)"

definition parse_date :: "string \<Rightarrow> field_error + date" where
  "parse_date s =
     (if s = '''' then Inl DateRequired
      else case parse_iso_date s of
        None \<Rightarrow> Inl (NotADate s)
      | Some (y, m, d) \<Rightarrow> Inr (Date y m d))"

definition parse_time_of_day_or :: "string \<Rightarrow> time_of_day \<Rightarrow> field_error + time_of_day" where
  "parse_time_of_day_or s def =
     (if s = '''' then Inr def
      else case cut (CHR '':'') s of
        None \<Rightarrow> Inl (NotATime s)
      | Some (hh, mm) \<Rightarrow>
          (case atoi hh of
             None \<Rightarrow> Inl (NotATime s)
           | Some h \<Rightarrow>
               (case atoi mm of
                  None \<Rightarrow> Inl (NotATime s)
                | Some m \<Rightarrow>
                    if h < 0 \<or> h > 24 then Inl (HourRange s)
                    else if m < 0 \<or> m > 59 then Inl (MinuteRange s)
                    else if h = 24 \<and> m \<noteq> 0 then Inl (PastMidnight s)
                    else Inr \<lparr>tod_hour = h, tod_minute = m\<rparr>)))"

section \<open>Creating an event\<close>

definition max_title_runes :: nat where "max_title_runes = 120"
definition max_name_runes :: nat where "max_name_runes = 60"

record create_event_request =
  cr_title :: string
  cr_timezone :: string
  cr_window_start :: string
  cr_window_end :: string
  cr_day_start :: string
  cr_day_end :: string
  cr_slot_minutes :: int
  cr_organizer_name :: string

definition to_new_event :: "env \<Rightarrow> create_event_request \<Rightarrow> reason + new_event" where
  "to_new_event env req =
     (let title = trim_space (cr_title req) in
      if title = '''' then Inl TitleRequired
      else if rune_count title > max_title_runes then Inl TitleTooLong
      else if \<not> valid_zone env (cr_timezone req) then Inl (UnknownZone (cr_timezone req))
      else
        and_then (wrap InWindowStart (parse_date (cr_window_start req))) (\<lambda>ws.
        and_then (wrap InWindowEnd (parse_date (cr_window_end req))) (\<lambda>we.
        and_then (wrap InDayStart (parse_time_of_day_or (cr_day_start req) \<lparr>tod_hour = 9, tod_minute = 0\<rparr>)) (\<lambda>ds.
        and_then (wrap InDayEnd (parse_time_of_day_or (cr_day_end req) \<lparr>tod_hour = 17, tod_minute = 0\<rparr>)) (\<lambda>de.
        let mins = (if cr_slot_minutes req = 0 then 30 else cr_slot_minutes req) in
        if mins < 5 \<or> mins > 480 then Inl SlotMinutesRange
        else
          let name = trim_space (cr_organizer_name req);
              out = \<lparr>ne_title = title, ne_tz = cr_timezone req, ne_window_start = ws, ne_window_end = we,
                     ne_day_start = ds, ne_day_end = de, ne_slot_minutes = mins, ne_organizer = None, ne_group = ''''\<rparr>
          in if name = '''' then Inr out
             else if rune_count name > max_name_runes then Inl OrganizerTooLong
             else Inr (out\<lparr>ne_organizer := Some \<lparr>np_name = name, np_tz = cr_timezone req, np_role = '''',
                                              np_organizer = False\<rparr>\<rparr>))))))"

section \<open>Joining\<close>

record join_request =
  jr_name :: string
  jr_timezone :: string
  jr_role :: string

definition to_new_participant :: "env \<Rightarrow> join_request \<Rightarrow> string \<Rightarrow> reason + new_participant" where
  "to_new_participant env req fallback =
     (let name = trim_space (jr_name req);
          zone = (if jr_timezone req = '''' then fallback else jr_timezone req) in
      if name = '''' then Inl NameRequired
      else if rune_count name > max_name_runes then Inl NameTooLong
      else if \<not> valid_zone env zone then Inl (UnknownZone (jr_timezone req))
      else if jr_role req = '''' \<or> jr_role req = ''optional'' then
        Inr \<lparr>np_name = name, np_tz = zone, np_role = ''optional'', np_organizer = False\<rparr>
      else if jr_role req = ''required'' then
        Inr \<lparr>np_name = name, np_tz = zone, np_role = ''required'', np_organizer = False\<rparr>
      else Inl RoleInvalid)"

section \<open>Answers\<close>

record coarse_selection =
  co_date :: string
  co_block :: string
  co_tier :: string

record slot_selection =
  sl_start :: instant
  sl_tier :: string

record put_responses_request =
  pq_coarse :: "coarse_selection list"
  pq_slots :: "slot_selection list"
  pq_timezone :: string

definition parse_tier :: "string \<Rightarrow> tier option" where
  "parse_tier s =
     (if s = ''preferred'' then Some TierPreferred
      else if s = ''ok'' then Some TierOK
      else if s = ''if_needed'' then Some TierIfNeeded
      else if s = ''no'' then Some TierNo
      else None)"

text \<open>
  \<^verbatim>\<open>UnixNano\<close> is 64 bits wide and wraps around; the code uses it as the key of an instant.
\<close>

definition unix_nano :: "instant \<Rightarrow> 64 word" where
  "unix_nano t = word_of_int t"

primrec read_coarse :: "nat \<Rightarrow> coarse_selection list \<Rightarrow> reason + selection list" where
  "read_coarse i [] = Inr []"
| "read_coarse i (c # cs) =
     (case parse_block (co_block c) of
        None \<Rightarrow> Inl (CoarseBlock i (co_block c))
      | Some b \<Rightarrow>
          (case parse_date (co_date c) of
             Inl e \<Rightarrow> Inl (CoarseDate i e)
           | Inr d \<Rightarrow>
               (case parse_tier (co_tier c) of
                  None \<Rightarrow> Inl (CoarseTier i (co_tier c))
                | Some t \<Rightarrow>
                    and_then (read_coarse (Suc i) cs) (\<lambda>sel.
                    Inr (\<lparr>sel_cell = Cell d b, sel_tier = t\<rparr> # sel)))))"

type_synonym answer_maps = "(instant \<rightharpoonup> tier) \<times> (instant \<rightharpoonup> string)"

primrec overlay :: "(64 word \<rightharpoonup> instant) \<Rightarrow> nat \<Rightarrow> slot_selection list \<Rightarrow> answer_maps \<Rightarrow> reason + answer_maps" where
  "overlay valid i [] acc = Inr acc"
| "overlay valid i (sl # sls) acc =
     (case valid (unix_nano (sl_start sl)) of
        None \<Rightarrow> Inl (NotASlotAt i (sl_start sl))
      | Some canonical \<Rightarrow>
          (case parse_tier (sl_tier sl) of
             None \<Rightarrow> Inl (SlotTier i (sl_tier sl))
           | Some t \<Rightarrow> overlay valid (Suc i) sls ((fst acc)(canonical \<mapsto> t), (snd acc)(canonical \<mapsto> ''manual''))))"

text \<open>
  The final loop ranges over the keys of \<open>tiers\<close>, which are slots of the event, and sorts what it
  collected; keys are different, so the order in which the map was walked does not matter.
\<close>

definition collect_answers :: "instant list \<Rightarrow> answer_maps \<Rightarrow> stored_response list" where
  "collect_answers slots acc =
     map (\<lambda>t. \<lparr>sr_slot = t, sr_tier = the (fst acc t), sr_source = (case snd acc t of None \<Rightarrow> '''' | Some s \<Rightarrow> s)\<rparr>)
       (sort (remdups (filter (\<lambda>t. fst acc t \<noteq> None) slots)))"

definition build_responses :: "instant list \<Rightarrow> location \<Rightarrow> put_responses_request \<Rightarrow> reason + stored_response list" where
  "build_responses slots loc req =
     and_then (read_coarse 0 (pq_coarse req)) (\<lambda>sel.
     let tiers = expand_selections slots loc sel;
         sources = (\<lambda>t. map_option (\<lambda>_. ''coarse'') (tiers t));
         valid = map_of_loop unix_nano (\<lambda>t. t) slots
     in and_then (overlay valid 0 (pq_slots req) (tiers, sources)) (\<lambda>acc. Inr (collect_answers slots acc)))"

definition merge_calendar_rows :: "stored_response list \<Rightarrow> stored_response list \<Rightarrow> stored_response list" where
  "merge_calendar_rows stated prior =
     (let seen = unix_nano ` sr_slot ` set stated in
      sort_key sr_slot (stated @ filter (\<lambda>r. sr_source r = ''calendar'' \<and> unix_nano (sr_slot r) \<notin> seen) prior))"

end
