(* ===== verification/StoreFacts.thy ===== *)
theory StoreFacts
  imports Store
begin

text \<open>The facts about \<open>Store\<close>: integrity, and what each operation reads and writes.\<close>

section \<open>Integrity\<close>

lemma preserves_not_found [inv_intros]: "preserves P m \<Longrightarrow> preserves P (not_found m)"
  unfolding not_found_def by (intro inv_intros)

lemma preserves_create_event_tx [inv_intros]: "preserves intact (create_event_tx env slug inp)"
  unfolding create_event_tx_def parse_group_def by (intro inv_intros)

lemma preserves_retry [inv_intros]:
  "preserves P (new_slug env) \<Longrightarrow> (\<And>slug. preserves P (tx slug)) \<Longrightarrow> preserves P (retry_slug env c tx n)"
proof (induction n)
  case 0
  show ?case unfolding retry_slug.simps by (rule preserves_fail)
next
  case (Suc n)
  show ?case unfolding retry_slug.simps by (intro inv_intros Suc)
qed

lemma preserves_create_event [inv_intros]: "preserves intact (create_event env inp)"
  unfolding create_event_def by (intro inv_intros)

lemma preserves_store [inv_intros]:
  "preserves intact (event_by_slug slug)"
  "preserves intact (decide env event slot)"
  "preserves intact (reopen env event)"
  "preserves intact (join_event env event np)"
  "preserves intact (participant_by_token env event token)"
  "preserves intact (participants_of env event)"
  "preserves intact (save_responses env participant rs)"
  "preserves intact (responses_for_participant env participant)"
  "preserves intact (responses_for_event env event)"
  "preserves intact (save_busy_blocks env participant blocks source url)"
  "preserves intact (busy_blocks env participant)"
  unfolding event_by_slug_def decide_def reopen_def join_event_def participant_by_token_def
    participants_of_def save_responses_def responses_for_participant_def responses_for_event_def
    save_busy_blocks_def busy_blocks_def
  by (intro inv_intros)+

section \<open>Failed operations change no table\<close>

definition atomic :: "'a query \<Rightarrow> bool" where
  "atomic m \<longleftrightarrow> (\<forall>s e s'. m s = (Inl e, s') \<longrightarrow> tables s' = tables s)"

named_theorems atomic_intros

lemma atomic_transaction [atomic_intros]: "atomic (transaction m)"
  by (auto simp: atomic_def transaction_def split: prod.splits sum.splits)

lemma atomic_fail [atomic_intros]: "atomic (fail e)" by (simp add: atomic_def)
lemma atomic_ret [atomic_intros]: "atomic (ret a)" by (simp add: atomic_def)

text \<open>An operation that changes no table at all, whatever it returns.\<close>

definition silent_op :: "'a query \<Rightarrow> bool" where
  "silent_op m \<longleftrightarrow> (\<forall>s. tables (snd (m s)) = tables s)"

lemma silent_opD: "silent_op m \<Longrightarrow> m s = (r, s') \<Longrightarrow> tables s' = tables s"
  by (metis silent_op_def snd_conv)

lemma atomic_seq_silent [atomic_intros]:
  assumes "silent_op m" "\<And>a. atomic (k a)"
  shows "atomic (seq m k)"
  using assms silent_opD [OF assms(1)]
  by (fastforce simp: atomic_def seq_apply split: prod.splits sum.splits)

lemma atomic_catch [atomic_intros]:
  assumes "atomic m" "\<And>e. atomic (h e)" "\<And>a. k a = ret a"
  shows "atomic (catch m h k)"
  using assms by (fastforce simp: atomic_def catch_apply split: prod.splits sum.splits)

lemma atomic_if [atomic_intros]: "atomic m \<Longrightarrow> atomic n \<Longrightarrow> atomic (if b then m else n)"
  by simp

lemma silent_draw [atomic_intros]: "silent_op (draw f)"
  by (simp add: silent_op_def draw_def)

lemma silent_of_option [atomic_intros]: "silent_op (of_option e x)"
  by (simp add: silent_op_def of_option_apply split: option.split)

lemma silent_parse [atomic_intros]: "silent_op (parse_uuid env x)"
  by (simp add: parse_uuid_def silent_of_option)

lemma silent_slug [atomic_intros]: "silent_op (new_slug env)"
  by (simp add: new_slug_def silent_draw)

lemma silent_token [atomic_intros]: "silent_op (new_token env)"
  by (simp add: new_token_def silent_draw)

lemma silent_read [atomic_intros]: "silent_op (read f)"
  by (simp add: silent_op_def)

lemma silent_select [atomic_intros]: "silent_op (select_one tbl P)" "silent_op (select_rows g)" "silent_op now"
  by (simp_all add: silent_op_def select_one_def select_rows_def now_def of_option_apply split: option.split)

lemma silent_ret [atomic_intros]: "silent_op (ret a)" "silent_op (fail e)"
  by (simp_all add: silent_op_def)

lemma silent_seq [atomic_intros]:
  assumes "silent_op m" "\<And>a. silent_op (k a)"
  shows "silent_op (seq m k)"
proof -
  have "tables (snd (seq m k s)) = tables s" for s
    using assms by (auto simp: silent_op_def seq_apply split: prod.split sum.split) (metis snd_conv)+
  then show ?thesis by (simp add: silent_op_def)
qed

lemma silent_catch [atomic_intros]:
  assumes "silent_op m" "\<And>e. silent_op (h e)" "\<And>a. silent_op (k a)"
  shows "silent_op (catch m h k)"
proof -
  have "tables (snd (catch m h k s)) = tables s" for s
    using assms by (auto simp: silent_op_def catch_apply split: prod.split sum.split) (metis snd_conv)+
  then show ?thesis by (simp add: silent_op_def)
qed

lemma silent_not_found [atomic_intros]: "silent_op m \<Longrightarrow> silent_op (not_found m)"
  unfolding not_found_def by (intro atomic_intros)

lemma silent_if [atomic_intros]: "silent_op m \<Longrightarrow> silent_op n \<Longrightarrow> silent_op (if b then m else n)"
  by simp

lemma silent_lookups [atomic_intros]:
  "silent_op (event_by_slug slug)"
  "silent_op (participant_by_token env event token)"
  "silent_op (participants_of env event)"
  "silent_op (responses_for_participant env participant)"
  "silent_op (responses_for_event env event)"
  "silent_op (busy_blocks env participant)"
  unfolding event_by_slug_def participant_by_token_def participants_of_def responses_for_participant_def
    responses_for_event_def busy_blocks_def lookup_defs
  by (intro atomic_intros)+

abbreviation create_event_loop :: "env \<Rightarrow> new_event \<Rightarrow> nat \<Rightarrow> created_event query" where
  "create_event_loop env inp \<equiv> retry_slug env ''events_slug_key'' (\<lambda>slug. create_event_tx env slug inp)"

definition drawn_slug :: "env \<Rightarrow> nat \<Rightarrow> string" where
  "drawn_slug env n = map slug_char (env_rand env n slug_length)"

lemma new_slug_eq: "new_slug env s = (Inr (drawn_slug env (drawn s)), s\<lparr>drawn := Suc (drawn s)\<rparr>)"
  by (simp add: new_slug_def draw_def drawn_slug_def)

lemma retry_slug_Inr:
  assumes "\<And>slug. atomic (tx slug)"
  shows "retry_slug env c tx n s = (Inr r, s') \<Longrightarrow> \<exists>slug s1. tables s1 = tables s \<and> tx slug s1 = (Inr r, s')"
proof (induction n arbitrary: s)
  case (Suc n)
  let ?s = "s\<lparr>drawn := Suc (drawn s)\<rparr>" and ?slug = "drawn_slug env (drawn s)"
  obtain x s1 where tx: "tx ?slug ?s = (x, s1)" by (cases "tx ?slug ?s")
  show ?case
  proof (cases x)
    case (Inl e)
    then have "retry_slug env c tx n s1 = (Inr r, s')"
      using Suc.prems tx by (auto simp: seq_apply catch_apply new_slug_eq split: if_splits)
    moreover have "tables s1 = tables s" using assms [of ?slug] tx Inl by (fastforce simp: atomic_def)
    ultimately show ?thesis using Suc.IH by fastforce
  next
    case (Inr y)
    then have "tx ?slug ?s = (Inr r, s')"
      using Suc.prems tx by (auto simp: seq_apply catch_apply new_slug_eq)
    moreover have "tables ?s = tables s" by simp
    ultimately show ?thesis by blast
  qed
qed simp

section \<open>Lookups and insertions\<close>

lemma event_by_slug_eq:
  "event_by_slug slug s = (case find (\<lambda>e. ev_slug e = slug) (tbl_events (tables s)) of
     None \<Rightarrow> (Inl NotFound, s) | Some e \<Rightarrow> (Inr (decode_event e), s))"
  by (simp add: event_by_slug_def not_found_def get_event_by_slug_row_def select_one_def op_simps split: option.split)

lemma participant_by_token_eq:
  assumes "env_scan env event = Some k"
  shows "participant_by_token env event token s =
    (case find (\<lambda>p. pt_event p = k \<and> pt_token p = env_hash env token) (tbl_participants (tables s)) of
     None \<Rightarrow> (Inl NotFound, s) | Some p \<Rightarrow> (Inr (decode_participant p), s))"
  using assms
  by (auto simp: participant_by_token_def parse_uuid_def not_found_def get_participant_by_token_row_def
      select_one_def op_simps hash_token_def split: option.split dest: find_Some_mem)

lemma insert_event_Inr:
  assumes "create_event_in_group_row env arg gid s = (Inr row, s')"
  shows "first_broken (event_checks (tables s) (tbl_events (tables s)) row) = None
    \<and> s' = s\<lparr>tables := (tables s)\<lparr>tbl_events := tbl_events (tables s) @ [row]\<rparr>, drawn := Suc (drawn s)\<rparr>
    \<and> row = \<lparr>ev_id = env_uuid env (drawn s), ev_slug = ep_slug arg, ev_title = ep_title arg, ev_tz = ep_tz arg,
        ev_window_start = ep_window_start arg, ev_window_end = ep_window_end arg,
        ev_day_start = ep_day_start arg, ev_day_end = ep_day_end arg,
        ev_slot_minutes = ep_slot_minutes arg, ev_status = ''open'', ev_decided_slot = None,
        ev_created = clock s, ev_expires = clock s + days_60, ev_group = gid, ev_decided_at = None\<rparr>"
  using assms
  by (auto simp: create_event_in_group_row_def draw_def now_def modify_def op_simps Let_def split: option.splits)

lemma insert_participant_Inr:
  assumes "insert_participant env arg s = (Inr row, s')"
  shows "first_broken (participant_checks (tables s) (tbl_participants (tables s)) row) = None
    \<and> s' = s\<lparr>tables := (tables s)\<lparr>tbl_participants := tbl_participants (tables s) @ [row]\<rparr>, drawn := Suc (drawn s)\<rparr>
    \<and> row = \<lparr>pt_id = env_uuid env (drawn s), pt_event = pp_event arg, pt_token = pp_token arg, pt_name = pp_name arg,
        pt_tz = pp_tz arg, pt_role = pp_role arg, pt_email = None, pt_calendar = ''none'',
        pt_organizer = pp_organizer arg, pt_responded = None, pt_created = clock s, pt_url = None,
        pt_member = pp_member arg\<rparr>"
  using assms
  by (auto simp: insert_participant_def draw_def now_def modify_def op_simps Let_def split: option.splits)

text \<open>The same as equations, for evaluating an example.\<close>

lemma insert_participant_eq:
  "insert_participant env arg s =
    (let row = \<lparr>pt_id = env_uuid env (drawn s), pt_event = pp_event arg, pt_token = pp_token arg, pt_name = pp_name arg,
        pt_tz = pp_tz arg, pt_role = pp_role arg, pt_email = None, pt_calendar = ''none'',
        pt_organizer = pp_organizer arg, pt_responded = None, pt_created = clock s, pt_url = None,
        pt_member = pp_member arg\<rparr>
     in if list_all snd (participant_checks (tables s) (tbl_participants (tables s)) row)
        then (Inr row, s\<lparr>tables := (tables s)\<lparr>tbl_participants := tbl_participants (tables s) @ [row]\<rparr>, drawn := Suc (drawn s)\<rparr>)
        else (Inl (Violation (the (first_broken (participant_checks (tables s) (tbl_participants (tables s)) row)))), s\<lparr>drawn := Suc (drawn s)\<rparr>))"
  by (auto simp: insert_participant_def draw_def now_def modify_def op_simps Let_def first_broken_None [symmetric] split: option.split)

lemma insert_event_eq:
  "create_event_in_group_row env arg gid s =
    (let row = \<lparr>ev_id = env_uuid env (drawn s), ev_slug = ep_slug arg, ev_title = ep_title arg, ev_tz = ep_tz arg,
        ev_window_start = ep_window_start arg, ev_window_end = ep_window_end arg,
        ev_day_start = ep_day_start arg, ev_day_end = ep_day_end arg,
        ev_slot_minutes = ep_slot_minutes arg, ev_status = ''open'', ev_decided_slot = None,
        ev_created = clock s, ev_expires = clock s + days_60, ev_group = gid, ev_decided_at = None\<rparr>
     in if list_all snd (event_checks (tables s) (tbl_events (tables s)) row)
        then (Inr row, s\<lparr>tables := (tables s)\<lparr>tbl_events := tbl_events (tables s) @ [row]\<rparr>, drawn := Suc (drawn s)\<rparr>)
        else (Inl (Violation (the (first_broken (event_checks (tables s) (tbl_events (tables s)) row)))), s\<lparr>drawn := Suc (drawn s)\<rparr>))"
  by (auto simp: create_event_in_group_row_def draw_def now_def modify_def op_simps Let_def first_broken_None [symmetric] split: option.split)

lemma new_token_eq:
  "new_token env s = (let raw = raw_url_encode (env_rand env (drawn s) token_bytes)
     in (Inr (raw, env_hash env raw), s\<lparr>drawn := Suc (drawn s)\<rparr>))"
  by (simp add: new_token_def draw_def hash_token_def Let_def)

lemma find_append: "find P (xs @ ys) = (case find P xs of None \<Rightarrow> find P ys | Some x \<Rightarrow> Some x)"
  by (induction xs) auto

lemma find_fresh: "\<forall>x \<in> set xs. \<not> P x \<Longrightarrow> find P xs = None"
  by (simp add: find_None_iff)


section \<open>Writing a response set\<close>

lemma insort_key_map: "map g (insort_key (\<lambda>x. f (g x)) x xs) = insort_key f (g x) (map g xs)"
  by (induction xs) auto

lemma sort_key_map: "sort_key f (map g xs) = map g (sort_key (\<lambda>x. f (g x)) xs)"
  by (induction xs) (simp_all add: insort_key_map)

lemma distinct_other:
  "distinct (map g xs) \<Longrightarrow> p \<in> set xs \<Longrightarrow> g p \<notin> g ` set (filter (\<lambda>x. key x \<noteq> key p) xs)"
  by (auto simp: distinct_map inj_on_def)

text \<open>A change of a participant that touches no constrained column passes every check.\<close>

lemma participant_checks_keep:
  assumes "participants_ok d" "p \<in> set (tbl_participants d)" "pt_id p = k"
    "pt_id q = pt_id p" "pt_event q = pt_event p" "pt_token q = pt_token p" "pt_name q = pt_name p"
    "pt_role q = pt_role p" "pt_member q = pt_member p" "pt_calendar q \<in> {''none'', ''google'', ''ics''}"
  shows "first_broken (participant_checks d (filter (\<lambda>x. pt_id x \<noteq> k) (tbl_participants d)) q) = None"
proof -
  let ?ps = "tbl_participants d"
  have ok: "distinct (map (\<lambda>p. (pt_event p, pt_token p)) ?ps)" "distinct (map seat_key (filter linked ?ps))"
    "participant_ok d p"
    using assms(1,2) by (auto simp: participants_ok_def)
  have token: "(pt_event p, pt_token p) \<notin> (\<lambda>q. (pt_event q, pt_token q)) ` set (filter (\<lambda>x. pt_id x \<noteq> k) ?ps)"
    using distinct_other [OF ok(1) assms(2), of pt_id] assms(3) by simp
  have seat: "seat_key p \<notin> seat_key ` set (filter (\<lambda>x. pt_id x \<noteq> k) ?ps)" if "linked p"
  proof -
    have "p \<in> set (filter linked ?ps)" using that assms(2) by simp
    from distinct_other [OF ok(2) this, of pt_id] show ?thesis using that assms(3) by auto
  qed
  have pk: "pt_id p \<notin> pt_id ` set (filter (\<lambda>x. pt_id x \<noteq> k) ?ps)" using assms(3) by auto
  have member: "case pt_member p of None \<Rightarrow> True | Some m \<Rightarrow> m \<in> gm_id ` set (tbl_members d)"
    using ok(3) by (simp add: participant_ok_def split: option.split)
  have "pt_member p = None \<or> seat_key p \<notin> seat_key ` set (filter (\<lambda>x. pt_id x \<noteq> k) ?ps)"
    using seat by blast
  then show ?thesis
    unfolding first_broken_None participant_checks_def list.pred_inject snd_conv assms(4-9)
    using ok(3) token pk member assms(10) unfolding participant_ok_def by (intro conjI; (elim conjE)?; (assumption | simp only: list.pred_inject(1)))
qed

lemma update_participant_keep:
  assumes "participants_ok (tables s)"
    "\<And>p. pt_id (f p) = pt_id p" "\<And>p. pt_event (f p) = pt_event p" "\<And>p. pt_token (f p) = pt_token p"
    "\<And>p. pt_name (f p) = pt_name p" "\<And>p. pt_role (f p) = pt_role p" "\<And>p. pt_member (f p) = pt_member p"
    "\<And>p. p \<in> set (tbl_participants (tables s)) \<Longrightarrow> pt_calendar (f p) \<in> {''none'', ''google'', ''ics''}"
  shows "exec_update (update_participant k f) s = (Inr (), s\<lparr>tables := (tables s)\<lparr>tbl_participants :=
     set_where (\<lambda>x. pt_id x = k) f (tbl_participants (tables s))\<rparr>\<rparr>)"
proof (cases "find (\<lambda>p. pt_id p = k) (tbl_participants (tables s))")
  case None
  then have "set_where (\<lambda>x. pt_id x = k) f (tbl_participants (tables s)) = tbl_participants (tables s)"
    by (auto simp: set_where_def find_None_iff intro: map_idI)
  then show ?thesis
    using None by (simp add: exec_update_def update_participant_def select_one_def op_simps)
next
  case (Some p)
  then have p: "p \<in> set (tbl_participants (tables s))" "pt_id p = k" using find_Some_mem by fast+
  have "first_broken (participant_checks (tables s)
      (filter (\<lambda>x. pt_id x \<noteq> k) (tbl_participants (tables s))) (f p)) = None"
    using p assms by (intro participant_checks_keep [OF assms(1) p]) auto
  then show ?thesis
    using Some by (simp add: exec_update_def update_participant_def select_one_def modify_def op_simps)
qed

definition mark_responded :: "uuid \<Rightarrow> instant \<Rightarrow> participant_row list \<Rightarrow> participant_row list" where
  "mark_responded k t = map (\<lambda>p. if pt_id p = k then p\<lparr>pt_responded := Some t\<rparr> else p)"

lemma mark_responded_time:
  assumes "p \<in> set (mark_responded k t ps)" "pt_id p = k"
  shows "pt_responded p = Some t"
proof -
  obtain q where q: "p = (if pt_id q = k then q\<lparr>pt_responded := Some t\<rparr> else q)"
    using assms(1) unfolding mark_responded_def set_map by blast
  show ?thesis
  proof (cases "pt_id q = k")
    case True
    then show ?thesis unfolding q by simp
  next
    case False
    then show ?thesis using q assms(2) by simp
  qed
qed

lemma mark_eq:
  assumes "participants_ok (tables s)"
  shows "mark_participant_responded k s = (Inr (), s\<lparr>tables := (tables s)\<lparr>tbl_participants :=
     mark_responded k (clock s) (tbl_participants (tables s))\<rparr>\<rparr>)"
  using update_participant_keep [OF assms, of "\<lambda>p. p\<lparr>pt_responded := Some (clock s)\<rparr>" k] assms
  by (auto simp: mark_participant_responded_def now_def op_simps set_where_def mark_responded_def
      participants_ok_def participant_ok_def)

text \<open>The tables after a response set is replaced.\<close>

definition replace_responses :: "uuid \<Rightarrow> stored_response list \<Rightarrow> instant \<Rightarrow> database \<Rightarrow> database" where
  "replace_responses k rs t d =
     d\<lparr>tbl_responses := filter (\<lambda>r. rs_participant r \<noteq> k) (tbl_responses d) @ response_rows k rs,
       tbl_participants := mark_responded k t (tbl_participants d)\<rparr>"

lemma save_responses_eq:
  assumes "env_scan env participant = Some k" "db_ok (tables s)"
  shows "save_responses env participant rs s =
    (let d = (tables s)\<lparr>tbl_responses := filter (\<lambda>r. rs_participant r \<noteq> k) (tbl_responses (tables s))\<rparr>;
         broken = (if rs = [] then None else first_broken (response_checks d (response_rows k rs)))
     in case broken of Some c \<Rightarrow> (Inl (Violation c), s)
      | None \<Rightarrow> (Inr (), s\<lparr>tables := replace_responses k rs (clock s) (tables s)\<rparr>))"
proof -
  have "participants_ok ((tables s)\<lparr>tbl_responses := x\<rparr>)" for x using assms(2) by (simp add: db_ok_def)
  then show ?thesis
    using assms(1)
    by (auto simp: save_responses_def parse_uuid_def transaction_def delete_responses_rows_def
        insert_responses_rows_def modify_def op_simps Let_def mark_eq replace_responses_def response_rows_def
        split: option.splits)
qed

lemma responses_for_participant_eq:
  "env_scan env participant = Some k \<Longrightarrow> responses_for_participant env participant s =
     (Inr (map decode_response (sort_key rs_slot (filter (\<lambda>r. rs_participant r = k) (tbl_responses (tables s))))), s)"
  by (simp add: responses_for_participant_def parse_uuid_def list_responses_rows_def select_rows_def op_simps)

definition sourced :: "stored_response \<Rightarrow> stored_response" where
  "sourced r = r\<lparr>sr_source := or_default (sr_source r) ''manual''\<rparr>"

lemma decode_response_rows:
  "map decode_response (sort_key rs_slot (response_rows k rs)) = sort_key sr_slot (map sourced rs)"
proof -
  have "sort_key sr_slot (map sourced rs) = sort_key sr_slot (map decode_response (response_rows k rs))"
  proof -
    have "sourced r = \<lparr>sr_slot = sr_slot r, sr_tier = sr_tier r, sr_source = or_default (sr_source r) ''manual''\<rparr>" for r
      by (cases r) (simp add: sourced_def)
    then have "sourced = (\<lambda>r. \<lparr>sr_slot = sr_slot r, sr_tier = sr_tier r, sr_source = or_default (sr_source r) ''manual''\<rparr>)"
      by (rule ext)
    then show ?thesis by (simp add: response_rows_def decode_response_def o_def)
  qed
  also have "\<dots> = map decode_response (sort_key rs_slot (response_rows k rs))"
    by (simp add: sort_key_map decode_response_def)
  finally show ?thesis by simp
qed

lemma replaced_own:
  "filter (\<lambda>r. rs_participant r = k) (tbl_responses (replace_responses k rs t d)) = response_rows k rs"
  by (simp add: replace_responses_def response_rows_def o_def)

lemma replaced_other:
  "j \<noteq> k \<Longrightarrow> filter (\<lambda>r. rs_participant r = j) (tbl_responses (replace_responses k rs t d))
     = filter (\<lambda>r. rs_participant r = j) (tbl_responses d)"
  by (auto simp: replace_responses_def response_rows_def filter_empty_conv conj_commute intro!: filter_cong)

section \<open>An example environment\<close>

definition demo_env :: env where
  "demo_env = \<lparr>env_uuid = (\<lambda>n. word_of_nat (n + 10)), env_rand = (\<lambda>n k. replicate k (word_of_nat n)),
     env_hash = (\<lambda>s. s), env_scan = canonical_scan,
     env_zone = (\<lambda>n. if n = ''UTC'' then Some utc else None)\<rparr>"

definition demo_event :: event_row where
  "demo_event = \<lparr>ev_id = 1, ev_slug = ''abc'', ev_title = ''Lunch'', ev_tz = ''UTC'', ev_window_start = 0,
     ev_window_end = 0, ev_day_start = encode_time_of_day \<lparr>tod_hour = 10, tod_minute = 0\<rparr>,
     ev_day_end = encode_time_of_day \<lparr>tod_hour = 13, tod_minute = 0\<rparr>, ev_slot_minutes = 60,
     ev_status = ''open'', ev_decided_slot = None, ev_created = 0, ev_expires = days_60, ev_group = None,
     ev_decided_at = None\<rparr>"

definition demo_participant :: "uuid \<Rightarrow> string \<Rightarrow> string \<Rightarrow> participant_row" where
  "demo_participant k name role =
     \<lparr>pt_id = k, pt_event = 1, pt_token = name, pt_name = name, pt_tz = ''UTC'', pt_role = role,
      pt_email = None, pt_calendar = ''none'', pt_organizer = (role = ''required''), pt_responded = None, pt_created = 0,
      pt_url = None, pt_member = None\<rparr>"

definition demo_db :: database where
  "demo_db = \<lparr>tbl_events = [demo_event],
     tbl_participants = [demo_participant 2 ''Ann'' ''required'', demo_participant 3 ''Bob'' ''optional''],
     tbl_responses = [], tbl_busy = [], tbl_groups = [], tbl_members = [], tbl_member_busy = []\<rparr>"

definition demo_world :: world where
  "demo_world = \<lparr>tables = demo_db, drawn = 0, clock = hour\<rparr>"

lemmas demo_defs = demo_env_def demo_event_def demo_participant_def demo_db_def demo_world_def

lemma demo_scan: "scan_ok demo_env" "env_scan demo_env (uuid_string u) = Some u"
  by (simp_all add: scan_ok_def demo_env_def canonical_scan_uuid)

lemma demo_ok: "db_ok demo_db"
  by (simp add: table_ok_defs row_ok_defs demo_defs present_def encode_time_of_day_def micros_per_minute_def)

lemmas store_eval = op_simps parse_uuid_def demo_scan transaction_def new_token_eq insert_participant_eq
  insert_event_eq Let_def or_default_def

lemma demo_checks:
  "list_all snd (participant_checks demo_db (tbl_participants demo_db) p) \<longleftrightarrow>
     pt_calendar p \<in> {''none'', ''google'', ''ics''} \<and> present (pt_name p) \<and> pt_role p \<in> {''required'', ''optional''}
     \<and> pt_id p \<notin> {2, 3} \<and> (pt_event p = 1 \<longrightarrow> pt_token p \<noteq> ''Ann'' \<and> pt_token p \<noteq> ''Bob'') \<and> pt_event p = 1 \<and> pt_member p = None"
  by (auto simp: participant_checks_def demo_defs split: option.split)

lemma token_long: "raw_url_encode (replicate 32 w) \<noteq> ''Ann'' \<and> raw_url_encode (replicate 32 w) \<noteq> ''Bob''"
proof -
  have "replicate 32 w = w # w # w # replicate 29 w" by (simp add: eval_nat_numeral)
  then show ?thesis by (simp add: Let_def)
qed

section \<open>Properties\<close>

text \<open>
  A join gives out a token that resolves to the new participant in its own event, who has not
  answered yet; for every other pair of an event and a token the answer is what it was before, so a
  token of one event is worth nothing in another.
\<close>

theorem join_event_roundtrip:
  assumes "scan_ok env" "join_event env (uuid_string k) np s = (Inr (p, token), s')"
  shows "participant_by_token env (uuid_string k) token s' = (Inr p, s')
    \<and> sp_name p = np_name np \<and> sp_responded p = None \<and> sp_organizer p = np_organizer np
    \<and> (\<forall>k' token'. k' \<noteq> k \<or> env_hash env token' \<noteq> env_hash env token \<longrightarrow>
        fst (participant_by_token env (uuid_string k') token' s') = fst (participant_by_token env (uuid_string k') token' s))"
proof -
  have scan: "env_scan env (uuid_string u) = Some u" for u using assms(1) by (simp add: scan_ok_def)
  obtain row s1 digest where steps: "new_token env s = (Inr (token, digest), s1)"
      "create_participant_row env \<lparr>pp_event = k, pp_token = digest, pp_name = np_name np, pp_tz = np_tz np,
         pp_role = or_default (np_role np) ''optional'', pp_organizer = np_organizer np, pp_member = None\<rparr> s1 = (Inr row, s')"
      "p = decode_participant row"
    using assms(2) by (auto simp: join_event_def parse_uuid_def scan op_Inr)
  have digest: "digest = env_hash env token" and tables: "tables s1 = tables s"
    using steps(1) by (auto simp: new_token_eq Let_def)
  note ins = insert_participant_Inr [OF steps(2) [unfolded create_participant_row_def]]
  from ins have row: "pt_event row = k" "pt_token row = env_hash env token" "pt_name row = np_name np"
      "pt_responded row = None" "pt_organizer row = np_organizer np"
    and after: "tbl_participants (tables s') = tbl_participants (tables s) @ [row]"
    by (auto simp: digest tables)
  have "(k, env_hash env token) \<notin> (\<lambda>q. (pt_event q, pt_token q)) ` set (tbl_participants (tables s))"
    using ins by (simp add: first_broken_None participant_checks_def tables row)
  then have "\<forall>q \<in> set (tbl_participants (tables s)). \<not> (pt_event q = k \<and> pt_token q = env_hash env token)"
    by force
  then have "participant_by_token env (uuid_string k) token s' = (Inr p, s')"
    by (simp add: participant_by_token_eq [OF scan] after find_append find_fresh row steps(3))
  moreover have "fst (participant_by_token env (uuid_string k') token' s') = fst (participant_by_token env (uuid_string k') token' s)"
    if "k' \<noteq> k \<or> env_hash env token' \<noteq> env_hash env token" for k' token'
    using that by (auto simp: participant_by_token_eq [OF scan] after find_append row split: option.split)
  ultimately show ?thesis using row steps(3) by (auto simp: decode_participant_def)
qed

lemma join_event_roundtrip_witness:
  "\<exists>p token s'. join_event demo_env (uuid_string 1) \<lparr>np_name = ''Cho'', np_tz = ''UTC'', np_role = '''', np_organizer = False\<rparr>
      demo_world = (Inr (p, token), s') \<and> participant_by_token demo_env (uuid_string 1) token s' = (Inr p, s')
    \<and> sp_name p = ''Cho''"
proof -
  obtain p token s' where j: "join_event demo_env (uuid_string 1)
      \<lparr>np_name = ''Cho'', np_tz = ''UTC'', np_role = '''', np_organizer = False\<rparr> demo_world = (Inr (p, token), s')"
    by (simp add: join_event_def create_participant_row_def store_eval demo_world_def demo_checks)
      (simp add: demo_env_def present_def token_bytes_def token_long)
  from join_event_roundtrip [OF demo_scan(1) j] j show ?thesis by auto
qed

text \<open>
  Saving a response set is all or nothing. When it succeeds, the person's stored answers are exactly
  the submitted ones (sorted by slot, an empty source meaning \<open>manual\<close>), the person counts as having
  responded, and nobody else's answers and no other table change; when it fails, nothing changes.
\<close>

theorem save_responses_exact:
  assumes "scan_ok env" "db_ok (tables s)"
  shows "case save_responses env (uuid_string k) rs s of
      (Inl e, s') \<Rightarrow> s' = s
    | (Inr _, s') \<Rightarrow>
        responses_for_participant env (uuid_string k) s' = (Inr (sort_key sr_slot (map sourced rs)), s')
      \<and> (\<forall>j. j \<noteq> k \<longrightarrow> fst (responses_for_participant env (uuid_string j) s') = fst (responses_for_participant env (uuid_string j) s))
      \<and> (\<forall>p \<in> set (tbl_participants (tables s')). pt_id p = k \<longrightarrow> pt_responded p = Some (clock s))
      \<and> tables s' = (tables s)\<lparr>tbl_responses := tbl_responses (tables s'), tbl_participants := tbl_participants (tables s')\<rparr>"
proof -
  have scan: "env_scan env (uuid_string u) = Some u" for u using assms(1) by (simp add: scan_ok_def)
  show ?thesis
  proof (cases "if rs = [] then None else first_broken (response_checks
      ((tables s)\<lparr>tbl_responses := filter (\<lambda>r. rs_participant r \<noteq> k) (tbl_responses (tables s))\<rparr>) (response_rows k rs))")
    case (Some c)
    then show ?thesis by (simp add: save_responses_eq [OF scan assms(2)] Let_def)
  next
    case None
    let ?s = "s\<lparr>tables := replace_responses k rs (clock s) (tables s)\<rparr>"
    have save: "save_responses env (uuid_string k) rs s = (Inr (), ?s)"
      using None by (simp add: save_responses_eq [OF scan assms(2)] Let_def)
    show ?thesis
      unfolding save prod.case sum.case
    proof (intro conjI)
      show "responses_for_participant env (uuid_string k) ?s = (Inr (sort_key sr_slot (map sourced rs)), ?s)"
        by (simp add: responses_for_participant_eq [OF scan] replaced_own decode_response_rows)
      show "\<forall>j. j \<noteq> k \<longrightarrow> fst (responses_for_participant env (uuid_string j) ?s)
          = fst (responses_for_participant env (uuid_string j) s)"
        by (simp add: responses_for_participant_eq [OF scan] replaced_other)
      show "\<forall>p \<in> set (tbl_participants (tables ?s)). pt_id p = k \<longrightarrow> pt_responded p = Some (clock s)"
        using mark_responded_time [of _ k "clock s"] by (simp add: replace_responses_def)
      show "tables ?s = (tables s)\<lparr>tbl_responses := tbl_responses (tables ?s), tbl_participants := tbl_participants (tables ?s)\<rparr>"
        by (simp add: replace_responses_def)
    qed
  qed
qed

definition demo_answers :: "stored_response list" where
  "demo_answers = [\<lparr>sr_slot = 11 * hour, sr_tier = TierOK, sr_source = ''''\<rparr>,
     \<lparr>sr_slot = 10 * hour, sr_tier = TierPreferred, sr_source = ''coarse''\<rparr>]"

lemma save_responses_exact_witness:
  "\<exists>s'. save_responses demo_env (uuid_string 3) demo_answers demo_world = (Inr (), s')
     \<and> fst (responses_for_participant demo_env (uuid_string 3) s') = Inr (sort_key sr_slot (map sourced demo_answers))"
proof -
  have "db_ok (tables demo_world)" using demo_ok by (simp add: demo_world_def)
  note ex = save_responses_exact [OF demo_scan(1) this, of 3 demo_answers]
  have "\<exists>s'. save_responses demo_env (uuid_string 3) demo_answers demo_world = (Inr (), s')"
  proof -
    have "first_broken (response_checks (demo_db\<lparr>tbl_responses := []\<rparr>) (response_rows 3 demo_answers)) = None"
      by (simp add: first_broken_None response_checks_def Let_def response_rows_def demo_answers_def or_default_def
          demo_db_def demo_participant_def duration_units)
    then show ?thesis
      by (simp add: save_responses_eq [OF demo_scan(2)] demo_ok demo_world_def Let_def) (simp add: demo_db_def)
  qed
  then show ?thesis using ex by auto
qed

section \<open>Creating an event\<close>

lemma first_broken_Some: "first_broken cs = Some n \<Longrightarrow> (n, False) \<in> set cs"
  by (induction cs rule: first_broken.induct) (auto simp: first_broken.simps split: if_splits)

lemma insert_event_Inl:
  assumes "create_event_in_group_row env arg gid s = (Inl e, s')"
  shows "tables s' = tables s \<and> drawn s' = Suc (drawn s)
    \<and> (e = Violation ''events_slug_key'' \<longrightarrow> ep_slug arg \<in> ev_slug ` set (tbl_events (tables s)))
    \<and> (\<exists>c. e = Violation c)"
  using assms
  by (auto simp: create_event_in_group_row_def draw_def now_def modify_def op_simps Let_def event_checks_def
      dest!: first_broken_Some split: option.splits)

lemma insert_participant_Inl:
  assumes "insert_participant env arg s = (Inl e, s')"
  shows "tables s' = tables s \<and> e \<noteq> Violation ''events_slug_key'' \<and> e \<noteq> NoFreeSlug"
  using assms
  by (auto simp: insert_participant_def draw_def now_def modify_def op_simps Let_def participant_checks_def
      dest!: first_broken_Some split: option.splits)

lemma parse_group_steps:
  "parse_group env t s = (Inl e, s') \<Longrightarrow> e = NotFound \<and> s' = s"
  "parse_group env t s = (Inr g, s') \<Longrightarrow> s' = s"
  by (auto simp: parse_group_def parse_uuid_def op_simps split: if_splits option.splits)

lemma create_event_tx_Inl:
  assumes "create_event_tx env slug inp s = (Inl e, s')"
  shows "tables s' = tables s \<and> e \<noteq> NoFreeSlug \<and> (e = Violation ''events_slug_key'' \<longrightarrow>
     slug \<in> ev_slug ` set (tbl_events (tables s)) \<and> drawn s' = Suc (drawn s))"
  using assms
  by (auto simp: create_event_tx_def transaction_def create_participant_row_def new_token_eq Let_def params_of_def
      seq_apply split: prod.splits sum.splits option.splits
      dest!: parse_group_steps insert_event_Inl insert_participant_Inl)

lemma create_event_loop_Inl:
  assumes "create_event_loop env inp n s = (Inl e, s')"
  shows "tables s' = tables s \<and> (e = NoFreeSlug \<longrightarrow>
     (\<forall>i<n. drawn_slug env (drawn s + 2 * i) \<in> ev_slug ` set (tbl_events (tables s))))"
  using assms
proof (induction n arbitrary: s)
  case 0
  then show ?case by simp
next
  case (Suc n)
  let ?s = "s\<lparr>drawn := Suc (drawn s)\<rparr>"
  obtain e1 s1 where tx: "create_event_tx env (drawn_slug env (drawn s)) inp ?s = (Inl e1, s1)"
    and rest: "(if e1 = Violation ''events_slug_key'' then create_event_loop env inp n else fail e1) s1 = (Inl e, s')"
    using Suc.prems by (auto simp: seq_apply catch_apply new_slug_eq split: prod.splits sum.splits)
  note t = create_event_tx_Inl [OF tx]
  show ?case
  proof (cases "e1 = Violation ''events_slug_key''")
    case True
    then have s1: "drawn_slug env (drawn s) \<in> ev_slug ` set (tbl_events (tables s))" "drawn s1 = drawn s + 2" "tables s1 = tables s"
      using t by auto
    note ih = Suc.IH [of s1] True rest
    have "drawn_slug env (drawn s + 2 * i) \<in> ev_slug ` set (tbl_events (tables s))"
      if "e = NoFreeSlug" "i < Suc n" for i
      using that s1 ih by (cases i) auto
    then show ?thesis using ih s1(3) by auto
  next
    case False
    then show ?thesis using rest t by auto
  qed
qed

lemma atomic_create_event_tx: "atomic (create_event_tx env slug inp)"
  unfolding create_event_tx_def by (rule atomic_transaction)

lemma create_event_tx_Inr:
  assumes "create_event_tx env slug inp s = (Inr c, s')"
  shows "\<exists>gid row s1. create_event_in_group_row env (params_of slug inp) gid s = (Inr row, s1)
     \<and> parse_group env (ne_group inp) s = (Inr gid, s)
     \<and> ce_event c = decode_event row
     \<and> (ne_organizer inp = None \<longrightarrow> s' = s1 \<and> ce_organizer c = None)
     \<and> (\<forall>org. ne_organizer inp = Some org \<longrightarrow> (\<exists>arg s2 prow. tables s2 = tables s1
       \<and> insert_participant env arg s2 = (Inr prow, s') \<and> ce_organizer c = Some (decode_participant prow)
       \<and> pp_event arg = ev_id row \<and> pp_token arg = env_hash env (ce_token c) \<and> pp_organizer arg
       \<and> pp_role arg = ''required'' \<and> pp_name arg = np_name org \<and> pp_tz arg = or_default (np_tz org) (ne_tz inp)))"
proof -
  from assms obtain gid row s1 where g: "parse_group env (ne_group inp) s = (Inr gid, s)"
    and i: "create_event_in_group_row env (params_of slug inp) gid s = (Inr row, s1)"
    and k: "(case ne_organizer inp of
       None \<Rightarrow> ret \<lparr>ce_event = decode_event row, ce_organizer = None, ce_token = ''''\<rparr>
     | Some org \<Rightarrow>
         seq (new_token env) (\<lambda>(raw, digest).
         seq (create_participant_row env \<lparr>pp_event = ev_id row, pp_token = digest, pp_name = np_name org,
                pp_tz = or_default (np_tz org) (ne_tz inp), pp_role = ''required'', pp_organizer = True,
                pp_member = None\<rparr>) (\<lambda>prow.
         ret \<lparr>ce_event = decode_event row, ce_organizer = Some (decode_participant prow), ce_token = raw\<rparr>))) s1 = (Inr c, s')"
    by (auto simp: create_event_tx_def transaction_def seq_Inr split: prod.splits sum.splits dest: parse_group_steps(2))
  show ?thesis
  proof (intro exI [of _ gid] exI [of _ row] exI [of _ s1] conjI allI impI)
    show "create_event_in_group_row env (params_of slug inp) gid s = (Inr row, s1)" by (rule i)
    show "parse_group env (ne_group inp) s = (Inr gid, s)" by (rule g)
    show "ce_event c = decode_event row"
      using k by (auto simp: seq_Inr new_token_eq Let_def split: option.splits)
    show "s' = s1" "ce_organizer c = None" if "ne_organizer inp = None"
      using k that by auto
    show "\<exists>arg s2 prow. tables s2 = tables s1
       \<and> insert_participant env arg s2 = (Inr prow, s') \<and> ce_organizer c = Some (decode_participant prow)
       \<and> pp_event arg = ev_id row \<and> pp_token arg = env_hash env (ce_token c) \<and> pp_organizer arg
       \<and> pp_role arg = ''required'' \<and> pp_name arg = np_name org \<and> pp_tz arg = or_default (np_tz org) (ne_tz inp)" if o: "ne_organizer inp = Some org" for org
    proof -
      let ?arg = "\<lparr>pp_event = ev_id row, pp_token = env_hash env (ce_token c),
          pp_name = np_name org, pp_tz = or_default (np_tz org) (ne_tz inp), pp_role = ''required'',
          pp_organizer = True, pp_member = None\<rparr>"
      let ?s = "s1\<lparr>drawn := Suc (drawn s1)\<rparr>"
      obtain prow where p: "insert_participant env ?arg ?s = (Inr prow, s')" "ce_organizer c = Some (decode_participant prow)"
        using k o by (auto simp: seq_Inr new_token_eq Let_def create_participant_row_def)
      then show ?thesis by (intro exI [of _ ?arg] exI [of _ ?s] exI [of _ prow] conjI) simp_all
    qed
  qed
qed

text \<open>
  C31: A created event is found again under the slug it was given, open, undecided and as submitted: title,
  zone, first and last date, daily band, slot length and group, with sixty days to live. When it was
  created with an organizer, the token handed out resolves to a participant of that event who is its
  organizer and required, with the submitted name and zone. The submission is one the types of the
  columns can hold: real dates, minutes below sixty and a slot length of 32 bits, as every parsed request
  has them.
\<close>

theorem create_event_roundtrip:
  assumes "scan_ok env" "create_event env inp s = (Inr c, s')"
    "valid_day (ne_window_start inp)" "valid_day (ne_window_end inp)"
    "0 \<le> tod_minute (ne_day_start inp)" "tod_minute (ne_day_start inp) < 60"
    "0 \<le> tod_minute (ne_day_end inp)" "tod_minute (ne_day_end inp) < 60"
    "- (2 ^ 31) \<le> ne_slot_minutes inp" "ne_slot_minutes inp < 2 ^ 31"
  shows "event_by_slug (se_slug (ce_event c)) s' = (Inr (ce_event c), s')
    \<and> se_title (ce_event c) = ne_title inp \<and> se_tz (ce_event c) = ne_tz inp
    \<and> se_window_start (ce_event c) = ne_window_start inp \<and> se_window_end (ce_event c) = ne_window_end inp
    \<and> se_day_start (ce_event c) = ne_day_start inp \<and> se_day_end (ce_event c) = ne_day_end inp
    \<and> se_slot_minutes (ce_event c) = ne_slot_minutes inp
    \<and> se_status (ce_event c) = ''open'' \<and> se_decided_slot (ce_event c) = None
    \<and> se_expires (ce_event c) = se_created (ce_event c) + 60 * 24 * hour
    \<and> (if ne_group inp = '''' then se_group (ce_event c) = None
       else \<exists>u. env_scan env (ne_group inp) = Some u \<and> se_group (ce_event c) = Some (uuid_string u))
    \<and> (\<forall>org. ne_organizer inp = Some org \<longrightarrow> (\<exists>p. ce_organizer c = Some p \<and> sp_organizer p \<and> sp_role p = ''required''
         \<and> sp_name p = np_name org \<and> sp_tz p = (if np_tz org = '''' then ne_tz inp else np_tz org)
         \<and> participant_by_token env (se_id (ce_event c)) (ce_token c) s' = (Inr p, s')))"
proof -
  have scan: "env_scan env (uuid_string u) = Some u" for u using assms(1) by (simp add: scan_ok_def)
  obtain slug s0 where s0: "tables s0 = tables s" "create_event_tx env slug inp s0 = (Inr c, s')"
    using retry_slug_Inr [of "\<lambda>slug. create_event_tx env slug inp", OF atomic_create_event_tx] assms(2)
    unfolding create_event_def by blast
  from create_event_tx_Inr [OF s0(2)] obtain gid row s1 where
    ev: "create_event_in_group_row env (params_of slug inp) gid s0 = (Inr row, s1)" "ce_event c = decode_event row"
    and gid: "parse_group env (ne_group inp) s0 = (Inr gid, s0)"
    and no: "ne_organizer inp = None \<longrightarrow> s' = s1 \<and> ce_organizer c = None"
    and org: "\<forall>org. ne_organizer inp = Some org \<longrightarrow> (\<exists>arg s2 prow. tables s2 = tables s1
       \<and> insert_participant env arg s2 = (Inr prow, s') \<and> ce_organizer c = Some (decode_participant prow)
       \<and> pp_event arg = ev_id row \<and> pp_token arg = env_hash env (ce_token c) \<and> pp_organizer arg
       \<and> pp_role arg = ''required'' \<and> pp_name arg = np_name org \<and> pp_tz arg = or_default (np_tz org) (ne_tz inp))"
    by auto
  note org = org [rule_format]
  note ins = insert_event_Inr [OF ev(1)]
  have row: "ev_slug row = slug" "ev_title row = ne_title inp" "ev_tz row = ne_tz inp" "ev_status row = ''open''"
    and t1: "tbl_events (tables s1) = tbl_events (tables s0) @ [row]"
    using ins by (simp_all add: params_of_def)
  have columns: "ev_window_start row = encode_date (ne_window_start inp)" "ev_window_end row = encode_date (ne_window_end inp)"
    "ev_day_start row = encode_time_of_day (ne_day_start inp)" "ev_day_end row = encode_time_of_day (ne_day_end inp)"
    "ev_slot_minutes row = int32 (ne_slot_minutes inp)" "ev_decided_slot row = None" "ev_group row = gid"
    "ev_expires row = ev_created row + days_60"
    using ins by (simp_all add: params_of_def)
  have fields: "se_window_start (ce_event c) = ne_window_start inp \<and> se_window_end (ce_event c) = ne_window_end inp
    \<and> se_day_start (ce_event c) = ne_day_start inp \<and> se_day_end (ce_event c) = ne_day_end inp
    \<and> se_slot_minutes (ce_event c) = ne_slot_minutes inp \<and> se_decided_slot (ce_event c) = None
    \<and> se_expires (ce_event c) = se_created (ce_event c) + 60 * 24 * hour"
    using assms(3-10)
    by (simp add: ev(2) decode_event_def columns decode_encode_date decode_encode_time sint_int32 days_60_def)
  have belongs: "if ne_group inp = '''' then se_group (ce_event c) = None
       else \<exists>u. env_scan env (ne_group inp) = Some u \<and> se_group (ce_event c) = Some (uuid_string u)"
  proof (cases "env_scan env (ne_group inp)")
    case None
    then show ?thesis using gid by (auto simp: ev(2) decode_event_def columns parse_group_def parse_uuid_def op_simps split: if_splits)
  next
    case (Some u)
    then show ?thesis using gid by (auto simp: ev(2) decode_event_def columns parse_group_def parse_uuid_def op_simps split: if_splits)
  qed
  have fresh: "slug \<notin> ev_slug ` set (tbl_events (tables s0))"
    using ins by (simp add: first_broken_None event_checks_def row)
  have t': "tbl_events (tables s') = tbl_events (tables s1)"
  proof (cases "ne_organizer inp")
    case (Some o1)
    from org [OF this] obtain arg s2 prow where "tables s2 = tables s1" "insert_participant env arg s2 = (Inr prow, s')" by blast
    then show ?thesis using insert_participant_Inr [of env arg s2 prow s'] by simp
  qed (use no in simp)
  have "find (\<lambda>e. ev_slug e = slug) (tbl_events (tables s0)) = None"
    using fresh by (auto simp: find_None_iff)
  then have "event_by_slug (se_slug (ce_event c)) s' = (Inr (ce_event c), s')"
    by (simp add: event_by_slug_eq t' t1 find_append ev(2) decode_event_def row)
  moreover have "\<exists>p. ce_organizer c = Some p \<and> sp_organizer p \<and> sp_role p = ''required'' \<and> sp_name p = np_name o1
         \<and> sp_tz p = (if np_tz o1 = '''' then ne_tz inp else np_tz o1)
         \<and> participant_by_token env (se_id (ce_event c)) (ce_token c) s' = (Inr p, s')" if o1: "ne_organizer inp = Some o1" for o1
  proof -
    from org [OF o1] obtain arg s2 prow where a: "tables s2 = tables s1" "insert_participant env arg s2 = (Inr prow, s')"
      "ce_organizer c = Some (decode_participant prow)" "pp_event arg = ev_id row" "pp_token arg = env_hash env (ce_token c)"
      "pp_organizer arg" "pp_role arg = ''required''" "pp_name arg = np_name o1" "pp_tz arg = or_default (np_tz o1) (ne_tz inp)" by blast
    note pi = insert_participant_Inr [OF a(2)]
    have pf: "pt_event prow = ev_id row" "pt_token prow = env_hash env (ce_token c)" "pt_organizer prow"
      "pt_role prow = ''required''" "pt_name prow = np_name o1" "pt_tz prow = (if np_tz o1 = '''' then ne_tz inp else np_tz o1)"
      "tbl_participants (tables s') = tbl_participants (tables s2) @ [prow]"
      using pi a by (simp_all add: or_default_def)
    have "(ev_id row, env_hash env (ce_token c)) \<notin> (\<lambda>q. (pt_event q, pt_token q)) ` set (tbl_participants (tables s2))"
      using conjunct1 [OF pi] by (simp add: first_broken_None participant_checks_def pf(1,2))
    then have "find (\<lambda>p. pt_event p = ev_id row \<and> pt_token p = env_hash env (ce_token c)) (tbl_participants (tables s2)) = None"
      by (force simp: find_None_iff)
    moreover have "se_id (ce_event c) = uuid_string (ev_id row)" by (simp add: ev(2) decode_event_def)
    ultimately show ?thesis
      using a(3) pf by (simp add: participant_by_token_eq [OF scan] find_append decode_participant_def)
  qed
  ultimately show ?thesis using fields belongs by (simp add: ev(2) decode_event_def row)
qed

text \<open>
  C32: Creating an event is all or nothing: on any error no table has changed. The error "no free slug"
  is reported only when every one of the five slugs drawn belongs to an existing event, so one free draw
  is enough to get past collisions.
\<close>

theorem create_event_errors:
  assumes "create_event env inp s = (Inl e, s')"
  shows "tables s' = tables s \<and> (e = NoFreeSlug \<longrightarrow>
     (\<forall>i<5. drawn_slug env (drawn s + 2 * i) \<in> ev_slug ` set (tbl_events (tables s))))"
  using create_event_loop_Inl [OF assms [unfolded create_event_def]] by (simp add: slug_attempts_def)

definition demo_new_event :: "string \<Rightarrow> new_event" where
  "demo_new_event title = \<lparr>ne_title = title, ne_tz = ''UTC'', ne_window_start = Date 1970 1 2, ne_window_end = Date 1970 1 2,
     ne_day_start = \<lparr>tod_hour = 9, tod_minute = 0\<rparr>, ne_day_end = \<lparr>tod_hour = 17, tod_minute = 0\<rparr>,
     ne_slot_minutes = 30,
     ne_organizer = Some \<lparr>np_name = ''Dee'', np_tz = '''', np_role = '''', np_organizer = False\<rparr>, ne_group = ''''\<rparr>"

lemma demo_slug_length: "length (drawn_slug demo_env n) = 8"
  by (simp add: drawn_slug_def demo_env_def slug_length_def)

lemma demo_event_checks:
  "list_all snd (event_checks demo_db (tbl_events demo_db) e) \<longleftrightarrow>
     ev_day_start e < ev_day_end e \<and> (ev_status e = ''decided'') = (ev_decided_slot e \<noteq> None)
     \<and> 5 \<le> sint (ev_slot_minutes e) \<and> sint (ev_slot_minutes e) \<le> 480
     \<and> ev_status e \<in> {''open'', ''decided'', ''expired''} \<and> present (ev_title e)
     \<and> ev_window_start e \<le> ev_window_end e \<and> ev_id e \<noteq> 1 \<and> ev_slug e \<noteq> ''abc'' \<and> ev_group e = None"
  by (auto simp: event_checks_def demo_defs split: option.split)

lemma demo_fields:
  "env_uuid demo_env n = word_of_nat (n + 10)" "env_hash demo_env x = x"
  by (simp_all add: demo_env_def)

lemma demo_event_id:
  "tbl_participants demo_db = [demo_participant 2 ''Ann'' ''required'', demo_participant 3 ''Bob'' ''optional'']"
  "pt_id (demo_participant k name role) = k" "pt_event (demo_participant k name role) = 1"
  by (simp_all add: demo_db_def demo_participant_def)

lemma create_event_roundtrip_witness:
  "\<exists>c s'. create_event demo_env (demo_new_event ''Dinner'') demo_world = (Inr c, s')
     \<and> event_by_slug (se_slug (ce_event c)) s' = (Inr (ce_event c), s')"
proof -
  have slug: "drawn_slug demo_env 0 \<noteq> ''abc''" using demo_slug_length [of 0] by auto
  obtain c s' where "create_event demo_env (demo_new_event ''Dinner'') demo_world = (Inr c, s')"
  proof -
    have "\<exists>c s'. create_event_loop demo_env (demo_new_event ''Dinner'') (Suc n) demo_world = (Inr c, s')" for n
      by (simp add: new_slug_eq store_eval create_event_tx_def parse_group_def params_of_def demo_world_def demo_new_event_def
        demo_event_checks slug demo_fields present_def sint_int32 encode_time_of_day_def micros_per_minute_def
        participant_checks_def demo_event_id create_participant_row_def split: if_split)
    from this [of 4] show ?thesis using that by (auto simp: create_event_def slug_attempts_def)
  qed
  moreover have "valid_day (Date 1970 1 2)" by code_simp
  ultimately show ?thesis
    using create_event_roundtrip [OF demo_scan(1), of "demo_new_event ''Dinner''" demo_world c s'] by (simp add: demo_new_event_def)
qed

definition taken_db :: database where
  "taken_db = demo_db\<lparr>tbl_events := [demo_event\<lparr>ev_slug := ''22222222''\<rparr>]\<rparr>"

definition stuck_env :: env where
  "stuck_env = demo_env\<lparr>env_rand := \<lambda>n k. replicate k 0, env_uuid := \<lambda>_. 7\<rparr>"

lemma stuck_slug: "drawn_slug stuck_env n = ''22222222''"
  by (simp add: drawn_slug_def stuck_env_def slug_length_def slug_char_def slug_alphabet_def eval_nat_numeral)

lemma stuck_loop:
  "tables s = taken_db \<Longrightarrow> \<exists>s'. create_event_loop stuck_env (demo_new_event ''Dinner'') n s = (Inl NoFreeSlug, s')"
proof (induction n arbitrary: s)
  case (Suc n)
  let ?s = "s\<lparr>drawn := Suc (drawn s)\<rparr>"
  have "first_broken (event_checks taken_db (tbl_events taken_db) row) = Some ''events_slug_key''"
    if "ev_slug row = ''22222222''" "ev_day_start row < ev_day_end row" "ev_status row = ''open''"
      "ev_decided_slot row = None" "5 \<le> sint (ev_slot_minutes row)" "sint (ev_slot_minutes row) \<le> 480"
      "present (ev_title row)" "ev_window_start row \<le> ev_window_end row" "ev_id row \<noteq> 1" for row
    using that by (simp add: event_checks_def first_broken.simps taken_db_def demo_event_def)
  then have "create_event_tx stuck_env ''22222222'' (demo_new_event ''Dinner'') (s\<lparr>drawn := k\<rparr>)
      = (Inl (Violation ''events_slug_key''), s\<lparr>drawn := Suc k\<rparr>)" if "env_uuid stuck_env k \<noteq> 1" for k
    using that Suc.prems
    by (simp add: create_event_tx_def transaction_def parse_group_def demo_new_event_def create_event_in_group_row_def
        draw_def now_def modify_def op_simps Let_def params_of_def encode_time_of_day_def micros_per_minute_def
        sint_int32 present_def)
  moreover have "env_uuid stuck_env (Suc (drawn s)) \<noteq> 1"
    by (simp add: stuck_env_def)
  ultimately show ?case
    using Suc.IH [of "s\<lparr>drawn := Suc (Suc (drawn s))\<rparr>"] Suc.prems
    by (simp add: seq_apply catch_apply new_slug_eq stuck_slug)
qed simp

lemma create_event_errors_witness:
  "\<exists>s'. create_event stuck_env (demo_new_event ''Dinner'') (demo_world\<lparr>tables := taken_db\<rparr>) = (Inl NoFreeSlug, s')
     \<and> drawn_slug stuck_env 8 \<in> ev_slug ` set (tbl_events taken_db)"
proof -
  obtain s' where e: "create_event stuck_env (demo_new_event ''Dinner'') (demo_world\<lparr>tables := taken_db\<rparr>) = (Inl NoFreeSlug, s')"
    using stuck_loop [of "demo_world\<lparr>tables := taken_db\<rparr>" slug_attempts] by (auto simp: create_event_def)
  from create_event_errors [OF e] have "\<forall>i<5. drawn_slug stuck_env (2 * i) \<in> ev_slug ` set (tbl_events taken_db)"
    by (simp add: demo_world_def)
  then have "drawn_slug stuck_env (2 * 4) \<in> ev_slug ` set (tbl_events taken_db)"
    by (rule spec [of _ 4, THEN mp]) simp
  then show ?thesis using e by simp
qed

end
