(* ===== verification/GoSort.thy ===== *)
theory GoSort
  imports Prelude
begin

text \<open>
  \<^verbatim>\<open>sort.SliceStable\<close> of the Go standard library, as a function on lists: blocks of twenty elements
  sorted by insertion, then merged pairwise by the in-place merge \<^verbatim>\<open>symMerge\<close>. The solver passes it a
  comparison that is not transitive, so the algorithm itself, and not only its contract for strict weak
  orders, decides what comes out.

  Whatever the comparison, the result is a permutation of the input; for every asymmetric comparison no
  element of the result is preceded immediately by one it compares below (\<open>slice_stable_adjacent\<close>).
  The locale \<open>stable_sorter\<close> states these two laws and what follows for a primary key.
\<close>

section \<open>Insertion sort of one block\<close>

text \<open>The sorted prefix is kept reversed: the new element moves left past every element it is below.\<close>

fun ins_back :: "('a \<Rightarrow> 'a \<Rightarrow> bool) \<Rightarrow> 'a \<Rightarrow> 'a list \<Rightarrow> 'a list" where
  "ins_back lt x [] = [x]"
| "ins_back lt x (y # ys) = (if lt x y then y # ins_back lt x ys else x # y # ys)"

definition insertion_sort :: "('a \<Rightarrow> 'a \<Rightarrow> bool) \<Rightarrow> 'a list \<Rightarrow> 'a list" where
  "insertion_sort lt xs = rev (foldl (\<lambda>rs x. ins_back lt x rs) [] xs)"

lemma successively_mono_set:
  assumes "successively P xs" "\<And>a b. a \<in> set xs \<Longrightarrow> b \<in> set xs \<Longrightarrow> P a b \<Longrightarrow> Q a b"
  shows "successively Q xs"
  using assms by (induction xs rule: induct_list012) auto

text \<open>Neighbours of a list without repetitions differ.\<close>

lemma successively_distinct_mono:
  assumes "successively P xs" "distinct xs"
    and "\<And>a b. a \<in> set xs \<Longrightarrow> b \<in> set xs \<Longrightarrow> a \<noteq> b \<Longrightarrow> P a b \<Longrightarrow> Q a b"
  shows "successively Q xs"
  using assms by (induction xs rule: induct_list012) auto

section \<open>The symmetric merge of two runs\<close>

text \<open>The binary search of \<^verbatim>\<open>symMerge\<close>: the index where the predicate stops holding.\<close>

function bsearch :: "(nat \<Rightarrow> bool) \<Rightarrow> nat \<Rightarrow> nat \<Rightarrow> nat" where
  "bsearch P i j = (if i < j
     then let h = (i + j) div 2 in if P h then bsearch P (h + 1) j else bsearch P i h
     else i)"
  by pat_completeness auto
termination
  by (relation "measure (\<lambda>(P, i, j). j - i)") auto

declare bsearch.simps [simp del]

lemma bsearch_spec:
  "i \<le> j \<Longrightarrow> i \<le> bsearch P i j \<and> bsearch P i j \<le> j
     \<and> (i < bsearch P i j \<longrightarrow> P (bsearch P i j - 1))
     \<and> (bsearch P i j < j \<longrightarrow> \<not> P (bsearch P i j))"
proof (induction P i j rule: bsearch.induct)
  case (1 P i j)
  show ?case
  proof (cases "i < j")
    case False
    then have "bsearch P i j = i" by (simp add: bsearch.simps [of P i j])
    with False "1.prems" show ?thesis by auto
  next
    case True
    define h where "h = (i + j) div 2"
    have h: "i \<le> h" "h < j" using True by (auto simp: h_def)
    show ?thesis
    proof (cases "P h")
      case P: True
      have eq: "bsearch P i j = bsearch P (h + 1) j"
        using True P by (simp add: bsearch.simps [of P i j] h_def)
      have ih: "h + 1 \<le> bsearch P (h + 1) j \<and> bsearch P (h + 1) j \<le> j
          \<and> (h + 1 < bsearch P (h + 1) j \<longrightarrow> P (bsearch P (h + 1) j - 1))
          \<and> (bsearch P (h + 1) j < j \<longrightarrow> \<not> P (bsearch P (h + 1) j))"
        using "1.IH"(1) [OF True h_def P] h by simp
      have "P (bsearch P (h + 1) j - 1)"
        using ih P by (cases "h + 1 < bsearch P (h + 1) j") auto
      then show ?thesis using ih h eq by auto
    next
      case P: False
      have eq: "bsearch P i j = bsearch P i h"
        using True P by (simp add: bsearch.simps [of P i j] h_def)
      have ih: "i \<le> bsearch P i h \<and> bsearch P i h \<le> h
          \<and> (i < bsearch P i h \<longrightarrow> P (bsearch P i h - 1))
          \<and> (bsearch P i h < h \<longrightarrow> \<not> P (bsearch P i h))"
        using "1.IH"(2) [OF True h_def P] h by simp
      have "\<not> P (bsearch P i h)"
        using ih P by (cases "bsearch P i h < h") auto
      then show ?thesis using ih h eq by auto
    qed
  qed
qed

lemmas bsearch_ge = bsearch_spec [THEN conjunct1]
  and bsearch_le = bsearch_spec [THEN conjunct2, THEN conjunct1]

text \<open>
  The cut of \<^verbatim>\<open>symMerge\<close>: how many elements of the left run stay in the first half. Indices are
  relative to the start of the left run.
\<close>

definition merge_cut :: "('a \<Rightarrow> 'a \<Rightarrow> bool) \<Rightarrow> 'a list \<Rightarrow> 'a list \<Rightarrow> nat" where
  "merge_cut lt u v = (let m = length u; b = length u + length v; mid = b div 2; n = mid + m
     in bsearch (\<lambda>c. \<not> lt (v ! (mid - 1 - c)) (u ! c))
          (if m > mid then n - b else 0) (if m > mid then mid else m))"

lemma merge_cut_bounds:
  "merge_cut lt u v \<le> length u \<and> merge_cut lt u v \<le> (length u + length v) div 2
     \<and> (length u + length v) div 2 - merge_cut lt u v \<le> length v"
proof -
  define P where "P = (\<lambda>c. \<not> lt (v ! ((length u + length v) div 2 - 1 - c)) (u ! c))"
  let ?mid = "(length u + length v) div 2"
  show ?thesis
  proof (cases "?mid < length u")
    case True
    have c: "merge_cut lt u v = bsearch P (?mid + length u - (length u + length v)) ?mid"
      using True by (simp add: merge_cut_def Let_def P_def)
    have "?mid + length u - (length u + length v) \<le> ?mid" by linarith
    from bsearch_ge [OF this, of P] bsearch_le [OF this, of P] True show ?thesis
      unfolding c by linarith
  next
    case False
    have c: "merge_cut lt u v = bsearch P 0 (length u)"
      using False by (simp add: merge_cut_def Let_def P_def)
    from bsearch_le [of 0 "length u" P] False show ?thesis unfolding c by linarith
  qed
qed

lemma merge_cut_left:
  assumes "0 < merge_cut lt u v" "(length u + length v) div 2 - merge_cut lt u v < length v"
  shows "\<not> lt (v ! ((length u + length v) div 2 - merge_cut lt u v)) (u ! (merge_cut lt u v - 1))"
proof -
  define P where "P = (\<lambda>c. \<not> lt (v ! ((length u + length v) div 2 - 1 - c)) (u ! c))"
  let ?mid = "(length u + length v) div 2"
  let ?lo = "if ?mid < length u then ?mid + length u - (length u + length v) else 0"
    and ?hi = "if ?mid < length u then ?mid else length u"
  have c: "merge_cut lt u v = bsearch P ?lo ?hi"
    by (simp add: merge_cut_def Let_def P_def)
  have "?lo < bsearch P ?lo ?hi"
    using assms merge_cut_bounds [of lt u v] unfolding c
    by (cases "?mid < length u") (simp_all, linarith)
  then have "P (merge_cut lt u v - 1)"
    using bsearch_spec [of ?lo ?hi P] unfolding c by auto
  then show ?thesis using assms(1) merge_cut_bounds [of lt u v] by (simp add: P_def)
qed

lemma merge_cut_right:
  assumes "merge_cut lt u v < length u" "merge_cut lt u v < (length u + length v) div 2"
  shows "lt (v ! ((length u + length v) div 2 - merge_cut lt u v - 1)) (u ! merge_cut lt u v)"
proof -
  define P where "P = (\<lambda>c. \<not> lt (v ! ((length u + length v) div 2 - 1 - c)) (u ! c))"
  let ?mid = "(length u + length v) div 2"
  let ?lo = "if ?mid < length u then ?mid + length u - (length u + length v) else 0"
    and ?hi = "if ?mid < length u then ?mid else length u"
  have c: "merge_cut lt u v = bsearch P ?lo ?hi"
    by (simp add: merge_cut_def Let_def P_def)
  have "bsearch P ?lo ?hi < ?hi" using assms unfolding c by auto
  then have "\<not> P (merge_cut lt u v)"
    using bsearch_spec [of ?lo ?hi P] unfolding c by auto
  then show ?thesis by (simp add: P_def diff_diff_eq2 algebra_simps)
qed

function sym_merge :: "('a \<Rightarrow> 'a \<Rightarrow> bool) \<Rightarrow> 'a list \<Rightarrow> 'a list \<Rightarrow> 'a list" where
  "sym_merge lt u v =
     (if u = [] \<or> v = [] then u @ v
      else if length u = 1
      then let i = bsearch (\<lambda>h. lt (v ! h) (hd u)) 0 (length v) in take i v @ u @ drop i v
      else if length v = 1
      then let i = bsearch (\<lambda>h. \<not> lt (hd v) (u ! h)) 0 (length u) in take i u @ v @ drop i u
      else let start = merge_cut lt u v; k = (length u + length v) div 2 - start
           in sym_merge lt (take start u) (take k v) @ sym_merge lt (drop start u) (drop k v))"
  by pat_completeness auto
termination
proof (relation "measure (\<lambda>(lt, u, v). length u + length v)", goal_cases)
  case 1
  show ?case by simp
next
  case (2 lt u v start k)
  have len: "length u \<noteq> 0" "length v \<noteq> 0" using 2(1) by auto
  have "length (take start u) \<le> start" "length (take k v) \<le> k" by auto
  moreover have "start + k < length u + length v"
    using merge_cut_bounds [of lt u v] len unfolding 2(4,5) by linarith
  ultimately show ?case by simp
next
  case (3 lt u v start k)
  have len: "0 < length u" "0 < length v" "length u \<noteq> 1" using 3(1,2) by auto
  have "length u - start + (length v - k) < length u + length v"
    using merge_cut_bounds [of lt u v] len unfolding 3(4,5) by linarith
  then show ?case by simp
qed

declare sym_merge.simps [simp del]

section \<open>The passes over the blocks\<close>

fun merge_pass :: "('a \<Rightarrow> 'a \<Rightarrow> bool) \<Rightarrow> 'a list list \<Rightarrow> 'a list list" where
  "merge_pass lt (r1 # r2 # rs) = sym_merge lt r1 r2 # merge_pass lt rs"
| "merge_pass lt rs = rs"

lemma length_merge_pass: "length (merge_pass lt rs) \<le> length rs"
  by (induction lt rs rule: merge_pass.induct) auto

lemma merge_pass_shrinks: "length (merge_pass lt (r1 # r2 # rs)) < length (r1 # r2 # rs)"
  using length_merge_pass [of lt rs] by simp

function merge_runs :: "('a \<Rightarrow> 'a \<Rightarrow> bool) \<Rightarrow> 'a list list \<Rightarrow> 'a list" where
  "merge_runs lt [] = []"
| "merge_runs lt [r] = r"
| "merge_runs lt (r1 # r2 # rs) = merge_runs lt (merge_pass lt (r1 # r2 # rs))"
  by pat_completeness auto
termination
  by (relation "measure (\<lambda>(lt, rs). length rs)") (use length_merge_pass in \<open>auto simp: less_Suc_eq_le le_SucI\<close>)

function chunks :: "nat \<Rightarrow> 'a list \<Rightarrow> 'a list list" where
  "chunks n xs = (if n = 0 \<or> xs = [] then [] else take n xs # chunks n (drop n xs))"
  by pat_completeness auto
termination
  by (relation "measure (\<lambda>(n, xs). length xs)") auto

declare chunks.simps [simp del]

definition slice_stable :: "('a \<Rightarrow> 'a \<Rightarrow> bool) \<Rightarrow> 'a list \<Rightarrow> 'a list" where
  "slice_stable lt xs = merge_runs lt (map (insertion_sort lt) (chunks 20 xs))"


lemma slice_stable_short:
  "length xs \<le> 20 \<Longrightarrow> slice_stable lt xs = insertion_sort lt xs"
  by (cases xs) (simp_all add: slice_stable_def chunks.simps insertion_sort_def)

section \<open>The result is a permutation\<close>

lemma mset_ins_back [simp]: "mset (ins_back lt x rs) = add_mset x (mset rs)"
  by (induction rs) auto

lemma mset_insertion_sort [simp]: "mset (insertion_sort lt xs) = mset xs"
proof -
  have "mset (foldl (\<lambda>rs x. ins_back lt x rs) acc xs) = mset acc + mset xs" for acc
    by (induction xs arbitrary: acc) auto
  from this [of "[]"] show ?thesis by (simp add: insertion_sort_def)
qed

abbreviation adjacent_ok :: "('a \<Rightarrow> 'a \<Rightarrow> bool) \<Rightarrow> 'a list \<Rightarrow> bool" where
  "adjacent_ok lt \<equiv> successively (\<lambda>a b. \<not> lt b a)"

lemma hd_ins_back: "hd (ins_back lt x rs) = (if rs \<noteq> [] \<and> lt x (hd rs) then hd rs else x)"
  by (cases rs) auto

lemma ins_back_adjacent:
  assumes "asymp lt" "successively (\<lambda>a b. \<not> lt a b) rs"
  shows "successively (\<lambda>a b. \<not> lt a b) (ins_back lt x rs)"
  using assms(2)
proof (induction rs)
  case (Cons y ys)
  have ne: "ins_back lt x ys \<noteq> []" by (metis mset_ins_back mset.simps(1) add_mset_not_empty)
  show ?case
    using Cons asympD [OF assms(1)] ne
    by (auto simp: successively_Cons hd_ins_back)
qed simp

lemma insertion_sort_adjacent:
  assumes "asymp lt"
  shows "adjacent_ok lt (insertion_sort lt xs)"
proof -
  have "successively (\<lambda>a b. \<not> lt a b) acc \<Longrightarrow>
      successively (\<lambda>a b. \<not> lt a b) (foldl (\<lambda>rs x. ins_back lt x rs) acc xs)" for acc
    by (induction xs arbitrary: acc) (auto intro: ins_back_adjacent [OF assms])
  from this [of "[]"] show ?thesis
    by (simp add: insertion_sort_def successively_rev)
qed

lemma shuffles_append:
  "xs \<in> shuffles a c \<Longrightarrow> ys \<in> shuffles b d \<Longrightarrow> xs @ ys \<in> shuffles (a @ b) (c @ d)"
proof (induction a c arbitrary: xs rule: shuffles.induct)
  case (1 c)
  then show ?case
    by (induction c arbitrary: xs) (auto simp: Cons_in_shuffles_rightI)
next
  case (2 a)
  then show ?case
    by (induction a arbitrary: xs) (auto simp: Cons_in_shuffles_leftI)
next
  case (3 a1 a c1 c)
  then show ?case by (auto simp: Cons_in_shuffles_leftI Cons_in_shuffles_rightI)
qed

lemma append_in_shuffles: "u @ v \<in> shuffles u v"
  using shuffles_append [of u u "[]" v "[]" v] by simp

lemma append_in_shuffles': "v @ u \<in> shuffles u v"
  using shuffles_append [of v "[]" v u u "[]"] by simp

lemma sym_merge_shuffles: "sym_merge lt u v \<in> shuffles u v"
proof (induction lt u v rule: sym_merge.induct)
  case (1 lt u v)
  consider (triv) "u = [] \<or> v = []"
    | (one) "u \<noteq> []" "v \<noteq> []" "length u = 1"
    | (last) "u \<noteq> []" "v \<noteq> []" "length u \<noteq> 1" "length v = 1"
    | (rec) "\<not> (u = [] \<or> v = [])" "length u \<noteq> 1" "length v \<noteq> 1" by blast
  then show ?case
  proof cases
    case triv
    then show ?thesis by (auto simp: sym_merge.simps [of lt u v])
  next
    case one
    let ?i = "bsearch (\<lambda>h. lt (v ! h) (hd u)) 0 (length v)"
    have "take ?i v @ u @ drop ?i v \<in> shuffles ([] @ u) (take ?i v @ drop ?i v)"
      by (intro shuffles_append append_in_shuffles) simp
    then show ?thesis using one by (simp add: sym_merge.simps [of lt u v] Let_def)
  next
    case last
    let ?i = "bsearch (\<lambda>h. \<not> lt (hd v) (u ! h)) 0 (length u)"
    have "take ?i u @ v @ drop ?i u \<in> shuffles (take ?i u @ drop ?i u) ([] @ v)"
      by (intro shuffles_append append_in_shuffles') simp
    then show ?thesis using last by (simp add: sym_merge.simps [of lt u v] Let_def)
  next
    case rec
    let ?s = "merge_cut lt u v" and ?k = "(length u + length v) div 2 - merge_cut lt u v"
    have "sym_merge lt (take ?s u) (take ?k v) @ sym_merge lt (drop ?s u) (drop ?k v)
        \<in> shuffles (take ?s u @ drop ?s u) (take ?k v @ drop ?k v)"
      by (intro shuffles_append 1 [OF rec refl refl])
    then show ?thesis using rec by (simp add: sym_merge.simps [of lt u v] Let_def)
  qed
qed


section \<open>No adjacent pair is inverted\<close>

lemma shuffles_hd: "zs \<in> shuffles u v \<Longrightarrow> zs \<noteq> [] \<Longrightarrow>
    (u \<noteq> [] \<and> hd zs = hd u) \<or> (v \<noteq> [] \<and> hd zs = hd v)"
  by (induction u v rule: shuffles.induct) auto

lemma shuffles_last:
  assumes "zs \<in> shuffles u v" "zs \<noteq> []"
  shows "(u \<noteq> [] \<and> last zs = last u) \<or> (v \<noteq> [] \<and> last zs = last v)"
  using assms
proof (induction u v arbitrary: zs rule: shuffles.induct)
  case (3 x xs y ys)
  then obtain z zs' where zs: "zs = z # zs'"
    and "zs' \<in> shuffles xs (y # ys) \<or> zs' \<in> shuffles (x # xs) ys" by auto
  then have "zs' \<noteq> []" by (auto dest: length_shuffles)
  with 3 zs show ?case by fastforce
qed auto

lemma set_sym_merge [simp]: "set (sym_merge lt u v) = set u \<union> set v"
  using sym_merge_shuffles [of lt u v] by (rule set_shuffles)

lemma mset_sym_merge [simp]: "mset (sym_merge lt u v) = mset u + mset v"
  using sym_merge_shuffles [of lt u v] by (rule mset_shuffles)

text \<open>Where two merged halves meet, an end of one run meets a start of another.\<close>

lemma successively_shuffles_append:
  assumes "xs \<in> shuffles a c" "ys \<in> shuffles b d" "successively R xs" "successively R ys"
    and "a \<noteq> [] \<Longrightarrow> b \<noteq> [] \<Longrightarrow> R (last a) (hd b)" "a \<noteq> [] \<Longrightarrow> d \<noteq> [] \<Longrightarrow> R (last a) (hd d)"
    and "c \<noteq> [] \<Longrightarrow> b \<noteq> [] \<Longrightarrow> R (last c) (hd b)" "c \<noteq> [] \<Longrightarrow> d \<noteq> [] \<Longrightarrow> R (last c) (hd d)"
  shows "successively R (xs @ ys)"
proof -
  have "xs = [] \<or> ys = [] \<or> R (last xs) (hd ys)"
    using shuffles_last [OF assms(1)] shuffles_hd [OF assms(2)] assms(5-8) by metis
  then show ?thesis using assms(3,4) by (simp add: successively_append_iff)
qed

lemma successively_take_drop:
  assumes "successively R xs"
  shows "successively R (take n xs)" "successively R (drop n xs)"
    "take n xs \<noteq> [] \<Longrightarrow> drop n xs \<noteq> [] \<Longrightarrow> R (last (take n xs)) (hd (drop n xs))"
  using assms unfolding atomize_imp by (metis append_take_drop_id successively_append_iff)+

lemma last_take_nth: "0 < n \<Longrightarrow> n \<le> length xs \<Longrightarrow> last (take n xs) = xs ! (n - 1)"
  by (subst last_conv_nth) auto

lemma successively_insert_at:
  assumes "successively R xs" "i \<le> length xs"
    and "0 < i \<Longrightarrow> R (xs ! (i - 1)) x" "i < length xs \<Longrightarrow> R x (xs ! i)"
  shows "successively R (take i xs @ x # drop i xs)"
proof -
  have "successively R (x # drop i xs)"
    using assms by (cases "i < length xs")
      (auto simp: successively_Cons successively_take_drop hd_drop_conv_nth)
  moreover have "0 < i \<Longrightarrow> R (last (take i xs)) x"
    using assms by (simp add: last_take_nth)
  ultimately show ?thesis
    using assms(1) by (auto simp: successively_append_iff successively_take_drop)
qed

lemma sym_merge_adjacent:
  "asymp lt \<Longrightarrow> adjacent_ok lt u \<Longrightarrow> adjacent_ok lt v \<Longrightarrow> adjacent_ok lt (sym_merge lt u v)"
proof (induction lt u v rule: sym_merge.induct)
  case (1 lt u v)
  consider (triv) "u = [] \<or> v = []"
    | (one) "u \<noteq> []" "v \<noteq> []" "length u = 1"
    | (last) "u \<noteq> []" "v \<noteq> []" "length u \<noteq> 1" "length v = 1"
    | (rec) "\<not> (u = [] \<or> v = [])" "length u \<noteq> 1" "length v \<noteq> 1" by blast
  then show ?case
  proof cases
    case triv
    then show ?thesis using 1 by (auto simp: sym_merge.simps [of lt u v])
  next
    case one
    then obtain x where x: "u = [x]" by (cases u) auto
    let ?P = "\<lambda>h. lt (v ! h) x"
    let ?i = "bsearch ?P 0 (length v)"
    note b = bsearch_spec [of 0 "length v" ?P, simplified]
    have "adjacent_ok lt (take ?i v @ x # drop ?i v)"
    proof (rule successively_insert_at [OF 1(5)])
      assume "0 < ?i"
      then have "lt (v ! (?i - 1)) x" using b by simp
      then show "\<not> lt x (v ! (?i - 1))" using 1(3) by (meson asympD)
    qed (use b in auto)
    then show ?thesis using one x by (simp add: sym_merge.simps [of lt "[x]" v] Let_def)
  next
    case last
    then obtain y where y: "v = [y]" by (cases v) auto
    let ?P = "\<lambda>h. \<not> lt y (u ! h)"
    have "adjacent_ok lt (take (bsearch ?P 0 (length u)) u @ y # drop (bsearch ?P 0 (length u)) u)"
      using bsearch_spec [of 0 "length u" ?P] 1(4)
      by (intro successively_insert_at) (auto dest: asympD [OF 1(3)])
    then show ?thesis using last y by (simp add: sym_merge.simps [of lt u "[y]"] Let_def)
  next
    case rec
    let ?mid = "(length u + length v) div 2"
    let ?s = "merge_cut lt u v" and ?k = "?mid - merge_cut lt u v"
    have b: "?s \<le> length u" "?s \<le> ?mid" "?k \<le> length v" using merge_cut_bounds [of lt u v] by auto
    have "adjacent_ok lt (sym_merge lt (take ?s u) (take ?k v) @ sym_merge lt (drop ?s u) (drop ?k v))"
    proof (rule successively_shuffles_append [OF sym_merge_shuffles sym_merge_shuffles])
      show "adjacent_ok lt (sym_merge lt (take ?s u) (take ?k v))"
        "adjacent_ok lt (sym_merge lt (drop ?s u) (drop ?k v))"
        using 1(4,5) by (auto intro!: 1(1,2) [OF rec refl refl 1(3)] successively_take_drop)
    next
      assume "take ?s u \<noteq> []" "drop ?k v \<noteq> []"
      then have "0 < ?s" "?k < length v" by auto
      with merge_cut_left [of lt u v] b show "\<not> lt (hd (drop ?k v)) (last (take ?s u))"
        by (simp add: last_take_nth hd_drop_conv_nth)
    next
      assume "take ?k v \<noteq> []" "drop ?s u \<noteq> []"
      then have "?s < length u" "?s < ?mid" by auto
      with merge_cut_right [of lt u v] b have "lt (last (take ?k v)) (hd (drop ?s u))"
        by (simp add: last_take_nth hd_drop_conv_nth)
      then show "\<not> lt (hd (drop ?s u)) (last (take ?k v))" using 1(3) by (meson asympD)
    qed (rule successively_take_drop(3) [OF 1(4)] successively_take_drop(3) [OF 1(5)]; assumption)+
    then show ?thesis using rec by (simp add: sym_merge.simps [of lt u v] Let_def)
  qed
qed

lemma mset_merge_pass: "sum_list (map mset (merge_pass lt rs)) = sum_list (map mset rs)"
  by (induction lt rs rule: merge_pass.induct) (auto simp: add.assoc)

lemma mset_merge_runs: "mset (merge_runs lt rs) = sum_list (map mset rs)"
proof (induction lt rs rule: merge_runs.induct)
  case (3 lt r1 r2 rs)
  then show ?case
    using mset_merge_pass [of lt "r1 # r2 # rs"] by (simp del: merge_pass.simps)
qed auto

lemma merge_pass_adjacent:
  "asymp lt \<Longrightarrow> list_all (adjacent_ok lt) rs \<Longrightarrow> list_all (adjacent_ok lt) (merge_pass lt rs)"
  by (induction lt rs rule: merge_pass.induct) (auto intro: sym_merge_adjacent)

lemma merge_runs_adjacent:
  "asymp lt \<Longrightarrow> list_all (adjacent_ok lt) rs \<Longrightarrow> adjacent_ok lt (merge_runs lt rs)"
proof (induction lt rs rule: merge_runs.induct)
  case (3 lt r1 r2 rs)
  then show ?case
    using merge_pass_adjacent [of lt "r1 # r2 # rs"] by (simp del: merge_pass.simps)
qed auto

lemma mset_chunks: "0 < n \<Longrightarrow> sum_list (map mset (chunks n xs)) = mset xs"
proof (induction n xs rule: chunks.induct)
  case (1 n xs)
  show ?case
  proof (cases "xs = []")
    case False
    then have "sum_list (map mset (chunks n xs)) = mset (take n xs) + mset (drop n xs)"
      using 1 by (simp add: chunks.simps [of n xs])
    also have "\<dots> = mset xs" by (metis append_take_drop_id mset_append)
    finally show ?thesis .
  qed (simp add: chunks.simps)
qed

lemma mset_slice_stable [simp]: "mset (slice_stable lt xs) = mset xs"
  using mset_chunks [of 20 xs]
  by (simp add: slice_stable_def mset_merge_runs comp_def)

lemma slice_stable_adjacent: "asymp lt \<Longrightarrow> adjacent_ok lt (slice_stable lt xs)"
  unfolding slice_stable_def
  by (rule merge_runs_adjacent) (auto simp: list_all_iff intro: insertion_sort_adjacent)

section \<open>The contract clients use\<close>

locale stable_sorter =
  fixes srt :: "('a \<Rightarrow> 'a \<Rightarrow> bool) \<Rightarrow> 'a list \<Rightarrow> 'a list"
  assumes srt_perm: "mset (srt lt xs) = mset xs"
    and srt_adjacent: "asymp lt \<Longrightarrow> adjacent_ok lt (srt lt xs)"
begin

lemma srt_set: "set (srt lt xs) = set xs"
  using srt_perm by (metis set_mset_mset)

lemma srt_length: "length (srt lt xs) = length xs"
  using srt_perm by (metis size_mset)

text \<open>A key the comparison decides first comes out ascending, even if the comparison is not transitive.\<close>

lemma srt_primary_key:
  fixes key :: "'a \<Rightarrow> nat"
  assumes "asymp lt" "\<And>a b. key a < key b \<Longrightarrow> lt a b"
  shows "sorted (map key (srt lt xs))"
proof -
  have "successively (\<lambda>a b. key a \<le> key b) (srt lt xs)"
    using srt_adjacent [OF assms(1)] by (rule successively_mono) (use assms(2) in force)
  then have "successively (\<le>) (map key (srt lt xs))"
    by (simp add: successively_map)
  then show ?thesis
    by (simp add: successively_conv_sorted_wrt)
qed

text \<open>A transitive comparison sorts the whole list.\<close>

lemma srt_sorted_wrt:
  assumes "asymp lt" "\<And>a b c. \<not> lt b a \<Longrightarrow> \<not> lt c b \<Longrightarrow> \<not> lt c a"
  shows "sorted_wrt (\<lambda>a b. \<not> lt b a) (srt lt xs)"
proof -
  have "transp (\<lambda>a b. \<not> lt b a)" using assms(2) by (auto intro!: transpI)
  with srt_adjacent [OF assms(1)] show ?thesis by (simp add: successively_conv_sorted_wrt)
qed

end

interpretation go_sort: stable_sorter slice_stable
  by unfold_locales (simp_all add: slice_stable_adjacent)

end
