(* ===== verification/Ranking.thy ===== *)
theory Ranking
  imports Scoring GoSort
begin

text \<open>
  \<^verbatim>\<open>api/internal/solver/solver.go\<close>, lines 262 to 401: the current leader, the ranking with a group's
  history as a tiebreak, and the history built from past decisions. The comparison is not transitive
  (scores within \<open>history_epsilon\<close> count as close), so what the ranking promises is what the library's
  stable sort promises for any asymmetric comparison: a permutation whose neighbours are in order.
\<close>

section \<open>The leader\<close>

fun leader_loop :: "participant list \<Rightarrow> responses \<Rightarrow> config \<Rightarrow> slot_score option \<Rightarrow> instant list
    \<Rightarrow> slot_score option" where
  "leader_loop ps rs cfg best [] = best"
| "leader_loop ps rs cfg best (s # rest) =
     (let sc = score_slot s ps rs cfg in
      if eliminated sc then leader_loop ps rs cfg best rest
      else case best of
             None \<Rightarrow> leader_loop ps rs cfg (Some sc) rest
           | Some b \<Rightarrow> leader_loop ps rs cfg (if score sc > score b then Some sc else best) rest)"

definition leader_of :: "instant list \<Rightarrow> participant list \<Rightarrow> responses \<Rightarrow> config \<Rightarrow> instant option" where
  "leader_of slots ps rs cfg = map_option start_at (leader_loop ps rs cfg None slots)"

section \<open>The ranking\<close>

type_synonym history_affinity = "instant \<Rightarrow> rat"

definition rank_less :: "config \<Rightarrow> history_affinity option \<Rightarrow> slot_score \<Rightarrow> slot_score \<Rightarrow> bool" where
  "rank_less cfg hist a b =
     (if eliminated a \<noteq> eliminated b then \<not> eliminated a
      else
        let diff = fsub (score a) (score b) in
        if diff > history_epsilon cfg \<or> diff < - history_epsilon cfg then diff > 0
        else if coverage a \<noteq> coverage b then coverage a > coverage b
        else
          let tail = (if score a \<noteq> score b then score a > score b else start_at a < start_at b) in
          case hist of
            None \<Rightarrow> tail
          | Some h \<Rightarrow> if h (start_at a) \<noteq> h (start_at b) then h (start_at a) > h (start_at b) else tail)"

definition rank_with_history :: "instant list \<Rightarrow> participant list \<Rightarrow> responses \<Rightarrow> config
    \<Rightarrow> history_affinity option \<Rightarrow> slot_score list" where
  "rank_with_history slots ps rs cfg hist =
     slice_stable (rank_less cfg hist) (map (\<lambda>s. score_slot s ps rs cfg) slots)"

definition rank :: "instant list \<Rightarrow> participant list \<Rightarrow> responses \<Rightarrow> config \<Rightarrow> slot_score list" where
  "rank slots ps rs cfg = rank_with_history slots ps rs cfg None"

section \<open>History\<close>

record decision =
  d_slot :: instant
  d_decided_at :: instant

text \<open>\<^verbatim>\<open>Duration.Hours\<close>, for a non-negative duration.\<close>

definition hours_of :: "duration \<Rightarrow> rat" where
  "hours_of d = fadd (fl64 (of_int (d div hour))) (fdiv (fl64 (of_int (d mod hour))) (60 * 60 * 1000000000))"

definition bucket_of :: "location \<Rightarrow> instant \<Rightarrow> int \<times> int" where
  "bucket_of loc t = (weekday_in loc t, hour_in loc t)"

text \<open>
  The loop over the decisions. \<open>pow\<close> stands for the library's \<^verbatim>\<open>math.Pow\<close>, whose results on these
  arguments are in general irrational and are not modelled.
\<close>

definition affinity_step :: "(rat \<Rightarrow> rat \<Rightarrow> rat) \<Rightarrow> location \<Rightarrow> duration \<Rightarrow> instant
    \<Rightarrow> (int \<times> int \<rightharpoonup> rat) \<times> rat \<Rightarrow> decision \<Rightarrow> (int \<times> int \<rightharpoonup> rat) \<times> rat" where
  "affinity_step pow loc half_life now st d =
     (let (ws, mx) = st;
          age0 = time_sub now (d_decided_at d);
          age = (if age0 < 0 then 0 else age0);
          w = pow (1 / 2) (fdiv (hours_of age) (hours_of half_life));
          b = bucket_of loc (d_slot d);
          total_w = fadd (case ws b of None \<Rightarrow> 0 | Some x \<Rightarrow> x) w
      in (ws(b \<mapsto> total_w), if total_w > mx then total_w else mx))"

definition affinity_from_decisions :: "(rat \<Rightarrow> rat \<Rightarrow> rat) \<Rightarrow> decision list \<Rightarrow> location option
    \<Rightarrow> duration \<Rightarrow> instant \<Rightarrow> history_affinity option" where
  "affinity_from_decisions pow ds loc_opt half_life now =
     (if ds = [] \<or> half_life \<le> 0 then None
      else
        let loc = (case loc_opt of None \<Rightarrow> utc | Some l \<Rightarrow> l);
            (ws, mx) = foldl (affinity_step pow loc half_life now) (Map.empty, 0) ds
        in if mx = 0 then None
           else Some (\<lambda>slot. fdiv (case ws (bucket_of loc slot) of None \<Rightarrow> 0 | Some x \<Rightarrow> x) mx))"

section \<open>Facts about the comparison\<close>

lemma asymp_rank_less: "asymp (rank_less cfg hist)"
proof (rule asympI)
  fix a b
  assume ab: "rank_less cfg hist a b"
  have m: "fsub (score b) (score a) = - fsub (score a) (score b)"
    using fl64_minus [of "score a - score b"] by simp
  show "\<not> rank_less cfg hist b a"
    using ab unfolding rank_less_def m Let_def
    by (cases hist) (auto split: if_splits)
qed

lemma rank_perm: "mset (rank_with_history slots ps rs cfg hist) = mset (map (\<lambda>s. score_slot s ps rs cfg) slots)"
  unfolding rank_with_history_def by (rule go_sort.srt_perm)

lemma rank_adjacent_ok: "adjacent_ok (rank_less cfg hist) (rank_with_history slots ps rs cfg hist)"
  unfolding rank_with_history_def by (rule go_sort.srt_adjacent [OF asymp_rank_less])

lemma rank_eliminated_sorted:
  "sorted (map (\<lambda>s. if eliminated s then 1 else 0 :: nat) (rank_with_history slots ps rs cfg hist))"
  unfolding rank_with_history_def
  by (rule go_sort.srt_primary_key [OF asymp_rank_less]) (auto simp: rank_less_def split: if_splits)

lemma alive_then_dead:
  assumes "sorted (map (\<lambda>s. if eliminated s then 1 else 0 :: nat) xs)"
  shows "xs = filter (\<lambda>s. \<not> eliminated s) xs @ filter eliminated xs"
  using assms
proof (induction xs)
  case (Cons x xs)
  show ?case
  proof (cases "eliminated x")
    case True
    then have "filter (\<lambda>s. \<not> eliminated s) xs = []" "filter eliminated xs = xs"
      using Cons.prems by (auto simp: filter_empty_conv filter_id_conv)
    then show ?thesis using True by simp
  next
    case False
    then show ?thesis using Cons by simp
  qed
qed simp

lemma rank_split:
  "rank_with_history slots ps rs cfg hist =
     filter (\<lambda>s. \<not> eliminated s) (rank_with_history slots ps rs cfg hist)
     @ filter eliminated (rank_with_history slots ps rs cfg hist)"
  by (rule alive_then_dead [OF rank_eliminated_sorted])

lemma rank_alive_adjacent:
  "adjacent_ok (rank_less cfg hist) (filter (\<lambda>s. \<not> eliminated s) (rank_with_history slots ps rs cfg hist))"
  using rank_adjacent_ok [of cfg hist slots ps rs] by (subst (asm) rank_split) (simp add: successively_append_iff)

text \<open>What the comparison means for two surviving neighbours.\<close>

definition history_value :: "history_affinity option \<Rightarrow> instant \<Rightarrow> rat" where
  "history_value hist t = (case hist of None \<Rightarrow> 0 | Some h \<Rightarrow> h t)"

definition in_order :: "config \<Rightarrow> history_affinity option \<Rightarrow> slot_score \<Rightarrow> slot_score \<Rightarrow> bool" where
  "in_order cfg hist a b \<longleftrightarrow>
     (let gap = fsub (score b) (score a); ha = history_value hist (start_at a); hb = history_value hist (start_at b)
      in if \<bar>gap\<bar> > history_epsilon cfg then gap \<le> 0
         else coverage b < coverage a \<or> coverage b = coverage a \<and>
           (hb < ha \<or> hb = ha \<and> (score b < score a \<or> score b = score a \<and> start_at a \<le> start_at b)))"

lemma not_rank_less_in_order:
  assumes "\<not> eliminated a" "\<not> eliminated b" "\<not> rank_less cfg hist b a"
  shows "in_order cfg hist a b"
proof -
  let ?gap = "fsub (score b) (score a)"
  have far: "\<bar>?gap\<bar> > history_epsilon cfg \<longleftrightarrow> ?gap > history_epsilon cfg \<or> ?gap < - history_epsilon cfg"
    by (auto simp: abs_if)
  show ?thesis
  proof (cases "\<bar>?gap\<bar> > history_epsilon cfg")
    case True
    then show ?thesis using assms far by (simp add: rank_less_def in_order_def Let_def)
  next
    case False
    then have near: "\<not> (?gap > history_epsilon cfg \<or> ?gap < - history_epsilon cfg)" using far by blast
    show ?thesis
      using assms unfolding rank_less_def in_order_def Let_def if_not_P [OF False] if_not_P [OF near]
      by (cases hist) (auto simp: history_value_def split: if_splits)
  qed
qed

section \<open>Facts about the leader\<close>

lemma leader_loop_foldl:
  "leader_loop ps rs cfg best slots = foldl (\<lambda>best s.
      let sc = score_slot s ps rs cfg in
      if eliminated sc then best
      else case best of None \<Rightarrow> Some sc | Some b \<Rightarrow> if score sc > score b then Some sc else best) best slots"
  by (induction ps rs cfg best slots rule: leader_loop.induct) (auto simp: Let_def split: option.split)

lemma leader_loop_snoc:
  "leader_loop ps rs cfg best (slots @ [s]) =
    (let sc = score_slot s ps rs cfg; found = leader_loop ps rs cfg best slots in
      if eliminated sc then found
      else case found of None \<Rightarrow> Some sc | Some b \<Rightarrow> if score sc > score b then Some sc else found)"
  by (simp add: leader_loop_foldl Let_def)

lemma leader_loop_best:
  "case leader_loop ps rs cfg None slots of
     None \<Rightarrow> \<forall>s \<in> set slots. eliminated (score_slot s ps rs cfg)
   | Some b \<Rightarrow> \<exists>xs s ys. slots = xs @ s # ys \<and> b = score_slot s ps rs cfg \<and> \<not> eliminated b
       \<and> (\<forall>x \<in> set xs. eliminated (score_slot x ps rs cfg) \<or> score (score_slot x ps rs cfg) < score b)
       \<and> (\<forall>y \<in> set ys. eliminated (score_slot y ps rs cfg) \<or> score (score_slot y ps rs cfg) \<le> score b)"
proof (induction slots rule: rev_induct)
  case (snoc x slots)
  let ?sc = "score_slot x ps rs cfg"
  show ?case
  proof (cases "leader_loop ps rs cfg None slots")
    case None
    then have dead: "\<forall>y \<in> set slots. eliminated (score_slot y ps rs cfg)" using snoc by simp
    show ?thesis
    proof (cases "eliminated ?sc")
      case True
      then show ?thesis using dead None by (simp add: leader_loop_snoc Let_def)
    next
      case False
      then have "leader_loop ps rs cfg None (slots @ [x]) = Some ?sc"
        using None by (simp add: leader_loop_snoc Let_def)
      then show ?thesis
        using dead False by (simp only: option.case) (rule exI [of _ slots], rule exI [of _ x], simp)
    qed
  next
    case (Some b)
    with snoc obtain xs s ys where split: "slots = xs @ s # ys" "b = score_slot s ps rs cfg" "\<not> eliminated b"
      and xs: "\<forall>x \<in> set xs. eliminated (score_slot x ps rs cfg) \<or> score (score_slot x ps rs cfg) < score b"
      and ys: "\<forall>y \<in> set ys. eliminated (score_slot y ps rs cfg) \<or> score (score_slot y ps rs cfg) \<le> score b"
      by auto
    show ?thesis
    proof (cases "\<not> eliminated ?sc \<and> score b < score ?sc")
      case True
      then have "\<forall>y \<in> set slots. eliminated (score_slot y ps rs cfg) \<or> score (score_slot y ps rs cfg) < score ?sc"
        using split xs ys by force
      moreover have "leader_loop ps rs cfg None (slots @ [x]) = Some ?sc"
        using Some True by (simp add: leader_loop_snoc Let_def)
      ultimately show ?thesis
        using True by (simp only: option.case) (rule exI [of _ slots], rule exI [of _ x], simp)
    next
      case False
      then have res: "leader_loop ps rs cfg None (slots @ [x]) = Some b"
        using Some by (auto simp: leader_loop_snoc Let_def)
      have "slots @ [x] = xs @ s # (ys @ [x])" by (simp add: split)
      moreover have "\<forall>y \<in> set (ys @ [x]). eliminated (score_slot y ps rs cfg)
          \<or> score (score_slot y ps rs cfg) \<le> score b"
        using ys False by auto
      ultimately show ?thesis
        unfolding res option.case using split(2,3) xs
        by (intro exI [of _ xs] exI [of _ s] exI [of _ "ys @ [x]"] conjI)
    qed
  qed
qed simp

section \<open>Facts about history\<close>

text \<open>What is used of \<^verbatim>\<open>math.Pow\<close>: a power of one half is between zero and one.\<close>

definition half_power_ok :: "(rat \<Rightarrow> rat \<Rightarrow> rat) \<Rightarrow> bool" where
  "half_power_ok pow \<longleftrightarrow> (\<forall>x \<ge> 0. 0 \<le> pow (1 / 2) x \<and> pow (1 / 2) x \<le> 1)"

lemma hours_of_nonneg: "0 \<le> d \<Longrightarrow> 0 \<le> hours_of d"
  unfolding hours_of_def
  by (intro ieee.rnd_nonneg add_nonneg_nonneg divide_nonneg_nonneg) (simp_all add: duration_units pos_imp_zdiv_nonneg_iff)


definition affinity_inv :: "(int \<times> int \<rightharpoonup> rat) \<times> rat \<Rightarrow> bool" where
  "affinity_inv st \<longleftrightarrow> 0 \<le> snd st \<and> (\<forall>b x. fst st b = Some x \<longrightarrow> 0 \<le> x \<and> x \<le> snd st \<and> fl64 x = x)
     \<and> (snd st \<noteq> 0 \<longrightarrow> (\<exists>b. fst st b = Some (snd st)))"

lemma affinity_inv_step:
  assumes "half_power_ok pow" "0 < half_life" "affinity_inv st"
  shows "affinity_inv (affinity_step pow loc half_life now st d)"
proof -
  obtain ws mx where st: "st = (ws, mx)" by (cases st)
  define age where "age = (if time_sub now (d_decided_at d) < 0 then 0 else time_sub now (d_decided_at d))"
  define w where "w = pow (1 / 2) (fdiv (hours_of age) (hours_of half_life))"
  define b where "b = bucket_of loc (d_slot d)"
  define x where "x = (case ws b of None \<Rightarrow> 0 | Some x \<Rightarrow> x)"
  have "0 \<le> fdiv (hours_of age) (hours_of half_life)"
    using assms(2) by (intro ieee.rnd_nonneg divide_nonneg_nonneg hours_of_nonneg) (auto simp: age_def)
  then have w: "0 \<le> w" using assms(1) by (simp add: half_power_ok_def w_def)
  have inv: "0 \<le> mx" "\<And>b x. ws b = Some x \<Longrightarrow> 0 \<le> x \<and> x \<le> mx \<and> fl64 x = x"
    using assms(3) unfolding affinity_inv_def st by (simp_all del: split_paired_All)
  have x: "0 \<le> x \<and> x \<le> mx \<and> fl64 x = x"
    using inv by (cases "ws b") (simp_all add: x_def fl64_0)
  have tot: "0 \<le> fadd x w" "x \<le> fadd x w"
    using x w by (auto intro: ieee.rnd_nonneg ieee.accumulate_ge)
  have eq: "affinity_step pow loc half_life now st d
      = (ws(b \<mapsto> fadd x w), if fadd x w > mx then fadd x w else mx)"
    by (simp add: affinity_step_def st age_def w_def b_def x_def Let_def)
  have "\<exists>b'. (ws(b \<mapsto> fadd x w)) b' = Some mx" if "\<not> fadd x w > mx" "mx \<noteq> 0"
  proof -
    have "\<exists>b'. ws b' = Some mx" using assms(3) that(2) by (simp add: affinity_inv_def st)
    then obtain b' where b': "ws b' = Some mx" by blast
    show ?thesis
    proof (cases "b' = b")
      case True
      then have "x = mx" using b' by (simp add: x_def)
      then have "fadd x w = mx" using tot(2) that(1) by simp
      then show ?thesis by (intro exI [of _ b]) simp
    next
      case False
      then show ?thesis using b' by (intro exI [of _ b']) simp
    qed
  qed
  moreover have "\<exists>b'. (ws(b \<mapsto> fadd x w)) b' = Some (fadd x w)" by (intro exI [of _ b]) simp
  moreover have "0 \<le> y \<and> y \<le> max (fadd x w) mx \<and> fl64 y = y" if "(ws(b \<mapsto> fadd x w)) b' = Some y" for b' y
    using that tot inv(2) [of b' y] by (auto simp: fl64_idem split: if_splits)
  ultimately show ?thesis
    using tot inv(1) unfolding eq affinity_inv_def by (auto simp: max_def simp del: fun_upd_apply split_paired_All split_paired_Ex split: if_splits)
qed

lemma affinity_inv_fold:
  "half_power_ok pow \<Longrightarrow> 0 < half_life
    \<Longrightarrow> affinity_inv (foldl (affinity_step pow loc half_life now) (Map.empty, 0) ds)"
  by (rule foldl_invariant, simp add: affinity_inv_def, rule affinity_inv_step)

lemma affinity_buckets:
  "dom (fst (foldl (affinity_step pow loc half_life now) st ds)) = dom (fst st) \<union> (bucket_of loc \<circ> d_slot) ` set ds"
  by (induction ds arbitrary: st) (auto simp: affinity_step_def Let_def split: prod.split)

section \<open>A fixture\<close>

text \<open>
  Four people and three slots: everybody prefers noon, Cid only finds eleven ok, and both Bea and Cid
  only find ten ok. The scores are about 0.92, 0.96 and 1, so eleven is within the epsilon of both
  others, and ten is not within the epsilon of noon.
\<close>

definition eleven :: instant where "eleven = 11 * hour"

definition guest :: "string \<Rightarrow> participant" where
  "guest i = \<lparr>p_id = i, p_name = i, p_role = RoleOptional, p_loc = None\<rparr>"

definition four :: "participant list" where
  "four = [ann, guest ''Abe'', guest ''Bea'', guest ''Cid'']"

definition chain_answers :: responses where
  "chain_answers pid = Some (\<lambda>t. Some (
     if t = ten \<and> (pid = ''Bea'' \<or> pid = ''Cid'') then TierOK
     else if t = eleven \<and> pid = ''Cid'' then TierOK else TierPreferred))"

definition chain_history :: history_affinity where
  "chain_history t = (if t = ten then 1 else if t = eleven then 1 / 2 else 0)"

lemma sociable_times [simp]:
  "\<not> unsociable ten utc default_config" "\<not> unsociable eleven utc default_config"
  "\<not> unsociable noon utc default_config"
  by code_simp+

lemma distinct_times [simp]:
  "ten \<noteq> eleven" "eleven \<noteq> ten" "ten \<noteq> noon" "noon \<noteq> ten" "eleven \<noteq> noon" "noon \<noteq> eleven"
  "ten < eleven" "ten < noon" "eleven < noon"
  by (simp_all add: ten_def eleven_def noon_def duration_units)

lemma default_weight [simp]: "optional_weight default_config = 1 / 2"
  by (simp add: default_config_def)

lemmas score_eval = score_slot_def score_slot_with_def score_step_def score_init_def score_finish_alt
  Let_def get_def location_of_def

definition mean_score :: "rat \<Rightarrow> rat" where
  "mean_score m = max 0 (fsub (blend default_config m 1) (penalty_of default_config 0))"

lemma chain_scores:
  "score_slot noon four chain_answers default_config =
     \<lparr>start_at = noon, eliminated = False, eliminated_by = [], excludes = [], unknown = [], coverage = 4,
      total = 4, score = mean_score 1, penalty = penalty_of default_config 0\<rparr>"
  "score_slot eleven four chain_answers default_config =
     \<lparr>start_at = eleven, eliminated = False, eliminated_by = [], excludes = [], unknown = [], coverage = 4,
      total = 4, score = mean_score (fdiv (fadd 2 (fmul (fl64 (7 / 10)) (1 / 2)) * 2) 5),
      penalty = penalty_of default_config 0\<rparr>"
  "score_slot ten four chain_answers default_config =
     \<lparr>start_at = ten, eliminated = False, eliminated_by = [], excludes = [], unknown = [], coverage = 4,
      total = 4, score = mean_score (fdiv (fadd (fadd (3 / 2) (fmul (fl64 (7 / 10)) (1 / 2)))
        (fmul (fl64 (7 / 10)) (1 / 2)) * 2) 5), penalty = penalty_of default_config 0\<rparr>"
  by (simp_all add: score_eval four_def guest_def ann_def chain_answers_def mean_score_def)

text \<open>The roundings of the three scores, checked against their significands.\<close>

lemma chain_roundings:
  "fl64 (3152519739159347 / 9007199254740992) = 3152519739159347 / 9007199254740992"
  "fl64 (1351079888211149 / 4503599627370496) = 1351079888211149 / 4503599627370496"
  "fl64 (1) = 1"
  "fl64 (3152519739159347 / 4503599627370496) = 3152519739159347 / 4503599627370496"
  "fl64 (21166918248641331 / 9007199254740992) = 5291729562160333 / 2251799813685248"
  "fl64 (5291729562160333 / 5629499534213120) = 8466767299456533 / 9007199254740992"
  "fl64 (26691651038405598223871387163951 / 40564819207303340847894502572032) = 5926737109619573 / 9007199254740992"
  "fl64 (8628896886041871 / 9007199254740992) = 8628896886041871 / 9007199254740992"
  "fl64 (16663318621270835 / 9007199254740992) = 4165829655317709 / 2251799813685248"
  "fl64 (19815838360430183 / 9007199254740992) = 2476979795053773 / 1125899906842624"
  "fl64 (2476979795053773 / 2814749767106560) = 3963167672086037 / 4503599627370496"
  "fl64 (12493964315849429827828236737839 / 20282409603651670423947251286016) = 5548434740920451 / 9007199254740992"
  "fl64 (8250594517342749 / 9007199254740992) = 8250594517342749 / 9007199254740992"
  "fl64 (1 / 20) = 3602879701896397 / 72057594037927936"
  "fl64 (189151184349561 / 4503599627370496) = 189151184349561 / 4503599627370496"
  "fl64 (378302368699121 / 9007199254740992) = 378302368699121 / 9007199254740992"
  "fl64 (756604737398243 / 9007199254740992) = 756604737398243 / 9007199254740992"
proof -
  show "fl64 (3152519739159347 / 9007199254740992) = 3152519739159347 / 9007199254740992"
    by (rule fl64_eqI2 [of _ 54 6305039478318694]) simp_all
  show "fl64 (1351079888211149 / 4503599627370496) = 1351079888211149 / 4503599627370496"
    by (rule fl64_eqI2 [of _ 54 5404319552844596]) simp_all
  show "fl64 (1) = 1"
    by (rule fl64_eqI2 [of _ 52 4503599627370496]) simp_all
  show "fl64 (3152519739159347 / 4503599627370496) = 3152519739159347 / 4503599627370496"
    by (rule fl64_eqI2 [of _ 53 6305039478318694]) simp_all
  show "fl64 (21166918248641331 / 9007199254740992) = 5291729562160333 / 2251799813685248"
    by (rule fl64_eqI2 [of _ 51 5291729562160333]) simp_all
  show "fl64 (5291729562160333 / 5629499534213120) = 8466767299456533 / 9007199254740992"
    by (rule fl64_eqI2 [of _ 53 8466767299456533]) simp_all
  show "fl64 (26691651038405598223871387163951 / 40564819207303340847894502572032) = 5926737109619573 / 9007199254740992"
    by (rule fl64_eqI2 [of _ 53 5926737109619573]) simp_all
  show "fl64 (8628896886041871 / 9007199254740992) = 8628896886041871 / 9007199254740992"
    by (rule fl64_eqI2 [of _ 53 8628896886041871]) simp_all
  show "fl64 (16663318621270835 / 9007199254740992) = 4165829655317709 / 2251799813685248"
    by (rule fl64_eqI2 [of _ 52 8331659310635418]) simp_all
  show "fl64 (19815838360430183 / 9007199254740992) = 2476979795053773 / 1125899906842624"
    by (rule fl64_eqI2 [of _ 51 4953959590107546]) simp_all
  show "fl64 (2476979795053773 / 2814749767106560) = 3963167672086037 / 4503599627370496"
    by (rule fl64_eqI2 [of _ 53 7926335344172074]) simp_all
  show "fl64 (12493964315849429827828236737839 / 20282409603651670423947251286016) = 5548434740920451 / 9007199254740992"
    by (rule fl64_eqI2 [of _ 53 5548434740920451]) simp_all
  show "fl64 (8250594517342749 / 9007199254740992) = 8250594517342749 / 9007199254740992"
    by (rule fl64_eqI2 [of _ 53 8250594517342749]) simp_all
  show "fl64 (1 / 20) = 3602879701896397 / 72057594037927936"
    by (rule fl64_eqI2 [of _ 57 7205759403792794]) simp_all
  show "fl64 (189151184349561 / 4503599627370496) = 189151184349561 / 4503599627370496"
    by (rule fl64_eqI2 [of _ 57 6052837899185952]) simp_all
  show "fl64 (378302368699121 / 9007199254740992) = 378302368699121 / 9007199254740992"
    by (rule fl64_eqI2 [of _ 57 6052837899185936]) simp_all
  show "fl64 (756604737398243 / 9007199254740992) = 756604737398243 / 9007199254740992"
    by (rule fl64_eqI2 [of _ 56 6052837899185944]) simp_all
qed

lemma penalty_of_0: "config_ok cfg \<Longrightarrow> penalty_of cfg 0 = 0"
  by (simp add: penalty_of_def config_ok_def fl64_0)

lemma mean_score_alt: "mean_score m = max 0 (fadd (fmul (fl64 (7 / 10)) m) (fsub 1 (fl64 (7 / 10))))"
  by (simp add: mean_score_def blend_def penalty_of_0 [OF default_config_ok] fl64_idem)
    (simp add: default_config_def fl64_idem)

lemma chain_values:
  "mean_score 1 = 1"
  "mean_score (fdiv (fadd 2 (fmul (fl64 (7 / 10)) (1 / 2)) * 2) 5) = 8628896886041871 / 9007199254740992"
  "mean_score (fdiv (fadd (fadd (3 / 2) (fmul (fl64 (7 / 10)) (1 / 2))) (fmul (fl64 (7 / 10)) (1 / 2)) * 2) 5)
     = 8250594517342749 / 9007199254740992"
  unfolding mean_score_alt tier_consts by (simp_all add: chain_roundings fl64_idem)

lemma chain_epsilon: "history_epsilon default_config = 3602879701896397 / 72057594037927936"
  by (simp add: default_config_def chain_roundings)

lemma chain_order:
  "\<not> rank_less default_config (Some chain_history) (score_slot eleven four chain_answers default_config)
     (score_slot ten four chain_answers default_config)"
  "\<not> rank_less default_config (Some chain_history) (score_slot noon four chain_answers default_config)
     (score_slot eleven four chain_answers default_config)"
  unfolding chain_scores chain_values rank_less_def chain_epsilon
  by (simp_all add: chain_history_def chain_roundings Let_def)

text \<open>The same answers, except that Cid has not answered for noon yet.\<close>

definition quiet_answers :: responses where
  "quiet_answers pid = Some (\<lambda>t. if pid = ''Cid'' \<and> t = noon then None
     else case chain_answers pid of None \<Rightarrow> None | Some m \<Rightarrow> m t)"

lemma quiet_scores:
  "score_slot noon four quiet_answers default_config =
     \<lparr>start_at = noon, eliminated = False, eliminated_by = [], excludes = [], unknown = [''Cid''], coverage = 3,
      total = 4, score = mean_score 1, penalty = penalty_of default_config 0\<rparr>"
  "score_slot eleven four quiet_answers default_config = score_slot eleven four chain_answers default_config"
  by (simp_all add: score_eval four_def guest_def ann_def chain_answers_def quiet_answers_def mean_score_def)

lemma chain_separated:
  "history_epsilon default_config < \<bar>fsub (score (score_slot noon four chain_answers default_config))
     (score (score_slot ten four chain_answers default_config))\<bar>"
  "history_epsilon default_config < \<bar>fsub (score (score_slot ten four chain_answers default_config))
     (score (score_slot noon four chain_answers default_config))\<bar>"
  unfolding chain_scores chain_values chain_epsilon
  by (simp_all add: chain_roundings fl64_minus)

section \<open>Properties\<close>

text \<open>
  C16: The ranking is a rearrangement of the scores of the slots, one entry per slot; every slot a required
  participant vetoed comes after every slot nobody vetoed; and two neighbours that survive are in order:
  the later one does not score better by more than the epsilon, and within the epsilon they are ordered
  by coverage, then history, then score, then start.
\<close>

theorem rank_contract:
  "let r = rank_with_history slots ps rs cfg hist; alive = filter (\<lambda>s. \<not> eliminated s) r in
     mset r = mset (map (\<lambda>s. score_slot s ps rs cfg) slots)
   \<and> r = alive @ filter eliminated r
   \<and> successively (in_order cfg hist) alive"
proof -
  have a: "successively (in_order cfg hist)
      (filter (\<lambda>s. \<not> eliminated s) (rank_with_history slots ps rs cfg hist))"
    using rank_alive_adjacent [of cfg hist slots ps rs]
    by (rule successively_mono_set) (simp add: not_rank_less_in_order)
  show ?thesis unfolding Let_def by (rule conjI [OF rank_perm conjI [OF rank_split a]])
qed

text \<open>
  Where the surviving slots' scores are pairwise further apart than the epsilon, the ranking of
  these slots is strictly descending in score, whatever the history and the coverage.
\<close>

theorem rank_separated:
  assumes "\<forall>a \<in> set slots. \<forall>b \<in> set slots. a \<noteq> b \<longrightarrow>
       history_epsilon cfg < \<bar>fsub (score (score_slot a ps rs cfg)) (score (score_slot b ps rs cfg))\<bar>"
    and "distinct slots" "0 \<le> history_epsilon cfg"
  shows "sorted_wrt (\<lambda>a b. score b < score a)
     (filter (\<lambda>s. \<not> eliminated s) (rank_with_history slots ps rs cfg hist))"
proof -
  let ?r = "filter (\<lambda>s. \<not> eliminated s) (rank_with_history slots ps rs cfg hist)"
  have starts: "map start_at (map (\<lambda>s. score_slot s ps rs cfg) slots) = slots"
    by (induction slots) (simp_all add: score_slot_def score_fields)
  then have "distinct (map (\<lambda>s. score_slot s ps rs cfg) slots)" using assms(2) by (metis distinct_map)
  then have "distinct (rank_with_history slots ps rs cfg hist)"
    using rank_perm by (metis mset_eq_imp_distinct_iff)
  then have d: "distinct ?r" by simp
  have mem: "\<exists>s \<in> set slots. x = score_slot s ps rs cfg" if "x \<in> set ?r" for x
  proof -
    have "set (rank_with_history slots ps rs cfg hist) = set (map (\<lambda>s. score_slot s ps rs cfg) slots)"
      using rank_perm by (rule mset_eq_setD)
    then show ?thesis using that by auto
  qed
  have less: "score b < score a"
    if ab: "a \<in> set ?r" "b \<in> set ?r" "a \<noteq> b" "\<not> rank_less cfg hist b a" for a b
  proof -
    obtain s where s: "s \<in> set slots" "a = score_slot s ps rs cfg" using mem [OF ab(1)] by blast
    obtain t where t: "t \<in> set slots" "b = score_slot t ps rs cfg" using mem [OF ab(2)] by blast
    have "t \<noteq> s" using that(3) s t by auto
    then have sep: "history_epsilon cfg < \<bar>fsub (score b) (score a)\<bar>" using assms(1) s t by blast
    have "\<not> eliminated a" "\<not> eliminated b" using that by auto
    then have "fsub (score b) (score a) \<le> 0"
      using that(4) sep by (auto simp: rank_less_def Let_def abs_if split: if_splits)
    then have "fsub (score b) (score a) < 0" using sep assms(3) by (auto simp: abs_if split: if_splits)
    then show ?thesis using ieee.rnd_nonneg [of "score b - score a"] by (cases "score b < score a") auto
  qed
  have "successively (\<lambda>a b. score b < score a) ?r"
    using rank_alive_adjacent [of cfg hist slots ps rs] d less
    by (rule successively_distinct_mono)
  moreover have "transp (\<lambda>a b. score b < score a)" by (auto intro: transpI)
  ultimately show ?thesis using successively_conv_sorted_wrt by blast
qed

lemma rank_separated_witness:
  "sorted_wrt (\<lambda>a b. score b < score a) (filter (\<lambda>s. \<not> eliminated s)
     (rank_with_history [ten, noon] four chain_answers default_config (Some chain_history)))"
proof (rule rank_separated)
  show "0 \<le> history_epsilon default_config" by (simp add: chain_epsilon)
qed (use chain_separated in auto)

text \<open>
  The leader the dominance analysis starts from is the earliest of the best: nobody required refused
  it, no slot that survives scores higher, and every slot listed before it is eliminated or scores
  strictly less. There is no leader exactly when every slot is eliminated.
\<close>

theorem leader_of_correct:
  "case leader_of slots ps rs cfg of
     None \<Rightarrow> \<forall>s \<in> set slots. eliminated (score_slot s ps rs cfg)
   | Some l \<Rightarrow> \<exists>xs ys. slots = xs @ l # ys \<and> \<not> eliminated (score_slot l ps rs cfg)
       \<and> (\<forall>x \<in> set xs. eliminated (score_slot x ps rs cfg)
            \<or> score (score_slot x ps rs cfg) < score (score_slot l ps rs cfg))
       \<and> (\<forall>y \<in> set ys. eliminated (score_slot y ps rs cfg)
            \<or> score (score_slot y ps rs cfg) \<le> score (score_slot l ps rs cfg))"
proof (cases "leader_loop ps rs cfg None slots")
  case None
  then show ?thesis using leader_loop_best [where ps = ps and rs = rs and cfg = cfg and slots = slots] by (simp add: leader_of_def)
next
  case (Some b)
  with leader_loop_best [where ps = ps and rs = rs and cfg = cfg and slots = slots] obtain xs s ys
    where "slots = xs @ s # ys" and b: "b = score_slot s ps rs cfg" and "\<not> eliminated b"
      and "\<forall>x \<in> set xs. eliminated (score_slot x ps rs cfg) \<or> score (score_slot x ps rs cfg) < score b"
      and "\<forall>y \<in> set ys. eliminated (score_slot y ps rs cfg) \<or> score (score_slot y ps rs cfg) \<le> score b"
    by auto
  moreover have "start_at b = s" by (simp add: b score_slot_def score_fields)
  ultimately show ?thesis
    unfolding leader_of_def Some option.map option.case
    by (intro exI [of _ xs] exI [of _ ys]) simp
qed

lemma quiet_leader: "leader_of [eleven, noon] four quiet_answers default_config = Some noon"
proof -
  have "start_at (score_slot eleven four quiet_answers default_config) = eleven"
    "start_at (score_slot noon four quiet_answers default_config) = noon"
    by (simp_all add: quiet_scores chain_scores)
  moreover have "score (score_slot eleven four quiet_answers default_config)
      < score (score_slot noon four quiet_answers default_config)"
    "\<not> eliminated (score_slot eleven four quiet_answers default_config)"
    "\<not> eliminated (score_slot noon four quiet_answers default_config)"
    unfolding quiet_scores chain_scores chain_values by simp_all
  ultimately show ?thesis by (simp add: leader_of_def Let_def)
qed

lemma leader_of_correct_witness:
  "\<exists>xs ys. [eleven, noon] = xs @ noon # ys \<and> \<not> eliminated (score_slot noon four quiet_answers default_config)"
  using leader_of_correct [of "[eleven, noon]" four quiet_answers default_config]
  unfolding quiet_leader option.case by blast

text \<open>
  The guarantee the configuration states for the epsilon does not hold through a third slot: with
  the default parameters there are three slots, one history and answers of everybody for which the
  ranking puts first a slot whose score is lower than the last one's by more than the epsilon.
\<close>

theorem history_overturns_preference:
  "let r = rank_with_history [ten, eleven, noon] four chain_answers default_config (Some chain_history) in
     map start_at r = [ten, eleven, noon] \<and> list_all (\<lambda>s. \<not> eliminated s \<and> unknown s = []) r
   \<and> score (r ! 2) - score (r ! 0) > history_epsilon default_config"
proof -
  have "rank_with_history [ten, eleven, noon] four chain_answers default_config (Some chain_history)
      = map (\<lambda>s. score_slot s four chain_answers default_config) [ten, eleven, noon]"
    by (simp add: rank_with_history_def slice_stable_short insertion_sort_def chain_order)
  then have "rank_with_history [ten, eleven, noon] four chain_answers default_config (Some chain_history)
      = [score_slot ten four chain_answers default_config, score_slot eleven four chain_answers default_config,
         score_slot noon four chain_answers default_config]" by simp
  then show ?thesis unfolding Let_def chain_epsilon chain_scores chain_values by simp
qed

text \<open>
  The leader is not the slot the ranking puts first: with the default parameters, coverage within
  the epsilon decides the ranking but not the leader.
\<close>

theorem leader_differs_from_rank:
  "leader_of [eleven, noon] four quiet_answers default_config = Some noon
   \<and> map start_at (rank [eleven, noon] four quiet_answers default_config) = [eleven, noon]"
proof -
  have "\<not> rank_less default_config None (score_slot noon four quiet_answers default_config)
      (score_slot eleven four quiet_answers default_config)"
    unfolding quiet_scores chain_scores chain_values rank_less_def chain_epsilon
    by (simp add: chain_roundings Let_def)
  then have "rank [eleven, noon] four quiet_answers default_config
      = [score_slot eleven four quiet_answers default_config, score_slot noon four quiet_answers default_config]"
    by (simp add: rank_def rank_with_history_def slice_stable_short insertion_sort_def)
  moreover have "start_at (score_slot eleven four quiet_answers default_config) = eleven"
    "start_at (score_slot noon four quiet_answers default_config) = noon"
    by (simp_all add: quiet_scores chain_scores)
  ultimately show ?thesis using quiet_leader by simp
qed

text \<open>
  A history built from past decisions stays in the unit interval, and some past decision's weekday
  and hour attains one: the history is a relative preference, whatever the decay is.
\<close>

theorem affinity_range:
  assumes "half_power_ok pow" "affinity_from_decisions pow ds loc half_life now = Some h"
  shows "(\<forall>t. 0 \<le> h t \<and> h t \<le> 1) \<and> (\<exists>d \<in> set ds. h (d_slot d) = 1)"
proof -
  define l where "l = (case loc of None \<Rightarrow> utc | Some l \<Rightarrow> l)"
  define ws where "ws = fst (foldl (affinity_step pow l half_life now) (Map.empty, 0) ds)"
  define mx where "mx = snd (foldl (affinity_step pow l half_life now) (Map.empty, 0) ds)"
  have hl: "0 < half_life" and mx: "mx \<noteq> 0"
    and h: "h = (\<lambda>slot. fdiv (case ws (bucket_of l slot) of None \<Rightarrow> 0 | Some x \<Rightarrow> x) mx)"
    using assms(2) by (auto simp: affinity_from_decisions_def l_def ws_def mx_def Let_def
        split: if_splits prod.splits)
  have inv: "affinity_inv (ws, mx)"
    using affinity_inv_fold [OF assms(1) hl] by (simp add: ws_def mx_def)
  then have b: "0 < mx" "\<And>b x. ws b = Some x \<Longrightarrow> 0 \<le> x \<and> x \<le> mx" and "\<exists>b. ws b = Some mx"
    using mx unfolding affinity_inv_def by (simp_all del: split_paired_All split_paired_Ex)
  have "0 \<le> h t \<and> h t \<le> 1" for t
    unfolding h using b by (intro ieee.ratio_bounds) (auto split: option.split)
  moreover obtain b where "ws b = Some mx" using \<open>\<exists>b. ws b = Some mx\<close> by blast
  then have "b \<in> dom ws" by blast
  then obtain d where "d \<in> set ds" "bucket_of l (d_slot d) = b"
    unfolding ws_def affinity_buckets by auto
  then have "h (d_slot d) = 1" using \<open>ws b = Some mx\<close> mx by (simp add: h)
  ultimately show ?thesis using \<open>d \<in> set ds\<close> by blast
qed

definition one_decision :: "decision list" where
  "one_decision = [\<lparr>d_slot = ten, d_decided_at = 0\<rparr>]"

lemma affinity_range_witness:
  "\<exists>h. affinity_from_decisions (\<lambda>_ _. 1) one_decision None hour 0 = Some h
     \<and> (\<forall>t. 0 \<le> h t \<and> h t \<le> 1) \<and> h ten = 1"
proof -
  have "half_power_ok (\<lambda>_ _. 1)" by (simp add: half_power_ok_def)
  moreover have "affinity_from_decisions (\<lambda>_ _. 1) one_decision None hour 0 \<noteq> None"
    by (simp add: affinity_from_decisions_def one_decision_def affinity_step_def Let_def duration_units fl64_1)
  then obtain h where h: "affinity_from_decisions (\<lambda>_ _. 1) one_decision None hour 0 = Some h" by blast
  ultimately have "(\<forall>t. 0 \<le> h t \<and> h t \<le> 1) \<and> (\<exists>d \<in> set one_decision. h (d_slot d) = 1)"
    by (rule affinity_range)
  then show ?thesis using h by (auto simp: one_decision_def)
qed

end
