(* ===== verification/StoreGroups.thy ===== *)
theory StoreGroups
  imports StoreFacts Ranking
begin

text \<open>
  \<^verbatim>\<open>api/internal/store/groups.go\<close>: groups, their members, the seats a member holds in the group's
  events, and graduation, which makes a group out of an event. Main facts (\<open>GroupFacts\<close>): claiming a
  seat twice gives the same seat, a member token is worth something in its own group only, graduation
  seeds one member per participant.
\<close>

record store_group =
  sg_id :: string
  sg_slug :: string
  sg_name :: string
  sg_created_from :: "string option"
  sg_created :: instant

record group_member =
  sm_id :: string
  sm_name :: string
  sm_tz :: string
  sm_role :: string
  sm_calendar :: string
  sm_url :: string
  sm_claimed :: bool
  sm_joined :: instant

record new_member =
  nm_name :: string
  nm_tz :: string
  nm_role :: string

record new_group =
  ng_name :: string
  ng_created_from :: string
  ng_members :: "new_member list"

record created_group =
  cg_group :: store_group
  cg_members :: "group_member list"

record graduated_group =
  gg_group :: store_group
  gg_member :: group_member
  gg_token :: string

definition decode_group :: "group_row \<Rightarrow> store_group" where
  "decode_group row = \<lparr>sg_id = uuid_string (gr_id row), sg_slug = gr_slug row, sg_name = gr_name row,
     sg_created_from = map_option uuid_string (gr_created_from row), sg_created = gr_created row\<rparr>"

definition decode_group_member :: "member_row \<Rightarrow> group_member" where
  "decode_group_member row =
     \<lparr>sm_id = uuid_string (gm_id row), sm_name = gm_name row, sm_tz = gm_tz row, sm_role = gm_role row,
      sm_calendar = gm_calendar row, sm_url = (case gm_url row of None \<Rightarrow> '''' | Some u \<Rightarrow> u),
      sm_claimed = (gm_token row \<noteq> None), sm_joined = gm_joined row\<rparr>"

section \<open>Groups and members\<close>

definition seed_member :: "env \<Rightarrow> uuid \<Rightarrow> new_member \<Rightarrow> group_member query" where
  "seed_member env gid m =
     seq (create_member_row env \<lparr>mp_group = gid, mp_token = None, mp_name = nm_name m, mp_tz = nm_tz m,
            mp_role = or_default (nm_role m) ''optional''\<rparr>) (\<lambda>row. ret (decode_group_member row))"

definition create_group_tx :: "env \<Rightarrow> string \<Rightarrow> new_group \<Rightarrow> created_group query" where
  "create_group_tx env slug inp = transaction (
     seq (parse_group env (ng_created_from inp)) (\<lambda>from.
     seq (create_group_row env slug (ng_name inp) from) (\<lambda>row.
     seq (each (seed_member env (gr_id row)) (ng_members inp)) (\<lambda>ms.
     ret \<lparr>cg_group = decode_group row, cg_members = ms\<rparr>))))"

definition create_group :: "env \<Rightarrow> new_group \<Rightarrow> created_group query" where
  "create_group env inp = retry_slug env ''groups_slug_key'' (\<lambda>slug. create_group_tx env slug inp) slug_attempts"

definition group_by_slug :: "string \<Rightarrow> store_group query" where
  "group_by_slug slug = seq (not_found (get_group_by_slug_row slug)) (\<lambda>row. ret (decode_group row))"

definition group_by_id :: "env \<Rightarrow> string \<Rightarrow> store_group query" where
  "group_by_id env g =
     seq (parse_uuid env g) (\<lambda>gid. seq (not_found (get_group_by_id_row gid)) (\<lambda>row. ret (decode_group row)))"

definition group_members :: "env \<Rightarrow> string \<Rightarrow> group_member list query" where
  "group_members env g =
     seq (parse_uuid env g) (\<lambda>gid. seq (list_members_rows gid) (\<lambda>rows. ret (map decode_group_member rows)))"

definition join_group :: "env \<Rightarrow> string \<Rightarrow> new_member \<Rightarrow> (group_member \<times> string) query" where
  "join_group env g inp =
     seq (parse_uuid env g) (\<lambda>gid.
     seq (new_token env) (\<lambda>(raw, digest).
     seq (create_member_row env \<lparr>mp_group = gid, mp_token = Some digest, mp_name = nm_name inp, mp_tz = nm_tz inp,
            mp_role = or_default (nm_role inp) ''optional''\<rparr>) (\<lambda>row. ret (decode_group_member row, raw))))"

definition claim_group_member :: "env \<Rightarrow> string \<Rightarrow> string \<Rightarrow> (group_member \<times> string) query" where
  "claim_group_member env g m =
     seq (parse_uuid env g) (\<lambda>gid.
     seq (parse_uuid env m) (\<lambda>mid.
     seq (not_found (get_member_by_id_row mid gid)) (\<lambda>_.
     seq (new_token env) (\<lambda>(raw, digest).
     seq (claim_member_row mid digest) (\<lambda>row. ret (decode_group_member row, raw))))))"

definition group_member_by_token :: "env \<Rightarrow> string \<Rightarrow> string \<Rightarrow> group_member query" where
  "group_member_by_token env g token =
     seq (parse_uuid env g) (\<lambda>gid.
     seq (not_found (get_member_by_token_row gid (hash_token env token))) (\<lambda>row. ret (decode_group_member row)))"

definition save_group_member_busy_blocks :: "env \<Rightarrow> string \<Rightarrow> interval list \<Rightarrow> string \<Rightarrow> unit query" where
  "save_group_member_busy_blocks env m blocks url =
     seq (parse_uuid env m) (\<lambda>mid. transaction (
     seq (delete_member_busy_rows mid) (\<lambda>_.
     seq (if blocks = [] then ret () else insert_member_busy_rows mid blocks ''ics'') (\<lambda>_.
     set_member_calendar mid ''ics'' (if url = '''' then None else Some url)))))"

definition group_member_busy_blocks :: "env \<Rightarrow> string \<Rightarrow> busy_block list query" where
  "group_member_busy_blocks env m =
     seq (parse_uuid env m) (\<lambda>mid. seq (list_member_busy_rows mid) (\<lambda>rows. ret (map decode_busy rows)))"

definition group_events :: "env \<Rightarrow> string \<Rightarrow> store_event list query" where
  "group_events env g =
     seq (parse_uuid env g) (\<lambda>gid. seq (list_group_events_rows gid) (\<lambda>rows. ret (map decode_event rows)))"

definition group_decision_history :: "env \<Rightarrow> string \<Rightarrow> decision list query" where
  "group_decision_history env g =
     seq (parse_uuid env g) (\<lambda>gid. seq (list_group_decisions_rows gid) (\<lambda>rows.
     ret (map (\<lambda>(slot, t). \<lparr>d_slot = slot, d_decided_at = t\<rparr>) rows)))"

section \<open>Seats\<close>

definition claim_event_seat :: "env \<Rightarrow> string \<Rightarrow> string \<Rightarrow> (store_participant \<times> string) query" where
  "claim_event_seat env event m =
     seq (parse_uuid env event) (\<lambda>eid.
     seq (parse_uuid env m) (\<lambda>mid.
     seq (new_token env) (\<lambda>(raw, digest).
     catch (get_participant_by_member_row eid mid)
       (\<lambda>e. if e \<noteq> NoRows then fail e
            else seq (not_found (get_member_by_id_unscoped_row mid)) (\<lambda>member.
              seq (create_participant_from_member_row env \<lparr>pp_event = eid, pp_token = digest,
                     pp_name = gm_name member, pp_tz = gm_tz member, pp_role = gm_role member,
                     pp_organizer = False, pp_member = Some mid\<rparr>) (\<lambda>row.
              ret (decode_participant row, raw))))
       (\<lambda>existing. seq (rotate_participant_token (pt_id existing) digest) (\<lambda>row.
          ret (decode_participant row, raw))))))"

definition link_participant_to_group_member :: "env \<Rightarrow> string \<Rightarrow> string \<Rightarrow> store_participant query" where
  "link_participant_to_group_member env p m =
     seq (parse_uuid env p) (\<lambda>pid.
     seq (parse_uuid env m) (\<lambda>mid.
     seq (link_participant_row pid (Some mid)) (\<lambda>row. ret (decode_participant row))))"

section \<open>Graduation\<close>

text \<open>\<^verbatim>\<open>parseUUIDBytes\<close> ignores the error of the parser: the bytes are then zero.\<close>

definition parse_uuid_bytes :: "env \<Rightarrow> string \<Rightarrow> uuid" where
  "parse_uuid_bytes env s = (case env_scan env s of None \<Rightarrow> 0 | Some u \<Rightarrow> u)"

definition caller_name :: "string \<Rightarrow> store_participant list \<Rightarrow> string" where
  "caller_name caller ps = (case find (\<lambda>p. sp_id p = caller) ps of None \<Rightarrow> '''' | Some p \<Rightarrow> sp_name p)"

definition graduate :: "env \<Rightarrow> string \<Rightarrow> string \<Rightarrow> string \<Rightarrow> graduated_group query" where
  "graduate env event group_name caller =
     seq (parse_uuid env event) (\<lambda>eid.
     seq (participants_of env event) (\<lambda>ps.
     if ps = [] then fail NoParticipants
     else
       seq (create_group env \<lparr>ng_name = group_name, ng_created_from = event,
              ng_members = map (\<lambda>p. \<lparr>nm_name = sp_name p, nm_tz = sp_tz p, nm_role = sp_role p\<rparr>) ps\<rparr>) (\<lambda>created.
       seq (link_event_to_group_row eid (Some (parse_uuid_bytes env (sg_id (cg_group created))))) (\<lambda>_.
       case find (\<lambda>m. sm_name m = caller_name caller ps) (cg_members created) of
         None \<Rightarrow> fail NoCallerSeat
       | Some m \<Rightarrow>
           seq (claim_group_member env (sg_id (cg_group created)) (sm_id m)) (\<lambda>(claimed, token).
           ret \<lparr>gg_group = cg_group created, gg_member = claimed, gg_token = token\<rparr>)))))"

end
