(* ===== verification/GroupFacts.thy ===== *)
theory GroupFacts
  imports StoreGroups
begin

text \<open>The facts about \<open>StoreGroups\<close>.\<close>

section \<open>Integrity\<close>

lemma preserves_create_group [inv_intros]: "preserves intact (create_group env inp)"
  unfolding create_group_def create_group_tx_def parse_group_def seed_member_def by (intro inv_intros)

lemma preserves_claim_member [inv_intros]: "preserves intact (claim_group_member env g m)"
  unfolding claim_group_member_def by (intro inv_intros)

lemma preserves_store_groups [inv_intros]:
  "preserves intact (group_by_slug slug)"
  "preserves intact (group_by_id env g)"
  "preserves intact (group_members env g)"
  "preserves intact (join_group env g nm)"
  "preserves intact (group_member_by_token env g token)"
  "preserves intact (save_group_member_busy_blocks env m blocks url)"
  "preserves intact (group_member_busy_blocks env m)"
  "preserves intact (group_events env g)"
  "preserves intact (group_decision_history env g)"
  "preserves intact (claim_event_seat env event m)"
  "preserves intact (link_participant_to_group_member env p m)"
  "preserves intact (graduate env event name caller)"
  unfolding group_by_slug_def group_by_id_def group_members_def join_group_def group_member_by_token_def
    save_group_member_busy_blocks_def group_member_busy_blocks_def group_events_def
    group_decision_history_def claim_event_seat_def link_participant_to_group_member_def graduate_def
  by (intro inv_intros)+

section \<open>One row by its key\<close>

text \<open>What \<open>update_participant\<close> and \<open>update_member\<close> return and leave behind.\<close>

lemma update_participant_Inr:
  assumes "update_participant k f s = (Inr q, s')"
  obtains p where "find (\<lambda>p. pt_id p = k) (tbl_participants (tables s)) = Some p" "q = f p"
    "first_broken (participant_checks (tables s) (filter (\<lambda>x. pt_id x \<noteq> k) (tbl_participants (tables s))) (f p)) = None"
    "s' = s\<lparr>tables := (tables s)\<lparr>tbl_participants := set_where (\<lambda>x. pt_id x = k) f (tbl_participants (tables s))\<rparr>\<rparr>"
  using assms
  by (auto simp: update_participant_def select_one_def modify_def op_simps split: option.splits)

lemma update_member_Inr:
  assumes "update_member k f s = (Inr q, s')"
  obtains p where "find (\<lambda>p. gm_id p = k) (tbl_members (tables s)) = Some p" "q = f p"
    "first_broken (member_checks (tables s) (filter (\<lambda>x. gm_id x \<noteq> k) (tbl_members (tables s))) (f p)) = None"
    "s' = s\<lparr>tables := (tables s)\<lparr>tbl_members := set_where (\<lambda>x. gm_id x = k) f (tbl_members (tables s))\<rparr>\<rparr>"
  using assms
  by (auto simp: update_member_def select_one_def modify_def op_simps split: option.splits)

text \<open>With unique keys, the row that satisfies a condition can be found by it.\<close>

lemma find_unique:
  assumes "x \<in> set xs" "P x" "\<And>y. y \<in> set xs \<Longrightarrow> P y \<Longrightarrow> y = x"
  shows "find P xs = Some x"
proof -
  obtain z where z: "find P xs = Some z" using assms(1,2) by (cases "find P xs") (auto simp: find_None_iff)
  then have "z = x" using assms(3) find_Some_mem by fast
  then show ?thesis using z by simp
qed

lemma distinct_key_eq: "distinct (map key xs) \<Longrightarrow> x \<in> set xs \<Longrightarrow> y \<in> set xs \<Longrightarrow> key x = key y \<Longrightarrow> x = y"
  by (auto simp: distinct_map inj_on_def)

lemma token_lookup:
  assumes "env_scan env event = Some k" "participants_ok (tables s)" "p \<in> set (tbl_participants (tables s))"
    "pt_event p = k" "pt_token p = env_hash env token"
  shows "participant_by_token env event token s = (Inr (decode_participant p), s)"
proof -
  have "find (\<lambda>p. pt_event p = k \<and> pt_token p = env_hash env token) (tbl_participants (tables s)) = Some p"
  proof (rule find_unique [OF assms(3)])
    show "pt_event p = k \<and> pt_token p = env_hash env token" using assms(4,5) by simp
    show "q = p" if "q \<in> set (tbl_participants (tables s))" "pt_event q = k \<and> pt_token q = env_hash env token" for q
      using distinct_key_eq [of "\<lambda>p. (pt_event p, pt_token p)", OF _ that(1) assms(3)] assms(2,4,5) that(2)
      by (simp add: participants_ok_def)
  qed
  then show ?thesis by (simp add: participant_by_token_eq [OF assms(1)])
qed

lemma seat_lookup:
  assumes "participants_ok (tables s)" "p \<in> set (tbl_participants (tables s))" "pt_event p = e" "pt_member p = Some m"
  shows "get_participant_by_member_row e m s = (Inr p, s)"
proof -
  have "q = p" if "q \<in> set (tbl_participants (tables s))" "pt_event q = e" "pt_member q = Some m" for q
  proof -
    have "distinct (map seat_key (filter linked (tbl_participants (tables s))))"
      using assms(1) by (simp add: participants_ok_def)
    from distinct_key_eq [OF this, of q p] show ?thesis using that assms(2-4) by simp
  qed
  then have "find (\<lambda>p. pt_event p = e \<and> pt_member p = Some m) (tbl_participants (tables s)) = Some p"
    using assms(3,4) by (intro find_unique [OF assms(2)]) simp_all
  then show ?thesis by (simp add: get_participant_by_member_row_def select_one_def op_simps)
qed

section \<open>Claiming a seat\<close>

lemma set_where_mem:
  "distinct (map key xs) \<Longrightarrow> x \<in> set xs \<Longrightarrow> key x = k \<Longrightarrow> f x \<in> set (set_where (\<lambda>x. key x = k) f xs)"
  by (auto simp: set_where_def)

lemma claim_event_seat_Inr:
  assumes "scan_ok env" "db_ok (tables s)"
    "claim_event_seat env (uuid_string e) (uuid_string m) s = (Inr (p, token), s')"
  shows "\<exists>row. row \<in> set (tbl_participants (tables s')) \<and> p = decode_participant row \<and> pt_event row = e
    \<and> pt_member row = Some m \<and> pt_token row = env_hash env token
    \<and> (\<forall>old. old \<in> set (tbl_participants (tables s)) \<and> pt_event old = e \<and> pt_member old = Some m \<longrightarrow>
        pt_id row = pt_id old \<and> map pt_id (tbl_participants (tables s')) = map pt_id (tbl_participants (tables s)))"
proof -
  have scan: "env_scan env (uuid_string u) = Some u" for u using assms(1) by (simp add: scan_ok_def)
  define t where "t = raw_url_encode (env_rand env (drawn s) token_bytes)"
  define s1 where "s1 = s\<lparr>drawn := Suc (drawn s)\<rparr>"
  have tab: "tables s1 = tables s" by (simp add: s1_def)
  have ids: "distinct (map pt_id (tbl_participants (tables s)))" using assms(2) by (simp add: table_ok_defs)
  have step: "catch (get_participant_by_member_row e m)
       (\<lambda>e1. if e1 \<noteq> NoRows then fail e1
            else seq (not_found (get_member_by_id_unscoped_row m)) (\<lambda>member.
              seq (create_participant_from_member_row env \<lparr>pp_event = e, pp_token = env_hash env t,
                     pp_name = gm_name member, pp_tz = gm_tz member, pp_role = gm_role member,
                     pp_organizer = False, pp_member = Some m\<rparr>) (\<lambda>row.
              ret (decode_participant row, t))))
       (\<lambda>existing. seq (rotate_participant_token (pt_id existing) (env_hash env t)) (\<lambda>row.
          ret (decode_participant row, t))) s1 = (Inr (p, token), s')"
    using assms(3) unfolding t_def s1_def
    by (simp add: claim_event_seat_def parse_uuid_def scan seq_apply of_option_apply new_token_eq Let_def)
  show ?thesis
  proof (cases "find (\<lambda>p. pt_event p = e \<and> pt_member p = Some m) (tbl_participants (tables s))")
    case None
    then have get: "get_participant_by_member_row e m s1 = (Inl NoRows, s1)"
      by (simp add: get_participant_by_member_row_def select_one_def op_simps tab)
    from step obtain member :: member_row and row s2 where
      ins: "insert_participant env \<lparr>pp_event = e, pp_token = env_hash env t,
                     pp_name = gm_name member, pp_tz = gm_tz member, pp_role = gm_role member,
                     pp_organizer = False, pp_member = Some m\<rparr> s2 = (Inr row, s')"
        "p = decode_participant row" "token = t"
      by (auto simp: catch_apply get seq_Inr create_participant_from_member_row_def)
    have "row \<in> set (tbl_participants (tables s'))" "pt_event row = e" "pt_member row = Some m" "pt_token row = env_hash env t"
      using insert_participant_Inr [OF ins(1)] by simp_all
    moreover have "\<not> (old \<in> set (tbl_participants (tables s)) \<and> pt_event old = e \<and> pt_member old = Some m)" for old
      using None by (auto simp: find_None_iff)
    ultimately show ?thesis using ins(2,3) by blast
  next
    case (Some old)
    then have get: "get_participant_by_member_row e m s1 = (Inr old, s1)"
      by (simp add: get_participant_by_member_row_def select_one_def op_simps tab)
    have old: "old \<in> set (tbl_participants (tables s))" "pt_event old = e" "pt_member old = Some m"
      using find_Some_mem [OF Some] by auto
    let ?f = "\<lambda>p. p\<lparr>pt_token := env_hash env t\<rparr>"
    from step obtain row where rot: "update_participant (pt_id old) ?f s1 = (Inr row, s')"
        "p = decode_participant row" "token = t"
      by (auto simp: catch_apply get seq_Inr rotate_participant_token_def)
    from rot(1) obtain q where q: "find (\<lambda>p. pt_id p = pt_id old) (tbl_participants (tables s1)) = Some q" "row = ?f q"
      "s' = s1\<lparr>tables := (tables s1)\<lparr>tbl_participants := set_where (\<lambda>x. pt_id x = pt_id old) ?f (tbl_participants (tables s1))\<rparr>\<rparr>"
      by (rule update_participant_Inr)
    have q_old: "q = old" using find_Some_mem [OF q(1)] old(1) distinct_key_eq [OF ids] by (simp add: tab)
    have same: "map pt_id (tbl_participants (tables s')) = map pt_id (tbl_participants (tables s))"
      by (simp add: q(3) tab set_where_map)
    have only: "other = old" if "other \<in> set (tbl_participants (tables s)) \<and> pt_event other = e \<and> pt_member other = Some m" for other
    proof -
      have "distinct (map seat_key (filter linked (tbl_participants (tables s))))" using assms(2) by (simp add: table_ok_defs)
      from distinct_key_eq [OF this, of other old] show ?thesis using that old by simp
    qed
    show ?thesis
    proof (intro exI [of _ "?f old"] conjI allI impI)
      show "?f old \<in> set (tbl_participants (tables s'))"
        using set_where_mem [OF ids old(1) refl, of ?f] by (simp add: q(3) tab)
      show "p = decode_participant (?f old)" using rot(2) q(2) q_old by simp
      show "pt_event (?f old) = e" "pt_member (?f old) = Some m" "pt_token (?f old) = env_hash env token"
        using old rot(3) by simp_all
      show "pt_id (?f old) = pt_id other" "map pt_id (tbl_participants (tables s')) = map pt_id (tbl_participants (tables s))"
        if "other \<in> set (tbl_participants (tables s)) \<and> pt_event other = e \<and> pt_member other = Some m" for other
        using only [OF that] same by simp_all
    qed
  qed
qed

section \<open>Tables an operation leaves alone\<close>

abbreviation keeps :: "(database \<Rightarrow> 'b) \<Rightarrow> 'b \<Rightarrow> 'a query \<Rightarrow> bool" where
  "keeps col x \<equiv> preserves (\<lambda>s. col (tables s) = x)"

named_theorems frame_intros \<open>statements that leave a column of the database alone\<close>

lemma keeps_modify [frame_intros]:
  "(\<And>d. col (f d) = col d) \<Longrightarrow> keeps col x (modify broken f)"
  by (auto simp: preserves_def modify_def split: option.split)

lemma keeps_silent:
  assumes "silent_op m"
  shows "keeps col x m"
proof (rule preservesI)
  fix s :: world assume "col (tables s) = x"
  then show "col (tables (snd (m s))) = x" using assms by (simp only: silent_op_def)
qed

lemma keeps_silent_ops [frame_intros]:
  "keeps col x (draw f)" "keeps col x now" "keeps col x (select_rows g)" "keeps col x (select_one tbl P)"
  "keeps col x (new_token env)" "keeps col x (new_slug env)" "keeps col x (parse_uuid env t)"
  by (intro keeps_silent atomic_intros)+

lemma keeps_transaction [frame_intros]: "keeps col x m \<Longrightarrow> keeps col x (transaction m)"
  by (auto simp: preserves_def transaction_def split: prod.splits sum.splits)

lemma keeps_exec [frame_intros]: "keeps col x m \<Longrightarrow> keeps col x (exec_update m)"
  unfolding exec_update_def by (intro inv_intros)

lemma keeps_rows [frame_intros]:
  "keeps tbl_participants x (create_group_row env slug name from)"
  "keeps tbl_participants x (create_member_row env arg)"
  "keeps tbl_participants x (update_member k f)"
  "keeps tbl_participants x (update_event k g)"
  unfolding create_group_row_def create_member_row_def update_member_def update_event_def
  by (intro inv_intros frame_intros, simp)+

lemma graduate_keeps_participants: "keeps tbl_participants x (graduate env event name caller)"
  unfolding graduate_def participants_of_def create_group_def create_group_tx_def parse_group_def seed_member_def
    link_event_to_group_row_def claim_group_member_def claim_member_row_def list_participants_rows_def
    not_found_def get_member_by_id_row_def
  by (intro inv_intros frame_intros)

section \<open>Graduation\<close>

lemma insert_member_Inr:
  assumes "create_member_row env arg s = (Inr row, s')"
  shows "first_broken (member_checks (tables s) (tbl_members (tables s)) row) = None
    \<and> s' = s\<lparr>tables := (tables s)\<lparr>tbl_members := tbl_members (tables s) @ [row]\<rparr>, drawn := Suc (drawn s)\<rparr>
    \<and> row = \<lparr>gm_id = env_uuid env (drawn s), gm_group = mp_group arg, gm_token = mp_token arg, gm_name = mp_name arg,
        gm_tz = mp_tz arg, gm_role = mp_role arg, gm_calendar = ''none'', gm_url = None, gm_joined = clock s\<rparr>"
  using assms by (auto simp: create_member_row_def draw_def now_def modify_def op_simps Let_def split: option.splits)

lemma insert_group_Inr:
  assumes "create_group_row env slug name from s = (Inr row, s')"
  shows "first_broken (group_checks (tables s) row) = None
    \<and> s' = s\<lparr>tables := (tables s)\<lparr>tbl_groups := tbl_groups (tables s) @ [row]\<rparr>, drawn := Suc (drawn s)\<rparr>
    \<and> row = \<lparr>gr_id = env_uuid env (drawn s), gr_slug = slug, gr_name = name, gr_created_from = from, gr_created = clock s\<rparr>"
  using assms by (auto simp: create_group_row_def draw_def now_def modify_def op_simps Let_def split: option.splits)

text \<open>The member row that graduation seeds for a participant.\<close>

definition seeded :: "uuid \<Rightarrow> new_member \<Rightarrow> member_row \<Rightarrow> bool" where
  "seeded gid m row \<longleftrightarrow> gm_group row = gid \<and> gm_token row = None \<and> gm_name row = nm_name m \<and> gm_tz row = nm_tz m
     \<and> gm_role row = or_default (nm_role m) ''optional'' \<and> gm_calendar row = ''none''"

lemma seed_member_Inr:
  "seed_member env gid m s = (Inr g, s') \<longleftrightarrow> (\<exists>row. create_member_row env \<lparr>mp_group = gid, mp_token = None,
      mp_name = nm_name m, mp_tz = nm_tz m, mp_role = or_default (nm_role m) ''optional''\<rparr> s = (Inr row, s')
    \<and> g = decode_group_member row)"
  by (auto simp: seed_member_def seq_Inr)

lemma seed_all:
  "each (seed_member env gid) ms s = (Inr gs, s') \<Longrightarrow>
    \<exists>rows. tables s' = (tables s)\<lparr>tbl_members := tbl_members (tables s) @ rows\<rparr>
      \<and> gs = map decode_group_member rows \<and> list_all2 (seeded gid) ms rows"
proof (induction ms arbitrary: s gs)
  case (Cons m ms)
  then obtain row s1 gs1 where step: "create_member_row env \<lparr>mp_group = gid, mp_token = None, mp_name = nm_name m,
        mp_tz = nm_tz m, mp_role = or_default (nm_role m) ''optional''\<rparr> s = (Inr row, s1)"
      "each (seed_member env gid) ms s1 = (Inr gs1, s')" "gs = decode_group_member row # gs1"
    by (auto simp: seq_Inr seed_member_Inr)
  from Cons.IH [OF step(2)] obtain rows where rows: "tables s' = (tables s1)\<lparr>tbl_members := tbl_members (tables s1) @ rows\<rparr>"
      "gs1 = map decode_group_member rows" "list_all2 (seeded gid) ms rows" by blast
  note ins = insert_member_Inr [OF step(1)]
  have "tables s' = (tables s)\<lparr>tbl_members := tbl_members (tables s) @ (row # rows)\<rparr>" using rows(1) ins by simp
  moreover have "seeded gid m row" using ins by (simp add: seeded_def)
  ultimately show ?case using rows(2,3) step(3) by (intro exI [of _ "row # rows"]) simp
qed simp

lemma create_group_Inr:
  assumes "create_group env inp s = (Inr c, s')"
  shows "\<exists>row rows. cg_group c = decode_group row \<and> gr_name row = ng_name inp \<and> cg_members c = map decode_group_member rows
    \<and> list_all2 (seeded (gr_id row)) (ng_members inp) rows
    \<and> tables s' = (tables s)\<lparr>tbl_groups := tbl_groups (tables s) @ [row], tbl_members := tbl_members (tables s) @ rows\<rparr>
    \<and> gr_id row \<notin> gr_id ` set (tbl_groups (tables s))"
proof -
  have "atomic (create_group_tx env slug inp)" for slug unfolding create_group_tx_def by (rule atomic_transaction)
  then obtain slug s1 where s1: "tables s1 = tables s" "create_group_tx env slug inp s1 = (Inr c, s')"
    using retry_slug_Inr [of "\<lambda>slug. create_group_tx env slug inp"] assms unfolding create_group_def by blast
  then obtain parent row s2 ms where g: "create_group_row env slug (ng_name inp) parent s1 = (Inr row, s2)"
      "each (seed_member env (gr_id row)) (ng_members inp) s2 = (Inr ms, s')" "c = \<lparr>cg_group = decode_group row, cg_members = ms\<rparr>"
    by (auto simp: create_group_tx_def transaction_def seq_Inr split: prod.splits sum.splits dest!: parse_group_steps(2))
  from seed_all [OF g(2)] obtain rows where rows: "tables s' = (tables s2)\<lparr>tbl_members := tbl_members (tables s2) @ rows\<rparr>"
      "ms = map decode_group_member rows" "list_all2 (seeded (gr_id row)) (ng_members inp) rows" by blast
  note ins = insert_group_Inr [OF g(1)]
  have "gr_id row \<notin> gr_id ` set (tbl_groups (tables s1))"
    using conjunct1 [OF ins] by (simp add: first_broken_None group_checks_def)
  moreover have "gr_name row = ng_name inp" using ins by simp
  ultimately show ?thesis
    using rows g(3) ins s1(1) by (intro exI [of _ row] exI [of _ rows]) simp
qed

lemma filter_set_where:
  "(\<And>x. P (f x) = P x) \<Longrightarrow> filter P (set_where Q f xs) = set_where Q f (filter P xs)"
  by (induction xs) (auto simp: set_where_def)

lemma member_lookup:
  assumes "env_scan env g = Some k" "members_ok (tables s)" "m \<in> set (tbl_members (tables s))"
    "gm_group m = k" "gm_token m = Some (env_hash env token)"
  shows "group_member_by_token env g token s = (Inr (decode_group_member m), s)"
proof -
  have "find (\<lambda>m. gm_group m = k \<and> gm_token m = Some (env_hash env token)) (tbl_members (tables s)) = Some m"
  proof (rule find_unique [OF assms(3)])
    show "gm_group m = k \<and> gm_token m = Some (env_hash env token)" using assms(4,5) by simp
    show "n = m" if "n \<in> set (tbl_members (tables s))" "gm_group n = k \<and> gm_token n = Some (env_hash env token)" for n
    proof -
      have "distinct (map (\<lambda>m. (gm_group m, gm_token m)) (filter claimed (tbl_members (tables s))))"
        using assms(2) by (simp add: members_ok_def)
      from distinct_key_eq [OF this, of n m] show ?thesis using that assms(3-5) by simp
    qed
  qed
  then show ?thesis
    using assms(1) by (simp add: group_member_by_token_def parse_uuid_def not_found_def get_member_by_token_row_def
        select_one_def op_simps hash_token_def)
qed

lemma claim_group_member_Inr:
  assumes "scan_ok env" "claim_group_member env (uuid_string gid) (uuid_string k) s = (Inr (m, token), s')"
  obtains row where "find (\<lambda>m. gm_id m = k) (tbl_members (tables s)) = Some row"
    "m = decode_group_member (row\<lparr>gm_token := Some (env_hash env token)\<rparr>)"
    "tables s' = (tables s)\<lparr>tbl_members := set_where (\<lambda>x. gm_id x = k) (\<lambda>m. m\<lparr>gm_token := Some (env_hash env token)\<rparr>) (tbl_members (tables s))\<rparr>"
proof -
  have scan: "env_scan env (uuid_string u) = Some u" for u using assms(1) by (simp add: scan_ok_def)
  from assms(2) obtain s1 row where s1: "tables s1 = tables s"
      "update_member k (\<lambda>m. m\<lparr>gm_token := Some (env_hash env token)\<rparr>) s1 = (Inr row, s')" "m = decode_group_member row"
    by (auto simp: claim_group_member_def parse_uuid_def scan seq_Inr of_option_Inr new_token_eq Let_def claim_member_row_def
        dest!: silent_opD [OF silent_not_found [OF silent_select(1) [of tbl_members]], unfolded get_member_by_id_row_def, rotated])
      (metis (no_types, lifting) get_member_by_id_row_def select_convs(1) silent_not_found silent_opD silent_select(1) world.select_convs(1) world.update_convs(2) world.surjective)
  from s1(2) show thesis
  proof (rule update_member_Inr)
    fix p assume "find (\<lambda>p. gm_id p = k) (tbl_members (tables s1)) = Some p" "row = p\<lparr>gm_token := Some (env_hash env token)\<rparr>"
      "s' = s1\<lparr>tables := (tables s1)\<lparr>tbl_members := set_where (\<lambda>x. gm_id x = k) (\<lambda>m. m\<lparr>gm_token := Some (env_hash env token)\<rparr>) (tbl_members (tables s1))\<rparr>\<rparr>"
    then show thesis using that [of p] s1(1,3) by simp
  qed
qed

section \<open>An example group\<close>

definition demo_member :: "uuid \<Rightarrow> string \<Rightarrow> member_row" where
  "demo_member k name = \<lparr>gm_id = k, gm_group = 20, gm_token = Some name, gm_name = name, gm_tz = ''UTC'',
     gm_role = ''optional'', gm_calendar = ''ics'', gm_url = Some ''u'', gm_joined = 0\<rparr>"

definition demo_group_db :: database where
  "demo_group_db = demo_db\<lparr>tbl_events := [demo_event\<lparr>ev_group := Some 20\<rparr>],
     tbl_groups := [\<lparr>gr_id = 20, gr_slug = ''grp'', gr_name = ''Team'', gr_created_from = Some 1, gr_created = 0\<rparr>],
     tbl_members := [demo_member 21 ''Ann'', demo_member 22 ''Bob'']\<rparr>"

definition demo_group_world :: world where
  "demo_group_world = demo_world\<lparr>tables := demo_group_db\<rparr>"

lemma demo_group_ok: "db_ok (tables demo_group_world)"
  by (simp add: demo_group_world_def demo_group_db_def demo_member_def table_ok_defs row_ok_defs demo_defs present_def
      encode_time_of_day_def micros_per_minute_def)

section \<open>Properties\<close>

text \<open>
  Claiming a seat is idempotent. Whoever claims the same member's seat in an event a second time gets
  the same participant, no participant is added, the token handed out last resolves to that seat, and an
  earlier token with a different digest no longer does.
\<close>

theorem claim_event_seat_idempotent:
  assumes "scan_ok env" "db_ok (tables s)"
    "claim_event_seat env (uuid_string e) (uuid_string m) s = (Inr (p, t1), s1)"
    "claim_event_seat env (uuid_string e) (uuid_string m) s1 = (Inr (q, t2), s2)"
  shows "sp_id q = sp_id p
    \<and> length (tbl_participants (tables s2)) = length (tbl_participants (tables s1))
    \<and> participant_by_token env (uuid_string e) t2 s2 = (Inr q, s2)
    \<and> (env_hash env t1 \<noteq> env_hash env t2 \<longrightarrow>
        (\<forall>r. fst (participant_by_token env (uuid_string e) t1 s2) = Inr r \<longrightarrow> sp_id r \<noteq> sp_id p))"
proof -
  have scan: "env_scan env (uuid_string u) = Some u" for u using assms(1) by (simp add: scan_ok_def)
  have pres: "preserves intact (claim_event_seat env (uuid_string e) (uuid_string m))" by (rule preserves_store_groups)
  have ok1: "db_ok (tables s1)" using preservesD [OF pres assms(2)] assms(3) by simp
  have ok2: "db_ok (tables s2)" using preservesD [OF pres ok1] assms(4) by simp
  have ids2: "distinct (map pt_id (tbl_participants (tables s2)))" using ok2 by (simp add: table_ok_defs)
  obtain r1 where r1: "r1 \<in> set (tbl_participants (tables s1))" "p = decode_participant r1" "pt_event r1 = e" "pt_member r1 = Some m"
    using claim_event_seat_Inr [OF assms(1-3)] by blast
  obtain r2 where r2: "r2 \<in> set (tbl_participants (tables s2))" "q = decode_participant r2" "pt_event r2 = e"
      "pt_token r2 = env_hash env t2" "pt_id r2 = pt_id r1"
      "map pt_id (tbl_participants (tables s2)) = map pt_id (tbl_participants (tables s1))"
    using claim_event_seat_Inr [OF assms(1) ok1 assms(4)] r1(1,3,4) by blast
  have "participant_by_token env (uuid_string e) t2 s2 = (Inr q, s2)"
    using token_lookup [OF scan, of s2 r2 e t2] ok2 r2 by (simp add: db_ok_def)
  moreover have "sp_id q = sp_id p" using r1(2) r2(2,5) by (simp add: decode_participant_def)
  moreover have "sp_id r \<noteq> sp_id p"
    if differ: "env_hash env t1 \<noteq> env_hash env t2" and given: "fst (participant_by_token env (uuid_string e) t1 s2) = Inr r" for r
  proof -
    obtain x where x: "x \<in> set (tbl_participants (tables s2))" "pt_token x = env_hash env t1" "r = decode_participant x"
      using given by (auto simp: participant_by_token_eq [OF scan] dest!: find_Some_mem split: option.splits)
    have "pt_id x \<noteq> pt_id r2"
      using distinct_key_eq [OF ids2 x(1) r2(1)] x(2) r2(4) differ by auto
    then show ?thesis using x(3) r1(2) r2(5) by (simp add: decode_participant_def)
  qed
  moreover have "length (tbl_participants (tables s2)) = length (tbl_participants (tables s1))"
    using r2(6) by (metis length_map)
  ultimately show ?thesis by blast
qed

text \<open>
  A member who disconnects a calendar is still listed as having one: the store records the source
  \<open>ics\<close> for an empty calendar without a URL.
\<close>

theorem disconnect_keeps_calendar:
  "let s' = snd (save_group_member_busy_blocks demo_env (uuid_string 21) [] '''' demo_group_world) in
     fst (save_group_member_busy_blocks demo_env (uuid_string 21) [] '''' demo_group_world) = Inr ()
   \<and> map (\<lambda>m. (sm_name m, sm_calendar m, sm_url m)) (projr (fst (group_members demo_env (uuid_string 20) s')))
     = [(''Ann'', ''ics'', ''''), (''Bob'', ''ics'', ''u'')]"
  by (simp add: save_group_member_busy_blocks_def group_members_def delete_member_busy_rows_def set_member_calendar_def
      update_member_def exec_update_def list_members_rows_def select_rows_def select_one_def transaction_def modify_def
      parse_uuid_def demo_scan op_simps demo_group_world_def demo_group_db_def demo_world_def demo_db_def demo_member_def member_checks_def
      first_broken.simps present_def set_where_def decode_group_member_def) auto

section \<open>The example\<close>

lemma demo_member_checks:
  "list_all snd (participant_checks demo_group_db (tbl_participants demo_group_db) p) \<longleftrightarrow>
     pt_calendar p \<in> {''none'', ''google'', ''ics''} \<and> present (pt_name p) \<and> pt_role p \<in> {''required'', ''optional''}
     \<and> pt_id p \<notin> {2, 3} \<and> (pt_event p = 1 \<longrightarrow> pt_token p \<noteq> ''Ann'' \<and> pt_token p \<noteq> ''Bob'')
     \<and> pt_event p = 1 \<and> (case pt_member p of None \<Rightarrow> True | Some m \<Rightarrow> m = 21 \<or> m = 22)"
  by (auto simp: participant_checks_def demo_group_db_def demo_member_def demo_defs split: option.split)

lemma seat_new:
  assumes "env_scan env event = Some e" "env_scan env m = Some k"
    "find (\<lambda>p. pt_event p = e \<and> pt_member p = Some k) (tbl_participants (tables s)) = None"
    "find (\<lambda>x. gm_id x = k) (tbl_members (tables s)) = Some member"
  shows "claim_event_seat env event m s =
    (let t = raw_url_encode (env_rand env (drawn s) token_bytes) in
     seq (insert_participant env \<lparr>pp_event = e, pp_token = env_hash env t, pp_name = gm_name member, pp_tz = gm_tz member,
        pp_role = gm_role member, pp_organizer = False, pp_member = Some k\<rparr>)
       (\<lambda>row. ret (decode_participant row, t)) (s\<lparr>drawn := Suc (drawn s)\<rparr>))"
  using assms
  by (simp add: claim_event_seat_def parse_uuid_def op_simps new_token_eq Let_def get_participant_by_member_row_def
      select_one_def not_found_def get_member_by_id_unscoped_row_def create_participant_from_member_row_def)

lemma seat_again:
  assumes "env_scan env event = Some e" "env_scan env m = Some k"
    "find (\<lambda>p. pt_event p = e \<and> pt_member p = Some k) (tbl_participants (tables s)) = Some old"
  shows "claim_event_seat env event m s =
    (let t = raw_url_encode (env_rand env (drawn s) token_bytes) in
     seq (rotate_participant_token (pt_id old) (env_hash env t))
       (\<lambda>row. ret (decode_participant row, t)) (s\<lparr>drawn := Suc (drawn s)\<rparr>))"
  using assms
  by (simp add: claim_event_seat_def parse_uuid_def op_simps new_token_eq Let_def get_participant_by_member_row_def
      select_one_def)

definition demo_seat :: "participant_row" where
  "demo_seat = \<lparr>pt_id = 11, pt_event = 1, pt_token = raw_url_encode (replicate 32 0), pt_name = ''Ann'', pt_tz = ''UTC'',
     pt_role = ''optional'', pt_email = None, pt_calendar = ''none'', pt_organizer = False, pt_responded = None,
     pt_created = hour, pt_url = None, pt_member = Some 21\<rparr>"

definition demo_seat_world :: world where
  "demo_seat_world = demo_group_world\<lparr>tables := demo_group_db\<lparr>tbl_participants := tbl_participants demo_group_db @ [demo_seat]\<rparr>, drawn := 2\<rparr>"

lemma demo_group_fields [simp]:
  "tables demo_group_world = demo_group_db" "drawn demo_group_world = 0" "clock demo_group_world = hour"
  by (simp_all add: demo_group_world_def demo_world_def)

lemma demo_claim:
  "claim_event_seat demo_env (uuid_string 1) (uuid_string 21) demo_group_world
     = (Inr (decode_participant demo_seat, raw_url_encode (replicate 32 0)), demo_seat_world)"
proof -
  have tok: "raw_url_encode (env_rand demo_env 0 token_bytes) = raw_url_encode (replicate 32 0)"
    by (simp add: demo_env_def token_bytes_def)
  have row: "\<lparr>pt_id = env_uuid demo_env (Suc 0), pt_event = 1, pt_token = env_hash demo_env (raw_url_encode (replicate 32 0)),
      pt_name = ''Ann'', pt_tz = ''UTC'', pt_role = ''optional'', pt_email = None, pt_calendar = ''none'',
      pt_organizer = False, pt_responded = None, pt_created = hour, pt_url = None, pt_member = Some 21\<rparr> = demo_seat"
    by (simp add: demo_seat_def demo_env_def)
  have ok: "list_all snd (participant_checks demo_group_db (tbl_participants demo_group_db) demo_seat)"
    using token_long [of 0] by (simp add: demo_member_checks) (simp add: demo_seat_def present_def)
  have none: "find (\<lambda>p. pt_event p = 1 \<and> pt_member p = Some 21) (tbl_participants (tables demo_group_world)) = None"
    "find (\<lambda>x. gm_id x = 21) (tbl_members (tables demo_group_world)) = Some (demo_member 21 ''Ann'')"
    by (simp_all add: demo_group_db_def demo_db_def demo_participant_def demo_member_def)
  have m: "gm_name (demo_member 21 ''Ann'') = ''Ann''" "gm_tz (demo_member 21 ''Ann'') = ''UTC''" "gm_role (demo_member 21 ''Ann'') = ''optional''"
    by (simp_all add: demo_member_def)
  show ?thesis
    by (subst seat_new [OF demo_scan(2) demo_scan(2) none])
      (simp add: tok m op_simps insert_participant_eq row ok demo_seat_world_def Let_def)
qed

lemma demo_claim_again:
  "\<exists>t s'. claim_event_seat demo_env (uuid_string 1) (uuid_string 21) demo_seat_world
     = (Inr (decode_participant (demo_seat\<lparr>pt_token := t\<rparr>), t), s')"
proof -
  define t where "t = raw_url_encode (replicate 32 2)"
  have tok: "raw_url_encode (env_rand demo_env (drawn demo_seat_world) token_bytes) = t" "env_hash demo_env t = t"
    by (simp_all add: demo_env_def token_bytes_def t_def demo_seat_world_def)
  have old: "find (\<lambda>p. pt_event p = 1 \<and> pt_member p = Some 21) (tbl_participants (tables demo_seat_world)) = Some demo_seat"
    by (simp add: demo_seat_world_def demo_group_db_def demo_db_def demo_participant_def demo_seat_def)
  have ok: "first_broken (participant_checks demo_group_db (tbl_participants demo_group_db) (demo_seat\<lparr>pt_token := t\<rparr>)) = None"
    using token_long [of 2] by (simp only: first_broken_None demo_member_checks) (simp add: demo_seat_def present_def t_def)
  have others: "filter (\<lambda>x. pt_id x \<noteq> pt_id demo_seat) (tbl_participants (tables demo_seat_world)) = tbl_participants demo_group_db"
    "find (\<lambda>p. pt_id p = pt_id demo_seat) (tbl_participants (tables demo_seat_world)) = Some demo_seat"
    by (simp_all add: demo_seat_world_def demo_group_db_def demo_db_def demo_participant_def demo_seat_def)
  have db: "participant_checks (tables demo_seat_world) = participant_checks demo_group_db"
    by (intro ext) (simp add: participant_checks_def demo_seat_world_def split: option.split)
  show ?thesis
    by (subst seat_again [OF demo_scan(2) demo_scan(2) old])
      (simp add: tok op_simps rotate_participant_token_def update_participant_def select_one_def modify_def others db ok)
qed

lemma claim_event_seat_idempotent_witness:
  "\<exists>p t1 s1 q t2 s2. claim_event_seat demo_env (uuid_string 1) (uuid_string 21) demo_group_world = (Inr (p, t1), s1)
    \<and> claim_event_seat demo_env (uuid_string 1) (uuid_string 21) s1 = (Inr (q, t2), s2) \<and> sp_id q = sp_id p
    \<and> participant_by_token demo_env (uuid_string 1) t2 s2 = (Inr q, s2)"
proof -
  obtain t2 s2 where again: "claim_event_seat demo_env (uuid_string 1) (uuid_string 21) demo_seat_world
     = (Inr (decode_participant (demo_seat\<lparr>pt_token := t2\<rparr>), t2), s2)" using demo_claim_again by blast
  from claim_event_seat_idempotent [OF demo_scan(1) demo_group_ok demo_claim again]
  show ?thesis using demo_claim again by blast
qed

end
