(* ===== verification/Graduation.thy ===== *)
theory Graduation
  imports GroupFacts
begin

text \<open>
  Graduation, \<^verbatim>\<open>Graduate\<close> of \<^verbatim>\<open>api/internal/store/groups.go\<close>: a successful
  graduation taken apart into its steps, the roster it leaves, an example, and what it does not link.
\<close>

lemma update_event_Inr:
  assumes "update_event k f s = (Inr q, s')"
  obtains p where "find (\<lambda>p. ev_id p = k) (tbl_events (tables s)) = Some p" "q = f p"
    "s' = s\<lparr>tables := (tables s)\<lparr>tbl_events := set_where (\<lambda>x. ev_id x = k) f (tbl_events (tables s))\<rparr>\<rparr>"
  using assms
  by (auto simp: update_event_def select_one_def modify_def op_simps split: option.splits)

lemma participants_of_eq:
  "env_scan env event = Some e \<Longrightarrow> participants_of env event s =
     (Inr (map decode_participant (sort_key (\<lambda>p. (pt_created p, pt_id p)) (filter (\<lambda>p. pt_event p = e) (tbl_participants (tables s))))), s)"
  by (simp add: participants_of_def parse_uuid_def list_participants_rows_def select_rows_def op_simps)

lemma find_set_where:
  "(\<And>x. P (f x) = P x) \<Longrightarrow> find P (set_where P f xs) = map_option f (find P xs)"
  by (induction xs) (auto simp: set_where_def)

text \<open>The steps of a graduation that succeeds.\<close>

lemma graduate_Inr:
  assumes "scan_ok env" "graduate env (uuid_string e) name caller s = (Inr g, s')"
    "participants_of env (uuid_string e) s = (Inr ps, s)"
  obtains row :: group_row and rows :: "member_row list" and m :: member_row and s1 s2 er where
    "gg_group g = decode_group row" "gr_name row = name"
    "list_all2 (seeded (gr_id row)) (map (\<lambda>p. \<lparr>nm_name = sp_name p, nm_tz = sp_tz p, nm_role = sp_role p\<rparr>) ps) rows"
    "tables s1 = (tables s)\<lparr>tbl_groups := tbl_groups (tables s) @ [row], tbl_members := tbl_members (tables s) @ rows\<rparr>"
    "gr_id row \<notin> gr_id ` set (tbl_groups (tables s))"
    "update_event e (\<lambda>x. x\<lparr>ev_group := Some (gr_id row)\<rparr>) s1 = (Inr er, s2)"
    "find (\<lambda>x. gm_name x = caller_name caller ps) rows = Some m"
    "claim_group_member env (uuid_string (gr_id row)) (uuid_string (gm_id m)) s2 = (Inr (gg_member g, gg_token g), s')"
    "db_ok (tables s) \<longrightarrow> db_ok (tables s1)"
proof -
  have scan: "env_scan env (uuid_string u) = Some u" for u using assms(1) by (simp add: scan_ok_def)
  define inp where "inp = \<lparr>ng_name = name, ng_created_from = uuid_string e,
              ng_members = map (\<lambda>p. \<lparr>nm_name = sp_name p, nm_tz = sp_tz p, nm_role = sp_role p\<rparr>) ps\<rparr>"
  from assms(2,3) obtain created s1 er s2 gm where steps: "create_group env inp s = (Inr created, s1)"
      "link_event_to_group_row e (Some (parse_uuid_bytes env (sg_id (cg_group created)))) s1 = (Inr er, s2)"
      "find (\<lambda>m. sm_name m = caller_name caller ps) (cg_members created) = Some gm"
      "claim_group_member env (sg_id (cg_group created)) (sm_id gm) s2 = (Inr (gg_member g, gg_token g), s')"
      "gg_group g = cg_group created"
    by (auto simp: graduate_def parse_uuid_def scan op_Inr inp_def split: if_splits option.splits)
  from create_group_Inr [OF steps(1)] obtain row rows where c: "cg_group created = decode_group row" "gr_name row = ng_name inp"
    "cg_members created = map decode_group_member rows"
    "list_all2 (seeded (gr_id row)) (ng_members inp) rows"
    "tables s1 = (tables s)\<lparr>tbl_groups := tbl_groups (tables s) @ [row], tbl_members := tbl_members (tables s) @ rows\<rparr>"
    "gr_id row \<notin> gr_id ` set (tbl_groups (tables s))" by auto
  have gid: "sg_id (cg_group created) = uuid_string (gr_id row)" by (simp add: c(1) decode_group_def)
  have bytes: "parse_uuid_bytes env (sg_id (cg_group created)) = gr_id row" by (simp add: gid parse_uuid_bytes_def scan)
  have "(\<lambda>m. sm_name m = caller_name caller ps) \<circ> decode_group_member = (\<lambda>x. gm_name x = caller_name caller ps)"
    by (simp add: fun_eq_iff decode_group_member_def)
  then obtain m where m: "find (\<lambda>x. gm_name x = caller_name caller ps) rows = Some m" "gm = decode_group_member m"
    using steps(3) by (auto simp: c(3) find_map)
  have mid: "sm_id gm = uuid_string (gm_id m)" by (simp add: m(2) decode_group_member_def)
  show thesis
  proof (rule that)
    show "gg_group g = decode_group row" using steps(5) c(1) by simp
    show "gr_name row = name" using c(2) by (simp add: inp_def)
    show "list_all2 (seeded (gr_id row)) (map (\<lambda>p. \<lparr>nm_name = sp_name p, nm_tz = sp_tz p, nm_role = sp_role p\<rparr>) ps) rows"
      using c(4) by (simp add: inp_def)
    show "update_event e (\<lambda>x. x\<lparr>ev_group := Some (gr_id row)\<rparr>) s1 = (Inr er, s2)"
      using steps(2) by (simp only: bytes link_event_to_group_row_def)
    show "claim_group_member env (uuid_string (gr_id row)) (uuid_string (gm_id m)) s2 = (Inr (gg_member g, gg_token g), s')"
      using steps(4) by (simp only: gid mid)
    show "db_ok (tables s) \<longrightarrow> db_ok (tables s1)"
      using preservesD [OF preserves_create_group [of env inp], of s] by (simp add: steps(1))
  qed (fact c(5) c(6) m(1))+
qed

lemma find_first_set_where:
  "(\<And>x. Q (f x) = Q x) \<Longrightarrow> find Q (set_where P f xs) = map_option (\<lambda>x. if P x then f x else x) (find Q xs)"
  by (induction xs) (auto simp: set_where_def)

text \<open>Claiming one of the seeded rows claims that one only.\<close>

lemma claim_one_seeded:
  fixes t :: string
  assumes "list_all2 (seeded gid) ms rows" "distinct (map gm_id rows)" "m \<in> set rows"
    and roster_def: "roster = set_where (\<lambda>x. gm_id x = gm_id m) (\<lambda>m. m\<lparr>gm_token := Some t\<rparr>) rows"
  shows "map (\<lambda>m. (gm_name m, gm_tz m, gm_role m)) roster = map (\<lambda>n. (nm_name n, nm_tz n, or_default (nm_role n) ''optional'')) ms"
    and "map gm_id (filter claimed roster) = [gm_id m]"
    and "filter (\<lambda>x. gm_group x = gid) roster = roster"
    and "m\<lparr>gm_token := Some t\<rparr> \<in> set roster" "gm_group m = gid"
proof -
  have free: "\<forall>x \<in> set rows. gm_group x = gid \<and> gm_token x = None"
    using assms(1) by (auto simp: list_all2_conv_all_nth in_set_conv_nth seeded_def)
  obtain ys zs where s: "rows = ys @ m # zs" "roster = ys @ m\<lparr>gm_token := Some t\<rparr> # zs"
    unfolding roster_def by (rule set_where_split [OF assms(2,3) refl])
  have "map (\<lambda>m. (gm_name m, gm_tz m, gm_role m)) roster = map (\<lambda>m. (gm_name m, gm_tz m, gm_role m)) rows"
    by (simp add: s)
  also have "\<dots> = map (\<lambda>n. (nm_name n, nm_tz n, or_default (nm_role n) ''optional'')) ms"
    using assms(1) by (induction rule: list_all2_induct) (auto simp: seeded_def)
  finally show "map (\<lambda>m. (gm_name m, gm_tz m, gm_role m)) roster = map (\<lambda>n. (nm_name n, nm_tz n, or_default (nm_role n) ''optional'')) ms" .
  have "filter claimed ys = []" "filter claimed zs = []" using free by (auto simp: s(1) filter_empty_conv)
  then show "map gm_id (filter claimed roster) = [gm_id m]" by (simp add: s(2))
  show "filter (\<lambda>x. gm_group x = gid) roster = roster" using free by (simp add: s filter_id_conv)
  show "m\<lparr>gm_token := Some t\<rparr> \<in> set roster" by (simp add: s(2))
  show "gm_group m = gid" using free assms(3) by blast
qed

text \<open>
  C34: Graduating an event creates a group whose roster is the event's participants, one unclaimed
  member each with the same name, time zone and role, except for one that is claimed by the token
  returned: the first member that bears the caller's display name. The event belongs to the group
  afterwards, and no participant row changes.
\<close>

theorem graduate_roster:
  assumes "scan_ok env" "db_ok (tables s)" "graduate env (uuid_string e) name caller s = (Inr g, s')"
    "participants_of env (uuid_string e) s = (Inr ps, s)"
  shows "\<exists>gid k roster. sg_id (gg_group g) = uuid_string gid \<and> sg_name (gg_group g) = name
    \<and> roster = filter (\<lambda>m. gm_group m = gid) (tbl_members (tables s'))
    \<and> map (\<lambda>m. (gm_name m, gm_tz m, gm_role m)) roster
       = map (\<lambda>p. (sp_name p, sp_tz p, or_default (sp_role p) ''optional'')) ps
    \<and> map gm_id (filter claimed roster) = [k] \<and> sm_id (gg_member g) = uuid_string k
    \<and> map_option gm_id (find (\<lambda>m. gm_name m = caller_name caller ps) roster) = Some k
    \<and> sm_name (gg_member g) = caller_name caller ps
    \<and> group_member_by_token env (sg_id (gg_group g)) (gg_token g) s' = (Inr (gg_member g), s')
    \<and> (\<exists>ev. find (\<lambda>x. ev_id x = e) (tbl_events (tables s')) = Some ev \<and> ev_group ev = Some gid)
    \<and> tbl_participants (tables s') = tbl_participants (tables s)"
proof -
  have scan: "env_scan env (uuid_string u) = Some u" for u using assms(1) by (simp add: scan_ok_def)
  show ?thesis
  proof (rule graduate_Inr [OF assms(1,3,4)])
    fix row :: group_row and rows m s1 s2 er
    assume st: "gg_group g = decode_group row" "gr_name row = name"
      "list_all2 (seeded (gr_id row)) (map (\<lambda>p. \<lparr>nm_name = sp_name p, nm_tz = sp_tz p, nm_role = sp_role p\<rparr>) ps) rows"
      "tables s1 = (tables s)\<lparr>tbl_groups := tbl_groups (tables s) @ [row], tbl_members := tbl_members (tables s) @ rows\<rparr>"
      "gr_id row \<notin> gr_id ` set (tbl_groups (tables s))"
      "update_event e (\<lambda>x. x\<lparr>ev_group := Some (gr_id row)\<rparr>) s1 = (Inr er, s2)"
      "find (\<lambda>x. gm_name x = caller_name caller ps) rows = Some m"
      "claim_group_member env (uuid_string (gr_id row)) (uuid_string (gm_id m)) s2 = (Inr (gg_member g, gg_token g), s')"
      "db_ok (tables s) \<longrightarrow> db_ok (tables s1)"
    note first = find_Some_mem [OF st(7), THEN conjunct1] find_Some_mem [OF st(7), THEN conjunct2]
    obtain ev where ev: "find (\<lambda>p. ev_id p = e) (tbl_events (tables s1)) = Some ev"
      "s2 = s1\<lparr>tables := (tables s1)\<lparr>tbl_events := set_where (\<lambda>x. ev_id x = e) (\<lambda>x. x\<lparr>ev_group := Some (gr_id row)\<rparr>) (tbl_events (tables s1))\<rparr>\<rparr>"
      by (rule update_event_Inr [OF st(6)])
    define claim where "claim = (\<lambda>m :: member_row. m\<lparr>gm_token := Some (env_hash env (gg_token g))\<rparr>)"
    obtain old where old: "find (\<lambda>x. gm_id x = gm_id m) (tbl_members (tables s2)) = Some old"
      "gg_member g = decode_group_member (claim old)"
      "tables s' = (tables s2)\<lparr>tbl_members := set_where (\<lambda>x. gm_id x = gm_id m) claim (tbl_members (tables s2))\<rparr>"
      unfolding claim_def by (rule claim_group_member_Inr [OF assms(1) st(8)])
    have members2: "tbl_members (tables s2) = tbl_members (tables s) @ rows" by (simp add: ev(2) st(4))
    have "db_ok (tables s1)" using st(9) assms(2) by blast
    then have ids: "distinct (map gm_id (tbl_members (tables s) @ rows))" by (simp add: st(4) db_ok_def members_ok_def)
    have old_m: "old = m"
      using find_Some_mem [OF old(1)] distinct_key_eq [OF ids, of old m] first(1) by (simp add: members2)
    have ids': "distinct (map gm_id rows)" using ids by simp
    define roster where "roster = set_where (\<lambda>x. gm_id x = gm_id m) claim rows"
    note one = claim_one_seeded [OF st(3) ids' first(1) roster_def
 [unfolded claim_def], folded claim_def]
    have before: "filter (\<lambda>x. gm_group x = gr_id row) (tbl_members (tables s)) = []"
      using assms(2) st(5) by (simp add: filter_empty_conv db_ok_def members_ok_def member_ok_def) metis
    have "filter (\<lambda>x. gm_group x = gr_id row) (tbl_members (tables s'))
        = set_where (\<lambda>x. gm_id x = gm_id m) claim (filter (\<lambda>x. gm_group x = gr_id row) (tbl_members (tables s) @ rows))"
      by (simp add: old(3) members2 filter_set_where claim_def)
    also have "\<dots> = roster"
      using one(3) by (simp add: before roster_def filter_set_where claim_def)
    finally have roster: "roster = filter (\<lambda>m. gm_group m = gr_id row) (tbl_members (tables s'))" by simp
    have ok': "db_ok (tables s')"
      using preservesD [OF preserves_store_groups(12) [of env "uuid_string e" name caller], of s] assms(2,3) by simp
    have claimed_in: "claim m \<in> set (tbl_members (tables s'))"
      using one(4) roster by auto
    have "group_member_by_token env (uuid_string (gr_id row)) (gg_token g) s' = (Inr (gg_member g), s')"
      using member_lookup [OF scan _ claimed_in, of "gr_id row" "gg_token g"] ok' one(5)
      by (simp add: db_ok_def old(2) old_m claim_def)
    moreover have "map (\<lambda>m. (gm_name m, gm_tz m, gm_role m)) roster
        = map (\<lambda>p. (sp_name p, sp_tz p, or_default (sp_role p) ''optional'')) ps"
      using one(1) by (simp add: o_def)
    moreover have "map gm_id (filter claimed roster) = [gm_id m]"
      using one(2) by (simp add: roster_def)
    moreover have "tbl_events (tables s') = set_where (\<lambda>x. ev_id x = e) (\<lambda>x. x\<lparr>ev_group := Some (gr_id row)\<rparr>) (tbl_events (tables s))"
      by (simp add: old(3) ev(2) st(4))
    then have "find (\<lambda>x. ev_id x = e) (tbl_events (tables s')) = Some (ev\<lparr>ev_group := Some (gr_id row)\<rparr>)"
      using ev(1) by (simp add: st(4) find_set_where)
    moreover have "tbl_participants (tables s') = tbl_participants (tables s)"
      using preservesD [OF graduate_keeps_participants, of s "tbl_participants (tables s)" env "uuid_string e" name caller] assms(3) by simp
    moreover have "sm_id (gg_member g) = uuid_string (gm_id m)" "sm_name (gg_member g) = caller_name caller ps"
      using first(2) by (simp_all add: old(2) old_m claim_def decode_group_member_def)
    moreover have "map_option gm_id (find (\<lambda>m. gm_name m = caller_name caller ps) roster) = Some (gm_id m)"
      unfolding roster_def by (subst find_first_set_where) (simp_all add: claim_def st(7))
    moreover have "sg_id (gg_group g) = uuid_string (gr_id row)" "sg_name (gg_group g) = name"
      using st(1,2) by (simp_all add: decode_group_def)
    ultimately show ?thesis
      using roster by (intro exI [of _ "gr_id row"] exI [of _ "gm_id m"] exI [of _ roster] conjI) simp_all
  qed
qed

lemma demo_world_fields [simp]: "tables demo_world = demo_db" "drawn demo_world = 0" "clock demo_world = hour"
  "env_uuid demo_env n = word_of_nat (n + 10)" "env_hash demo_env x = x"
  and env_rand_demo: "env_rand demo_env n k = replicate k (word_of_nat n)"
  by (simp_all add: demo_world_def demo_env_def)

lemma demo_slug: "drawn_slug demo_env 0 = ''22222222''"
  by (simp add: drawn_slug_def demo_env_def slug_length_def slug_char_def slug_alphabet_def eval_nat_numeral)

lemma demo_roster: "participants_of demo_env (uuid_string 1) demo_world = 
   (Inr [decode_participant (demo_participant 2 ''Ann'' ''required''), decode_participant (demo_participant 3 ''Bob'' ''optional'')], demo_world)"
  by (simp add: participants_of_eq [OF demo_scan(2)]) (simp add: demo_db_def demo_participant_def)

lemma create_member_row_eq:
  "create_member_row env arg s =
    (let row = \<lparr>gm_id = env_uuid env (drawn s), gm_group = mp_group arg, gm_token = mp_token arg, gm_name = mp_name arg,
        gm_tz = mp_tz arg, gm_role = mp_role arg, gm_calendar = ''none'', gm_url = None, gm_joined = clock s\<rparr>
     in if list_all snd (member_checks (tables s) (tbl_members (tables s)) row)
        then (Inr row, s\<lparr>tables := (tables s)\<lparr>tbl_members := tbl_members (tables s) @ [row]\<rparr>, drawn := Suc (drawn s)\<rparr>)
        else (Inl (Violation (the (first_broken (member_checks (tables s) (tbl_members (tables s)) row)))), s\<lparr>drawn := Suc (drawn s)\<rparr>))"
  by (auto simp: create_member_row_def draw_def now_def modify_def op_simps Let_def first_broken_None [symmetric] split: option.split)

lemma create_group_row_eq:
  "create_group_row env slug name from s =
    (let row = \<lparr>gr_id = env_uuid env (drawn s), gr_slug = slug, gr_name = name, gr_created_from = from, gr_created = clock s\<rparr>
     in if list_all snd (group_checks (tables s) row)
        then (Inr row, s\<lparr>tables := (tables s)\<lparr>tbl_groups := tbl_groups (tables s) @ [row]\<rparr>, drawn := Suc (drawn s)\<rparr>)
        else (Inl (Violation (the (first_broken (group_checks (tables s) row)))), s\<lparr>drawn := Suc (drawn s)\<rparr>))"
  by (auto simp: create_group_row_def draw_def now_def modify_def op_simps Let_def first_broken_None [symmetric] split: option.split)

lemma update_event_eq:
  "update_event k f s = (case find (\<lambda>p. ev_id p = k) (tbl_events (tables s)) of None \<Rightarrow> (Inl NoRows, s)
     | Some p \<Rightarrow> if list_all snd (event_checks (tables s) (filter (\<lambda>x. ev_id x \<noteq> k) (tbl_events (tables s))) (f p))
        then (Inr (f p), s\<lparr>tables := (tables s)\<lparr>tbl_events := set_where (\<lambda>x. ev_id x = k) f (tbl_events (tables s))\<rparr>\<rparr>)
        else (Inl (Violation (the (first_broken (event_checks (tables s) (filter (\<lambda>x. ev_id x \<noteq> k) (tbl_events (tables s))) (f p))))), s))"
  by (auto simp: update_event_def select_one_def modify_def op_simps first_broken_None [symmetric] split: option.split)

lemma update_member_eq:
  "update_member k f s = (case find (\<lambda>p. gm_id p = k) (tbl_members (tables s)) of None \<Rightarrow> (Inl NoRows, s)
     | Some p \<Rightarrow> if list_all snd (member_checks (tables s) (filter (\<lambda>x. gm_id x \<noteq> k) (tbl_members (tables s))) (f p))
        then (Inr (f p), s\<lparr>tables := (tables s)\<lparr>tbl_members := set_where (\<lambda>x. gm_id x = k) f (tbl_members (tables s))\<rparr>\<rparr>)
        else (Inl (Violation (the (first_broken (member_checks (tables s) (filter (\<lambda>x. gm_id x \<noteq> k) (tbl_members (tables s))) (f p))))), s))"
  by (auto simp: update_member_def select_one_def modify_def op_simps first_broken_None [symmetric] split: option.split)

lemma retry_first:
  "tx (drawn_slug env (drawn s)) (s\<lparr>drawn := Suc (drawn s)\<rparr>) = (Inr x, s') \<Longrightarrow> retry_slug env c tx (Suc n) s = (Inr x, s')"
  by (simp add: op_simps new_slug_eq)

definition demo_rows :: "string option \<Rightarrow> member_row list" where
  "demo_rows t = [\<lparr>gm_id = 12, gm_group = 11, gm_token = t, gm_name = ''Ann'', gm_tz = ''UTC'',
        gm_role = ''required'', gm_calendar = ''none'', gm_url = None, gm_joined = hour\<rparr>,
       \<lparr>gm_id = 13, gm_group = 11, gm_token = None, gm_name = ''Bob'', gm_tz = ''UTC'',
        gm_role = ''optional'', gm_calendar = ''none'', gm_url = None, gm_joined = hour\<rparr>]"

definition demo_group :: group_row where
  "demo_group = \<lparr>gr_id = 11, gr_slug = ''22222222'', gr_name = ''Team'', gr_created_from = Some 1, gr_created = hour\<rparr>"

lemma demo_created:
  "create_group demo_env \<lparr>ng_name = ''Team'', ng_created_from = uuid_string 1, ng_members = 
      [\<lparr>nm_name = ''Ann'', nm_tz = ''UTC'', nm_role = ''required''\<rparr>, \<lparr>nm_name = ''Bob'', nm_tz = ''UTC'', nm_role = ''optional''\<rparr>]\<rparr> demo_world
   = (Inr \<lparr>cg_group = decode_group demo_group, cg_members = map decode_group_member (demo_rows None)\<rparr>,
      \<lparr>tables = demo_db\<lparr>tbl_groups := [demo_group], tbl_members := demo_rows None\<rparr>, drawn = 4, clock = hour\<rparr>)"
proof -
  have ne: "uuid_string 1 \<noteq> ''''" by (simp add: format_uuid_def Let_def)
  have five: "slug_attempts = Suc 4" by (simp add: slug_attempts_def)
  have w: "demo_world = \<lparr>tables = demo_db, drawn = 0, clock = hour\<rparr>" by (simp add: demo_world_def)
  have db: "demo_db\<lparr>tbl_groups := [], tbl_members := []\<rparr> = demo_db" "tbl_groups demo_db = []" "tbl_members demo_db = []" "ev_id ` set (tbl_events demo_db) = {1}"
    by (simp_all add: demo_db_def demo_event_def)
  show ?thesis
    unfolding create_group_def five
    apply (rule retry_first)
    apply (simp add: demo_slug create_group_tx_def parse_group_def ne parse_uuid_def demo_scan transaction_def op_simps create_group_row_eq Let_def group_checks_def db present_def)
    apply (simp add: seed_member_def op_simps create_member_row_eq Let_def or_default_def)
    apply (simp add: member_checks_def db present_def demo_group_def demo_rows_def w)
    done
qed

definition demo_graduated :: world where
  "demo_graduated = \<lparr>tables = demo_db\<lparr>tbl_events := [demo_event\<lparr>ev_group := Some 11\<rparr>], tbl_groups := [demo_group],
     tbl_members := demo_rows (Some (raw_url_encode (replicate 32 4)))\<rparr>, drawn = 5, clock = hour\<rparr>"

lemma demo_graduates:
  "graduate demo_env (uuid_string 1) ''Team'' (uuid_string 2) demo_world
     = (Inr \<lparr>gg_group = decode_group demo_group,
             gg_member = decode_group_member (hd (demo_rows (Some (raw_url_encode (replicate 32 4))))),
             gg_token = raw_url_encode (replicate 32 4)\<rparr>, demo_graduated)"
proof -
  define s1 where "s1 = \<lparr>tables = demo_db\<lparr>tbl_groups := [demo_group], tbl_members := demo_rows None\<rparr>, drawn = 4, clock = hour\<rparr>"
  define s2 where "s2 = s1\<lparr>tables := (tables s1)\<lparr>tbl_events := [demo_event\<lparr>ev_group := Some 11\<rparr>]\<rparr>\<rparr>"
  have gid: "sg_id (decode_group demo_group) = uuid_string 11" by (simp add: decode_group_def demo_group_def)
  have link: "link_event_to_group_row 1 (Some 11) s1 = (Inr (demo_event\<lparr>ev_group := Some 11\<rparr>), s2)"
    by (simp add: link_event_to_group_row_def update_event_eq s1_def s2_def demo_db_def set_where_def)
      (simp add: event_checks_def demo_event_def demo_group_def present_def encode_time_of_day_def micros_per_minute_def)
  have claim: "claim_group_member demo_env (uuid_string 11) (uuid_string 12) s2
      = (Inr (decode_group_member (hd (demo_rows (Some (raw_url_encode (replicate 32 4))))), raw_url_encode (replicate 32 4)), demo_graduated)"
    by (simp add: claim_group_member_def parse_uuid_def demo_scan op_simps not_found_def get_member_by_id_row_def select_one_def
        s2_def s1_def demo_rows_def new_token_eq Let_def claim_member_row_def update_member_eq)
      (simp add: member_checks_def present_def demo_group_def demo_graduated_def demo_rows_def set_where_def
        token_bytes_def env_rand_demo)
  have names: "caller_name (uuid_string 2) [decode_participant (demo_participant 2 ''Ann'' ''required''),
      decode_participant (demo_participant 3 ''Bob'' ''optional'')] = ''Ann''"
    by (simp add: caller_name_def decode_participant_def demo_participant_def)
  have mem: "find (\<lambda>m. sm_name m = ''Ann'') (map decode_group_member (demo_rows None)) = Some (decode_group_member (hd (demo_rows None)))"
    "sm_id (decode_group_member (hd (demo_rows None))) = uuid_string 12"
    by (simp_all add: demo_rows_def decode_group_member_def)
  have inp: "map (\<lambda>p. \<lparr>nm_name = sp_name p, nm_tz = sp_tz p, nm_role = sp_role p\<rparr>)
      [decode_participant (demo_participant 2 ''Ann'' ''required''), decode_participant (demo_participant 3 ''Bob'' ''optional'')]
     = [\<lparr>nm_name = ''Ann'', nm_tz = ''UTC'', nm_role = ''required''\<rparr>, \<lparr>nm_name = ''Bob'', nm_tz = ''UTC'', nm_role = ''optional''\<rparr>]"
    by (simp add: decode_participant_def demo_participant_def)
  show ?thesis
    unfolding graduate_def
    by (simp only: seq_apply parse_uuid_def of_option_apply demo_scan option.case prod.case sum.case demo_roster inp demo_created
        list.distinct if_False s1_def [symmetric] created_group.simps gid parse_uuid_bytes_def link names mem claim ret_apply)
qed

lemma graduate_roster_witness:
  "\<exists>g s'. graduate demo_env (uuid_string 1) ''Team'' (uuid_string 2) demo_world = (Inr g, s')
    \<and> group_member_by_token demo_env (sg_id (gg_group g)) (gg_token g) s' = (Inr (gg_member g), s')
    \<and> sm_name (gg_member g) = ''Ann''"
proof -
  have ok: "db_ok (tables demo_world)" using demo_ok by simp
  have "caller_name (uuid_string 2) [decode_participant (demo_participant 2 ''Ann'' ''required''),
      decode_participant (demo_participant 3 ''Bob'' ''optional'')] = ''Ann''"
    by (simp add: caller_name_def decode_participant_def demo_participant_def)
  with graduate_roster [OF demo_scan(1) ok demo_graduates demo_roster] show ?thesis
    using demo_graduates by (metis)
qed

text \<open>
  The participants of a graduated event are not linked to the members made of them: when the person
  who graduated the event claims the event's seat with the new member token, a second participant with
  the same name and role is added instead of the seat being found.
\<close>

theorem graduation_duplicates_seats:
  "let s = snd (graduate demo_env (uuid_string 1) ''Team'' (uuid_string 2) demo_world) in
   case claim_event_seat demo_env (uuid_string 1) (uuid_string 12) s of
     (Inr (p, t), s') \<Rightarrow> map sp_name (projr (fst (participants_of demo_env (uuid_string 1) s'))) = [''Ann'', ''Bob'', ''Ann'']
       \<and> sp_role p = ''required'' \<and> sp_id p \<notin> {uuid_string 2, uuid_string 3}
   | _ \<Rightarrow> False"
proof -
  have none: "find (\<lambda>p. pt_event p = 1 \<and> pt_member p = Some 12) (tbl_participants (tables demo_graduated)) = None"
    by (simp add: demo_graduated_def demo_db_def demo_participant_def)
  have mem: "find (\<lambda>x. gm_id x = 12) (tbl_members (tables demo_graduated)) = Some (hd (demo_rows (Some (raw_url_encode (replicate 32 4)))))"
    by (simp add: demo_graduated_def demo_rows_def)
  have ps: "participant_checks (tables demo_graduated) (tbl_participants demo_db) p
     = participant_checks (demo_db\<lparr>tbl_members := demo_rows None\<rparr>) (tbl_participants demo_db) p" for p
    by (auto simp: participant_checks_def demo_graduated_def demo_rows_def demo_db_def demo_event_def split: option.split)
  have tok: "raw_url_encode (replicate 32 (5::8 word)) \<noteq> ''Ann'' \<and> raw_url_encode (replicate 32 (5::8 word)) \<noteq> ''Bob''"
    by (rule token_long)
  have f: "drawn demo_graduated = 5" "clock demo_graduated = hour" "tbl_participants (tables demo_graduated) = tbl_participants demo_db"
    by (simp_all add: demo_graduated_def)
  show ?thesis
    by (simp add: demo_graduates seat_new [OF demo_scan(2) demo_scan(2) none mem] Let_def op_simps insert_participant_eq f
        env_rand_demo token_bytes_def ps participants_of_eq [OF demo_scan(2)])
      (simp add: participant_checks_def demo_rows_def demo_defs tok present_def decode_participant_def duration_units)
qed

end
