(* ===== verification/Purge.thy ===== *)
theory Purge
  imports StoreFacts
begin

text \<open>
  The expiry sweep: \<^verbatim>\<open>Store.PurgeExpired\<close> (\<^verbatim>\<open>store/events.go\<close>) and the loops of
  \<^verbatim>\<open>api/cmd/api/purge.go\<close>. One pass deletes the oldest \<open>purge_batch\<close> expired events; passes repeat
  until one comes back short or the caller's context is cancelled, which the argument \<open>cancelled\<close> tells
  for each pass. A ticker and a stop request are the signals a sweeper receives. The clock stands still
  during one purge, and a pass does not fail: connection errors are outside the model.

  Main facts: the loop terminates for every table, because a full pass removes something; and an
  uncancelled purge removes exactly the expired events with everything that hangs off them.
\<close>

definition purge_batch :: nat where
  "purge_batch = 500"

definition expired_count :: "world \<Rightarrow> nat" where
  "expired_count s = length (filter (\<lambda>e. ev_expires e < clock s) (tbl_events (tables s)))"

definition purge_pass :: "world \<Rightarrow> (failure + nat) \<times> world" where
  "purge_pass s = delete_expired_events purge_batch s"

lemma purge_pass_eq:
  "purge_pass s = (Inr (min purge_batch (expired_count s)),
     s\<lparr>tables := delete_events (set (expired_ids (clock s) purge_batch (tables s))) (tables s)\<rparr>)"
  by (simp add: purge_pass_def delete_expired_events_def now_def select_rows_def modify_def op_simps
      expired_ids_def expired_count_def)

lemma purge_pass_decreases:
  assumes "purge_pass s = (Inr n, s')" "\<not> n < purge_batch"
  shows "expired_count s' < expired_count s"
proof -
  let ?f = "filter (\<lambda>e. ev_expires e < clock s) (tbl_events (tables s))"
  let ?ids = "set (expired_ids (clock s) purge_batch (tables s))"
  have "?f \<noteq> []" using assms by (auto simp: purge_pass_eq expired_count_def purge_batch_def)
  then obtain e es where g: "sort_key ev_expires ?f = e # es"
    by (metis list.exhaust length_0_conv length_sort)
  then have e: "e \<in> set ?f" by (metis list.set_intros(1) set_sort)
  moreover have "ev_id e \<in> ?ids" by (simp add: expired_ids_def g purge_batch_def)
  ultimately have "length (filter (\<lambda>e. ev_id e \<notin> ?ids) ?f) < length ?f"
    by (intro length_filter_less [of e]) auto
  then show ?thesis
    using assms(1) by (auto simp: purge_pass_eq expired_count_def delete_events_def Let_def conj_commute)
qed

text \<open>The result is the number of events deleted and whether the purge ended by itself.\<close>

datatype purge_end = Drained | Cancelled | Failed failure

function purge_loop :: "(nat \<Rightarrow> bool) \<Rightarrow> nat \<Rightarrow> nat \<Rightarrow> world \<Rightarrow> (nat \<times> purge_end) \<times> world" where
  "purge_loop cancelled i acc s =
     (case purge_pass s of
        (Inl e, s') \<Rightarrow> ((acc, Failed e), s')
      | (Inr n, s') \<Rightarrow>
          if n < purge_batch then ((acc + n, Drained), s')
          else if cancelled i then ((acc + n, Cancelled), s')
          else purge_loop cancelled (Suc i) (acc + n) s')"
  by pat_completeness auto

termination
  by (relation "measure (\<lambda>(c, i, t, s). expired_count s)") (auto dest: purge_pass_decreases [OF sym])

declare purge_loop.simps [simp del]

definition purge_expired :: "(nat \<Rightarrow> bool) \<Rightarrow> world \<Rightarrow> (nat \<times> purge_end) \<times> world" where
  "purge_expired cancelled s = purge_loop cancelled 0 0 s"

section \<open>The sweeper\<close>

datatype sweep_log = SweepFailed nat | SweepDone nat | SweepQuiet

definition sweep :: "(nat \<Rightarrow> bool) \<Rightarrow> world \<Rightarrow> sweep_log \<times> world" where
  "sweep cancelled s =
     (case purge_expired cancelled s of
        ((n, Drained), s') \<Rightarrow> (if 0 < n then SweepDone n else SweepQuiet, s')
      | ((n, _), s') \<Rightarrow> (SweepFailed n, s'))"

datatype signal = Tick instant | Stop

text \<open>
  The goroutine: one sweep at the start, one for every tick (at the instant it fires) until the stop
  request; an interval that is not positive starts nothing.
\<close>

fun sweep_ticks :: "(nat \<Rightarrow> bool) \<Rightarrow> signal list \<Rightarrow> world \<Rightarrow> world" where
  "sweep_ticks cancelled [] s = s"
| "sweep_ticks cancelled (Stop # sigs) s = s"
| "sweep_ticks cancelled (Tick t # sigs) s = sweep_ticks cancelled sigs (snd (sweep cancelled (s\<lparr>clock := t\<rparr>)))"

definition start_purge :: "(nat \<Rightarrow> bool) \<Rightarrow> duration \<Rightarrow> signal list \<Rightarrow> world \<Rightarrow> world" where
  "start_purge cancelled every sigs s =
     (if every \<le> 0 then s else sweep_ticks cancelled sigs (snd (sweep cancelled s)))"

section \<open>What the loop removes\<close>

definition expired_set :: "instant \<Rightarrow> database \<Rightarrow> uuid set" where
  "expired_set t d = ev_id ` {e \<in> set (tbl_events d). ev_expires e < t}"

lemma delete_events_count:
  assumes "distinct (map ev_id (tbl_events (tables s)))"
  shows "expired_count (s\<lparr>tables := delete_events (set (expired_ids (clock s) n (tables s))) (tables s)\<rparr>)
    = expired_count s - n"
proof -
  let ?f = "filter (\<lambda>e. ev_expires e < clock s) (tbl_events (tables s))"
  let ?g = "sort_key ev_expires ?f"
  let ?ids = "set (expired_ids (clock s) n (tables s))"
  have "distinct (map ev_id ?f)" using assms by (rule distinct_map_filter)
  then have d: "distinct (map ev_id ?g)" by (simp add: distinct_map)
  have "filter (\<lambda>e. ev_id e \<notin> ev_id ` set (take n ?g)) ?g = drop n ?g"
  proof -
    have "distinct (map ev_id (take n ?g @ drop n ?g))" using d by simp
    then have "filter (\<lambda>e. ev_id e \<notin> ev_id ` set (take n ?g)) (take n ?g @ drop n ?g) = drop n ?g"
      unfolding filter_append map_append distinct_append by (auto simp: filter_empty_conv filter_id_conv)
    then show ?thesis by simp
  qed
  then have "length (filter (\<lambda>e. ev_id e \<notin> ?ids) ?g) = length ?g - n"
    by (simp add: expired_ids_def)
  moreover have "length (filter (\<lambda>e. ev_id e \<notin> ?ids) ?g) = length (filter (\<lambda>e. ev_id e \<notin> ?ids) ?f)"
    by (simp only: filter_sort length_sort)
  ultimately show ?thesis
    by (simp add: expired_count_def delete_events_def Let_def conj_commute)
qed

lemma delete_events_fields:
  fixes ids :: "uuid set" and d :: database
  defines "people \<equiv> pt_id ` {p \<in> set (tbl_participants d). pt_event p \<in> ids}"
  shows "tbl_events (delete_events ids d) = filter (\<lambda>e. ev_id e \<notin> ids) (tbl_events d)"
    "tbl_participants (delete_events ids d) = filter (\<lambda>p. pt_event p \<notin> ids) (tbl_participants d)"
    "tbl_responses (delete_events ids d) = filter (\<lambda>r. rs_participant r \<notin> people) (tbl_responses d)"
    "tbl_busy (delete_events ids d) = filter (\<lambda>b. bb_owner b \<notin> people) (tbl_busy d)"
    "tbl_members (delete_events ids d) = tbl_members d" "tbl_member_busy (delete_events ids d) = tbl_member_busy d"
    "tbl_groups (delete_events ids d) = map (\<lambda>g. case gr_created_from g of None \<Rightarrow> g
       | Some e \<Rightarrow> if e \<in> ids then g\<lparr>gr_created_from := None\<rparr> else g) (tbl_groups d)"
  by (simp_all add: delete_events_def Let_def people_def)

lemma delete_events_twice: "delete_events A (delete_events B d) = delete_events (A \<union> B) d"
proof (rule database.equality)
  let ?P = "\<lambda>E. pt_id ` {p \<in> set (tbl_participants d). pt_event p \<in> E}"
  have people: "x \<notin> pt_id ` {p \<in> set (filter (\<lambda>p. pt_event p \<notin> B) (tbl_participants d)). pt_event p \<in> A} \<and> x \<notin> ?P B
      \<longleftrightarrow> x \<notin> ?P (A \<union> B)" for x by auto
  show "tbl_responses (delete_events A (delete_events B d)) = tbl_responses (delete_events (A \<union> B) d)"
    unfolding delete_events_fields filter_filter people [symmetric] by (simp only: conj_commute)
  show "tbl_busy (delete_events A (delete_events B d)) = tbl_busy (delete_events (A \<union> B) d)"
    unfolding delete_events_fields filter_filter people [symmetric] by (simp only: conj_commute)
  show "tbl_groups (delete_events A (delete_events B d)) = tbl_groups (delete_events (A \<union> B) d)"
    by (auto simp: delete_events_fields split: option.split)
qed (simp_all add: delete_events_fields conj_commute)

lemma expired_ids_all:
  "expired_count s \<le> n \<Longrightarrow> set (expired_ids (clock s) n (tables s)) = expired_set (clock s) (tables s)"
  by (simp add: expired_count_def expired_ids_def expired_set_def)

lemma expired_ids_sub: "set (expired_ids t n d) \<subseteq> expired_set t d"
  by (auto simp: expired_ids_def expired_set_def dest: in_set_takeD)

lemma expired_set_delete: "expired_set t (delete_events ids d) = expired_set t d - ids"
  by (auto simp: expired_set_def delete_events_def Let_def)

lemma purge_loop_drains:
  assumes "\<forall>j. \<not> cancelled j" "distinct (map ev_id (tbl_events (tables s)))"
  shows "purge_loop cancelled i acc s = ((acc + expired_count s, Drained),
     s\<lparr>tables := delete_events (expired_set (clock s) (tables s)) (tables s)\<rparr>)"
  using assms
proof (induction cancelled i acc s rule: purge_loop.induct)
  case (1 cancelled i acc s)
  let ?ids = "set (expired_ids (clock s) purge_batch (tables s))"
  let ?s = "s\<lparr>tables := delete_events ?ids (tables s)\<rparr>"
  have pass: "purge_pass s = (Inr (min purge_batch (expired_count s)), ?s)" by (rule purge_pass_eq)
  show ?case
  proof (cases "expired_count s < purge_batch")
    case True
    then show ?thesis
      by (subst purge_loop.simps) (simp add: pass expired_ids_all)
  next
    case False
    then have n: "min purge_batch (expired_count s) = purge_batch" by simp
    have "tbl_events (tables ?s) = filter (\<lambda>e. ev_id e \<notin> ?ids) (tbl_events (tables s))"
      by (simp add: delete_events_def Let_def)
    then have ids: "distinct (map ev_id (tbl_events (tables ?s)))"
      using "1.prems"(2) by (simp only: distinct_map_filter)
    have ih: "purge_loop cancelled (Suc i) (acc + purge_batch) ?s =
        ((acc + purge_batch + expired_count ?s, Drained),
         ?s\<lparr>tables := delete_events (expired_set (clock ?s) (tables ?s)) (tables ?s)\<rparr>)"
      by (rule "1.IH" [OF pass [unfolded n, symmetric] refl _ _ "1.prems"(1) ids]) (use "1.prems"(1) in simp_all)
    have "expired_count ?s = expired_count s - purge_batch"
      by (rule delete_events_count [OF "1.prems"(2)])
    moreover have "expired_set (clock s) (tables s) - ?ids \<union> ?ids = expired_set (clock s) (tables s)"
      using expired_ids_sub by blast
    ultimately show ?thesis
      using False "1.prems"(1)
      by (subst purge_loop.simps) (simp add: pass n ih delete_events_twice expired_set_delete)
  qed
qed

section \<open>Properties\<close>

text \<open>
  C33: The purge always ends, also on a table with any number of expired events. When nobody cancels it,
  the events left are exactly those that have not expired, with their participants, answers and busy
  blocks untouched, and the number reported is the number of events deleted; groups survive.
\<close>

theorem purge_expired_exact:
  assumes "\<forall>j. \<not> cancelled j" "db_ok (tables s)"
  shows "purge_expired cancelled s = ((expired_count s, Drained),
       s\<lparr>tables := delete_events (expired_set (clock s) (tables s)) (tables s)\<rparr>)
    \<and> tbl_events (tables (snd (purge_expired cancelled s))) = filter (\<lambda>e. \<not> ev_expires e < clock s) (tbl_events (tables s))
    \<and> map gr_id (tbl_groups (tables (snd (purge_expired cancelled s)))) = map gr_id (tbl_groups (tables s))
    \<and> db_ok (tables (snd (purge_expired cancelled s)))"
proof -
  have ids: "distinct (map ev_id (tbl_events (tables s)))" using assms(2) by (simp add: table_ok_defs)
  note run = purge_loop_drains [OF assms(1) ids, of 0 0, folded purge_expired_def, simplified]
  have "ev_id e \<in> expired_set (clock s) (tables s) \<longleftrightarrow> ev_expires e < clock s" if "e \<in> set (tbl_events (tables s))" for e
    using ids that by (auto simp: expired_set_def distinct_map inj_on_def)
  then have "filter (\<lambda>e. ev_id e \<notin> expired_set (clock s) (tables s)) (tbl_events (tables s))
      = filter (\<lambda>e. \<not> ev_expires e < clock s) (tbl_events (tables s))"
    by (intro filter_cong) simp_all
  moreover have "gr_id (case gr_created_from g of None \<Rightarrow> g | Some e \<Rightarrow> if e \<in> A then g\<lparr>gr_created_from := None\<rparr> else g) = gr_id g" for g :: group_row and A
    by (simp split: option.split)
  then have "map gr_id (tbl_groups (delete_events A (tables s))) = map gr_id (tbl_groups (tables s))" for A
    by (simp add: delete_events_fields)
  ultimately show ?thesis
    using db_ok_delete_events [OF assms(2)] by (simp add: run delete_events_fields(1))
qed

lemma purge_expired_exact_witness:
  "let r = purge_expired (\<lambda>_. False) (demo_world\<lparr>clock := days_60 + 1\<rparr>)
   in fst r = (1, Drained) \<and> tbl_events (tables (snd r)) = []"
proof -
  let ?s = "demo_world\<lparr>clock := days_60 + 1\<rparr>"
  have ok: "db_ok (tables ?s)" using demo_ok by (simp add: demo_world_def)
  have "\<forall>j. \<not> (\<lambda>_::nat. False) j" by simp
  note run = purge_expired_exact [OF this ok]
  have "expired_count ?s = 1" "filter (\<lambda>e. \<not> ev_expires e < clock ?s) (tbl_events (tables ?s)) = []"
    by (simp_all add: expired_count_def demo_world_def demo_db_def demo_event_def)
  then have "fst (purge_expired (\<lambda>_. False) ?s) = (1, Drained)" "tbl_events (tables (snd (purge_expired (\<lambda>_. False) ?s))) = []"
    using conjunct1 [OF run] conjunct1 [OF conjunct2 [OF run]] by (simp_all only: fst_conv)
  then show ?thesis by (simp add: Let_def)
qed

end
