(* ===== verification/Proposal.thy ===== *)
theory Proposal
  imports Intervals "HOL-Library.List_Lexorder" "HOL-Library.Char_ord"
begin

text \<open>
  \<^verbatim>\<open>api/internal/proposal/proposal.go\<close>: the earliest candidate that is free for every member whose
  calendar is connected. Strings are lists of bytes, so \<^verbatim>\<open>sort.Strings\<close> is \<open>sort\<close> on the
  lexicographic order.
\<close>

record member =
  m_id :: string
  m_name :: string
  m_busy :: "interval list option"

record proposal =
  pr_slot :: instant
  pr_found :: bool
  pr_considered :: "string list"

definition free_for_all :: "instant \<Rightarrow> duration \<Rightarrow> interval list list \<Rightarrow> bool" where
  "free_for_all slot dur busies =
     (let sp = Interval slot (slot + dur) in
      list_all (\<lambda>busy. list_all (\<lambda>b. \<not> overlaps sp b) busy) busies)"

definition connected :: "member list \<Rightarrow> (string \<times> interval list) list" where
  "connected ms = List.map_filter (\<lambda>m. map_option (Pair (m_name m)) (m_busy m)) ms"

definition best_proposal :: "instant list \<Rightarrow> duration \<Rightarrow> member list \<Rightarrow> proposal" where
  "best_proposal candidates dur ms =
     (let conn = connected ms in
      if conn = [] then \<lparr>pr_slot = zero_time, pr_found = False, pr_considered = []\<rparr>
      else
        let names = sort (map fst conn) in
        case find (\<lambda>slot. free_for_all slot dur (map snd conn)) (sort candidates) of
          Some slot \<Rightarrow> \<lparr>pr_slot = slot, pr_found = True, pr_considered = names\<rparr>
        | None \<Rightarrow> \<lparr>pr_slot = zero_time, pr_found = False, pr_considered = names\<rparr>)"

section \<open>Facts\<close>

text \<open>The members whose calendar is connected, and whether somebody is busy in a span.\<close>

definition has_calendar :: "member \<Rightarrow> bool" where
  "has_calendar m \<longleftrightarrow> m_busy m \<noteq> None"

definition busy_during :: "member list \<Rightarrow> instant \<Rightarrow> duration \<Rightarrow> bool" where
  "busy_during ms slot dur \<longleftrightarrow>
     (\<exists>m \<in> set ms. \<exists>busy. m_busy m = Some busy \<and> (\<exists>t. slot \<le> t \<and> t < slot + dur \<and> covered busy t))"

lemma connected_names: "map fst (connected ms) = map m_name (filter has_calendar ms)"
  by (induction ms) (auto simp: connected_def List.map_filter_simps has_calendar_def split: option.split)

lemma connected_busies: "set (map snd (connected ms)) = {busy. \<exists>m \<in> set ms. m_busy m = Some busy}"
  by (induction ms) (auto simp: connected_def List.map_filter_simps split: option.split)

lemma connected_empty: "connected ms = [] \<longleftrightarrow> filter has_calendar ms = []"
  by (metis connected_names map_is_Nil_conv)

lemma free_for_all_iff:
  assumes "0 < dur" "\<forall>m \<in> set ms. \<forall>busy. m_busy m = Some busy \<longrightarrow> list_all valid_interval busy"
  shows "free_for_all slot dur (map snd (connected ms)) \<longleftrightarrow> \<not> busy_during ms slot dur"
proof -
  have v: "valid_interval (Interval slot (slot + dur))" using assms(1) by (simp add: valid_interval_def)
  have "(\<exists>b \<in> set busy. overlaps (Interval slot (slot + dur)) b)
      \<longleftrightarrow> (\<exists>t. slot \<le> t \<and> t < slot + dur \<and> covered busy t)"
    if "\<exists>m \<in> set ms. m_busy m = Some busy" for busy
  proof -
    have "\<forall>b \<in> set busy. valid_interval b" using assms(2) that by (auto simp: list_all_iff)
    then show ?thesis using overlaps_iff_common [OF v] by (auto simp: covers_def)
  qed
  then show ?thesis
    unfolding free_for_all_def Let_def list_all_iff connected_busies busy_during_def by blast
qed

section \<open>Properties\<close>

text \<open>
  C28: A proposal, when one is found, is a candidate during whose whole duration nobody with a connected
  calendar is busy, and no earlier candidate is; none is found exactly when no calendar is connected or
  every candidate collides with somebody's busy time. It names exactly the members with a connected
  calendar, sorted.
\<close>

theorem best_proposal_correct:
  assumes "0 < dur" "\<forall>m \<in> set ms. \<forall>busy. m_busy m = Some busy \<longrightarrow> list_all valid_interval busy"
  shows "let r = best_proposal candidates dur ms in
     (pr_found r \<longleftrightarrow> filter has_calendar ms \<noteq> [] \<and> (\<exists>c \<in> set candidates. \<not> busy_during ms c dur))
   \<and> (pr_found r \<longrightarrow> pr_slot r \<in> set candidates \<and> \<not> busy_during ms (pr_slot r) dur
        \<and> (\<forall>c \<in> set candidates. \<not> busy_during ms c dur \<longrightarrow> pr_slot r \<le> c))
   \<and> pr_considered r = sort (map m_name (filter has_calendar ms))"
proof -
  note f = free_for_all_iff [OF assms]
  show ?thesis
  proof (cases "connected ms = []")
    case True
    then show ?thesis by (auto simp: best_proposal_def connected_empty Let_def)
  next
    case False
    note ne = this
    show ?thesis
    proof (cases "find (\<lambda>slot. \<not> busy_during ms slot dur) (sort candidates)")
      case None
      then have "best_proposal candidates dur ms = \<lparr>pr_slot = zero_time, pr_found = False,
          pr_considered = sort (map m_name (filter has_calendar ms))\<rparr>"
        using ne by (simp add: best_proposal_def Let_def f connected_names del: find_None_iff)
      then show ?thesis using None by (simp add: find_None_iff)
    next
      case (Some s)
      then have "s \<in> set candidates" "\<not> busy_during ms s dur"
        by (auto simp: find_Some_iff) (metis nth_mem set_sort length_sort)
      moreover have "s \<le> c" if "c \<in> set candidates" "\<not> busy_during ms c dur" for c
        using sorted_find_least [OF sorted_sort Some] that by simp
      moreover have "best_proposal candidates dur ms = \<lparr>pr_slot = s, pr_found = True,
          pr_considered = sort (map m_name (filter has_calendar ms))\<rparr>"
        using ne Some by (simp add: best_proposal_def Let_def f connected_names)
      moreover have "filter has_calendar ms \<noteq> []" using ne by (simp add: connected_empty)
      ultimately show ?thesis by (simp add: Let_def) blast
    qed
  qed
qed

definition two_members :: "member list" where
  "two_members = [\<lparr>m_id = ''1'', m_name = ''Bo'', m_busy = Some [Interval 5 9]\<rparr>,
     \<lparr>m_id = ''2'', m_name = ''Al'', m_busy = Some []\<rparr>, \<lparr>m_id = ''3'', m_name = ''Cy'', m_busy = None\<rparr>]"

lemma best_proposal_correct_witness:
  "best_proposal [12, 3, 9] 3 two_members = \<lparr>pr_slot = 9, pr_found = True, pr_considered = [''Al'', ''Bo'']\<rparr>
   \<and> \<not> busy_during two_members 9 3"
proof -
  have b: "best_proposal [12, 3, 9] 3 two_members = \<lparr>pr_slot = 9, pr_found = True, pr_considered = [''Al'', ''Bo'']\<rparr>"
    by code_simp
  have "\<forall>m \<in> set two_members. \<forall>busy. m_busy m = Some busy \<longrightarrow> list_all valid_interval busy"
    by (auto simp: two_members_def valid_interval_def)
  from best_proposal_correct [OF _ this, of 3 "[12, 3, 9]"] b show ?thesis by (simp add: Let_def)
qed

end
