(* ===== verification/ProposalCache.thy ===== *)
theory ProposalCache
  imports GoTime Proposal
begin

text \<open>
  \<^verbatim>\<open>api/internal/server/proposalcache.go\<close>: the cache in front of the proposal computation. The
  entries are an association list with one entry for each key; \<^verbatim>\<open>now()\<close> is an argument.
  \<^verbatim>\<open>singleflight\<close> is a library: whether it makes a caller the leader of a key is the parameter
  \<open>lead\<close> of the step relation, and \<open>single_flight\<close> states what its documentation promises. Callers take
  the steps of \<^verbatim>\<open>Do\<close> in any interleaving, and time passes between any two of them. A cache whose time
  is zero or less is switched off: its callers compute for themselves (a \<^verbatim>\<open>nil\<close> cache behaves the same).

  Main facts: the bound on the number of entries and, for a cache that is on, at most one computation for
  a key at a time, no computation while an entry is fresh, errors are never cached (\<open>cache_safe\<close>); and
  no caller is left waiting (\<open>cache_live\<close>).
\<close>

section \<open>Entries\<close>

record cached_proposal =
  cp_result :: proposal
  cp_at :: instant

record proposal_cache =
  pc_ttl :: duration
  pc_values :: "(string \<times> cached_proposal) list"

definition max_cached_proposals :: nat where
  "max_cached_proposals = 2000"

definition new_proposal_cache :: "duration \<Rightarrow> proposal_cache" where
  "new_proposal_cache ttl = \<lparr>pc_ttl = ttl, pc_values = []\<rparr>"

definition stale :: "proposal_cache \<Rightarrow> instant \<Rightarrow> cached_proposal \<Rightarrow> bool" where
  "stale c t v \<longleftrightarrow> time_sub t (cp_at v) \<ge> pc_ttl c"

definition cache_lookup :: "proposal_cache \<Rightarrow> instant \<Rightarrow> string \<Rightarrow> proposal option" where
  "cache_lookup c t key = (case map_of (pc_values c) key of
     None \<Rightarrow> None
   | Some v \<Rightarrow> if stale c t v then None else Some (cp_result v))"

definition evict_stale :: "proposal_cache \<Rightarrow> instant \<Rightarrow> proposal_cache" where
  "evict_stale c t = c\<lparr>pc_values := filter (\<lambda>(key, v). \<not> stale c t v) (pc_values c)\<rparr>"

definition cache_put :: "proposal_cache \<Rightarrow> instant \<Rightarrow> string \<Rightarrow> proposal \<Rightarrow> proposal_cache" where
  "cache_put c t key r = c\<lparr>pc_values := AList.update key \<lparr>cp_result = r, cp_at = t\<rparr> (pc_values c)\<rparr>"

definition cache_store :: "proposal_cache \<Rightarrow> instant \<Rightarrow> string \<Rightarrow> proposal \<Rightarrow> proposal_cache" where
  "cache_store c t key r =
     (if length (pc_values c) \<ge> max_cached_proposals
      then (let c' = evict_stale c t in
            if length (pc_values c') \<ge> max_cached_proposals then c' else cache_put c' t key r)
      else cache_put c t key r)"

section \<open>Callers\<close>

text \<open>How far a caller's \<^verbatim>\<open>Do\<close> has come, and the answer it returned.\<close>

datatype 'e phase =
    Direct string | Missed string | Leading string | Computing string | Finishing string "'e + proposal"
  | Waiting string | Answered string "'e + proposal"

text \<open>What the log of a run shows: computations that begin, and those whose result is put into the cache.\<close>

datatype 'e happening = Began string instant | Computed string "'e + proposal" | Stored string instant

record 'e flights =
  fl_cache :: proposal_cache
  fl_now :: instant
  fl_leader :: "string \<rightharpoonup> nat"
  fl_phase :: "nat \<rightharpoonup> 'e phase"
  fl_log :: "'e happening list"

definition with_phase :: "nat \<Rightarrow> 'e phase \<Rightarrow> 'e flights \<Rightarrow> 'e flights" where
  "with_phase i p s = s\<lparr>fl_phase := (fl_phase s)(i \<mapsto> p)\<rparr>"

text \<open>The flight ends: the leader and everybody who waited for it return its result.\<close>

definition land :: "nat \<Rightarrow> string \<Rightarrow> 'e + proposal \<Rightarrow> 'e flights \<Rightarrow> 'e flights" where
  "land i key r s = s\<lparr>fl_leader := (fl_leader s)(key := None),
     fl_phase := (\<lambda>j. if j = i \<or> fl_phase s j = Some (Waiting key) then Some (Answered key r) else fl_phase s j)\<rparr>"

definition did_store :: "proposal_cache \<Rightarrow> instant \<Rightarrow> string \<Rightarrow> bool" where
  "did_store c t key \<longleftrightarrow> length (pc_values c) < max_cached_proposals \<or> length (pc_values (evict_stale c t)) < max_cached_proposals"

inductive cache_step :: "((string \<rightharpoonup> nat) \<Rightarrow> string \<Rightarrow> bool) \<Rightarrow> 'e flights \<Rightarrow> 'e flights \<Rightarrow> bool"
  for lead :: "(string \<rightharpoonup> nat) \<Rightarrow> string \<Rightarrow> bool" where
  tick: "t \<ge> fl_now s \<Longrightarrow> cache_step lead s (s\<lparr>fl_now := t\<rparr>)"
| direct: "fl_phase s i = None \<Longrightarrow> pc_ttl (fl_cache s) \<le> 0
    \<Longrightarrow> cache_step lead s (with_phase i (Direct key) (s\<lparr>fl_log := fl_log s @ [Began key (fl_now s)]\<rparr>))"
| returned: "fl_phase s i = Some (Direct key)
    \<Longrightarrow> cache_step lead s (with_phase i (Answered key r) (s\<lparr>fl_log := fl_log s @ [Computed key r]\<rparr>))"
| hit: "fl_phase s i = None \<Longrightarrow> 0 < pc_ttl (fl_cache s) \<Longrightarrow> cache_lookup (fl_cache s) (fl_now s) key = Some r
    \<Longrightarrow> cache_step lead s (with_phase i (Answered key (Inr r)) s)"
| miss: "fl_phase s i = None \<Longrightarrow> 0 < pc_ttl (fl_cache s) \<Longrightarrow> cache_lookup (fl_cache s) (fl_now s) key = None
    \<Longrightarrow> cache_step lead s (with_phase i (Missed key) s)"
| depart: "fl_phase s i = Some (Missed key) \<Longrightarrow> lead (fl_leader s) key
    \<Longrightarrow> cache_step lead s (with_phase i (Leading key) (s\<lparr>fl_leader := (fl_leader s)(key \<mapsto> i)\<rparr>))"
| wait: "fl_phase s i = Some (Missed key) \<Longrightarrow> \<not> lead (fl_leader s) key
    \<Longrightarrow> cache_step lead s (with_phase i (Waiting key) s)"
| recheck_hit: "fl_phase s i = Some (Leading key) \<Longrightarrow> cache_lookup (fl_cache s) (fl_now s) key = Some r
    \<Longrightarrow> cache_step lead s (with_phase i (Finishing key (Inr r)) s)"
| recheck_miss: "fl_phase s i = Some (Leading key) \<Longrightarrow> cache_lookup (fl_cache s) (fl_now s) key = None
    \<Longrightarrow> cache_step lead s (with_phase i (Computing key) (s\<lparr>fl_log := fl_log s @ [Began key (fl_now s)]\<rparr>))"
| failed: "fl_phase s i = Some (Computing key)
    \<Longrightarrow> cache_step lead s (with_phase i (Finishing key (Inl e)) (s\<lparr>fl_log := fl_log s @ [Computed key (Inl e)]\<rparr>))"
| computed: "fl_phase s i = Some (Computing key)
    \<Longrightarrow> cache_step lead s (with_phase i (Finishing key (Inr r)) (s\<lparr>fl_cache := cache_store (fl_cache s) (fl_now s) key r,
          fl_log := fl_log s @ Computed key (Inr r) # (if did_store (fl_cache s) (fl_now s) key then [Stored key (fl_now s)] else [])\<rparr>))"
| land: "fl_phase s i = Some (Finishing key r) \<Longrightarrow> cache_step lead s (land i key r s)"

definition single_flight :: "((string \<rightharpoonup> nat) \<Rightarrow> string \<Rightarrow> bool) \<Rightarrow> bool" where
  "single_flight lead \<longleftrightarrow> (\<forall>m key. lead m key \<longleftrightarrow> m key = None)"

definition no_flights :: "duration \<Rightarrow> instant \<Rightarrow> 'e flights" where
  "no_flights ttl t = \<lparr>fl_cache = new_proposal_cache ttl, fl_now = t, fl_leader = Map.empty, fl_phase = Map.empty, fl_log = []\<rparr>"


section \<open>Facts about the entries\<close>

lemma stale_put [simp]: "stale (cache_put c t key r) = stale c"
  by (simp add: stale_def cache_put_def fun_eq_iff)

lemma cache_ttl [simp]:
  "pc_ttl (cache_put c t key r) = pc_ttl c" "pc_ttl (evict_stale c t) = pc_ttl c" "pc_ttl (cache_store c t key r) = pc_ttl c"
  by (simp_all add: cache_put_def evict_stale_def cache_store_def Let_def)

lemma length_put: "length (pc_values c) \<le> length (pc_values (cache_put c t key r))
    \<and> length (pc_values (cache_put c t key r)) \<le> Suc (length (pc_values c))"
  by (simp add: cache_put_def length_update)

lemma map_of_put: "map_of (pc_values (cache_put c t key r)) = (map_of (pc_values c))(key \<mapsto> \<lparr>cp_result = r, cp_at = t\<rparr>)"
  by (simp add: cache_put_def update_conv')

lemma map_of_evict:
  "distinct (map fst (pc_values c)) \<Longrightarrow> map_of (pc_values (evict_stale c t)) k =
     (case map_of (pc_values c) k of None \<Rightarrow> None | Some v \<Rightarrow> if stale c t v then None else Some v)"
  by (simp add: evict_stale_def map_of_filter_distinct split: option.split)

lemma distinct_put: "distinct (map fst (pc_values c)) \<Longrightarrow> distinct (map fst (pc_values (cache_put c t key r)))"
  by (simp add: cache_put_def distinct_update)

lemma distinct_evict: "distinct (map fst (pc_values c)) \<Longrightarrow> distinct (map fst (pc_values (evict_stale c t)))"
  by (simp add: evict_stale_def distinct_map_filter)

lemma cache_store_cases:
  "cache_store c t key r = (if did_store c t key then
      cache_put (if length (pc_values c) < max_cached_proposals then c else evict_stale c t) t key r else evict_stale c t)"
  by (auto simp: cache_store_def did_store_def Let_def)

lemma cache_store_bounds:
  assumes "distinct (map fst (pc_values c))" "length (pc_values c) \<le> max_cached_proposals"
  shows "distinct (map fst (pc_values (cache_store c t key r)))" "length (pc_values (cache_store c t key r)) \<le> max_cached_proposals"
proof -
  have evict: "length (pc_values (evict_stale c t)) \<le> length (pc_values c)" by (simp add: evict_stale_def)
  show "distinct (map fst (pc_values (cache_store c t key r)))"
    using assms(1) by (simp add: cache_store_cases distinct_put distinct_evict)
  show "length (pc_values (cache_store c t key r)) \<le> max_cached_proposals"
    using assms(2) evict length_put [of c t key r] length_put [of "evict_stale c t" t key r]
    by (auto simp: cache_store_cases did_store_def)
qed

text \<open>An entry is replaced by a younger one for its key, or dropped once it is stale.\<close>

lemma cache_store_lookup:
  assumes "distinct (map fst (pc_values c))"
  shows "map_of (pc_values (cache_store c t key r)) k = Some v \<Longrightarrow>
      map_of (pc_values c) k = Some v \<or> k = key \<and> v = \<lparr>cp_result = r, cp_at = t\<rparr>"
    and "did_store c t key \<Longrightarrow> map_of (pc_values (cache_store c t key r)) key = Some \<lparr>cp_result = r, cp_at = t\<rparr>"
    and "map_of (pc_values c) k = Some v \<Longrightarrow> \<not> stale c t v \<Longrightarrow> cp_at v \<le> t \<Longrightarrow>
      \<exists>v'. map_of (pc_values (cache_store c t key r)) k = Some v' \<and> cp_at v \<le> cp_at v'"
  using assms by (auto simp: cache_store_cases map_of_put map_of_evict split: if_splits option.splits)

section \<open>Safety\<close>

definition flying :: "'e phase \<Rightarrow> string \<Rightarrow> bool" where
  "flying p key \<longleftrightarrow> p = Leading key \<or> p = Computing key \<or> (\<exists>r. p = Finishing key r)"

text \<open>A computation begins only after every entry stored for its key before it has become stale.\<close>

definition cooled :: "duration \<Rightarrow> 'e happening \<Rightarrow> 'e happening \<Rightarrow> bool" where
  "cooled ttl x y \<longleftrightarrow> (\<forall>key a t. x = Stored key a \<longrightarrow> y = Began key t \<longrightarrow> ttl \<le> time_sub t a)"

definition results_of :: "'e phase \<Rightarrow> (string \<times> proposal) set" where
  "results_of p = (case p of Finishing key (Inr r) \<Rightarrow> {(key, r)} | Answered key (Inr r) \<Rightarrow> {(key, r)} | _ \<Rightarrow> {})"

definition entries_ok :: "duration \<Rightarrow> 'e flights \<Rightarrow> bool" where
  "entries_ok ttl s \<longleftrightarrow> pc_ttl (fl_cache s) = ttl \<and> distinct (map fst (pc_values (fl_cache s)))
     \<and> length (pc_values (fl_cache s)) \<le> max_cached_proposals"

text \<open>Who computes directly does so because the cache is off, and then nothing else happens.\<close>

definition computing :: "'e phase \<Rightarrow> string \<Rightarrow> bool" where
  "computing p key \<longleftrightarrow> p = Computing key \<or> p = Direct key"

definition switched :: "duration \<Rightarrow> 'e flights \<Rightarrow> bool" where
  "switched ttl s \<longleftrightarrow> (\<forall>i key. fl_phase s i = Some (Direct key) \<longrightarrow> ttl \<le> 0)
     \<and> (ttl \<le> 0 \<longrightarrow> pc_values (fl_cache s) = []
          \<and> (\<forall>i p. fl_phase s i = Some p \<longrightarrow> (\<exists>key. p = Direct key \<or> (\<exists>r. p = Answered key r))))"

definition leaders_ok :: "'e flights \<Rightarrow> bool" where
  "leaders_ok s \<longleftrightarrow> (\<forall>key i. fl_leader s key = Some i \<longleftrightarrow> (\<exists>p. fl_phase s i = Some p \<and> flying p key))
     \<and> (\<forall>j key. fl_phase s j = Some (Waiting key) \<longrightarrow> fl_leader s key \<noteq> None)"

definition known :: "'e flights \<Rightarrow> bool" where
  "known s \<longleftrightarrow> (\<forall>k v. map_of (pc_values (fl_cache s)) k = Some v \<longrightarrow> Computed k (Inr (cp_result v)) \<in> set (fl_log s))
     \<and> (\<forall>i p k r. fl_phase s i = Some p \<longrightarrow> (k, r) \<in> results_of p \<longrightarrow> Computed k (Inr r) \<in> set (fl_log s))"

definition aging :: "'e flights \<Rightarrow> bool" where
  "aging s \<longleftrightarrow> (\<forall>k v. map_of (pc_values (fl_cache s)) k = Some v \<longrightarrow> cp_at v \<le> fl_now s)
     \<and> (\<forall>k a. Stored k a \<in> set (fl_log s) \<longrightarrow> a \<le> fl_now s
          \<and> ((\<exists>v. map_of (pc_values (fl_cache s)) k = Some v \<and> a \<le> cp_at v) \<or> pc_ttl (fl_cache s) \<le> time_sub (fl_now s) a))"

definition cache_inv :: "duration \<Rightarrow> 'e flights \<Rightarrow> bool" where
  "cache_inv ttl s \<longleftrightarrow> entries_ok ttl s \<and> switched ttl s \<and> leaders_ok s
 \<and> known s \<and> aging s \<and> sorted_wrt (cooled ttl) (fl_log s)"

lemma flying_simps [simp]:
  "flying (Missed k) key = False" "flying (Waiting k) key = False" "flying (Answered k r) key = False" "flying (Direct k) key = False"
  "flying (Leading k) key = (k = key)" "flying (Computing k) key = (k = key)" "flying (Finishing k r) key = (k = key)"
  by (auto simp: flying_def)

lemma results_simps [simp]:
  "results_of (Missed k) = {}" "results_of (Waiting k) = {}" "results_of (Direct k) = {}" "results_of (Leading k) = {}" "results_of (Computing k) = {}"
  "results_of (Finishing k (Inr r)) = {(k, r)}" "results_of (Answered k (Inr r)) = {(k, r)}"
  "results_of (Finishing k (Inl e)) = {}" "results_of (Answered k (Inl e)) = {}"
  by (simp_all add: results_of_def)

lemma results_answered: "results_of (Answered k r) = results_of (Finishing k r)"
  by (cases r) simp_all

lemma cache_lookup_Some: "cache_lookup c t key = Some r \<longleftrightarrow> (\<exists>v. map_of (pc_values c) key = Some v \<and> \<not> stale c t v \<and> r = cp_result v)"
  by (auto simp: cache_lookup_def split: option.splits if_splits)

lemma cache_inv_init: "cache_inv ttl (no_flights ttl t)"
  by (simp add: cache_inv_def entries_ok_def switched_def leaders_ok_def known_def
 aging_def no_flights_def new_proposal_cache_def max_cached_proposals_def)

lemma entries_step: "cache_step lead s s' \<Longrightarrow> entries_ok ttl s \<Longrightarrow> entries_ok ttl s'"
  by (erule cache_step.cases) (simp_all add: entries_ok_def with_phase_def land_def cache_store_bounds)

lemma switched_step:
  assumes "cache_step lead s s'" "switched ttl s" "entries_ok ttl s"
  shows "switched ttl s'"
  using assms(1)
proof cases
  case (direct i key)
  then show ?thesis using assms(2,3) by (auto simp: switched_def with_phase_def entries_ok_def)
next
  case (hit i key r)
  then show ?thesis using assms(2,3) by (auto simp: switched_def with_phase_def entries_ok_def)
next
  case (miss i key)
  then show ?thesis using assms(2,3) by (auto simp: switched_def with_phase_def entries_ok_def)
qed (use assms(2) in \<open>auto simp: switched_def with_phase_def land_def split: if_splits\<close>)

lemma leaders_step:
  assumes "cache_step lead s s'" "leaders_ok s" "single_flight lead"
  shows "leaders_ok s'"
  using assms(1)
proof cases
  case (depart i key)
  then have "fl_leader s key = None" using assms(3) by (simp add: single_flight_def)
  then have "fl_phase s j = Some p \<Longrightarrow> \<not> flying p key" for j p
    using assms(2) unfolding leaders_ok_def by (metis option.discI)
  then show ?thesis using assms(2) depart unfolding leaders_ok_def with_phase_def by (auto split: if_splits)
next
  case (land i key r)
  have "fl_leader s key = Some i" using assms(2) land(2) by (auto simp: leaders_ok_def)
  then have only: "fl_phase s j = Some p \<Longrightarrow> flying p key \<Longrightarrow> j = i" for j p
    using assms(2) unfolding leaders_ok_def by (metis option.inject)
  have lead: "fl_leader s k = Some j \<longleftrightarrow> (\<exists>p. fl_phase s j = Some p \<and> flying p k)" for k j
    using assms(2) by (simp add: leaders_ok_def)
  have "fl_leader s' k = Some j \<longleftrightarrow> (\<exists>p. fl_phase s' j = Some p \<and> flying p k)" for k j
  proof (cases "k = key")
    case True
    then show ?thesis using only [of j] by (auto simp: land(1) land_def)
  next
    case False
    then show ?thesis using lead [of k j] land(2) by (auto simp: land(1) land_def)
  qed
  moreover have "fl_phase s' j = Some (Waiting k) \<Longrightarrow> fl_leader s' k \<noteq> None" for j k
    using assms(2) by (auto simp: land(1) land_def leaders_ok_def split: if_splits)
  ultimately show ?thesis unfolding leaders_ok_def by blast
qed (use assms(2,3) in \<open>auto simp: leaders_ok_def single_flight_def with_phase_def split: if_splits\<close>)

lemma known_step:
  assumes "cache_step lead s s'" "known s" "entries_ok ttl s"
  shows "known s'"
  using assms(1)
proof cases
  case (computed i key r)
  have "distinct (map fst (pc_values (fl_cache s)))" using assms(3) by (simp add: entries_ok_def)
  from cache_store_lookup(1) [OF this] have
    "map_of (pc_values (fl_cache s')) k = Some v \<Longrightarrow> Computed k (Inr (cp_result v)) \<in> set (fl_log s')" for k v
    using assms(2) computed(1) unfolding known_def with_phase_def by force
  then show ?thesis using assms(2) computed(1) unfolding known_def with_phase_def by (auto split: if_splits)
next
  case (returned i key r)
  then show ?thesis using assms(2) unfolding known_def with_phase_def by (cases r) (auto split: if_splits)
next
  case (land i key r)
  have "(k, x) \<in> results_of (Answered key r) \<Longrightarrow> Computed k (Inr x) \<in> set (fl_log s)" for k x
    using assms(2) land(2) unfolding known_def results_answered by blast
  then show ?thesis using assms(2) land unfolding known_def land_def by (auto split: if_splits)
qed (use assms(2) in \<open>auto simp: known_def with_phase_def cache_lookup_Some split: if_splits\<close>)

lemma aging_step:
  assumes "cache_step lead s s'" "aging s" "entries_ok ttl s"
  shows "aging s'"
  using assms(1)
proof cases
  case (tick t)
  then show ?thesis using assms(2) time_sub_mono [OF tick(2)] unfolding aging_def
    by (simp add: order_trans [OF _ tick(2)]) (meson order_trans)
next
  case (computed i key r)
  let ?c = "fl_cache s" and ?t = "fl_now s"
  have d: "distinct (map fst (pc_values ?c))" using assms(3) by (simp add: entries_ok_def)
  have "(\<exists>v. map_of (pc_values (cache_store ?c ?t key r)) k = Some v \<and> a \<le> cp_at v) \<or> pc_ttl ?c \<le> time_sub ?t a"
    if st: "Stored k a \<in> set (fl_log s)" for k a
  proof (cases "pc_ttl ?c \<le> time_sub ?t a")
    case False
    then obtain v where v: "map_of (pc_values ?c) k = Some v" "a \<le> cp_at v" "cp_at v \<le> ?t"
      using assms(2) st unfolding aging_def by metis
    have "time_sub ?t (cp_at v) \<le> time_sub ?t a" using v(2) by (simp add: time_sub_def)
    then have "\<not> stale ?c ?t v" using False by (simp add: stale_def)
    from cache_store_lookup(3) [OF d v(1) this v(3), of key r] v(2) show ?thesis by (meson order_trans)
  qed simp
  moreover have "map_of (pc_values (cache_store ?c ?t key r)) k = Some v \<Longrightarrow> cp_at v \<le> ?t" for k v
    using cache_store_lookup(1) [OF d] assms(2) unfolding aging_def by fastforce
  ultimately show ?thesis
    using assms(2) computed cache_store_lookup(2) [OF d, of ?t key r] unfolding aging_def with_phase_def by auto
qed (use assms(2) in \<open>auto simp: aging_def with_phase_def land_def\<close>)

lemma cooled_step:
  assumes "cache_step lead s s'" "sorted_wrt (cooled ttl) (fl_log s)" "aging s" "entries_ok ttl s"
  shows "sorted_wrt (cooled ttl) (fl_log s')"
  using assms(1)
proof cases
  case (direct i key)
  have "ttl \<le> time_sub (fl_now s) a" if "Stored k a \<in> set (fl_log s)" for k a
  proof -
    have "a \<le> fl_now s" using assms(3) that unfolding aging_def by blast
    then show ?thesis using assms(4) direct(3) by (simp add: entries_ok_def time_sub_def)
  qed
  then show ?thesis using assms(2) direct by (auto simp: with_phase_def sorted_wrt_append cooled_def)
next
  case (recheck_miss i key)
  have "cooled ttl x (Began key (fl_now s))" if x: "x \<in> set (fl_log s)" for x
    unfolding cooled_def
  proof (intro allI impI)
    fix k a t
    assume xs: "x = Stored k a" "Began key (fl_now s) = Began k t"
    then have "(\<exists>v. map_of (pc_values (fl_cache s)) k = Some v \<and> a \<le> cp_at v) \<or> ttl \<le> time_sub (fl_now s) a"
      using x assms(3,4) unfolding aging_def entries_ok_def by blast
    moreover have "ttl \<le> time_sub (fl_now s) a" if "map_of (pc_values (fl_cache s)) k = Some v" "a \<le> cp_at v" for v
    proof -
      have "stale (fl_cache s) (fl_now s) v" using recheck_miss(3) that(1) xs(2) by (simp add: cache_lookup_def split: if_splits)
      moreover have "time_sub (fl_now s) (cp_at v) \<le> time_sub (fl_now s) a" using that(2) by (simp add: time_sub_def)
      ultimately show ?thesis using assms(4) by (simp add: stale_def entries_ok_def)
    qed
    ultimately show "ttl \<le> time_sub t a" using xs(2) by blast
  qed
  then show ?thesis using assms(2) recheck_miss by (simp add: with_phase_def sorted_wrt_append)
qed (use assms(2) in \<open>auto simp: with_phase_def land_def sorted_wrt_append cooled_def\<close>)

lemma cache_inv_step:
  assumes "cache_step lead s s'" "cache_inv ttl s" "single_flight lead"
  shows "cache_inv ttl s'"
  using assms entries_step switched_step leaders_step known_step aging_step cooled_step unfolding cache_inv_def by metis

inductive cache_run :: "((string \<rightharpoonup> nat) \<Rightarrow> string \<Rightarrow> bool) \<Rightarrow> duration \<Rightarrow> 'e flights \<Rightarrow> bool"
  for lead :: "(string \<rightharpoonup> nat) \<Rightarrow> string \<Rightarrow> bool" and ttl :: duration where
  idle: "cache_run lead ttl (no_flights ttl t)"
| onward: "cache_run lead ttl s \<Longrightarrow> cache_step lead s s' \<Longrightarrow> cache_run lead ttl s'"

lemma run_inv: "cache_run lead ttl s \<Longrightarrow> single_flight lead \<Longrightarrow> cache_inv ttl s"
  by (induction rule: cache_run.induct) (blast intro: cache_inv_init cache_inv_step)+

text \<open>
  C11: In every interleaving of callers the cache keeps its promises: it never holds more than its bound,
  once a computation has stored its result none begins for that event before the entry's time is up, and
  whatever is served from the cache or handed to a waiting caller was computed for that event and was no
  error. While the cache is on, that is while its time is positive, two callers never compute the same
  proposal at the same time; while it is off it holds nothing and everybody computes for themselves.
\<close>

theorem cache_safe:
  assumes "single_flight lead" "cache_run lead ttl s"
  shows "length (pc_values (fl_cache s)) \<le> max_cached_proposals
    \<and> (0 < ttl \<longrightarrow> (\<forall>key i j p q. fl_phase s i = Some p \<and> fl_phase s j = Some q \<and> computing p key \<and> computing q key \<longrightarrow> i = j))
    \<and> (ttl \<le> 0 \<longrightarrow> pc_values (fl_cache s) = []
         \<and> (\<forall>i p. fl_phase s i = Some p \<longrightarrow> (\<exists>key. computing p key \<or> (\<exists>r. p = Answered key r))))
    \<and> (\<forall>xs ys zs key a t. fl_log s = xs @ Stored key a # ys @ Began key t # zs \<longrightarrow> ttl \<le> time_sub t a)
    \<and> (\<forall>key r. cache_lookup (fl_cache s) (fl_now s) key = Some r \<or> (\<exists>i. fl_phase s i = Some (Answered key (Inr r)))
         \<longrightarrow> Computed key (Inr r) \<in> set (fl_log s))"
proof -
  have inv: "entries_ok ttl s" "leaders_ok s" "known s" "sorted_wrt (cooled ttl) (fl_log s)" "switched ttl s"
    using run_inv [OF assms(2,1)] by (simp_all add: cache_inv_def)
  have "fl_phase s i = Some p \<Longrightarrow> computing p key \<Longrightarrow> 0 < ttl \<Longrightarrow> fl_leader s key = Some i" for i p key
    using inv(2,5) by (auto simp: leaders_ok_def switched_def computing_def)
  then have "0 < ttl \<Longrightarrow> fl_phase s i = Some p \<Longrightarrow> fl_phase s j = Some q \<Longrightarrow> computing p key \<Longrightarrow> computing q key \<Longrightarrow> i = j" for key i j p q
    by (metis option.inject)
  moreover have "ttl \<le> 0 \<Longrightarrow> pc_values (fl_cache s) = []
         \<and> (\<forall>i p. fl_phase s i = Some p \<longrightarrow> (\<exists>key. computing p key \<or> (\<exists>r. p = Answered key r)))"
    using inv(5) unfolding switched_def computing_def by blast
  moreover have "fl_log s = xs @ Stored key a # ys @ Began key t # zs \<Longrightarrow> ttl \<le> time_sub t a" for xs ys zs key a t
    using inv(4) by (simp add: sorted_wrt_append cooled_def)
  moreover have "Computed key (Inr r) \<in> set (fl_log s)"
    if "cache_lookup (fl_cache s) (fl_now s) key = Some r \<or> (\<exists>i. fl_phase s i = Some (Answered key (Inr r)))" for key r
    using inv(3) that unfolding known_def by (auto simp: cache_lookup_Some)
  ultimately show ?thesis using inv(1) unfolding entries_ok_def by blast
qed

section \<open>Progress\<close>

primrec effort :: "'e phase \<Rightarrow> nat" where
  "effort (Missed k) = 4" | "effort (Leading k) = 3" | "effort (Computing k) = 2" | "effort (Finishing k r) = 1"
| "effort (Waiting k) = 1" | "effort (Direct k) = 1" | "effort (Answered k r) = 0"

definition remaining :: "'e flights \<Rightarrow> nat" where
  "remaining s = (\<Sum>i \<in> dom (fl_phase s). effort (the (fl_phase s i)))"

lemma remaining_less:
  assumes "finite (dom (fl_phase s))" "dom (fl_phase s') = dom (fl_phase s)"
    "\<And>j. j \<in> dom (fl_phase s) \<Longrightarrow> effort (the (fl_phase s' j)) \<le> effort (the (fl_phase s j))"
    "i \<in> dom (fl_phase s)" "effort (the (fl_phase s' i)) < effort (the (fl_phase s i))"
  shows "remaining s' < remaining s"
  unfolding remaining_def assms(2) using assms(1,3,4,5) by (intro sum_strict_mono_ex1) auto

lemma with_phase_less:
  assumes "finite (dom (fl_phase s))" "fl_phase s i = Some q" "effort p < effort q" "fl_phase s2 = fl_phase s"
  shows "remaining (with_phase i p s2) < remaining s"
  by (rule remaining_less [OF assms(1), of _ i]) (use assms(2-4) in \<open>auto simp: with_phase_def\<close>)

lemma dom_land: "fl_phase s i = Some q \<Longrightarrow> dom (fl_phase (land i key r s)) = dom (fl_phase s)"
  by (auto simp: land_def split: if_splits)

lemma land_less:
  assumes "finite (dom (fl_phase s))" "fl_phase s i = Some (Finishing key r)"
  shows "remaining (land i key r s) < remaining s"
  by (rule remaining_less [OF assms(1) dom_land [OF assms(2)], where i = i]) (use assms(2) in \<open>auto simp: land_def\<close>)
lemma run_finite: "cache_run lead ttl s \<Longrightarrow> finite (dom (fl_phase s))"
proof (induction rule: cache_run.induct)
  case (onward s s')
  from onward(2) have "dom (fl_phase s') \<subseteq> dom (fl_phase s) \<or> (\<exists>i. dom (fl_phase s') \<subseteq> insert i (dom (fl_phase s)))"
    by cases (auto simp: with_phase_def dom_land)
  then show ?case using onward(3) finite_subset by blast
qed (simp add: no_flights_def)

lemma step_effort:
  assumes "cache_step lead s s'" "finite (dom (fl_phase s))"
  shows "fl_phase s' = fl_phase s \<or> (\<exists>i. i \<notin> dom (fl_phase s) \<and> dom (fl_phase s') = insert i (dom (fl_phase s))) \<or> remaining s' < remaining s"
  using assms(1)
proof cases
  case (direct i key)
  then show ?thesis by (auto simp: with_phase_def)
next
  case (hit i key r)
  then show ?thesis by (auto simp: with_phase_def)
next
  case (miss i key)
  then show ?thesis by (auto simp: with_phase_def)
next
  case (land i key r)
  then show ?thesis using land_less [OF assms(2)] by blast
qed (auto intro!: with_phase_less [OF assms(2)])

lemma step_enabled:
  assumes "leaders_ok s" "finite (dom (fl_phase s))" "fl_phase s i = Some p" "effort p \<noteq> 0"
  shows "\<exists>s'. cache_step lead s s' \<and> remaining s' < remaining s"
proof -
  have busy: "\<exists>s'. cache_step lead s s' \<and> remaining s' < remaining s" if "fl_phase s j = Some q" "flying q key" for j q key
  proof (cases q)
    case (Leading k)
    then show ?thesis
      using that(1) recheck_hit [of s j k _ lead] recheck_miss [of s j k lead]
      by (cases "cache_lookup (fl_cache s) (fl_now s) k") (auto intro!: exI with_phase_less [OF assms(2)])
  next
    case (Computing k)
    then show ?thesis
      using that(1) computed [of s j k lead undefined] by (auto intro!: exI with_phase_less [OF assms(2)])
  next
    case (Finishing k r)
    then show ?thesis using that(1) land [of s j k r lead] land_less [OF assms(2)] by blast
  qed (use that(2) in simp_all)
  show ?thesis
  proof (cases p)
    case (Direct k)
    then show ?thesis
      using assms(3) returned [of s i k lead undefined] by (auto intro!: exI with_phase_less [OF assms(2)])
  next
    case (Missed k)
    then show ?thesis
      using assms(3) depart [of s i k lead] wait [of s i k lead]
      by (cases "lead (fl_leader s) k") (auto intro!: exI with_phase_less [OF assms(2)])
  next
    case (Waiting k)
    then obtain j q where "fl_phase s j = Some q" "flying q k"
      using assms(1,3) unfolding leaders_ok_def by (metis option.exhaust)
    then show ?thesis by (rule busy)
  qed (use busy [OF assms(3)] assms(4) in simp_all)
qed

text \<open>
  C12: No caller is left hanging. Every step of a pending call brings its callers closer to their answers
  by a measure that is at most four for each of them, only new calls add to it, and as long as it is not
  zero a step that lowers it can be taken; it is zero exactly when everybody has been answered. So once
  no new callers arrive and every computation returns, everybody who waits is answered.
\<close>

theorem cache_live:
  assumes "single_flight lead" "cache_run lead ttl s"
  shows "remaining s \<le> 4 * card (dom (fl_phase s))
    \<and> (\<forall>s'. cache_step lead s s' \<longrightarrow> fl_phase s' = fl_phase s \<or> (\<exists>i. i \<notin> dom (fl_phase s) \<and> dom (fl_phase s') = insert i (dom (fl_phase s)))
         \<or> remaining s' < remaining s)
    \<and> (remaining s \<noteq> 0 \<longrightarrow> (\<exists>s'. cache_step lead s s' \<and> remaining s' < remaining s))
    \<and> (remaining s = 0 \<longleftrightarrow> (\<forall>i \<in> dom (fl_phase s). \<exists>key r. fl_phase s i = Some (Answered key r)))"
proof -
  have fin: "finite (dom (fl_phase s))" using run_finite [OF assms(2)] .
  have leaders: "leaders_ok s" using run_inv [OF assms(2,1)] by (simp add: cache_inv_def)
  have answered: "effort p = 0 \<longleftrightarrow> (\<exists>key r. p = Answered key r)" for p by (cases p) auto
  have zero: "remaining s = 0 \<longleftrightarrow> (\<forall>i \<in> dom (fl_phase s). effort (the (fl_phase s i)) = 0)"
    using fin by (simp add: remaining_def)
  have "effort p \<le> 4" for p by (cases p) auto
  then have "remaining s \<le> of_nat (card (dom (fl_phase s))) * 4"
    unfolding remaining_def by (intro sum_bounded_above)
  then have bound: "remaining s \<le> 4 * card (dom (fl_phase s))" by simp
  have progress: "\<exists>s'. cache_step lead s s' \<and> remaining s' < remaining s" if pending: "remaining s \<noteq> 0"
  proof -
    obtain i p where "fl_phase s i = Some p" "effort p \<noteq> 0" using pending zero by fastforce
    then show ?thesis by (rule step_enabled [OF leaders fin])
  qed
  have done_iff: "remaining s = 0 \<longleftrightarrow> (\<forall>i \<in> dom (fl_phase s). \<exists>key r. fl_phase s i = Some (Answered key r))"
    unfolding zero by (rule ball_cong [OF refl]) (auto simp: answered)
  show ?thesis
    by (intro conjI allI impI) (rule bound, erule step_effort [OF _ fin], erule progress, rule done_iff)
qed

text \<open>Two callers ask for the proposal of one event: the second waits for the first, both get its result.\<close>

definition demo_proposal :: proposal where
  "demo_proposal = \<lparr>pr_slot = 36000, pr_found = True, pr_considered = [''Ann'']\<rparr>"

definition alone :: "(string \<rightharpoonup> nat) \<Rightarrow> string \<Rightarrow> bool" where
  "alone m key \<longleftrightarrow> m key = None"

lemma alone_ok: "single_flight alone" by (simp add: single_flight_def alone_def)

lemma demo_flight:
  obtains s :: "nat flights" where "cache_run alone 60 s" "fl_phase s 0 = Some (Answered ''e'' (Inr demo_proposal))"
    "fl_phase s 1 = Some (Answered ''e'' (Inr demo_proposal))" "cache_lookup (fl_cache s) (fl_now s) ''e'' = Some demo_proposal"
    "dom (fl_phase s) = {0, 1}"
proof -
  let ?s0 = "no_flights 60 0 :: nat flights"
  let ?s1 = "with_phase 0 (Missed ''e'') ?s0"
  let ?s2 = "with_phase 0 (Leading ''e'') (?s1\<lparr>fl_leader := (fl_leader ?s1)(''e'' \<mapsto> 0)\<rparr>)"
  let ?s3 = "with_phase 1 (Missed ''e'') ?s2"
  let ?s4 = "with_phase 1 (Waiting ''e'') ?s3"
  let ?s5 = "with_phase 0 (Computing ''e'') (?s4\<lparr>fl_log := fl_log ?s4 @ [Began ''e'' (fl_now ?s4)]\<rparr>)"
  let ?s6 = "with_phase 0 (Finishing ''e'' (Inr demo_proposal)) (?s5\<lparr>fl_cache := cache_store (fl_cache ?s5) (fl_now ?s5) ''e'' demo_proposal,
     fl_log := fl_log ?s5 @ Computed ''e'' (Inr demo_proposal)
       # (if did_store (fl_cache ?s5) (fl_now ?s5) ''e'' then [Stored ''e'' (fl_now ?s5)] else [])\<rparr>)"
  note eval = with_phase_def no_flights_def new_proposal_cache_def cache_lookup_def alone_def
  have "cache_run alone 60 ?s1" by (rule onward [OF idle miss]) (simp_all add: eval)
  then have "cache_run alone 60 ?s2" by (rule onward [OF _ depart]) (simp_all add: eval)
  then have "cache_run alone 60 ?s3" by (rule onward [OF _ miss]) (simp_all add: eval)
  then have "cache_run alone 60 ?s4" by (rule onward [OF _ wait]) (simp_all add: eval)
  then have "cache_run alone 60 ?s5" by (rule onward [OF _ recheck_miss]) (simp_all add: eval)
  then have "cache_run alone 60 ?s6" by (rule onward [OF _ computed]) (simp_all add: eval)
  then have "cache_run alone 60 (land 0 ''e'' (Inr demo_proposal) ?s6)" by (rule onward [OF _ cache_step.land]) (simp add: eval)
  then show thesis
    by (rule that) (auto simp: eval land_def cache_store_def max_cached_proposals_def cache_put_def stale_def time_sub_def split: if_splits)
qed

lemma cache_safe_witness:
  "\<exists>s :: nat flights. cache_run alone 60 s \<and> fl_phase s 1 = Some (Answered ''e'' (Inr demo_proposal))
    \<and> Computed ''e'' (Inr demo_proposal) \<in> set (fl_log s)"
proof -
  obtain s :: "nat flights" where s: "cache_run alone 60 s" "fl_phase s 1 = Some (Answered ''e'' (Inr demo_proposal))"
    by (rule demo_flight)
  from cache_safe [OF alone_ok s(1)] s show ?thesis by blast
qed

lemma cache_live_witness:
  "\<exists>s :: nat flights. cache_run alone 60 s \<and> dom (fl_phase s) = {0, 1} \<and> remaining s \<le> 8"
proof -
  obtain s :: "nat flights" where s: "cache_run alone 60 s" "dom (fl_phase s) = {0, 1}" by (rule demo_flight)
  from cache_live [OF alone_ok s(1)] s show ?thesis by (intro exI [of _ s]) simp
qed

end
