(* ===== verification/Api.thy ===== *)
theory Api
  imports Requests Graduation Purge ProposalCache
begin

text \<open>
  The frame of the handlers of \<^verbatim>\<open>api/internal/server\<close>: the state a handler works on, its
  replies, and the middleware of \<^verbatim>\<open>auth.go\<close> and \<^verbatim>\<open>group_auth.go\<close>. A handler
  is an operation on the \<open>server\<close> that either refuses, with a status and a reason, or answers with a
  status and a body. What it publishes to an event's watchers is appended to a log; \<open>Broker\<close> models
  the delivery. The path and header values and the decoded body are its arguments.

  Main facts: the guard lets a token through in its own event only (\<open>require_participant_Inr\<close>), the
  middleware changes nothing, and no handler but the routes that say so writes to the database.
\<close>

section \<open>State and replies\<close>

record server =
  sv_world :: world
  sv_published :: "(string \<times> string) list"
  sv_proposals :: proposal_cache

type_synonym 'a handler = "(server, nat \<times> reason, nat \<times> 'a) op"
type_synonym 'a step = "(server, nat \<times> reason, 'a) op"

definition refuse :: "nat \<Rightarrow> reason \<Rightarrow> 'a step" where
  "refuse status why = fail (status, why)"

definition reply :: "nat \<Rightarrow> 'a \<Rightarrow> 'a handler" where
  "reply status body = ret (status, body)"

text \<open>A store call of a handler, with what the handler does on its error.\<close>

definition run :: "'a query \<Rightarrow> (server, failure, 'a) op" where
  "run m = (\<lambda>s. case m (sv_world s) of (r, w) \<Rightarrow> (r, s\<lparr>sv_world := w\<rparr>))"

definition call :: "'a query \<Rightarrow> (failure \<Rightarrow> 'b step) \<Rightarrow> ('a \<Rightarrow> 'b step) \<Rightarrow> 'b step" where
  "call m on_error k = catch (run m) on_error k"

definition or_refuse :: "nat \<Rightarrow> reason \<Rightarrow> failure \<Rightarrow> 'a step" where
  "or_refuse status why e = refuse status why"

definition decoded :: "'a option \<Rightarrow> ('a \<Rightarrow> 'b step) \<Rightarrow> 'b step" where
  "decoded body k = (case body of None \<Rightarrow> refuse 400 Malformed | Some req \<Rightarrow> k req)"

definition checked :: "nat \<Rightarrow> reason + 'a \<Rightarrow> ('a \<Rightarrow> 'b step) \<Rightarrow> 'b step" where
  "checked status x k = (case x of Inl why \<Rightarrow> refuse status why | Inr a \<Rightarrow> k a)"

definition publish :: "string \<Rightarrow> string \<Rightarrow> unit step" where
  "publish event name = (\<lambda>s. (Inr (), s\<lparr>sv_published := sv_published s @ [(event, name)]\<rparr>))"

definition clock_now :: "instant step" where
  "clock_now = read (\<lambda>s. clock (sv_world s))"

definition event_lookup_error :: "failure \<Rightarrow> 'a step" where
  "event_lookup_error e = (if e = NotFound then refuse 404 NoSuchEvent else refuse 500 CouldNotLoadEvent)"

definition group_lookup_error :: "failure \<Rightarrow> 'a step" where
  "group_lookup_error e = (if e = NotFound then refuse 404 NoSuchGroup else refuse 500 CouldNotLoadGroup)"

section \<open>Authentication\<close>

record authed =
  au_event :: store_event
  au_participant :: store_participant

definition require_participant :: "env \<Rightarrow> string \<Rightarrow> string \<Rightarrow> (authed \<Rightarrow> 'a step) \<Rightarrow> 'a step" where
  "require_participant env slug header next =
     (let token = trim_space header in
      if token = '''' then refuse 401 MissingToken
      else
        call (event_by_slug slug) event_lookup_error (\<lambda>ev.
        call (participant_by_token env (se_id ev) token)
          (\<lambda>e. if e = NotFound then refuse 401 UnrecognisedToken else refuse 500 CouldNotVerify)
          (\<lambda>p. next \<lparr>au_event = ev, au_participant = p\<rparr>)))"

definition optional_participant :: "env \<Rightarrow> string \<Rightarrow> string \<Rightarrow> store_participant option step" where
  "optional_participant env header event =
     (let token = trim_space header in
      if token = '''' then ret None
      else call (participant_by_token env event token) (\<lambda>_. ret None) (\<lambda>p. ret (Some p)))"

record authed_member =
  am_group :: store_group
  am_member :: group_member

definition require_group_member :: "env \<Rightarrow> string \<Rightarrow> string \<Rightarrow> (authed_member \<Rightarrow> 'a step) \<Rightarrow> 'a step" where
  "require_group_member env slug header next =
     (let token = trim_space header in
      if token = '''' then refuse 401 MissingToken
      else
        call (group_by_slug slug) group_lookup_error (\<lambda>g.
        call (group_member_by_token env (sg_id g) token)
          (\<lambda>e. if e = NotFound then refuse 401 UnrecognisedToken else refuse 500 CouldNotVerify)
          (\<lambda>m. next \<lparr>am_group = g, am_member = m\<rparr>)))"

section \<open>Equations\<close>

lemma refuse_apply [op_simps, simp]: "refuse st why s = (Inl (st, why), s)" by (simp add: refuse_def)
lemma reply_apply [op_simps, simp]: "reply st body s = (Inr (st, body), s)" by (simp add: reply_def)

lemma run_apply [op_simps]: "run m s = (case m (sv_world s) of (r, w) \<Rightarrow> (r, s\<lparr>sv_world := w\<rparr>))"
  by (simp add: run_def)

lemma call_apply [op_simps]:
  "call m h k s = (case m (sv_world s) of
     (Inl e, w) \<Rightarrow> h e (s\<lparr>sv_world := w\<rparr>) | (Inr a, w) \<Rightarrow> k a (s\<lparr>sv_world := w\<rparr>))"
  by (simp add: call_def catch_apply run_apply split: prod.split sum.split)

lemma or_refuse_apply [op_simps, simp]: "or_refuse st why e s = (Inl (st, why), s)" by (simp add: or_refuse_def)

lemma decoded_apply [op_simps]:
  "decoded body k s = (case body of None \<Rightarrow> (Inl (400, Malformed), s) | Some req \<Rightarrow> k req s)"
  by (simp add: decoded_def split: option.split)

lemma checked_apply [op_simps]:
  "checked st x k s = (case x of Inl why \<Rightarrow> (Inl (st, why), s) | Inr a \<Rightarrow> k a s)"
  by (simp add: checked_def split: sum.split)

lemma publish_apply [op_simps]: "publish event name s = (Inr (), s\<lparr>sv_published := sv_published s @ [(event, name)]\<rparr>)"
  by (simp add: publish_def)

lemma server_collapse [simp]: "s\<lparr>sv_world := sv_world s\<rparr> = (s :: server)" by simp

section \<open>Predicates the handlers preserve\<close>

lemma preserves_refuse [inv_intros]: "preserves P (refuse st why)"
  by (simp add: preserves_def)

lemma preserves_reply [inv_intros]: "preserves P (reply st body)"
  by (simp add: preserves_def)

lemma preserves_or_refuse [inv_intros]: "preserves P (or_refuse st why e)"
  by (simp add: preserves_def)

lemma preserves_decoded [inv_intros]: "(\<And>req. preserves P (k req)) \<Longrightarrow> preserves P (decoded body k)"
  by (auto simp: preserves_def decoded_apply split: option.split)

lemma preserves_checked [inv_intros]: "(\<And>a. x = Inr a \<Longrightarrow> preserves P (k a)) \<Longrightarrow> preserves P (checked st x k)"
  by (auto simp: preserves_def checked_apply split: sum.split)

lemma preserves_event_error [inv_intros]: "preserves P (event_lookup_error e)"
  by (simp add: preserves_def event_lookup_error_def)

lemma preserves_group_error [inv_intros]: "preserves P (group_lookup_error e)"
  by (simp add: preserves_def group_lookup_error_def)

lemma preserves_clock_now [inv_intros]: "preserves P clock_now"
  unfolding clock_now_def by (rule preserves_read)

abbreviation on_world :: "(world \<Rightarrow> bool) \<Rightarrow> server \<Rightarrow> bool" where
  "on_world P s \<equiv> P (sv_world s)"

lemma preserves_call [inv_intros]:
  assumes "preserves P m" "\<And>e. preserves (on_world P) (h e)" "\<And>a. preserves (on_world P) (k a)"
  shows "preserves (on_world P) (call m h k)"
proof (rule preservesI)
  fix s :: server assume s: "P (sv_world s)"
  show "P (sv_world (snd (call m h k s)))"
    using preservesD [OF assms(1) s] preservesD [OF assms(2)] preservesD [OF assms(3)]
    by (auto simp: call_apply split: prod.split sum.split)
qed

lemma preserves_publish [inv_intros]: "preserves (on_world P) (publish event name)"
  by (simp add: preserves_def publish_apply)

lemma preserves_require_participant [inv_intros]:
  assumes "preserves P (event_by_slug slug)" "\<And>e t. preserves P (participant_by_token env e t)"
    "\<And>a. preserves (on_world P) (next a)"
  shows "preserves (on_world P) (require_participant env slug header next)"
  unfolding require_participant_def using assms by (intro inv_intros)

lemma preserves_optional_participant [inv_intros]:
  "(\<And>e t. preserves P (participant_by_token env e t)) \<Longrightarrow> preserves (on_world P) (optional_participant env header event)"
  unfolding optional_participant_def by (intro inv_intros)

lemma preserves_require_group_member [inv_intros]:
  assumes "preserves P (group_by_slug slug)" "\<And>e t. preserves P (group_member_by_token env e t)"
    "\<And>a. preserves (on_world P) (next a)"
  shows "preserves (on_world P) (require_group_member env slug header next)"
  unfolding require_group_member_def using assms by (intro inv_intros)

section \<open>Operations that only read\<close>

definition reads_only :: "('s, 'e, 'a) op \<Rightarrow> bool" where
  "reads_only m \<longleftrightarrow> (\<forall>s. snd (m s) = s)"

named_theorems reads_intros \<open>operations that leave the whole state as it is\<close>

lemma reads_onlyD: "reads_only m \<Longrightarrow> m s = (r, s') \<Longrightarrow> s' = s"
  by (metis reads_only_def snd_conv)

lemma reads_basic [reads_intros]:
  "reads_only (ret a)" "reads_only (fail e)" "reads_only (read f)" "reads_only (of_option e x)"
  by (simp_all add: reads_only_def of_option_apply split: option.split)

lemma reads_seq [reads_intros]:
  assumes "reads_only m" "\<And>a. reads_only (k a)"
  shows "reads_only (seq m k)"
proof -
  have "snd (seq m k s) = s" for s
    using assms by (cases "m s") (auto simp: reads_only_def seq_apply split: sum.split dest: reads_onlyD [OF assms(1)])
  then show ?thesis by (simp add: reads_only_def)
qed

lemma reads_catch [reads_intros]:
  assumes "reads_only m" "\<And>e. reads_only (h e)" "\<And>a. reads_only (k a)"
  shows "reads_only (catch m h k)"
proof -
  have "snd (catch m h k s) = s" for s
    using assms by (cases "m s") (auto simp: reads_only_def catch_apply split: sum.split dest: reads_onlyD [OF assms(1)])
  then show ?thesis by (simp add: reads_only_def)
qed

lemma reads_branches [reads_intros]:
  "reads_only m \<Longrightarrow> reads_only n \<Longrightarrow> reads_only (if b then m else n)"
  "reads_only m \<Longrightarrow> (\<And>a. reads_only (k a)) \<Longrightarrow> reads_only (case x of None \<Rightarrow> m | Some a \<Rightarrow> k a)"
  "(\<And>e. reads_only (h e)) \<Longrightarrow> (\<And>c. reads_only (l c)) \<Longrightarrow> reads_only (case y of Inl e \<Rightarrow> h e | Inr c \<Rightarrow> l c)"
  "(\<And>u v. reads_only (p u v)) \<Longrightarrow> reads_only (case z of (u, v) \<Rightarrow> p u v)"
  by (simp_all split: option.split sum.split prod.split)

lemma reads_run [reads_intros]: "reads_only m \<Longrightarrow> reads_only (run m)"
  by (auto simp: reads_only_def run_apply split: prod.split dest: reads_onlyD [of m])
    (metis prod.collapse reads_only_def reads_onlyD server_collapse)

lemma reads_call [reads_intros]:
  "reads_only m \<Longrightarrow> (\<And>e. reads_only (h e)) \<Longrightarrow> (\<And>a. reads_only (k a)) \<Longrightarrow> reads_only (call m h k)"
  unfolding call_def by (intro reads_intros)

lemma reads_refuse [reads_intros]: "reads_only (refuse st why)" "reads_only (or_refuse st why e)" "reads_only (reply st b)"
  by (simp_all add: reads_only_def)

lemma reads_statements [reads_intros]:
  "reads_only (select_one tbl P)" "reads_only (select_rows g)" "reads_only now"
  by (simp_all add: reads_only_def select_one_def select_rows_def now_def of_option_apply split: option.split)

lemma reads_not_found [reads_intros]: "reads_only m \<Longrightarrow> reads_only (not_found m)"
  unfolding not_found_def by (intro reads_intros)

lemma reads_parse [reads_intros]: "reads_only (parse_uuid env x)"
  unfolding parse_uuid_def by (intro reads_intros)

lemma reads_lookups [reads_intros]:
  "reads_only (event_by_slug slug)" "reads_only (participant_by_token env event token)"
  "reads_only (participants_of env event)" "reads_only (responses_for_participant env participant)"
  "reads_only (responses_for_event env event)" "reads_only (busy_blocks env participant)"
  unfolding event_by_slug_def participant_by_token_def participants_of_def responses_for_participant_def
    responses_for_event_def busy_blocks_def lookup_defs
  by (intro reads_intros)+

lemma reads_errors [reads_intros]: "reads_only (event_lookup_error e)" "reads_only (group_lookup_error e)"
  by (simp_all add: reads_only_def event_lookup_error_def group_lookup_error_def)

lemma reads_history [reads_intros]: "reads_only (group_decision_history env g)"
  unfolding group_decision_history_def lookup_defs by (intro reads_intros)

section \<open>The guard\<close>

text \<open>A request that passes carries the token of a participant row of the very event it names.\<close>

lemma require_participant_Inr:
  assumes "scan_ok env" "require_participant env slug header next s = (Inr r, s')"
  obtains e p where "find (\<lambda>e. ev_slug e = slug) (tbl_events (tables (sv_world s))) = Some e"
    "p \<in> set (tbl_participants (tables (sv_world s)))" "pt_event p = ev_id e"
    "pt_token p = env_hash env (trim_space header)" "trim_space header \<noteq> ''''"
    "next \<lparr>au_event = decode_event e, au_participant = decode_participant p\<rparr> s = (Inr r, s')"
proof -
  have scan: "env_scan env (uuid_string u) = Some u" for u using assms(1) by (simp add: scan_ok_def)
  have "trim_space header \<noteq> ''''" using assms(2) by (auto simp: require_participant_def)
  moreover from this obtain e where e: "find (\<lambda>e. ev_slug e = slug) (tbl_events (tables (sv_world s))) = Some e"
    using assms(2) by (cases "find (\<lambda>e. ev_slug e = slug) (tbl_events (tables (sv_world s)))")
      (simp_all add: require_participant_def call_apply event_by_slug_eq event_lookup_error_def)
  moreover have id: "env_scan env (se_id (decode_event e)) = Some (ev_id e)" by (simp add: decode_event_def scan)
  let ?P = "\<lambda>p. pt_event p = ev_id e \<and> pt_token p = env_hash env (trim_space header)"
  obtain p where p: "find ?P (tbl_participants (tables (sv_world s))) = Some p"
    using assms(2) e \<open>trim_space header \<noteq> ''''\<close> by (cases "find ?P (tbl_participants (tables (sv_world s)))")
      (simp_all add: require_participant_def call_apply event_by_slug_eq participant_by_token_eq [OF id])
  moreover from p have "next \<lparr>au_event = decode_event e, au_participant = decode_participant p\<rparr> s = (Inr r, s')"
    using assms(2) e \<open>trim_space header \<noteq> ''''\<close>
    by (simp add: require_participant_def call_apply event_by_slug_eq participant_by_token_eq [OF id])
  ultimately show thesis using that [of e p] find_Some_mem [OF p] by blast
qed

end
