(* ===== verification/RequestFacts.thy ===== *)
theory RequestFacts
  imports Requests StoreFacts
begin

text \<open>The facts about \<open>Requests\<close>.\<close>

lemma and_then_simps [simp]:
  "and_then (Inl e) f = Inl e" "and_then (Inr a) f = f a"
  by (simp_all add: and_then_def)

lemma and_then_Inr: "and_then x f = Inr b \<longleftrightarrow> (\<exists>a. x = Inr a \<and> f a = Inr b)"
  by (cases x) simp_all

lemma wrap_Inr: "wrap g x = Inr a \<longleftrightarrow> x = Inr a"
  by (cases x) (simp_all add: wrap_def)

lemmas request_Inr = and_then_Inr wrap_Inr

section \<open>Trimmed text\<close>

lemma rune_width_wide: "1 < rune_width (c # s) \<Longrightarrow> 194 \<le> byte c"
  by (auto simp: rune_width_def split: list.splits if_splits)

lemma rune_shape: "r \<in> set (runes s) \<Longrightarrow> \<exists>c rest. r = c # rest \<and> (rest = [] \<or> 194 \<le> byte c)"
proof (induction s rule: runes.induct)
  case (2 c s)
  from rune_width_pos [of "c # s"] obtain w where w: "rune_width (c # s) = Suc w"
    by (cases "rune_width (c # s)") auto
  show ?case
  proof (cases "r = take (rune_width (c # s)) (c # s)")
    case True
    then show ?thesis using rune_width_wide [of c s] by (cases w) (auto simp: w)
  next
    case False
    then show ?thesis using 2 by (simp add: runes.simps(2))
  qed
qed simp

lemma trim_space_runes:
  "\<exists>rs. trim_space s = concat rs \<and> set rs \<subseteq> set (runes s) \<and> (rs \<noteq> [] \<longrightarrow> \<not> is_space (last rs))"
proof -
  let ?l = "dropWhile is_space (runes s)"
  let ?r = "dropWhile is_space (rev ?l)"
  have "rev ?r \<noteq> [] \<Longrightarrow> \<not> is_space (last (rev ?r))"
    by (metis hd_dropWhile last_rev rev_is_Nil_conv)
  moreover have "set (rev ?r) \<subseteq> set (runes s)"
    by (metis set_dropWhileD set_rev subsetI)
  ultimately show ?thesis unfolding trim_space_def by blast
qed

lemma trimmed_present:
  assumes "trim_space s \<noteq> ''''"
  shows "present (trim_space s)"
proof -
  obtain rs where rs: "trim_space s = concat rs" "set rs \<subseteq> set (runes s)" "rs \<noteq> [] \<longrightarrow> \<not> is_space (last rs)"
    using trim_space_runes by blast
  have "rs \<noteq> []" using assms rs(1) by auto
  then have r: "last rs \<in> set rs" "\<not> is_space (last rs)" using rs(3) by auto
  then obtain c rest where c: "last rs = c # rest" "rest = [] \<or> 194 \<le> byte c"
    using rune_shape rs(2) by blast
  have "c \<noteq> CHR '' ''"
  proof
    assume "c = CHR '' ''"
    then have "last rs = '' ''" using c by auto
    then show False using r(2) by (simp add: is_space_def rune_value_def)
  qed
  moreover have "c \<in> set (trim_space s)" using r(1) c(1) by (auto simp: rs(1) intro!: bexI [of _ "last rs"])
  ultimately show ?thesis by (auto simp: present_def list_ex_iff)
qed

section \<open>Dates and times of day\<close>

definition printable_time :: "time_of_day \<Rightarrow> bool" where
  "printable_time t \<longleftrightarrow> 0 \<le> tod_minute t \<and> tod_minute t < 60 \<and> 0 \<le> tod_hour t
     \<and> (tod_hour t < 24 \<or> tod_hour t = 24 \<and> tod_minute t = 0)"

lemma pad_not_empty: "0 \<le> n \<Longrightarrow> n < 100 \<Longrightarrow> pad_int 2 n \<noteq> ''''"
  using pad_int_digits(2) [of n 2] by auto

lemma parse_date_Inr: "parse_date s = Inr d \<Longrightarrow> valid_day d \<and> 0 \<le> d_year d \<and> d_year d < 10000"
proof -
  assume "parse_date s = Inr d"
  then obtain y m k where p: "parse_iso_date s = Some (y, m, k)" "d = Date y m k"
    by (auto simp: parse_date_def split: if_splits option.splits)
  then obtain n where n: "nat_of_digits (take 4 s) = Some n" "y = int n" "valid_date y m k" "length s = 10"
    by (auto simp: parse_iso_date_def split: if_splits option.splits)
  have "list_all is_digit (take 4 s)" "length (take 4 s) = 4"
    using n(1,4) by (auto simp: nat_of_digits_def split: if_splits)
  then have "digits_value (take 4 s) < 10000" using digits_value_bound [of "take 4 s"] by simp
  then have "n < 10000" using n(1) by (auto simp: nat_of_digits_def split: if_splits)
  then show ?thesis using p(2) n(2,3) by simp
qed

lemma parse_time_Inr: "parse_time_of_day_or s def = Inr t \<Longrightarrow> printable_time def \<Longrightarrow> printable_time t"
  by (auto simp: parse_time_of_day_or_def printable_time_def split: if_splits option.splits)

text \<open>
  A date and a time of day are read back from the form they are printed in: every calendar date of
  the years 0 to 9999, and every time of day up to and including 24:00.
\<close>

theorem wall_clock_roundtrip:
  assumes "valid_day d" "0 \<le> d_year d" "d_year d < 10000" "printable_time t"
  shows "parse_date (date_string d) = Inr d \<and> parse_time_of_day_or (time_string t) def = Inr t"
proof
  have "parse_iso_date (date_string d) = Some (d_year d, d_month d, d_day d)"
    unfolding date_string_def by (rule parse_iso_date_format) (use assms(1-3) in \<open>simp_all\<close>)
  moreover have "date_string d \<noteq> ''''" by (simp add: date_string_def)
  ultimately show "parse_date (date_string d) = Inr d" by (simp add: parse_date_def)
  have h: "0 \<le> tod_hour t" "tod_hour t < 100" "0 \<le> tod_minute t" "tod_minute t < 100"
    using assms(4) by (auto simp: printable_time_def)
  have cutted: "cut (CHR '':'') (time_string t) = Some (pad_int 2 (tod_hour t), pad_int 2 (tod_minute t))"
    using pad_int_digits(1) [of "tod_hour t" 2] h by (simp add: time_string_def cut_digits)
  have nums: "atoi (pad_int 2 (tod_hour t)) = Some (tod_hour t)" "atoi (pad_int 2 (tod_minute t)) = Some (tod_minute t)"
    using pad_int_digits(3) [of "tod_hour t" 2] pad_int_digits(3) [of "tod_minute t" 2] h
    by (simp_all add: atoi_digits nat_less_iff)
  have "time_string t \<noteq> ''''" by (simp add: time_string_def)
  then show "parse_time_of_day_or (time_string t) def = Inr t"
    using assms(4) by (auto simp: parse_time_of_day_or_def cutted nums printable_time_def)
qed

lemma wall_clock_roundtrip_witness:
  "parse_date (date_string (Date 2024 2 29)) = Inr (Date 2024 2 29)
    \<and> parse_time_of_day_or (time_string \<lparr>tod_hour = 24, tod_minute = 0\<rparr>) \<lparr>tod_hour = 9, tod_minute = 0\<rparr>
      = Inr \<lparr>tod_hour = 24, tod_minute = 0\<rparr>"
  by (rule wall_clock_roundtrip)
    (simp_all add: valid_date_def printable_time_def month_start_def leap_day_def leap_def)

section \<open>Answers\<close>

definition answer_at :: "stored_response list \<Rightarrow> instant \<Rightarrow> (tier \<times> string) option" where
  "answer_at rs t = map_option (\<lambda>r. (sr_tier r, sr_source r)) (find (\<lambda>r. sr_slot r = t) rs)"

text \<open>How a coarse selection of the request is read.\<close>

definition reads_coarse :: "coarse_selection \<Rightarrow> selection \<Rightarrow> bool" where
  "reads_coarse c s \<longleftrightarrow> parse_block (co_block c) = Some (cell_block (sel_cell s))
     \<and> parse_date (co_date c) = Inr (cell_date (sel_cell s)) \<and> parse_tier (co_tier c) = Some (sel_tier s)"

definition readable_coarse :: "coarse_selection \<Rightarrow> bool" where
  "readable_coarse c \<longleftrightarrow> parse_block (co_block c) \<noteq> None \<and> (\<exists>d. parse_date (co_date c) = Inr d) \<and> parse_tier (co_tier c) \<noteq> None"

lemma read_coarse_Inr: "read_coarse i cs = Inr sel \<Longrightarrow> list_all2 reads_coarse cs sel"
proof (induction cs arbitrary: i sel)
  case (Cons c cs)
  then show ?case
    by (auto simp: reads_coarse_def and_then_Inr split: option.splits sum.splits)
qed simp

lemma read_coarse_iff: "(\<exists>sel. read_coarse i cs = Inr sel) \<longleftrightarrow> list_all readable_coarse cs"
proof (induction cs arbitrary: i)
  case (Cons c cs)
  show ?case
    using Cons.IH [of "Suc i"]
    by (auto simp: readable_coarse_def and_then_Inr split: option.splits sum.splits)
qed simp

lemma overlay_Inr:
  "overlay valid i sls acc = Inr acc' \<Longrightarrow>
     (fst acc' t, snd acc' t) = (case find (\<lambda>sl. valid (unix_nano (sl_start sl)) = Some t) (rev sls) of
        None \<Rightarrow> (fst acc t, snd acc t) | Some sl \<Rightarrow> (parse_tier (sl_tier sl), Some ''manual''))"
proof (induction sls arbitrary: i acc)
  case (Cons sl sls)
  then obtain c t' where c: "valid (unix_nano (sl_start sl)) = Some c" "parse_tier (sl_tier sl) = Some t'"
      "overlay valid (Suc i) sls ((fst acc)(c \<mapsto> t'), (snd acc)(c \<mapsto> ''manual'')) = Inr acc'"
    by (auto split: option.splits)
  from Cons.IH [OF c(3)] show ?case
    by (auto simp: find_append c(1,2) split: option.split)
qed simp

lemma overlay_iff:
  "(\<exists>acc'. overlay valid i sls acc = Inr acc') \<longleftrightarrow>
     list_all (\<lambda>sl. valid (unix_nano (sl_start sl)) \<noteq> None \<and> parse_tier (sl_tier sl) \<noteq> None) sls"
  by (induction sls arbitrary: i acc) (auto split: option.splits)

lemma find_keyed: "(\<And>x. key (f x) = x) \<Longrightarrow> find (\<lambda>r. key r = t) (map f xs) = (if t \<in> set xs then Some (f t) else None)"
  by (induction xs) auto

lemma answer_collected:
  "answer_at (collect_answers slots acc) t = (if t \<in> set slots
     then map_option (\<lambda>x. (x, case snd acc t of None \<Rightarrow> '''' | Some s \<Rightarrow> s)) (fst acc t) else None)"
  by (auto simp: answer_at_def collect_answers_def find_keyed [where key = sr_slot])

lemma collected_sorted:
  "sorted (map sr_slot (collect_answers slots acc)) \<and> distinct (map sr_slot (collect_answers slots acc))
     \<and> set (map sr_slot (collect_answers slots acc)) \<subseteq> set slots"
  by (auto simp: collect_answers_def o_def)

lemma valid_slot:
  assumes "inj_on unix_nano (set slots)"
  shows "map_of_loop unix_nano (\<lambda>t. t) slots k = Some t \<longleftrightarrow> t \<in> set slots \<and> unix_nano t = k"
proof
  assume "map_of_loop unix_nano (\<lambda>t. t) slots k = Some t"
  then show "t \<in> set slots \<and> unix_nano t = k" by (auto simp: map_of_loop_last dest!: find_Some_mem)
next
  assume "t \<in> set slots \<and> unix_nano t = k"
  moreover have "map_of_loop unix_nano (\<lambda>t. t) slots (unix_nano t) = Some t" if "t \<in> set slots"
    by (rule map_of_loop_key) (use assms that in \<open>auto dest: inj_onD\<close>)
  ultimately show "map_of_loop unix_nano (\<lambda>t. t) slots k = Some t" by auto
qed

text \<open>What is wrong with an entry, and with the whole submission, in the order of its entries.\<close>

definition coarse_fault :: "nat \<Rightarrow> coarse_selection \<Rightarrow> reason option" where
  "coarse_fault i c =
     (if parse_block (co_block c) = None then Some (CoarseBlock i (co_block c))
      else case parse_date (co_date c) of
        Inl e \<Rightarrow> Some (CoarseDate i e)
      | Inr d \<Rightarrow> if parse_tier (co_tier c) = None then Some (CoarseTier i (co_tier c)) else None)"

definition slot_fault :: "instant list \<Rightarrow> nat \<Rightarrow> slot_selection \<Rightarrow> reason option" where
  "slot_fault slots i sl =
     (if \<forall>t \<in> set slots. unix_nano t \<noteq> unix_nano (sl_start sl) then Some (NotASlotAt i (sl_start sl))
      else if parse_tier (sl_tier sl) = None then Some (SlotTier i (sl_tier sl)) else None)"

definition faults :: "instant list \<Rightarrow> put_responses_request \<Rightarrow> reason list" where
  "faults slots req =
     List.map_filter (\<lambda>(i, c). coarse_fault i c) (enumerate 0 (pq_coarse req))
     @ List.map_filter (\<lambda>(i, sl). slot_fault slots i sl) (enumerate 0 (pq_slots req))"

lemma read_coarse_faults:
  "case read_coarse i cs of
     Inl e \<Rightarrow> \<exists>later. List.map_filter (\<lambda>(i, c). coarse_fault i c) (enumerate i cs) = e # later
   | Inr sel \<Rightarrow> List.map_filter (\<lambda>(i, c). coarse_fault i c) (enumerate i cs) = []"
proof (induction cs arbitrary: i)
  case (Cons c cs)
  show ?case
  proof (cases "coarse_fault i c")
    case None
    then obtain b d t where "parse_block (co_block c) = Some b" "parse_date (co_date c) = Inr d" "parse_tier (co_tier c) = Some t"
      by (auto simp: coarse_fault_def split: if_splits sum.splits)
    then show ?thesis using None Cons.IH [of "Suc i"]
      by (cases "read_coarse (Suc i) cs") (simp_all add: and_then_def)
  next
    case (Some e)
    then have "read_coarse i (c # cs) = Inl e"
      by (auto simp: coarse_fault_def and_then_def split: option.splits if_splits sum.splits)
    then show ?thesis using Some by simp
  qed
qed (simp add: List.map_filter_simps)

lemma overlay_faults:
  assumes "\<And>k. valid k \<noteq> None \<longleftrightarrow> (\<exists>t \<in> set slots. unix_nano t = k)"
  shows "case overlay valid i sls acc of
     Inl e \<Rightarrow> \<exists>later. List.map_filter (\<lambda>(i, sl). slot_fault slots i sl) (enumerate i sls) = e # later
   | Inr acc' \<Rightarrow> List.map_filter (\<lambda>(i, sl). slot_fault slots i sl) (enumerate i sls) = []"
proof (induction sls arbitrary: i acc)
  case (Cons sl sls)
  show ?case
  proof (cases "valid (unix_nano (sl_start sl))")
    case None
    then have "\<forall>t \<in> set slots. unix_nano t \<noteq> unix_nano (sl_start sl)" using assms [of "unix_nano (sl_start sl)"] by blast
    then show ?thesis using None by (simp add: slot_fault_def)
  next
    case (Some c)
    then have there: "\<not> (\<forall>t \<in> set slots. unix_nano t \<noteq> unix_nano (sl_start sl))" using assms [of "unix_nano (sl_start sl)"] by blast
    show ?thesis
    proof (cases "parse_tier (sl_tier sl)")
      case None
      then show ?thesis using Some there by (auto simp: slot_fault_def)
    next
      case tier: (Some t)
      have "slot_fault slots i sl = None" using there tier by (auto simp: slot_fault_def)
      then show ?thesis using Some tier Cons.IH [of "Suc i" "((fst acc)(c \<mapsto> t), (snd acc)(c \<mapsto> ''manual''))"]
        by (auto split: sum.splits)
    qed
  qed
qed (simp add: List.map_filter_simps)

text \<open>
  C35: A submission is refused exactly when a coarse selection cannot be read, or a fine one names no
  slot of the event or no tier; the reason given is the first fault in the order of the coarse and then
  the fine selections, with its index and what is wrong with it. When it is accepted, the answers are for
  different slots of the event in order, and the answer for a slot is the last fine selection for it,
  marked manual, or else the last coarse selection of its cell in the responder's zone, marked coarse, or
  else none.
\<close>

theorem build_responses_exact:
  assumes "inj_on unix_nano (set slots)"
  shows "case build_responses slots loc req of
      Inl why \<Rightarrow> (\<exists>later. faults slots req = why # later) \<and> \<not> (list_all readable_coarse (pq_coarse req)
        \<and> list_all (\<lambda>sl. (\<exists>t \<in> set slots. unix_nano t = unix_nano (sl_start sl)) \<and> parse_tier (sl_tier sl) \<noteq> None) (pq_slots req))
    | Inr rs \<Rightarrow> list_all readable_coarse (pq_coarse req)
      \<and> list_all (\<lambda>sl. (\<exists>t \<in> set slots. unix_nano t = unix_nano (sl_start sl)) \<and> parse_tier (sl_tier sl) \<noteq> None) (pq_slots req)
      \<and> sorted (map sr_slot rs) \<and> distinct (map sr_slot rs)
      \<and> (\<exists>sel. list_all2 reads_coarse (pq_coarse req) sel \<and> (\<forall>t. answer_at rs t =
          (if t \<notin> set slots then None
           else case find (\<lambda>sl. unix_nano (sl_start sl) = unix_nano t) (rev (pq_slots req)) of
               Some sl \<Rightarrow> map_option (\<lambda>x. (x, ''manual'')) (parse_tier (sl_tier sl))
             | None \<Rightarrow> map_option (\<lambda>s. (sel_tier s, ''coarse'')) (find (\<lambda>s. sel_cell s = cell_of t loc) (rev sel)))))"
proof -
  let ?valid = "map_of_loop unix_nano (\<lambda>t. t) slots"
  let ?fine = "list_all (\<lambda>sl. (\<exists>t \<in> set slots. unix_nano t = unix_nano (sl_start sl)) \<and> parse_tier (sl_tier sl) \<noteq> None) (pq_slots req)"
  have valid_iff: "?valid k \<noteq> None \<longleftrightarrow> (\<exists>t \<in> set slots. unix_nano t = k)" for k
    using valid_slot [OF assms] by auto
  have fine: "(\<exists>acc'. overlay ?valid 0 (pq_slots req) acc = Inr acc') \<longleftrightarrow> ?fine" for acc
    by (simp only: overlay_iff valid_iff)
  show ?thesis
  proof (cases "read_coarse 0 (pq_coarse req)")
    case (Inl e)
    then have "\<not> list_all readable_coarse (pq_coarse req)" using read_coarse_iff [of 0 "pq_coarse req"] by auto
    moreover have "\<exists>later. faults slots req = e # later"
      using Inl read_coarse_faults [of 0 "pq_coarse req"] by (auto simp: faults_def)
    ultimately show ?thesis using Inl by (simp add: build_responses_def)
  next
    case (Inr sel)
    then have coarse: "list_all readable_coarse (pq_coarse req)" using read_coarse_iff [of 0 "pq_coarse req"] by blast
    define acc where "acc = (expand_selections slots loc sel, \<lambda>t. map_option (\<lambda>_. ''coarse'') (expand_selections slots loc sel t))"
    have build: "build_responses slots loc req = and_then (overlay ?valid 0 (pq_slots req) acc) (\<lambda>acc. Inr (collect_answers slots acc))"
      by (simp add: build_responses_def Inr acc_def Let_def)
    show ?thesis
    proof (cases "overlay ?valid 0 (pq_slots req) acc")
      case (Inl e)
      then have "\<not> ?fine" using fine [of acc] by auto
      moreover have "\<exists>later. faults slots req = e # later"
        using Inl overlay_faults [OF valid_iff, of 0 "pq_slots req" acc] read_coarse_faults [of 0 "pq_coarse req"] \<open>read_coarse 0 (pq_coarse req) = Inr sel\<close>
        by (auto simp: faults_def)
      ultimately show ?thesis by (simp add: build Inl)
    next
      case (Inr acc')
      have "answer_at (collect_answers slots acc') t = (if t \<notin> set slots then None
           else case find (\<lambda>sl. unix_nano (sl_start sl) = unix_nano t) (rev (pq_slots req)) of
               Some sl \<Rightarrow> map_option (\<lambda>x. (x, ''manual'')) (parse_tier (sl_tier sl))
             | None \<Rightarrow> map_option (\<lambda>s. (sel_tier s, ''coarse'')) (find (\<lambda>s. sel_cell s = cell_of t loc) (rev sel)))" for t
      proof (cases "t \<in> set slots")
        case True
        then have eq: "(?valid k = Some t) = (k = unix_nano t)" for k using valid_slot [OF assms] by auto
        show ?thesis
          using overlay_Inr [OF Inr, of t] True
          by (auto simp: answer_collected eq acc_def expand_selections_lookup split: option.splits)
      qed (simp add: answer_collected)
      moreover have "list_all2 reads_coarse (pq_coarse req) sel" by (rule read_coarse_Inr [OF \<open>read_coarse 0 (pq_coarse req) = Inr sel\<close>])
      moreover have "?fine" using fine [of acc] Inr by blast
      ultimately show ?thesis using coarse collected_sorted [of slots acc'] by (auto simp: build Inr)
    qed
  qed
qed


definition demo_submission :: put_responses_request where
  "demo_submission = \<lparr>pq_coarse = [\<lparr>co_date = ''1970-01-01'', co_block = ''morning'', co_tier = ''ok''\<rparr>],
     pq_slots = [\<lparr>sl_start = 10 * hour, sl_tier = ''preferred''\<rparr>], pq_timezone = ''''\<rparr>"

lemma demo_cells:
  "cell_of (10 * hour) utc = Cell (Date 1970 1 1) Morning" "cell_of (11 * hour) utc = Cell (Date 1970 1 1) Morning"
  by code_simp+

lemma demo_date: "parse_date ''1970-01-01'' = Inr (Date 1970 1 1)"
  by code_simp

lemma build_responses_exact_witness:
  "\<exists>rs. build_responses [10 * hour, 11 * hour] utc demo_submission = Inr rs
    \<and> answer_at rs (10 * hour) = Some (TierPreferred, ''manual'') \<and> answer_at rs (11 * hour) = Some (TierOK, ''coarse'')"
proof -
  have "unix_nano (10 * hour) \<noteq> unix_nano (11 * hour)" by (simp add: unix_nano_def duration_units)
  then have inj: "inj_on unix_nano (set [10 * hour, 11 * hour])" "unix_nano (10 * hour) \<noteq> unix_nano (11 * hour)" by auto
  have readable: "list_all readable_coarse (pq_coarse demo_submission)"
    by (simp add: demo_submission_def readable_coarse_def parse_block_def parse_tier_def demo_date)
  have fine: "list_all (\<lambda>sl. (\<exists>t \<in> set [10 * hour, 11 * hour]. unix_nano t = unix_nano (sl_start sl)) \<and> parse_tier (sl_tier sl) \<noteq> None)
      (pq_slots demo_submission)"
    by (simp add: demo_submission_def parse_tier_def)
  from build_responses_exact [OF inj(1), where loc = utc and req = demo_submission] readable fine
  obtain rs sel where rs: "build_responses [10 * hour, 11 * hour] utc demo_submission = Inr rs"
      "list_all2 reads_coarse (pq_coarse demo_submission) sel"
      "\<forall>t. answer_at rs t = (if t \<notin> set [10 * hour, 11 * hour] then None
           else case find (\<lambda>sl. unix_nano (sl_start sl) = unix_nano t) (rev (pq_slots demo_submission)) of
               Some sl \<Rightarrow> map_option (\<lambda>x. (x, ''manual'')) (parse_tier (sl_tier sl))
             | None \<Rightarrow> map_option (\<lambda>s. (sel_tier s, ''coarse'')) (find (\<lambda>s. sel_cell s = cell_of t utc) (rev sel)))"
    by (cases "build_responses [10 * hour, 11 * hour] utc demo_submission") auto
  from rs(2) obtain s where s: "sel = [s]" "sel_cell s = Cell (Date 1970 1 1) Morning" "sel_tier s = TierOK"
    by (cases "sel_cell (hd sel)") (auto simp: demo_submission_def list_all2_Cons1 reads_coarse_def parse_block_def parse_tier_def demo_date)
  have "answer_at rs (10 * hour) = Some (TierPreferred, ''manual'')"
    using rs(3) by (simp add: demo_submission_def parse_tier_def)
  moreover have "answer_at rs (11 * hour) = Some (TierOK, ''coarse'')"
    using rs(3) inj(2) s by (simp add: demo_submission_def demo_cells)
  ultimately show ?thesis using rs(1) by blast
qed

text \<open>
  The key of an instant is its 64-bit count of nanoseconds, which repeats every 2^64 nanoseconds: a
  time 584 years away from a slot is accepted as an answer for that slot.
\<close>

theorem distant_time_taken_for_slot:
  "build_responses [10 * hour] utc \<lparr>pq_coarse = [], pq_slots = [\<lparr>sl_start = 10 * hour + 2 ^ 64, sl_tier = ''no''\<rparr>], pq_timezone = ''''\<rparr>
     = Inr [\<lparr>sr_slot = 10 * hour, sr_tier = TierNo, sr_source = ''manual''\<rparr>]"
proof -
  have "unix_nano (10 * hour + 2 ^ 64) = unix_nano (10 * hour)"
    by (simp add: unix_nano_def)
  then show ?thesis
    by (simp add: build_responses_def expand_selections_def map_of_loop_def parse_tier_def collect_answers_def)
qed


end
