(* ===== verification/Results.thy ===== *)
theory Results
  imports RequestFacts
begin

text \<open>
  \<^verbatim>\<open>api/internal/results/results.go\<close>: stored participants and answers become the solver's
  input. Somebody who has submitted has answered every slot, with \<open>no\<close> where nothing was stored;
  somebody who has not is left unknown. Main fact: \<open>build_silence\<close>.
\<close>

record solver_input =
  in_slots :: "instant list"
  in_participants :: "participant list"
  in_responses :: responses

definition solver_participant :: "env \<Rightarrow> store_participant \<Rightarrow> participant" where
  "solver_participant env p =
     \<lparr>p_id = sp_id p, p_name = sp_name p,
      p_role = (if sp_role p = ''required'' then RoleRequired else RoleOptional),
      p_loc = Some (case load_zone env (sp_tz p) of None \<Rightarrow> utc | Some loc \<Rightarrow> loc)\<rparr>"

text \<open>The answers of one person who has submitted.\<close>

definition answers_by_slot :: "instant list \<Rightarrow> stored_response list \<Rightarrow> (instant \<rightharpoonup> tier)" where
  "answers_by_slot slots rs =
     (let canonical = map_of_loop unix_nano (\<lambda>s. s) slots;
          unspoken = map_of_loop (\<lambda>s. s) (\<lambda>_. TierNo) slots
      in foldl (\<lambda>m r. case canonical (unix_nano (sr_slot r)) of
                  None \<Rightarrow> m | Some s \<Rightarrow> m(s \<mapsto> sr_tier r)) unspoken rs)"

definition build :: "env \<Rightarrow> store_participant list \<Rightarrow> (string \<rightharpoonup> stored_response list) \<Rightarrow> instant list \<Rightarrow> solver_input" where
  "build env ps rs slots =
     \<lparr>in_slots = slots,
      in_participants = map (solver_participant env) ps,
      in_responses = foldl (\<lambda>m p. if \<not> responded p then m
         else m(sp_id p \<mapsto> answers_by_slot slots (case rs (sp_id p) of None \<Rightarrow> [] | Some l \<Rightarrow> l))) Map.empty ps\<rparr>"

definition responded_count :: "store_participant list \<Rightarrow> nat" where
  "responded_count ps = length (filter responded ps)"

section \<open>Facts\<close>

lemma no_canonical: "map_of_loop unix_nano (\<lambda>t. t) slots k = None \<longleftrightarrow> (\<forall>t \<in> set slots. unix_nano t \<noteq> k)"
  by (auto simp: map_of_loop_last find_None_iff)

lemma map_of_loop_const: "map_of_loop (\<lambda>s. s) (\<lambda>_. c) slots t = (if t \<in> set slots then Some c else None)"
  using map_of_loop_id [of "\<lambda>_. c" slots t] by simp

lemma answers_by_slot_lookup:
  assumes "inj_on unix_nano (set slots)"
  shows "answers_by_slot slots rs t = (if t \<in> set slots
    then Some (case find (\<lambda>r. unix_nano (sr_slot r) = unix_nano t) (rev rs) of None \<Rightarrow> TierNo | Some r \<Rightarrow> sr_tier r)
    else None)"
proof (induction rs rule: rev_induct)
  case Nil
  then show ?case by (simp add: answers_by_slot_def map_of_loop_const)
next
  case (snoc r rs)
  let ?c = "map_of_loop unix_nano (\<lambda>s. s) slots (unix_nano (sr_slot r))"
  have step: "answers_by_slot slots (rs @ [r]) = (case ?c of None \<Rightarrow> answers_by_slot slots rs
      | Some s \<Rightarrow> (answers_by_slot slots rs)(s \<mapsto> sr_tier r))"
    unfolding answers_by_slot_def Let_def by simp
  show ?case
  proof (cases ?c)
    case None
    then have "t \<in> set slots \<Longrightarrow> unix_nano (sr_slot r) \<noteq> unix_nano t" by (auto simp: no_canonical)
    then show ?thesis by (auto simp: step None snoc)
  next
    case (Some s)
    then have s: "s \<in> set slots" "unix_nano s = unix_nano (sr_slot r)" using valid_slot [OF assms] by auto
    have "t \<in> set slots \<Longrightarrow> (unix_nano (sr_slot r) = unix_nano t) = (s = t)"
      using s inj_on_eq_iff [OF assms, of s t] by auto
    then show ?thesis using s(1) by (auto simp: step Some snoc)
  qed
qed

lemma build_responses_lookup:
  assumes "distinct (map sp_id ps)" "p \<in> set ps"
  shows "in_responses (build env ps rs slots) (sp_id p) =
    (if responded p then Some (answers_by_slot slots (case rs (sp_id p) of None \<Rightarrow> [] | Some l \<Rightarrow> l)) else None)"
  using assms
proof (induction ps rule: rev_induct)
  case (snoc q ps)
  have other: "in_responses (build env qs rs slots) k = None" if "k \<notin> sp_id ` set qs" for k qs
    using that by (induction qs rule: rev_induct) (auto simp: build_def)
  have step: "in_responses (build env (ps @ [q]) rs slots) = (if \<not> responded q then in_responses (build env ps rs slots)
      else (in_responses (build env ps rs slots))(sp_id q \<mapsto>
        answers_by_slot slots (case rs (sp_id q) of None \<Rightarrow> [] | Some l \<Rightarrow> l)))"
    by (simp add: build_def)
  show ?case
  proof (cases "p = q")
    case True
    then show ?thesis using snoc.prems by (auto simp: step other)
  next
    case False
    then have "p \<in> set ps" "sp_id q \<noteq> sp_id p" using snoc.prems by auto
    then show ?thesis using snoc.IH snoc.prems by (auto simp: step)
  qed
qed simp

text \<open>
  What silence means. For somebody who has submitted, the solver sees an answer for every slot: the
  stored one, or "no" where there is none; for somebody who has not submitted it sees no answer at all;
  and an answer to an instant that is no slot of the event is not seen by anybody.
\<close>

theorem build_silence:
  assumes "distinct (map sp_id ps)" "inj_on unix_nano (set slots)" "p \<in> set ps"
  shows "get (in_responses (build env ps rs slots)) (sp_id p) t =
    (if \<not> responded p \<or> t \<notin> set slots then None
     else Some (case find (\<lambda>r. unix_nano (sr_slot r) = unix_nano t) (rev (case rs (sp_id p) of None \<Rightarrow> [] | Some l \<Rightarrow> l)) of
        None \<Rightarrow> TierNo | Some r \<Rightarrow> sr_tier r))"
  using build_responses_lookup [OF assms(1,3), of env rs slots]
  by (simp add: get_def answers_by_slot_lookup [OF assms(2)])

definition demo_people :: "store_participant list" where
  "demo_people = map decode_participant
     [(demo_participant 2 ''Ann'' ''required'')\<lparr>pt_responded := Some 0\<rparr>, demo_participant 3 ''Bob'' ''optional'']"

lemma build_silence_witness:
  "get (in_responses (build demo_env demo_people
      (\<lambda>_. Some [\<lparr>sr_slot = 10 * hour, sr_tier = TierOK, sr_source = ''manual''\<rparr>]) [10 * hour, 11 * hour])) (uuid_string 2) (10 * hour) = Some TierOK
   \<and> get (in_responses (build demo_env demo_people
      (\<lambda>_. Some [\<lparr>sr_slot = 10 * hour, sr_tier = TierOK, sr_source = ''manual''\<rparr>]) [10 * hour, 11 * hour])) (uuid_string 2) (11 * hour) = Some TierNo
   \<and> get (in_responses (build demo_env demo_people
      (\<lambda>_. Some [\<lparr>sr_slot = 10 * hour, sr_tier = TierOK, sr_source = ''manual''\<rparr>]) [10 * hour, 11 * hour])) (uuid_string 3) (10 * hour) = None"
proof -
  let ?ann = "decode_participant ((demo_participant 2 ''Ann'' ''required'')\<lparr>pt_responded := Some 0\<rparr>)"
  let ?bob = "decode_participant (demo_participant 3 ''Bob'' ''optional'')"
  have d: "distinct (map sp_id demo_people)" by (simp add: demo_people_def decode_participant_def demo_participant_def)
  have far: "unix_nano (10 * hour) \<noteq> unix_nano (11 * hour)" by (simp add: unix_nano_def duration_units)
  then have i: "inj_on unix_nano (set [10 * hour, 11 * hour])" by auto
  have a: "?ann \<in> set demo_people" "sp_id ?ann = uuid_string 2" "responded ?ann"
    and b: "?bob \<in> set demo_people" "sp_id ?bob = uuid_string 3" "\<not> responded ?bob"
    by (simp_all add: demo_people_def decode_participant_def demo_participant_def responded_def)
  note one = build_silence [OF d i a(1), of demo_env "\<lambda>_. Some [\<lparr>sr_slot = 10 * hour, sr_tier = TierOK, sr_source = ''manual''\<rparr>]"]
  note two = build_silence [OF d i b(1), of demo_env "\<lambda>_. Some [\<lparr>sr_slot = 10 * hour, sr_tier = TierOK, sr_source = ''manual''\<rparr>]"]
  show ?thesis using one [of "10 * hour"] one [of "11 * hour"] two [of "10 * hour"] far a b by simp
qed


end
