(* ===== verification/EventHandlers.thy ===== *)
theory EventHandlers
  imports Api Results
begin

text \<open>
  The handlers of \<^verbatim>\<open>api/internal/server/events.go\<close> and \<^verbatim>\<open>responses.go\<close>: creating
  and reading an event, joining it, and submitting answers. Main facts (\<open>EventHandlerFacts\<close>): the
  database never refuses an event the request parser accepts, reading changes nothing, and a submission
  stores exactly the stated answers with the calendar's filling the gaps.
\<close>

section \<open>Creating an event\<close>

record create_event_response =
  cv_slug :: string
  cv_token :: string
  cv_participant :: string

text \<open>The \<^verbatim>\<open>store.Event\<close> literal the handler expands before it inserts; the other fields are zero values.\<close>

definition draft_event :: "new_event \<Rightarrow> store_event" where
  "draft_event inp =
     \<lparr>se_id = '''', se_slug = '''', se_title = '''', se_tz = ne_tz inp, se_window_start = ne_window_start inp,
      se_window_end = ne_window_end inp, se_day_start = ne_day_start inp, se_day_end = ne_day_end inp,
      se_slot_minutes = ne_slot_minutes inp, se_status = '''', se_decided_slot = None, se_decided_at = None,
      se_group = None, se_created = zero_time, se_expires = zero_time\<rparr>"

definition handle_create_event :: "env \<Rightarrow> create_event_request option \<Rightarrow> create_event_response handler" where
  "handle_create_event env body =
     decoded body (\<lambda>req.
     checked 400 (to_new_event env req) (\<lambda>inp.
     checked 400 (wrap SlotsRefused (event_slots env (draft_event inp))) (\<lambda>_.
     call (create_event env inp) (or_refuse 500 CouldNotCreateEvent) (\<lambda>created.
     reply 201 \<lparr>cv_slug = se_slug (ce_event created), cv_token = ce_token created,
       cv_participant = (case ce_organizer created of None \<Rightarrow> '''' | Some p \<Rightarrow> sp_id p)\<rparr>))))"

section \<open>Reading an event\<close>

record dst_note =
  dn_date :: string
  dn_time :: string
  dn_reason :: string
  dn_detail :: string

definition note_of :: "string \<Rightarrow> string \<Rightarrow> anomaly \<Rightarrow> dst_note" where
  "note_of why detail a =
     \<lparr>dn_date = date_string (an_date a), dn_time = time_string (an_local a), dn_reason = why, dn_detail = detail\<rparr>"

definition dst_notes :: "expansion \<Rightarrow> dst_note list" where
  "dst_notes ex =
     map (note_of ''nonexistent'' ''the clock skipped this time when it moved forward, so no slot was created'') (skipped ex)
     @ map (note_of ''ambiguous'' ''the clock read this time twice; the slot uses the first occurrence'') (ambiguous ex)"

record participant_view =
  pv_id :: string
  pv_name :: string
  pv_role :: string
  pv_organizer :: bool
  pv_responded :: bool

definition participant_view_of :: "store_participant \<Rightarrow> participant_view" where
  "participant_view_of p = \<lparr>pv_id = sp_id p, pv_name = sp_name p, pv_role = sp_role p,
     pv_organizer = sp_organizer p, pv_responded = responded p\<rparr>"

record response_view =
  rv_slot :: instant
  rv_tier :: string
  rv_source :: string

definition response_view_of :: "stored_response \<Rightarrow> response_view" where
  "response_view_of r = \<lparr>rv_slot = sr_slot r, rv_tier = tier_string (sr_tier r), rv_source = sr_source r\<rparr>"

record self_view =
  me_participant :: string
  me_name :: string
  me_tz :: string
  me_role :: string
  me_organizer :: bool
  me_responded :: bool
  me_calendar :: string
  me_responses :: "response_view list"

definition self_view_of :: "store_participant \<Rightarrow> stored_response list \<Rightarrow> self_view" where
  "self_view_of me rs = \<lparr>me_participant = sp_id me, me_name = sp_name me, me_tz = sp_tz me, me_role = sp_role me,
     me_organizer = sp_organizer me, me_responded = responded me, me_calendar = sp_calendar me,
     me_responses = map response_view_of rs\<rparr>"

record event_response =
  er_slug :: string
  er_title :: string
  er_tz :: string
  er_window_start :: string
  er_window_end :: string
  er_day_start :: string
  er_day_end :: string
  er_slot_minutes :: int
  er_status :: string
  er_slots :: "instant list"
  er_notes :: "dst_note list"
  er_expires :: instant
  er_group :: string
  er_participants :: "participant_view list"
  er_you :: "self_view option"

definition event_response_of ::
  "store_event \<Rightarrow> expansion \<Rightarrow> string \<Rightarrow> store_participant list \<Rightarrow> self_view option \<Rightarrow> event_response" where
  "event_response_of ev ex group_slug ps you =
     \<lparr>er_slug = se_slug ev, er_title = se_title ev, er_tz = se_tz ev,
      er_window_start = date_string (se_window_start ev), er_window_end = date_string (se_window_end ev),
      er_day_start = time_string (se_day_start ev), er_day_end = time_string (se_day_end ev),
      er_slot_minutes = se_slot_minutes ev, er_status = se_status ev, er_slots = starts ex,
      er_notes = dst_notes ex, er_expires = se_expires ev, er_group = group_slug,
      er_participants = map participant_view_of ps, er_you = you\<rparr>"

definition handle_get_event :: "env \<Rightarrow> string \<Rightarrow> string \<Rightarrow> event_response handler" where
  "handle_get_event env slug header =
     call (event_by_slug slug) event_lookup_error (\<lambda>ev.
     case event_slots env ev of
       Inl _ \<Rightarrow> refuse 500 CouldNotExpand
     | Inr ex \<Rightarrow>
         seq (case se_group ev of
                None \<Rightarrow> ret ''''
              | Some g \<Rightarrow> call (group_by_id env g) (\<lambda>_. ret '''') (\<lambda>grp. ret (sg_slug grp))) (\<lambda>group_slug.
         call (participants_of env (se_id ev)) (or_refuse 500 CouldNotLoadParticipants) (\<lambda>ps.
         seq (optional_participant env header (se_id ev)) (\<lambda>me.
         case me of
           None \<Rightarrow> reply 200 (event_response_of ev ex group_slug ps None)
         | Some p \<Rightarrow>
             call (responses_for_participant env (sp_id p)) (or_refuse 500 CouldNotLoadResponses) (\<lambda>rs.
             reply 200 (event_response_of ev ex group_slug ps (Some (self_view_of p rs))))))))"

section \<open>Joining\<close>

record join_response =
  jv_participant :: string
  jv_token :: string
  jv_name :: string
  jv_tz :: string
  jv_role :: string

definition join_response_of :: "store_participant \<Rightarrow> string \<Rightarrow> join_response" where
  "join_response_of p token = \<lparr>jv_participant = sp_id p, jv_token = token, jv_name = sp_name p, jv_tz = sp_tz p,
     jv_role = sp_role p\<rparr>"

definition handle_join :: "env \<Rightarrow> string \<Rightarrow> join_request option \<Rightarrow> join_response handler" where
  "handle_join env slug body =
     call (event_by_slug slug) event_lookup_error (\<lambda>ev.
     decoded body (\<lambda>req.
     checked 400 (to_new_participant env req (se_tz ev)) (\<lambda>inp.
     call (join_event env (se_id ev) inp) (or_refuse 500 CouldNotJoin) (\<lambda>(p, token).
     reply 201 (join_response_of p token)))))"

section \<open>Submitting answers\<close>

definition handle_put_responses :: "env \<Rightarrow> authed \<Rightarrow> put_responses_request option \<Rightarrow> nat handler" where
  "handle_put_responses env a body =
     decoded body (\<lambda>req.
     case event_slots env (au_event a) of
       Inl _ \<Rightarrow> refuse 500 CouldNotExpand
     | Inr ex \<Rightarrow>
         if pq_timezone req \<noteq> '''' \<and> \<not> valid_zone env (pq_timezone req)
         then refuse 400 (UnknownZone (pq_timezone req))
         else
           let zone = (if pq_timezone req \<noteq> '''' then pq_timezone req else sp_tz (au_participant a)) in
           case load_zone env zone of
             None \<Rightarrow> refuse 400 (ZoneRefused zone)
           | Some loc \<Rightarrow>
               checked 400 (build_responses (starts ex) loc req) (\<lambda>stated.
               call (responses_for_participant env (sp_id (au_participant a))) (or_refuse 500 CouldNotSaveResponses) (\<lambda>prior.
               let rs = merge_calendar_rows stated prior in
               call (save_responses env (sp_id (au_participant a)) rs) (or_refuse 500 CouldNotSaveResponses) (\<lambda>_.
               seq (publish (se_id (au_event a)) ''response_submitted'') (\<lambda>_.
               reply 200 (length rs))))))"

text \<open>The routes that need a token, with their guard.\<close>

definition put_responses_route :: "env \<Rightarrow> string \<Rightarrow> string \<Rightarrow> put_responses_request option \<Rightarrow> nat handler" where
  "put_responses_route env slug header body =
     require_participant env slug header (\<lambda>a. handle_put_responses env a body)"

end
