(* ===== verification/EventHandlerFacts.thy ===== *)
theory EventHandlerFacts
  imports EventHandlers
begin

text \<open>The facts about \<open>EventHandlers\<close>.\<close>

section \<open>What the database accepts\<close>

lemma to_new_event_Inr:
  assumes "to_new_event env req = Inr inp"
  shows "ne_title inp = trim_space (cr_title req) \<and> ne_title inp \<noteq> '''' \<and> present (ne_title inp)
    \<and> valid_zone env (ne_tz inp) \<and> ne_tz inp = cr_timezone req
    \<and> valid_day (ne_window_start inp) \<and> valid_day (ne_window_end inp)
    \<and> printable_time (ne_day_start inp) \<and> printable_time (ne_day_end inp)
    \<and> 5 \<le> ne_slot_minutes inp \<and> ne_slot_minutes inp \<le> 480 \<and> ne_group inp = ''''
    \<and> (\<forall>org. ne_organizer inp = Some org \<longrightarrow> present (np_name org) \<and> np_name org = trim_space (cr_organizer_name req))"
proof -
  have def: "printable_time \<lparr>tod_hour = 9, tod_minute = 0\<rparr>" "printable_time \<lparr>tod_hour = 17, tod_minute = 0\<rparr>"
    by (simp_all add: printable_time_def)
  from assms show ?thesis
    by (auto simp: to_new_event_def Let_def request_Inr trimmed_present split: if_splits
        dest!: parse_date_Inr parse_time_Inr [OF _ def(1)] parse_time_Inr [OF _ def(2)])
qed

lemma encode_date_days: "encode_date d = day_number d * 86400 * second"
  by (simp add: encode_date_def time_date_def unix_of_wall_def wall_sec_def)

lemma encode_date_mono:
  assumes "valid_day d" "valid_day e" "\<not> date_after d e"
  shows "encode_date d \<le> encode_date e"
  using day_number_less_iff [OF assms(2,1)] assms(3) by (auto simp: encode_date_days second_def not_less less_date_def)

lemma slots_validate:
  assumes "event_slots env (draft_event inp) = Inr ex"
  shows "minutes (ne_day_start inp) < minutes (ne_day_end inp) \<and> \<not> date_after (ne_window_start inp) (ne_window_end inp)"
  using assms
  by (auto simp: event_slots_def event_window_def draft_event_def expand_def validate_def no_expansion_def
      split: option.splits sum.splits if_splits)

text \<open>A row made of an accepted request breaks no constraint but the two that depend on random draws.\<close>

lemma accepted_event_row:
  assumes "to_new_event env req = Inr inp" "event_slots env (draft_event inp) = Inr ex"
    "create_event_in_group_row env' (params_of slug inp) None s = (Inl e, s')"
  shows "e \<in> {Violation ''events_slug_key'', Violation ''events_pkey''}"
proof -
  note r = to_new_event_Inr [OF assms(1)] and v = slots_validate [OF assms(2)]
  have mins: "sint (int32 (ne_slot_minutes inp)) = ne_slot_minutes inp" using r by (intro sint_int32) auto
  have day: "encode_time_of_day (ne_day_start inp) < encode_time_of_day (ne_day_end inp)"
    using v by (simp add: encode_time_of_day_def minutes_def micros_per_minute_def)
  have win: "encode_date (ne_window_start inp) \<le> encode_date (ne_window_end inp)"
    using r v by (intro encode_date_mono) auto
  show ?thesis
    using assms(3) r mins day win
    by (auto simp: create_event_in_group_row_def draw_def now_def modify_def op_simps Let_def event_checks_def params_of_def
        dest!: first_broken_Some split: option.splits)
qed

lemma accepted_organizer_row:
  assumes "present (pp_name arg)" "pp_role arg = ''required''" "pp_member arg = None" "pp_event arg \<in> ev_id ` set (tbl_events (tables s))"
    "insert_participant env arg s = (Inl e, s')"
  shows "e \<in> {Violation ''participants_pkey'', Violation ''participants_event_token_idx''}"
  using assms
  by (auto simp: insert_participant_def draw_def now_def modify_def op_simps Let_def participant_checks_def
      dest!: first_broken_Some split: option.splits)

definition collision :: "failure \<Rightarrow> bool" where
  "collision e \<longleftrightarrow> e \<in> {NoFreeSlug, Violation ''events_slug_key'', Violation ''events_pkey'',
     Violation ''participants_pkey'', Violation ''participants_event_token_idx''}"

lemma accepted_event_tx:
  assumes "to_new_event env req = Inr inp" "event_slots env (draft_event inp) = Inr ex"
    "create_event_tx env slug inp s = (Inl e, s')"
  shows "collision e"
proof -
  have none: "parse_group env (ne_group inp) = ret None"
    using to_new_event_Inr [OF assms(1)] by (simp add: parse_group_def)
  from assms(3) consider
      (event) s1 where "create_event_in_group_row env (params_of slug inp) None s = (Inl e, s1)"
    | (organizer) row s1 org t s2 where "create_event_in_group_row env (params_of slug inp) None s = (Inr row, s1)"
        "ne_organizer inp = Some org"
        "create_participant_row env \<lparr>pp_event = ev_id row, pp_token = t, pp_name = np_name org,
                pp_tz = or_default (np_tz org) (ne_tz inp), pp_role = ''required'', pp_organizer = True,
                pp_member = None\<rparr> (s1\<lparr>drawn := Suc (drawn s1)\<rparr>) = (Inl e, s2)"
    by (auto simp: create_event_tx_def transaction_def none seq_apply new_token_eq Let_def
        split: prod.splits sum.splits option.splits)
  then show ?thesis
  proof cases
    case event
    show ?thesis using accepted_event_row [OF assms(1,2) event] by (auto simp: collision_def)
  next
    case organizer
    have "ev_id row \<in> ev_id ` set (tbl_events (tables s1))"
      using insert_event_Inr [OF organizer(1)] by auto
    moreover have "present (np_name org)" using to_new_event_Inr [OF assms(1)] organizer(2) by blast
    ultimately show ?thesis
      using accepted_organizer_row [OF _ _ _ _ organizer(3) [unfolded create_participant_row_def]]
      by (auto simp: collision_def)
  qed
qed

lemma retry_slug_Inl:
  "retry_slug env c tx n s = (Inl e, s') \<Longrightarrow> e = NoFreeSlug \<or> (\<exists>slug s1 s2. tx slug s1 = (Inl e, s2))"
proof (induction n arbitrary: s)
  case (Suc n)
  then show ?case
    by (auto simp: seq_apply catch_apply new_slug_eq split: prod.splits sum.splits if_splits)
qed simp

text \<open>
  The checks of the request parser imply the constraints of the tables. When creating an event is
  refused, no table has changed and nothing was published; the refusal is a 400 with the parser's reason,
  or a 500 that only a collision of random draws (slug, identifier or token) can cause.
\<close>

theorem create_event_refusals:
  assumes "handle_create_event env body s = (Inl (status, why), s')"
  shows "tables (sv_world s') = tables (sv_world s) \<and> sv_published s' = sv_published s
    \<and> (status = 400 \<and> why \<noteq> CouldNotCreateEvent
       \<or> status = 500 \<and> why = CouldNotCreateEvent \<and> (\<exists>inp e w. create_event env inp (sv_world s) = (Inl e, w) \<and> collision e))"
proof -
  have parse: "why' \<noteq> CouldNotCreateEvent" if "to_new_event env req = Inl why'" for req why'
    using that by (auto simp: to_new_event_def Let_def and_then_def wrap_def split: if_splits sum.splits)
  note h = assms [unfolded handle_create_event_def]
  show ?thesis
  proof (cases body)
    case None
    then show ?thesis using h by (simp add: decoded_apply)
  next
    case (Some req)
    show ?thesis
    proof (cases "to_new_event env req")
      case (Inl w)
      then show ?thesis using h parse by (auto simp: Some op_simps)
    next
      case (Inr inp)
      note accepted = this
      show ?thesis
      proof (cases "event_slots env (draft_event inp)")
        case (Inl f)
        then show ?thesis using h by (auto simp: Some accepted op_simps wrap_def)
      next
        case (Inr ex)
        obtain r w where made: "create_event env inp (sv_world s) = (r, w)" by (cases "create_event env inp (sv_world s)")
        with h obtain e where e: "r = Inl e" "status = 500" "why = CouldNotCreateEvent" "s' = s\<lparr>sv_world := w\<rparr>"
          by (cases r) (auto simp: Some accepted Inr op_simps wrap_def)
        have "collision e"
          using retry_slug_Inl [OF made [unfolded create_event_def e(1)]] accepted_event_tx [OF accepted Inr]
          by (auto simp: collision_def)
        moreover have "tables w = tables (sv_world s)"
          using create_event_loop_Inl [OF made [unfolded create_event_def e(1)]] by simp
        ultimately show ?thesis using e made by auto
      qed
    qed
  qed
qed


definition demo_server :: server where
  "demo_server = \<lparr>sv_world = demo_world, sv_published = [], sv_proposals = new_proposal_cache (30 * second)\<rparr>"

definition demo_request :: "string \<Rightarrow> create_event_request" where
  "demo_request day = \<lparr>cr_title = '' Lunch '', cr_timezone = ''UTC'', cr_window_start = day, cr_window_end = day,
     cr_day_start = '''', cr_day_end = ''12:30'', cr_slot_minutes = 0, cr_organizer_name = ''Dee''\<rparr>"

lemma demo_text: "trim_space '' Lunch '' = ''Lunch''" "rune_count ''Lunch'' = 5" "trim_space ''Dee'' = ''Dee''" "rune_count ''Dee'' = 3"
  by (simp_all add: trim_space_def rune_count_def runes_ascii is_space_def rune_value_def)

lemma demo_zone: "load_zone demo_env ''UTC'' = Some utc" "valid_zone demo_env ''UTC''"
  by (simp_all add: load_zone_eq valid_zone_def demo_env_def)

lemma demo_no_date: "parse_date ''2026-02-30'' = Inl (NotADate ''2026-02-30'')"
  by code_simp

lemma create_event_refusals_witness:
  "\<exists>s'. handle_create_event demo_env (Some (demo_request ''2026-02-30'')) demo_server
      = (Inl (400, InWindowStart (NotADate ''2026-02-30'')), s') \<and> tables (sv_world s') = demo_db"
proof -
  have "to_new_event demo_env (demo_request ''2026-02-30'') = Inl (InWindowStart (NotADate ''2026-02-30''))"
    by (simp add: to_new_event_def demo_request_def demo_text demo_zone demo_no_date wrap_def max_title_runes_def)
  then obtain s' where "handle_create_event demo_env (Some (demo_request ''2026-02-30'')) demo_server
      = (Inl (400, InWindowStart (NotADate ''2026-02-30'')), s')"
    by (simp add: handle_create_event_def op_simps)
  with create_event_refusals [OF this] show ?thesis by (auto simp: demo_server_def)
qed


section \<open>What a submission stores\<close>

definition nano_range :: "instant \<Rightarrow> bool" where
  "nano_range t \<longleftrightarrow> - (2 ^ 63) \<le> t \<and> t < 2 ^ 63"

lemma unix_nano_inj: "nano_range s \<Longrightarrow> nano_range t \<Longrightarrow> unix_nano s = unix_nano t \<longleftrightarrow> s = t"
proof
  assume r: "nano_range s" "nano_range t" and eq: "unix_nano s = unix_nano t"
  have inv: "sint (unix_nano u) = u" if "nano_range u" for u
  proof -
    have "sint (unix_nano u) = signed_take_bit 63 u" by (simp add: unix_nano_def sint_sbintrunc')
    also have "\<dots> = u" using that by (simp add: nano_range_def signed_take_bit_int_eq_self_iff)
    finally show ?thesis .
  qed
  show "s = t" using arg_cong [OF eq, of sint] by (simp only: inv [OF r(1)] inv [OF r(2)])
qed simp

lemma answer_at_mem:
  assumes "distinct (map sr_slot rs)" "r \<in> set rs"
  shows "answer_at rs (sr_slot r) = Some (sr_tier r, sr_source r)"
proof -
  have "find (\<lambda>x. sr_slot x = sr_slot r) rs = Some r"
    by (rule find_unique) (use assms distinct_key_eq [OF assms(1)] in auto)
  then show ?thesis by (simp add: answer_at_def)
qed

lemma answer_at_None: "answer_at rs t = None \<longleftrightarrow> t \<notin> sr_slot ` set rs"
  by (auto simp: answer_at_def find_None_iff)

lemma answer_at_same:
  assumes "distinct (map sr_slot rs)" "set rs = set qs" "distinct (map sr_slot qs)"
  shows "answer_at rs t = answer_at qs t"
proof (cases "t \<in> sr_slot ` set rs")
  case True
  then obtain r where "r \<in> set rs" "t = sr_slot r" by blast
  then show ?thesis using answer_at_mem [OF assms(1)] answer_at_mem [OF assms(3)] assms(2) by simp
next
  case False
  then have "answer_at rs t = None" "answer_at qs t = None" using assms(2) by (simp_all add: answer_at_None)
  then show ?thesis by simp
qed

lemma answer_at_sort: "distinct (map sr_slot rs) \<Longrightarrow> answer_at (sort_key sr_slot rs) t = answer_at rs t"
  by (rule answer_at_same) (simp_all add: distinct_map)

lemma answer_at_append: "answer_at (rs @ qs) t = (case answer_at rs t of None \<Rightarrow> answer_at qs t | Some x \<Rightarrow> Some x)"
  by (auto simp: answer_at_def find_append split: option.split)

lemma answer_at_filter:
  assumes "distinct (map sr_slot rs)"
  shows "answer_at (filter P rs) t = (case find (\<lambda>r. sr_slot r = t) rs of
    Some r \<Rightarrow> if P r then Some (sr_tier r, sr_source r) else None | None \<Rightarrow> None)"
  using assms
proof (induction rs)
  case (Cons a rs)
  have "answer_at (filter P rs) t = None" if "sr_slot a = t" using Cons.prems that by (auto simp: answer_at_None)
  then show ?case using Cons by (auto simp: answer_at_def)
qed (simp add: answer_at_def)

text \<open>The stated answer of a slot, or else the calendar's.\<close>

definition merged_answer :: "stored_response list \<Rightarrow> stored_response list \<Rightarrow> instant \<Rightarrow> (tier \<times> string) option" where
  "merged_answer stated prior t = (case answer_at stated t of
     Some x \<Rightarrow> Some x
   | None \<Rightarrow> (case answer_at prior t of
       Some (tier, source) \<Rightarrow> if source = ''calendar'' then Some (tier, source) else None
     | None \<Rightarrow> None))"

lemma merge_distinct:
  assumes "distinct (map sr_slot stated)" "distinct (map sr_slot prior)"
  shows "distinct (map sr_slot (stated @ filter (\<lambda>r. sr_source r = ''calendar'' \<and> unix_nano (sr_slot r) \<notin> unix_nano ` sr_slot ` set stated) prior))"
proof -
  have "sr_slot q \<noteq> sr_slot r" if "q \<in> set stated" "unix_nano (sr_slot r) \<notin> unix_nano ` sr_slot ` set stated" for q r
    using that by (metis imageI)
  then show ?thesis using assms by (auto simp: distinct_map_filter)
qed

lemma merge_answers:
  assumes "distinct (map sr_slot stated)" "distinct (map sr_slot prior)"
    "\<forall>r \<in> set stated. nano_range (sr_slot r)" "\<forall>r \<in> set prior. nano_range (sr_slot r)"
  shows "answer_at (merge_calendar_rows stated prior) t = merged_answer stated prior t"
proof -
  let ?P = "\<lambda>r. sr_source r = ''calendar'' \<and> unix_nano (sr_slot r) \<notin> unix_nano ` sr_slot ` set stated"
  have "answer_at (filter ?P prior) t = (case answer_at prior t of
       Some (tier, source) \<Rightarrow> if source = ''calendar'' then Some (tier, source) else None | None \<Rightarrow> None)"
    if none: "answer_at stated t = None"
  proof (cases "find (\<lambda>r. sr_slot r = t) prior")
    case (Some r)
    then have r: "r \<in> set prior" "sr_slot r = t" using find_Some_mem by force+
    have "unix_nano (sr_slot r) \<notin> unix_nano ` sr_slot ` set stated"
    proof
      assume "unix_nano (sr_slot r) \<in> unix_nano ` sr_slot ` set stated"
      then obtain q where "q \<in> set stated" "unix_nano (sr_slot q) = unix_nano (sr_slot r)" by auto
      then have "sr_slot q = t" using unix_nano_inj assms(3,4) r by blast
      then show False using none \<open>q \<in> set stated\<close> by (auto simp: answer_at_None)
    qed
    then show ?thesis using Some by (simp add: answer_at_filter [OF assms(2)]) (simp add: answer_at_def)
  qed (simp add: answer_at_filter [OF assms(2)], simp add: answer_at_def)
  then show ?thesis
    by (auto simp: merge_calendar_rows_def Let_def answer_at_sort [OF merge_distinct [OF assms(1,2)]]
        answer_at_append merged_answer_def split: option.split)
qed


lemma distinct_map_sort: "distinct (map f (sort_key g xs)) \<longleftrightarrow> distinct (map f xs)"
  by (rule mset_eq_imp_distinct_iff) simp

lemma stored_distinct:
  assumes "db_ok d"
  shows "distinct (map sr_slot (map decode_response (sort_key rs_slot (filter (\<lambda>r. rs_participant r = k) (tbl_responses d)))))"
proof -
  have "distinct (map (\<lambda>r. (rs_participant r, rs_slot r)) (filter (\<lambda>r. rs_participant r = k) (tbl_responses d)))"
    using assms by (intro distinct_map_filter) (simp add: db_ok_def answers_ok_def)
  then have "distinct (map rs_slot (filter (\<lambda>r. rs_participant r = k) (tbl_responses d)))"
    by (auto simp: distinct_map inj_on_def)
  then show ?thesis by (simp add: distinct_map decode_response_def o_def inj_on_def)
qed

lemma sourced_id: "sr_source r \<noteq> '''' \<Longrightarrow> sourced r = r"
  by (simp add: sourced_def or_default_def)

lemma build_responses_Inr:
  assumes "build_responses slots loc req = Inr rs"
  shows "distinct (map sr_slot rs) \<and> sr_slot ` set rs \<subseteq> set slots \<and> (\<forall>r \<in> set rs. sr_source r \<in> {''manual'', ''coarse''})"
proof -
  obtain sel acc where acc: "overlay (map_of_loop unix_nano (\<lambda>t. t) slots) 0 (pq_slots req)
      (expand_selections slots loc sel, \<lambda>t. map_option (\<lambda>_. ''coarse'') (expand_selections slots loc sel t)) = Inr acc"
      "rs = collect_answers slots acc"
    using assms by (auto simp: build_responses_def and_then_Inr Let_def)
  have "fst acc t \<noteq> None \<Longrightarrow> snd acc t = Some ''manual'' \<or> snd acc t = Some ''coarse''" for t
    using overlay_Inr [OF acc(1), of t] by (cases "expand_selections slots loc sel t") (auto split: option.splits)
  then have "\<forall>r \<in> set rs. sr_source r \<in> {''manual'', ''coarse''}"
    by (fastforce simp: acc(2) collect_answers_def split: option.split)
  then show ?thesis using collected_sorted [of slots acc] acc(2) by auto
qed

lemma save_responses_Inr:
  assumes "scan_ok env" "db_ok (tables w)" "save_responses env (uuid_string k) rs w = (Inr u, w')"
  shows "tables w' = replace_responses k rs (clock w) (tables w) \<and> drawn w' = drawn w \<and> clock w' = clock w"
  using assms(3) save_responses_eq [of env "uuid_string k" k w rs] assms(1,2)
  by (auto simp: scan_ok_def Let_def split: option.splits)

lemma put_responses_steps:
  assumes "handle_put_responses env a (Some req) s = (Inr (status, n), s')"
  obtains ex zone loc stated prior w u where "event_slots env (au_event a) = Inr ex" "load_zone env zone = Some loc"
    "zone = (if pq_timezone req \<noteq> '''' then pq_timezone req else sp_tz (au_participant a))"
    "build_responses (starts ex) loc req = Inr stated"
    "responses_for_participant env (sp_id (au_participant a)) (sv_world s) = (Inr prior, w)"
    "save_responses env (sp_id (au_participant a)) (merge_calendar_rows stated prior) w = (Inr u, sv_world s')"
    "n = length (merge_calendar_rows stated prior)" "status = 200"
    "sv_published s' = sv_published s @ [(se_id (au_event a), ''response_submitted'')]"
  using assms
  by (auto simp: handle_put_responses_def op_simps Let_def split: sum.splits if_splits option.splits prod.splits)

text \<open>
  C5: A submission that succeeds leaves, for every slot, the answer it states, or else the answer the
  person's calendar had given, and nothing else; it says how many rows that are, publishes one message to
  the event's watchers, and leaves everybody else's answers alone. The person is recorded as having
  responded now, and nothing else of any participant changes; in particular the zone the submission names
  is used to read the day parts but is not stored.
\<close>

theorem put_responses_exact:
  assumes "scan_ok env" "db_ok (tables (sv_world s))" "sp_id (au_participant a) = uuid_string k"
    "handle_put_responses env a (Some req) s = (Inr (status, n), s')"
    "responses_for_participant env (uuid_string k) (sv_world s) = (Inr prior, w)"
    "\<forall>r \<in> set prior. nano_range (sr_slot r)"
    "\<forall>ex. event_slots env (au_event a) = Inr ex \<longrightarrow> (\<forall>t \<in> set (starts ex). nano_range t)"
  shows "\<exists>ex loc stated after. event_slots env (au_event a) = Inr ex
    \<and> load_zone env (if pq_timezone req \<noteq> '''' then pq_timezone req else sp_tz (au_participant a)) = Some loc
    \<and> build_responses (starts ex) loc req = Inr stated
    \<and> responses_for_participant env (uuid_string k) (sv_world s') = (Inr after, sv_world s') \<and> length after = n
    \<and> (\<forall>t. answer_at after t = merged_answer stated prior t)
    \<and> (\<forall>j. j \<noteq> k \<longrightarrow> fst (responses_for_participant env (uuid_string j) (sv_world s'))
        = fst (responses_for_participant env (uuid_string j) (sv_world s)))
    \<and> sv_published s' = sv_published s @ [(se_id (au_event a), ''response_submitted'')]
    \<and> tbl_participants (tables (sv_world s')) = map (\<lambda>p. if pt_id p = k then p\<lparr>pt_responded := Some (clock (sv_world s))\<rparr> else p)
        (tbl_participants (tables (sv_world s)))
    \<and> status = 200"
proof -
  have scan: "env_scan env (uuid_string u) = Some u" for u using assms(1) by (simp add: scan_ok_def)
  from assms(4) obtain ex zone loc stated prior' w' u where st: "event_slots env (au_event a) = Inr ex" "load_zone env zone = Some loc"
    "zone = (if pq_timezone req \<noteq> '''' then pq_timezone req else sp_tz (au_participant a))"
    "build_responses (starts ex) loc req = Inr stated"
    "responses_for_participant env (sp_id (au_participant a)) (sv_world s) = (Inr prior', w')"
    "save_responses env (sp_id (au_participant a)) (merge_calendar_rows stated prior') w' = (Inr u, sv_world s')"
    "n = length (merge_calendar_rows stated prior')" "status = 200"
    "sv_published s' = sv_published s @ [(se_id (au_event a), ''response_submitted'')]"
    by (rule put_responses_steps)
  have "responses_for_participant env (uuid_string k) (sv_world s) = (Inr prior', w')"
    using st(5) by (simp only: assms(3))
  moreover have "snd (responses_for_participant env (uuid_string k) (sv_world s)) = sv_world s"
    by (simp add: responses_for_participant_eq [OF scan])
  ultimately have prior: "prior' = prior" "w' = sv_world s" using assms(5) by simp_all
  note saved = save_responses_Inr [OF assms(1,2) st(6) [unfolded assms(3) prior]]
  let ?rs = "merge_calendar_rows stated prior"
  have eq: "responses_for_participant env (uuid_string j) (sv_world s') = (Inr (map decode_response (sort_key rs_slot
      (filter (\<lambda>r. rs_participant r = j) (tbl_responses (replace_responses k ?rs (clock (sv_world s)) (tables (sv_world s))))))), sv_world s')" for j
    using saved by (simp add: responses_for_participant_eq [OF scan])
  have built: "distinct (map sr_slot stated)" "\<forall>r \<in> set stated. nano_range (sr_slot r)"
      "\<forall>r \<in> set stated. sr_source r \<in> {''manual'', ''coarse''}"
    using build_responses_Inr [OF st(4)] assms(7) st(1) by auto
  have d: "distinct (map sr_slot prior)"
    using assms(5) stored_distinct [OF assms(2)] by (auto simp: responses_for_participant_eq [OF scan])
  have dm: "distinct (map sr_slot ?rs)"
    using merge_distinct [OF built(1) d] by (simp add: merge_calendar_rows_def Let_def distinct_map_sort del: map_append)
  have "map sourced ?rs = ?rs"
    using built(3) by (intro map_idI sourced_id) (auto simp: merge_calendar_rows_def Let_def)
  then have "fst (responses_for_participant env (uuid_string k) (sv_world s')) = Inr (sort_key sr_slot ?rs)"
    by (simp add: eq replaced_own decode_response_rows)
  then have own: "responses_for_participant env (uuid_string k) (sv_world s') = (Inr (sort_key sr_slot ?rs), sv_world s')"
    by (simp add: eq)
  have "answer_at (sort_key sr_slot ?rs) t = merged_answer stated prior t" for t
    using answer_at_sort [OF dm] merge_answers [OF built(1) d built(2) assms(6)] by simp
  moreover have "fst (responses_for_participant env (uuid_string j) (sv_world s'))
        = fst (responses_for_participant env (uuid_string j) (sv_world s))" if "j \<noteq> k" for j
    by (simp only: eq fst_conv replaced_other [OF that]) (simp add: responses_for_participant_eq [OF scan])
  moreover have "tbl_participants (tables (sv_world s')) = map (\<lambda>p. if pt_id p = k then p\<lparr>pt_responded := Some (clock (sv_world s))\<rparr> else p)
      (tbl_participants (tables (sv_world s)))"
    using saved by (simp add: replace_responses_def mark_responded_def)
  ultimately show ?thesis
    using own st(1,2,4,8,9) by (intro exI [of _ ex] exI [of _ loc] exI [of _ stated] exI [of _ "sort_key sr_slot ?rs"])
      (simp add: st(3,7) prior)
qed


definition demo_authed :: authed where
  "demo_authed = \<lparr>au_event = decode_event demo_event, au_participant = decode_participant (demo_participant 2 ''Ann'' ''required'')\<rparr>"

definition demo_answer :: put_responses_request where
  "demo_answer = \<lparr>pq_coarse = [], pq_slots = [\<lparr>sl_start = 10 * hour, sl_tier = ''preferred''\<rparr>], pq_timezone = ''''\<rparr>"

definition demo_window :: window where
  "demo_window = \<lparr>w_start = Date 1970 1 1, w_end = Date 1970 1 1, w_day_start = \<lparr>tod_hour = 10, tod_minute = 0\<rparr>,
     w_day_end = \<lparr>tod_hour = 13, tod_minute = 0\<rparr>, w_slot_minutes = 60, w_loc = Some utc\<rparr>"

lemma demo_grid: "grid demo_window = [(Date 1970 1 1, 600), (Date 1970 1 1, 660), (Date 1970 1 1, 720)]"
proof -
  have "next_date (Date 1970 1 1) = Date 1970 1 2" by code_simp
  then have "dates_from (Date 1970 1 1) (Date 1970 1 1) = [Date 1970 1 1]"
    by (simp add: dates_from.simps date_after_def)
  moreover have "minutes_from 600 720 60 = [600, 660, 720]" by (simp add: minutes_from.simps)
  ultimately show ?thesis by (simp add: grid_def demo_window_def minutes_def)
qed

lemma demo_expand: "expand demo_window = Inr \<lparr>starts = [10 * hour, 11 * hour, 12 * hour], skipped = [], ambiguous = []\<rparr>"
proof -
  have "resolve (Date 1970 1 1) (local_of_minute 600) utc = (36000 * second, KindNormal)"
    "resolve (Date 1970 1 1) (local_of_minute 660) utc = (39600 * second, KindNormal)"
    "resolve (Date 1970 1 1) (local_of_minute 720) utc = (43200 * second, KindNormal)"
    by (simp_all add: slots_eval)
  moreover have "validate demo_window = None" "w_loc demo_window = Some utc"
    by (simp_all add: validate_def demo_window_def minutes_def date_after_def)
  ultimately show ?thesis
    by (simp add: expand_def demo_grid no_expansion_def local_of_minute_div max_slots_def duration_units)
qed

lemma demo_decoded: "decode_event demo_event = \<lparr>se_id = uuid_string 1, se_slug = ''abc'', se_title = ''Lunch'', se_tz = ''UTC'',
    se_window_start = Date 1970 1 1, se_window_end = Date 1970 1 1, se_day_start = \<lparr>tod_hour = 10, tod_minute = 0\<rparr>,
    se_day_end = \<lparr>tod_hour = 13, tod_minute = 0\<rparr>, se_slot_minutes = 60, se_status = ''open'', se_decided_slot = None,
    se_decided_at = None, se_group = None, se_created = 0, se_expires = days_60\<rparr>"
proof -
  have "decode_date 0 = Date 1970 1 1" by code_simp
  then show ?thesis
    by (simp add: decode_event_def demo_event_def decode_time_of_day_def encode_time_of_day_def micros_per_minute_def)
qed

lemma demo_event_slots: "event_slots demo_env (decode_event demo_event)
  = Inr \<lparr>starts = [10 * hour, 11 * hour, 12 * hour], skipped = [], ambiguous = []\<rparr>"
  by (simp add: event_slots_def event_window_def demo_decoded demo_zone demo_expand [unfolded demo_window_def])

lemma demo_built: "build_responses [10 * hour, 11 * hour, 12 * hour] utc demo_answer
  = Inr [\<lparr>sr_slot = 10 * hour, sr_tier = TierPreferred, sr_source = ''manual''\<rparr>]"
proof -
  have "unix_nano (11 * hour) \<noteq> unix_nano (10 * hour)" "unix_nano (12 * hour) \<noteq> unix_nano (10 * hour)"
    by (simp_all add: unix_nano_def duration_units)
  then show ?thesis
    by (simp add: build_responses_def demo_answer_def expand_selections_def map_of_loop_def parse_tier_def collect_answers_def
        duration_units)
qed

lemma demo_put:
  "\<exists>s'. handle_put_responses demo_env demo_authed (Some demo_answer) demo_server = (Inr (200, 1), s')"
proof -
  have zone: "sp_tz (au_participant demo_authed) = ''UTC''" "pq_timezone demo_answer = ''''" "au_event demo_authed = decode_event demo_event"
    "sp_id (au_participant demo_authed) = uuid_string 2"
    by (simp_all add: demo_authed_def decode_participant_def demo_participant_def demo_answer_def)
  have prior: "responses_for_participant demo_env (uuid_string 2) demo_world = (Inr [], demo_world)"
    by (simp add: responses_for_participant_eq [OF demo_scan(2)]) (simp add: demo_db_def)
  have merge: "merge_calendar_rows [\<lparr>sr_slot = 10 * hour, sr_tier = TierPreferred, sr_source = ''manual''\<rparr>] []
      = [\<lparr>sr_slot = 10 * hour, sr_tier = TierPreferred, sr_source = ''manual''\<rparr>]"
    by (simp add: merge_calendar_rows_def)
  have ok: "db_ok (tables demo_world)" using demo_ok by simp
  have "first_broken (response_checks (demo_db\<lparr>tbl_responses := filter (\<lambda>r. rs_participant r \<noteq> 2) (tbl_responses demo_db)\<rparr>)
      (response_rows 2 [\<lparr>sr_slot = 10 * hour, sr_tier = TierPreferred, sr_source = ''manual''\<rparr>])) = None"
    by (simp add: first_broken_None response_checks_def response_rows_def demo_db_def demo_participant_def or_default_def)
  then have "\<exists>w. save_responses demo_env (uuid_string 2) [\<lparr>sr_slot = 10 * hour, sr_tier = TierPreferred, sr_source = ''manual''\<rparr>] demo_world = (Inr (), w)"
    by (simp add: save_responses_eq [OF demo_scan(2) ok] Let_def)
  then show ?thesis
    by (auto simp: handle_put_responses_def op_simps zone demo_event_slots demo_zone demo_built demo_server_def prior merge Let_def)
qed

lemma put_responses_exact_witness:
  "\<exists>s' after. handle_put_responses demo_env demo_authed (Some demo_answer) demo_server = (Inr (200, 1), s')
    \<and> responses_for_participant demo_env (uuid_string 2) (sv_world s') = (Inr after, sv_world s')
    \<and> answer_at after (10 * hour) = Some (TierPreferred, ''manual'') \<and> answer_at after (11 * hour) = None"
proof -
  obtain s' where h: "handle_put_responses demo_env demo_authed (Some demo_answer) demo_server = (Inr (200, 1), s')"
    using demo_put by blast
  have ok: "db_ok (tables (sv_world demo_server))" using demo_ok by (simp add: demo_server_def)
  have me: "sp_id (au_participant demo_authed) = uuid_string 2" "pq_timezone demo_answer = ''''"
    "sp_tz (au_participant demo_authed) = ''UTC''" "au_event demo_authed = decode_event demo_event"
    by (simp_all add: demo_authed_def decode_participant_def demo_participant_def demo_answer_def)
  have prior: "responses_for_participant demo_env (uuid_string 2) (sv_world demo_server) = (Inr [], demo_world)"
    by (simp add: responses_for_participant_eq [OF demo_scan(2)] demo_server_def) (simp add: demo_db_def)
  have range: "\<forall>ex. event_slots demo_env (au_event demo_authed) = Inr ex \<longrightarrow> (\<forall>t \<in> set (starts ex). nano_range t)"
    by (simp add: me demo_event_slots nano_range_def duration_units)
  from put_responses_exact [OF demo_scan(1) ok me(1) h prior _ range]
  obtain after where "responses_for_participant demo_env (uuid_string 2) (sv_world s') = (Inr after, sv_world s')"
    "\<forall>t. answer_at after t = merged_answer [\<lparr>sr_slot = 10 * hour, sr_tier = TierPreferred, sr_source = ''manual''\<rparr>] [] t"
    by (auto simp: me demo_event_slots demo_zone demo_built)
  moreover from this(2) have "answer_at after (10 * hour) = Some (TierPreferred, ''manual'')" "answer_at after (11 * hour) = None"
    by (simp_all add: merged_answer_def answer_at_def [of "[]"] answer_at_def [of "[r]" for r] duration_units)
  ultimately show ?thesis using h by blast
qed


end
