(* ===== verification/GoFormat.thy ===== *)
theory GoFormat
  imports GoText
begin

text \<open>
  More of Go's text packages: \<open>replace_all\<close> is \<^verbatim>\<open>strings.ReplaceAll\<close> for a non-empty pattern,
  \<open>split_on\<close> is \<^verbatim>\<open>strings.Split\<close> at one character, \<open>to_upper\<close> and \<open>equal_fold\<close> are
  \<^verbatim>\<open>strings.ToUpper\<close> and \<^verbatim>\<open>strings.EqualFold\<close>, and the last section is what
  \<^verbatim>\<open>time\<close> does for the layouts \<^verbatim>\<open>20060102\<close>, \<^verbatim>\<open>20060102T150405\<close> and the
  same with a \<^verbatim>\<open>Z\<close>.

  The two case functions are applied only to be compared with ASCII words. Unicode has three characters
  outside ASCII whose case partner is an ASCII letter, the dotless i, the long s and the Kelvin sign; they
  are modelled, and every other character outside ASCII is left as it is, which no such comparison sees.
\<close>

section \<open>Searching and splitting\<close>

function replace_all :: "string \<Rightarrow> string \<Rightarrow> string \<Rightarrow> string" where
  "replace_all old new [] = []"
| "replace_all old new (c # s) =
     (if old \<noteq> [] \<and> take (length old) (c # s) = old then new @ replace_all old new (drop (length old) (c # s))
      else c # replace_all old new s)"
  by pat_completeness auto

termination
  by (relation "measure (\<lambda>(old, new, s). length s)") (auto simp: Suc_le_eq)

declare replace_all.simps(2) [simp del]

primrec split_on :: "char \<Rightarrow> string \<Rightarrow> string list" where
  "split_on c [] = [[]]"
| "split_on c (x # s) = (if x = c then [] # split_on c s else (x # hd (split_on c s)) # tl (split_on c s))"

definition trim_left :: "char set \<Rightarrow> string \<Rightarrow> string" where
  "trim_left cs s = dropWhile (\<lambda>c. c \<in> cs) s"

definition trim_chars :: "char set \<Rightarrow> string \<Rightarrow> string" where
  "trim_chars cs s = rev (trim_left cs (rev (trim_left cs s)))"

section \<open>Letter case\<close>

definition upper_rune :: "string \<Rightarrow> string" where
  "upper_rune r = (case map byte r of
     [a] \<Rightarrow> (if 97 \<le> a \<and> a \<le> 122 then [char_of (a - 32)] else r)
   | [a, b] \<Rightarrow> (if a = 196 \<and> b = 177 then ''I'' else if a = 197 \<and> b = 191 then ''S'' else r)
   | _ \<Rightarrow> r)"

definition to_upper :: "string \<Rightarrow> string" where
  "to_upper s = concat (map upper_rune (runes s))"

text \<open>A representative of the characters that fold to the same one.\<close>

definition fold_rune :: "string \<Rightarrow> string" where
  "fold_rune r = (case map byte r of
     [a] \<Rightarrow> (if 97 \<le> a \<and> a \<le> 122 then [char_of (a - 32)] else r)
   | [a, b] \<Rightarrow> (if a = 197 \<and> b = 191 then ''S'' else r)
   | [a, b, c] \<Rightarrow> (if a = 226 \<and> b = 132 \<and> c = 170 then ''K'' else r)
   | _ \<Rightarrow> r)"

definition equal_fold :: "string \<Rightarrow> string \<Rightarrow> bool" where
  "equal_fold s t \<longleftrightarrow> map fold_rune (runes s) = map fold_rune (runes t)"

section \<open>Times\<close>

text \<open>The number a layout element writes, with leading zeros after the sign.\<close>

definition append_int :: "nat \<Rightarrow> int \<Rightarrow> string" where
  "append_int w n = (if n < 0 then ''-'' else '''') @ pad_int w \<bar>n\<bar>"

definition format_stamp :: "instant \<Rightarrow> string" where
  "format_stamp t =
     (case date_in utc t of (y, m, d) \<Rightarrow> case clock_in utc t of (h, mi, s) \<Rightarrow>
        append_int 4 y @ append_int 2 m @ append_int 2 d @ ''T'' @ append_int 2 h @ append_int 2 mi @ append_int 2 s @ ''Z'')"

text \<open>Reading elements from the front: the value and the rest. The hour may have a single digit.\<close>

definition fixed_num :: "nat \<Rightarrow> string \<Rightarrow> (int \<times> string) option" where
  "fixed_num w s = (if w \<le> length s then
     (case nat_of_digits (take w s) of None \<Rightarrow> None | Some n \<Rightarrow> Some (int n, drop w s)) else None)"

definition hour_num :: "string \<Rightarrow> (int \<times> string) option" where
  "hour_num s = (case s of
     a # rest \<Rightarrow>
       (if \<not> is_digit a then None
        else case rest of
          b # rest' \<Rightarrow> if is_digit b then Some (int (digits_value [a, b]), rest') else Some (int (digits_value [a]), rest)
        | [] \<Rightarrow> Some (int (digits_value [a]), []))
   | [] \<Rightarrow> None)"

definition parse_ymd :: "string \<Rightarrow> ((int \<times> int \<times> int) \<times> string) option" where
  "parse_ymd s =
     Option.bind (fixed_num 4 s) (\<lambda>(y, s1).
     Option.bind (fixed_num 2 s1) (\<lambda>(m, s2).
     Option.bind (fixed_num 2 s2) (\<lambda>(d, s3).
       if valid_date y m d then Some ((y, m, d), s3) else None)))"

text \<open>A fraction after the seconds is read although the layouts have none; nine digits of it count.\<close>

definition parse_fraction :: "string \<Rightarrow> int \<times> string" where
  "parse_fraction s = (case s of
     p # rest \<Rightarrow>
       (let ds = takeWhile is_digit rest; kept = take 9 ds in
        if (p = CHR ''.'' \<or> p = CHR '','') \<and> ds \<noteq> [] then (int (digits_value kept) * 10 ^ (9 - length kept), drop (length ds) rest)
        else (0, s))
   | [] \<Rightarrow> (0, s))"

definition parse_hms :: "string \<Rightarrow> ((int \<times> int \<times> int \<times> int) \<times> string) option" where
  "parse_hms s =
     Option.bind (hour_num s) (\<lambda>(h, s1).
     Option.bind (fixed_num 2 s1) (\<lambda>(mi, s2).
     Option.bind (fixed_num 2 s2) (\<lambda>(sec, s3).
       if h < 24 \<and> mi < 60 \<and> sec < 60 then (case parse_fraction s3 of (ns, rest) \<Rightarrow> Some ((h, mi, sec, ns), rest)) else None)))"

definition parse_date_in :: "location \<Rightarrow> string \<Rightarrow> instant option" where
  "parse_date_in loc s = (case parse_ymd s of
     Some ((y, m, d), rest) \<Rightarrow> if rest = '''' then Some (time_date y m d 0 0 0 0 loc) else None
   | None \<Rightarrow> None)"

definition parse_stamp_in :: "location \<Rightarrow> string \<Rightarrow> string \<Rightarrow> instant option" where
  "parse_stamp_in loc ending s = (case parse_ymd s of
     Some ((y, m, d), c # s') \<Rightarrow>
       (if c \<noteq> CHR ''T'' then None
        else case parse_hms s' of
          Some ((h, mi, sec, ns), rest) \<Rightarrow> if rest = ending then Some (time_date y m d h mi sec ns loc) else None
        | None \<Rightarrow> None)
   | _ \<Rightarrow> None)"

section \<open>Facts\<close>

lemma replace_all_absent: "\<not> set old \<subseteq> set s \<Longrightarrow> replace_all old new s = s"
proof (induction old new s rule: replace_all.induct)
  case (2 old new c s)
  then have "take (length old) (c # s) \<noteq> old" by (metis set_take_subset)
  then show ?case using 2 by (auto simp: replace_all.simps(2))
qed simp

lemma replace_all_char: "replace_all [a] new s = concat (map (\<lambda>c. if c = a then new else [c]) s)"
  by (induction s) (auto simp: replace_all.simps(2))

lemma split_on_nonempty [simp]: "split_on c s \<noteq> []"
  by (induction s) auto

lemma split_on_append: "c \<notin> set a \<Longrightarrow> split_on c (a @ c # s) = a # split_on c s"
  by (induction a) auto

lemma split_on_last: "c \<notin> set a \<Longrightarrow> split_on c a = [a]"
  by (induction a) auto

lemma split_on_none: "p \<in> set (split_on c s) \<Longrightarrow> c \<notin> set p"
proof (induction s arbitrary: p)
  case (Cons a s)
  obtain q qs where "split_on c s = q # qs" by (cases "split_on c s") simp_all
  then show ?case using Cons by (auto split: if_splits)
qed simp

lemma split_on_concat: "\<forall>p \<in> set ps. c \<notin> set p \<Longrightarrow> split_on c (concat (map (\<lambda>p. p @ [c]) ps)) = ps @ [[]]"
  by (induction ps) (simp_all add: split_on_append)

lemma to_upper_ascii:
  "list_all (\<lambda>c. byte c < 128 \<and> \<not> (97 \<le> byte c \<and> byte c \<le> 122)) s \<Longrightarrow> to_upper s = s"
proof (induction s)
  case (Cons c s)
  then have "runes (c # s) = [c] # runes s" using runes_ascii [of "c # s"] runes_ascii [of s] by (simp add: list_all_iff)
  then show ?case using Cons by (auto simp: to_upper_def upper_rune_def)
qed (simp add: to_upper_def)

lemma trim_space_word:
  assumes "\<forall>c \<in> set s. 33 \<le> byte c \<and> byte c < 128"
  shows "trim_space s = s"
proof -
  have ascii: "list_all (\<lambda>c. byte c < 128) s" using assms by (simp add: list_all_iff)
  have "\<not> is_space [c]" if "c \<in> set s" for c
  proof -
    have "33 \<le> byte c" "byte c < 128" using assms that by auto
    then show ?thesis by (auto simp: is_space_def rune_value_def)
  qed
  then have "dropWhile is_space (map (\<lambda>c. [c]) s) = map (\<lambda>c. [c]) s"
      "dropWhile is_space (rev (map (\<lambda>c. [c]) s)) = rev (map (\<lambda>c. [c]) s)"
    by (auto simp: dropWhile_eq_self_iff hd_rev last_map hd_map)
  then show ?thesis by (simp add: trim_space_def runes_ascii [OF ascii])
qed

lemma append_int_pad: "0 \<le> n \<Longrightarrow> append_int w n = pad_int w n"
  by (simp add: append_int_def)

lemma fixed_num_pad:
  assumes "0 \<le> n" "n < 10 ^ w" "0 < w"
  shows "fixed_num w (append_int w n @ s) = Some (n, s)"
  using pad_int_digits [OF assms] assms(1) by (simp add: append_int_pad fixed_num_def)

lemma hour_num_pad:
  assumes "0 \<le> n" "n < 100"
  shows "hour_num (append_int 2 n @ s) = Some (n, s)"
proof -
  note d = pad_int_digits [of n 2]
  obtain a b where ab: "pad_int 2 n = [a, b]" using d(2) assms by (auto simp: length_Suc_conv numeral_2_eq_2)
  then have "is_digit a" "is_digit b" "digits_value [a, b] = nat n"
    using d(1,3) assms by (auto simp: nat_of_digits_def split: if_splits)
  then show ?thesis using assms by (simp add: append_int_pad ab hour_num_def)
qed

lemma clock_in_bounds:
  assumes "clock_in loc t = (h, mi, s)"
  shows "0 \<le> h \<and> h < 24 \<and> 0 \<le> mi \<and> mi < 60 \<and> 0 \<le> s \<and> s < 60"
proof -
  have "0 \<le> x mod 86400 div 3600 \<and> x mod 86400 div 3600 < 24 \<and> 0 \<le> x mod 86400 mod 3600 div 60
      \<and> x mod 86400 mod 3600 div 60 < 60 \<and> 0 \<le> x mod 86400 mod 60 \<and> x mod 86400 mod 60 < 60" for x :: int
    by linarith
  then show ?thesis using assms by (auto simp: clock_in_def Let_def)
qed

lemma stamp_roundtrip:
  assumes "0 \<le> fst (date_in utc t)" "fst (date_in utc t) < 10000"
  shows "parse_stamp_in utc ''Z'' (format_stamp t) = Some (t div second * second)"
proof -
  obtain y m d where day: "date_in utc t = (y, m, d)" by (cases "date_in utc t")
  obtain h mi s where clk: "clock_in utc t = (h, mi, s)" by (cases "clock_in utc t")
  have v: "valid_date y m d" using civil_of_days_valid [of "local_sec utc t div 86400"] day by (simp add: date_in_def)
  have "month_start (leap_day y) (m + 1) - month_start (leap_day y) m \<le> 31"
    using leap_day_bounds [of y] by (simp add: month_start_def)
  then have md: "0 \<le> m" "m < 10 ^ 2" "0 \<le> d" "d < 10 ^ 2" using v by (auto simp: valid_date_def)
  have c: "0 \<le> h" "h < 24" "0 \<le> mi" "mi < 60" "0 \<le> s" "s < 60"
    using clock_in_bounds [OF clk] by simp_all
  have frac: "parse_fraction ''Z'' = (0, ''Z'')" by (simp add: parse_fraction_def)
  have z: "is_digit (CHR ''Z'') = False" by (simp add: is_digit_def)
  have ymd: "parse_ymd (append_int 4 y @ append_int 2 m @ append_int 2 d @ rest) = Some ((y, m, d), rest)" for rest
    using assms day md v by (simp add: parse_ymd_def fixed_num_pad)
  have hms: "parse_hms (append_int 2 h @ append_int 2 mi @ append_int 2 s @ ''Z'') = Some ((h, mi, s, 0), ''Z'')"
    using c by (simp add: parse_hms_def fixed_num_pad hour_num_pad frac)
  have "wall_sec y m d h mi s = t div second"
    using wall_sec_local [OF day clk] by (simp add: local_sec_def unix_sec_def utc_def)
  then have "time_date y m d h mi s 0 utc = t div second * second"
    by (simp add: time_date_def unix_of_wall_def utc_def)
  then show ?thesis by (simp add: format_stamp_def day clk parse_stamp_in_def ymd hms)
qed

end
