(* ===== verification/Icsparse.thy ===== *)
theory Icsparse
  imports GoFormat Requests Intervals
begin

text \<open>
  \<^verbatim>\<open>api/internal/icsparse\<close>: a calendar feed becomes busy intervals. The lexing, the properties of
  an event and the recurrence rules are below, in the order of the code; \<open>Intervals\<close> holds its interval
  type and \<^verbatim>\<open>Merge\<close>. A Go time carries its location; where a location is read back
  (\<^verbatim>\<open>base.Start.Location()\<close>) the model passes it next to the instant. Durations are kept in 64
  bits where the code multiplies or subtracts them.

  Main facts: what the renderer writes is read back (\<open>IcsFacts\<close>), jumping ahead in an uncounted daily or
  weekly series changes nothing, and three classes of recurrences lose occurrences (\<open>IcsparseFacts\<close>).
\<close>

section \<open>Lexing\<close>

definition join_line :: "string list \<Rightarrow> string \<Rightarrow> string list" where
  "join_line out line =
     (if line = '''' then out
      else if (hd line = CHR '' '' \<or> hd line = CHR 0x09) \<and> out \<noteq> [] then butlast out @ [last out @ tl line]
      else out @ [line])"

definition unfold_lines :: "string \<Rightarrow> string list" where
  "unfold_lines s = foldl join_line [] (split_on (CHR 0x0A)
     (replace_all [CHR 0x0D] [CHR 0x0A] (replace_all [CHR 0x0D, CHR 0x0A] [CHR 0x0A] s)))"

record property =
  pr_name :: string
  pr_params :: "string \<rightharpoonup> string"
  pr_value :: string

definition param_step :: "(string \<rightharpoonup> string) \<Rightarrow> string \<Rightarrow> (string \<rightharpoonup> string)" where
  "param_step m raw = (case cut (CHR ''='') raw of
     None \<Rightarrow> m
   | Some (k, v) \<Rightarrow> m(to_upper (trim_space k) \<mapsto> trim_chars {CHR 0x22} (trim_space v)))"

definition parse_property :: "string \<Rightarrow> property option" where
  "parse_property line = (case cut (CHR '':'') line of
     None \<Rightarrow> None
   | Some (head, v) \<Rightarrow>
       (let parts = split_on (CHR '';'') head; name = to_upper (trim_space (hd parts)) in
        if name = '''' then None
        else Some \<lparr>pr_name = name, pr_params = foldl param_step Map.empty (tl parts), pr_value = v\<rparr>))"

type_synonym vevent = "property list"

text \<open>The blocks found and the one being read.\<close>

definition vevent_step :: "vevent list \<times> vevent option \<Rightarrow> string \<Rightarrow> vevent list \<times> vevent option" where
  "vevent_step st line = (case st of (out, cur) \<Rightarrow>
     (case parse_property line of
        None \<Rightarrow> (out, cur)
      | Some p \<Rightarrow>
          if pr_name p = ''BEGIN'' \<and> equal_fold (pr_value p) ''VEVENT'' then (out, Some [])
          else if pr_name p = ''END'' \<and> equal_fold (pr_value p) ''VEVENT'' then
            (case cur of None \<Rightarrow> (out, None) | Some ps \<Rightarrow> (out @ [ps], None))
          else (case cur of None \<Rightarrow> (out, None) | Some ps \<Rightarrow> (out, Some (ps @ [p])))))"

definition vevents :: "string list \<Rightarrow> vevent list" where
  "vevents lines = fst (foldl vevent_step ([], None) lines)"

definition first_prop :: "vevent \<Rightarrow> string \<Rightarrow> property option" where
  "first_prop e name = find (\<lambda>p. pr_name p = name) e"

definition all_props :: "vevent \<Rightarrow> string \<Rightarrow> property list" where
  "all_props e name = filter (\<lambda>p. pr_name p = name) e"

section \<open>Times\<close>

definition param :: "property \<Rightarrow> string \<Rightarrow> string" where
  "param p k = (case pr_params p k of None \<Rightarrow> '''' | Some v \<Rightarrow> v)"

text \<open>An instant, the location it carries, and whether the value was a date.\<close>

definition parse_time :: "env \<Rightarrow> property \<Rightarrow> (instant \<times> location \<times> bool) option" where
  "parse_time env p =
     (let v = trim_space (pr_value p) in
      if v = '''' then None
      else
        let tzid = param p ''TZID'';
            loc = (if tzid \<noteq> '''' then (case load_zone env tzid of Some l \<Rightarrow> l | None \<Rightarrow> utc) else utc)
        in if equal_fold (param p ''VALUE'') ''DATE'' \<or> length v = 8
           then map_option (\<lambda>t. (t, loc, True)) (parse_date_in loc v)
           else if v \<noteq> [] \<and> last v = CHR ''Z''
           then map_option (\<lambda>t. (t, utc, False)) (parse_stamp_in utc ''Z'' v)
           else map_option (\<lambda>t. (t, loc, False)) (parse_stamp_in loc '''' v))"

definition int64 :: "int \<Rightarrow> int" where
  "int64 x = sint (word_of_int x :: 64 word)"

definition duration_unit :: "string \<Rightarrow> bool \<Rightarrow> duration option" where
  "duration_unit r in_time =
     (if r = ''W'' then Some (7 * 24 * hour)
      else if r = ''D'' then Some (24 * hour)
      else if r = ''H'' then Some hour
      else if r = ''S'' then Some second
      else if r = ''M'' then (if in_time then Some minute else None)
      else None)"

record duration_state =
  du_total :: duration
  du_num :: string
  du_time :: bool
  du_any :: bool

definition duration_step :: "duration_state option \<Rightarrow> string \<Rightarrow> duration_state option" where
  "duration_step st r = (case st of
     None \<Rightarrow> None
   | Some s \<Rightarrow>
       if list_all is_digit r then Some (s\<lparr>du_num := du_num s @ r\<rparr>)
       else if r = ''T'' then Some (s\<lparr>du_time := True\<rparr>)
       else (case atoi (du_num s) of
               None \<Rightarrow> None
             | Some n \<Rightarrow> (case duration_unit r (du_time s) of
                 None \<Rightarrow> None
               | Some unit \<Rightarrow> Some (s\<lparr>du_total := int64 (du_total s + n * unit), du_num := '''', du_any := True\<rparr>))))"

definition parse_duration :: "string \<Rightarrow> duration option" where
  "parse_duration v0 =
     (let v1 = trim_space (to_upper v0);
          neg = v1 \<noteq> [] \<and> hd v1 = CHR ''-'';
          v2 = trim_left {CHR ''+'', CHR ''-''} v1
      in if v2 = [] \<or> hd v2 \<noteq> CHR ''P'' then None
         else case foldl duration_step (Some \<lparr>du_total = 0, du_num = '''', du_time = False, du_any = False\<rparr>) (runes (tl v2)) of
           None \<Rightarrow> None
         | Some s \<Rightarrow> if \<not> du_any s then None else Some (if neg then int64 (- du_total s) else du_total s))"

section \<open>Recurrence rules\<close>

record rule =
  ru_freq :: string
  ru_interval :: int
  ru_count :: int
  ru_until :: instant
  ru_byday :: "int list"

definition weekday_names :: "(string \<times> int) list" where
  "weekday_names = [(''SU'', 0), (''MO'', 1), (''TU'', 2), (''WE'', 3), (''TH'', 4), (''FR'', 5), (''SA'', 6)]"

definition parse_weekday :: "string \<Rightarrow> int option" where
  "parse_weekday s = map_of weekday_names
     (trim_left ({CHR ''+'', CHR ''-''} \<union> {c. is_digit c}) (to_upper (trim_space s)))"

definition rule_step :: "env \<Rightarrow> rule \<Rightarrow> string \<Rightarrow> rule" where
  "rule_step env r part = (case cut (CHR ''='') part of
     None \<Rightarrow> r
   | Some (k, v) \<Rightarrow>
       (let key = to_upper (trim_space k); val = trim_space v in
        if key = ''FREQ'' then r\<lparr>ru_freq := to_upper val\<rparr>
        else if key = ''INTERVAL'' then
          (case atoi val of Some n \<Rightarrow> if n > 0 then r\<lparr>ru_interval := n\<rparr> else r | None \<Rightarrow> r)
        else if key = ''COUNT'' then
          (case atoi val of Some n \<Rightarrow> if n > 0 then r\<lparr>ru_count := n\<rparr> else r | None \<Rightarrow> r)
        else if key = ''UNTIL'' then
          (case parse_time env \<lparr>pr_name = '''', pr_params = Map.empty, pr_value = val\<rparr> of
             Some (t, _) \<Rightarrow> r\<lparr>ru_until := t\<rparr> | None \<Rightarrow> r)
        else if key = ''BYDAY'' then
          foldl (\<lambda>r d. case parse_weekday d of Some wd \<Rightarrow> r\<lparr>ru_byday := ru_byday r @ [wd]\<rparr> | None \<Rightarrow> r) r
            (split_on (CHR '','') val)
        else r))"

definition parse_rule :: "env \<Rightarrow> string \<Rightarrow> rule" where
  "parse_rule env v = foldl (rule_step env)
     \<lparr>ru_freq = '''', ru_interval = 1, ru_count = 0, ru_until = zero_time, ru_byday = []\<rparr> (split_on (CHR '';'') v)"

definition advance :: "location \<Rightarrow> instant \<Rightarrow> rule \<Rightarrow> instant option" where
  "advance loc t r =
     (if ru_freq r = ''DAILY'' then Some (add_date loc t 0 0 (ru_interval r))
      else if ru_freq r = ''WEEKLY'' then Some (add_date loc t 0 0 (int64 (7 * ru_interval r)))
      else if ru_freq r = ''MONTHLY'' then Some (add_date loc t 0 (ru_interval r) 0)
      else if ru_freq r = ''YEARLY'' then Some (add_date loc t (ru_interval r) 0 0)
      else None)"

definition period_duration :: "rule \<Rightarrow> duration" where
  "period_duration r =
     (let day = 24 * hour in
      if ru_freq r = ''DAILY'' then int64 (ru_interval r * day)
      else if ru_freq r = ''WEEKLY'' then int64 (ru_interval r * 7 * day)
      else if ru_freq r = ''MONTHLY'' then int64 (ru_interval r * 30 * day)
      else if ru_freq r = ''YEARLY'' then int64 (ru_interval r * 365 * day)
      else 0)"

definition advance_by :: "location \<Rightarrow> instant \<Rightarrow> rule \<Rightarrow> int \<Rightarrow> instant" where
  "advance_by loc t r n =
     (if ru_freq r = ''DAILY'' then add_date loc t 0 0 (int64 (ru_interval r * n))
      else if ru_freq r = ''WEEKLY'' then add_date loc t 0 0 (int64 (7 * ru_interval r * n))
      else if ru_freq r = ''MONTHLY'' then add_date loc t 0 (int64 (ru_interval r * n)) 0
      else if ru_freq r = ''YEARLY'' then add_date loc t (int64 (ru_interval r * n)) 0 0
      else t)"

definition fast_forward :: "location \<Rightarrow> rule \<Rightarrow> instant \<Rightarrow> instant \<Rightarrow> instant" where
  "fast_forward loc r cur t_from =
     (if ru_count r = 0 \<and> ru_byday r = [] \<and> period_duration r > 0 \<and> time_sub t_from cur > period_duration r then
        (let n = time_sub t_from cur div period_duration r - 3 in
         if n > 0 then (let jumped = advance_by loc cur r n in if jumped > cur then jumped else cur) else cur)
      else cur)"

definition max_occurrences :: nat where
  "max_occurrences = 2000"

text \<open>What \<open>expand\<close> fixes before its loop, and what the loop changes.\<close>

record series =
  sx_base :: interval
  sx_loc :: location
  sx_rule :: rule
  sx_excluded :: "64 word set"
  sx_from :: instant
  sx_to :: instant

record walk =
  wk_out :: "interval list"
  wk_emitted :: int

definition emit :: "series \<Rightarrow> instant \<Rightarrow> walk \<Rightarrow> walk" where
  "emit x t w =
     (let iv = Interval t (t + time_sub (i_end (sx_base x)) (i_start (sx_base x))) in
      if unix_nano t \<in> sx_excluded x then w
      else if overlaps iv (Interval (sx_from x) (sx_to x)) then w\<lparr>wk_out := wk_out w @ [iv]\<rparr> else w)"

definition spent :: "series \<Rightarrow> walk \<Rightarrow> bool" where
  "spent x w \<longleftrightarrow> ru_count (sx_rule x) > 0 \<and> wk_emitted w \<ge> ru_count (sx_rule x)"

definition past_until :: "series \<Rightarrow> instant \<Rightarrow> bool" where
  "past_until x t \<longleftrightarrow> ru_until (sx_rule x) \<noteq> zero_time \<and> t > ru_until (sx_rule x)"

definition occurrence_on :: "series \<Rightarrow> instant \<Rightarrow> int \<Rightarrow> instant" where
  "occurrence_on x week_start wd =
     (case date_in (sx_loc x) (add_date (sx_loc x) week_start 0 0 wd) of (y, m, d) \<Rightarrow>
      case clock_in (sx_loc x) (i_start (sx_base x)) of (h, mi, s) \<Rightarrow> time_date y m d h mi s 0 (sx_loc x))"

text \<open>The named weekdays of one week; the \<^verbatim>\<open>break\<close> leaves this loop only.\<close>

primrec week_days :: "series \<Rightarrow> instant \<Rightarrow> int list \<Rightarrow> walk \<Rightarrow> walk" where
  "week_days x week_start [] w = w"
| "week_days x week_start (wd # wds) w =
     (let occ = occurrence_on x week_start wd in
      if occ < i_start (sx_base x) then week_days x week_start wds w
      else if past_until x occ then week_days x week_start wds w
      else if spent x w then w
      else week_days x week_start wds (emit x occ (w\<lparr>wk_emitted := wk_emitted w + 1\<rparr>)))"

definition by_week :: "series \<Rightarrow> bool" where
  "by_week x \<longleftrightarrow> ru_byday (sx_rule x) \<noteq> [] \<and> ru_freq (sx_rule x) \<in> {''WEEKLY'', ''DAILY''}"

primrec walk_series :: "series \<Rightarrow> nat \<Rightarrow> instant \<Rightarrow> walk \<Rightarrow> walk" where
  "walk_series x 0 cur w = w"
| "walk_series x (Suc steps) cur w =
     (if past_until x cur then w
      else if cur > sx_to x then w
      else if \<not> by_week x \<and> spent x w then w
      else
        let w' = (if by_week x
                  then week_days x (add_date (sx_loc x) cur 0 0 (- weekday_in (sx_loc x) cur)) (ru_byday (sx_rule x)) w
                  else emit x cur (w\<lparr>wk_emitted := wk_emitted w + 1\<rparr>))
        in if spent x w' then w'
           else (case advance (sx_loc x) cur (sx_rule x) of
                   None \<Rightarrow> w'
                 | Some nxt \<Rightarrow> if nxt > cur then walk_series x steps nxt w' else w'))"

definition expand_series :: "series \<Rightarrow> interval list" where
  "expand_series x =
     (if ru_freq (sx_rule x) = '''' then
        (if overlaps (sx_base x) (Interval (sx_from x) (sx_to x)) then [sx_base x] else [])
      else wk_out (walk_series x max_occurrences
             (fast_forward (sx_loc x) (sx_rule x) (i_start (sx_base x)) (sx_from x)) \<lparr>wk_out = [], wk_emitted = 0\<rparr>))"

section \<open>One event\<close>

definition event_duration :: "env \<Rightarrow> vevent \<Rightarrow> instant \<Rightarrow> bool \<Rightarrow> duration option" where
  "event_duration env e start all_day =
     (let by_end = (case first_prop e ''DTEND'' of None \<Rightarrow> None
            | Some p \<Rightarrow> (case parse_time env p of None \<Rightarrow> None
                | Some (t, _) \<Rightarrow> if t > start then Some (time_sub t start) else None));
          by_length = (case first_prop e ''DURATION'' of None \<Rightarrow> None
            | Some p \<Rightarrow> (case parse_duration (pr_value p) of None \<Rightarrow> None
                | Some d \<Rightarrow> if d > 0 then Some d else None))
      in case by_end of
           Some d \<Rightarrow> Some d
         | None \<Rightarrow> (case by_length of
             Some d \<Rightarrow> Some d
           | None \<Rightarrow> if all_day then Some (24 * hour) else None))"

text \<open>\<^verbatim>\<open>property{params: p.params, value: v}\<close> for every value of every EXDATE.\<close>

definition exdates :: "env \<Rightarrow> vevent \<Rightarrow> 64 word set" where
  "exdates env e = set (List.map_filter (\<lambda>p. map_option (\<lambda>(t, _). unix_nano t) (parse_time env p))
     (concat (map (\<lambda>p. map (\<lambda>v. p\<lparr>pr_value := v\<rparr>) (split_on (CHR '','') (pr_value p))) (all_props e ''EXDATE''))))"

definition says :: "vevent \<Rightarrow> string \<Rightarrow> string \<Rightarrow> bool" where
  "says e name word = (case first_prop e name of None \<Rightarrow> False | Some p \<Rightarrow> equal_fold (trim_space (pr_value p)) word)"

definition event_intervals :: "env \<Rightarrow> vevent \<Rightarrow> instant \<Rightarrow> instant \<Rightarrow> interval list" where
  "event_intervals env e t_from t_to =
     (if says e ''STATUS'' ''CANCELLED'' then []
      else if says e ''TRANSP'' ''TRANSPARENT'' then []
      else case first_prop e ''DTSTART'' of
        None \<Rightarrow> []
      | Some p \<Rightarrow> (case parse_time env p of
          None \<Rightarrow> []
        | Some (start, loc, all_day) \<Rightarrow> (case event_duration env e start all_day of
            None \<Rightarrow> []
          | Some d \<Rightarrow>
              (let base = Interval start (start + d) in
               if \<not> valid_interval base then []
               else case first_prop e ''RRULE'' of
                 None \<Rightarrow> if overlaps base (Interval t_from t_to) then [base] else []
               | Some rr \<Rightarrow> expand_series \<lparr>sx_base = base, sx_loc = loc, sx_rule = parse_rule env (pr_value rr),
                   sx_excluded = exdates env e, sx_from = t_from, sx_to = t_to\<rparr>))))"

definition parse_feed :: "env \<Rightarrow> string \<Rightarrow> instant \<Rightarrow> instant \<Rightarrow> interval list" where
  "parse_feed env body t_from t_to =
     merge_intervals (concat (map (\<lambda>e. event_intervals env e t_from t_to) (vevents (unfold_lines body))))"

end
