(* ===== verification/CalendarHandlers.thy ===== *)
theory CalendarHandlers
  imports EventHandlerFacts Icsparse
begin

text \<open>
  The handlers of \<^verbatim>\<open>api/internal/server/calendar.go\<close>: a participant subscribes to a calendar
  feed, which turns covered slots into inferred "no" answers, and unsubscribes again. Fetching a URL is
  the network's answer and an argument: the body, or an error of the fetch guard. Main facts
  (\<open>CalendarHandlerFacts\<close>): what a connection stores, that disconnecting undoes it, and that connecting
  counts as having answered, so that every free slot is refused as well.
\<close>

datatype fetch_error = FetchBlocked string | FetchFailed

type_synonym fetcher = "string \<Rightarrow> fetch_error + string"

record connect_response =
  cn_source :: string
  cn_blocks :: nat
  cn_blocked :: nat
  cn_fetched :: instant

text \<open>\<^verbatim>\<open>starts[0]\<close>: the callers have checked that there is one.\<close>

definition slot_window :: "instant list \<Rightarrow> int \<Rightarrow> interval" where
  "slot_window ts mins =
     (let (first, last) = foldl (\<lambda>(first, last) s. (if s < first then s else first, if s > last then s else last))
        (hd ts, hd ts) ts
      in Interval first (last + mins * minute))"

definition covered_by :: "instant \<Rightarrow> int \<Rightarrow> interval list \<Rightarrow> bool" where
  "covered_by start mins blocks = list_ex (\<lambda>b. overlaps b (Interval start (start + mins * minute))) blocks"

text \<open>The rows the loop collects, and how many of them the calendar blocked.\<close>

definition calendar_step ::
  "int \<Rightarrow> interval list \<Rightarrow> (64 word \<rightharpoonup> stored_response) \<Rightarrow> stored_response list \<times> nat \<Rightarrow> instant
    \<Rightarrow> stored_response list \<times> nat" where
  "calendar_step mins blocks stated st slot = (case st of (out, blocked) \<Rightarrow>
     (case stated (unix_nano slot) of
        Some prior \<Rightarrow> (out @ [prior], blocked)
      | None \<Rightarrow>
          if covered_by slot mins blocks
          then (out @ [\<lparr>sr_slot = slot, sr_tier = TierNo, sr_source = ''calendar''\<rparr>], Suc blocked)
          else (out, blocked)))"

definition stated_answers :: "stored_response list \<Rightarrow> (64 word \<rightharpoonup> stored_response)" where
  "stated_answers existing =
     foldl (\<lambda>m r. if sr_source r \<noteq> ''calendar'' then m(unix_nano (sr_slot r) \<mapsto> r) else m) Map.empty existing"

definition apply_calendar_to_responses ::
  "env \<Rightarrow> authed \<Rightarrow> instant list \<Rightarrow> interval list \<Rightarrow> nat query" where
  "apply_calendar_to_responses env a ts blocks =
     seq (responses_for_participant env (sp_id (au_participant a))) (\<lambda>existing.
     let (out, blocked) = foldl (calendar_step (se_slot_minutes (au_event a)) blocks (stated_answers existing)) ([], 0) ts
     in seq (save_responses env (sp_id (au_participant a)) out) (\<lambda>_. ret blocked))"

definition handle_connect_ics :: "env \<Rightarrow> fetcher \<Rightarrow> authed \<Rightarrow> string option \<Rightarrow> connect_response handler" where
  "handle_connect_ics env fetch a body =
     decoded body (\<lambda>url.
     case event_slots env (au_event a) of
       Inl _ \<Rightarrow> refuse 500 CouldNotExpand
     | Inr ex \<Rightarrow>
         if starts ex = [] then refuse 409 NoSlotsToCheck
         else (case fetch url of
           Inl (FetchBlocked why) \<Rightarrow> refuse 400 (UrlBlocked why)
         | Inl FetchFailed \<Rightarrow> refuse 502 FeedUnreadable
         | Inr feed \<Rightarrow>
             (let window = slot_window (starts ex) (se_slot_minutes (au_event a));
                  blocks = parse_feed env feed (i_start window) (i_end window)
              in call (save_busy_blocks env (sp_id (au_participant a)) blocks ''ics'' url) (or_refuse 500 CouldNotSaveCalendar) (\<lambda>_.
                 call (apply_calendar_to_responses env a (starts ex) blocks) (or_refuse 500 CouldNotApplyCalendar) (\<lambda>blocked.
                 seq (publish (se_id (au_event a)) ''response_submitted'') (\<lambda>_.
                 seq clock_now (\<lambda>t.
                 reply 200 \<lparr>cn_source = ''ics'', cn_blocks = length blocks, cn_blocked = blocked, cn_fetched = t\<rparr>)))))))"

definition handle_disconnect_calendar :: "env \<Rightarrow> authed \<Rightarrow> string handler" where
  "handle_disconnect_calendar env a =
     call (responses_for_participant env (sp_id (au_participant a))) (or_refuse 500 CouldNotLoadResponses) (\<lambda>existing.
     let kept = filter (\<lambda>r. sr_source r \<noteq> ''calendar'') existing in
     call (save_busy_blocks env (sp_id (au_participant a)) [] ''none'' '''') (or_refuse 500 CouldNotDisconnect) (\<lambda>_.
     call (save_responses env (sp_id (au_participant a)) kept) (or_refuse 500 CouldNotDisconnect) (\<lambda>_.
     seq (publish (se_id (au_event a)) ''response_submitted'') (\<lambda>_. reply 200 ''none''))))"

definition connect_route :: "env \<Rightarrow> fetcher \<Rightarrow> string \<Rightarrow> string \<Rightarrow> string option \<Rightarrow> connect_response handler" where
  "connect_route env fetch slug header body = require_participant env slug header (\<lambda>a. handle_connect_ics env fetch a body)"

definition disconnect_route :: "env \<Rightarrow> string \<Rightarrow> string \<Rightarrow> string handler" where
  "disconnect_route env slug header = require_participant env slug header (handle_disconnect_calendar env)"

end
