(* ===== verification/GroupHandlers.thy ===== *)
theory GroupHandlers
  imports CalendarHandlers
begin

text \<open>
  The handlers of \<^verbatim>\<open>api/internal/server/groups.go\<close>: graduating an event into a group, the
  group's members and their calendars, events created from a group, the proposal computed from the
  members' calendars, and a member's seat in a group event. The answers of the calendar hosts are the
  argument \<open>fetch\<close>; the code asks them concurrently but collects the answers by position, so the model
  asks them one after the other. Main facts (\<open>GroupHandlerFacts\<close>): a proposal is free in every calendar
  that could be read, and no handler trusts a token outside its own group.
\<close>

section \<open>Graduation\<close>

record graduate_response =
  gd_group_slug :: string
  gd_member :: string
  gd_token :: string

definition handle_graduate :: "env \<Rightarrow> authed \<Rightarrow> string option \<Rightarrow> graduate_response handler" where
  "handle_graduate env a body =
     (if \<not> sp_organizer (au_participant a) then refuse 403 OrganizerOnly
      else if se_status (au_event a) \<noteq> ''decided'' then refuse 409 NotDecided
      else
        decoded body (\<lambda>req.
        let given = trim_space req; name = (if given = '''' then se_title (au_event a) else given) in
        if rune_count name > max_title_runes then refuse 400 GroupNameTooLong
        else
          call (graduate env (se_id (au_event a)) name (sp_id (au_participant a))) (or_refuse 500 CouldNotGraduate) (\<lambda>out.
          reply 201 \<lparr>gd_group_slug = sg_slug (gg_group out), gd_member = sm_id (gg_member out), gd_token = gg_token out\<rparr>)))"

definition graduate_route :: "env \<Rightarrow> string \<Rightarrow> string \<Rightarrow> string option \<Rightarrow> graduate_response handler" where
  "graduate_route env slug header body = require_participant env slug header (\<lambda>a. handle_graduate env a body)"

section \<open>The group\<close>

record group_member_view =
  mv_id :: string
  mv_name :: string
  mv_role :: string
  mv_claimed :: bool
  mv_calendar :: bool

definition to_group_member_view :: "group_member \<Rightarrow> group_member_view" where
  "to_group_member_view m = \<lparr>mv_id = sm_id m, mv_name = sm_name m, mv_role = sm_role m, mv_claimed = sm_claimed m,
     mv_calendar = (sm_calendar m \<noteq> ''none'')\<rparr>"

record group_event_view =
  gv_slug :: string
  gv_title :: string
  gv_status :: string
  gv_decided :: "instant option"
  gv_created :: instant

definition to_group_event_view :: "store_event \<Rightarrow> group_event_view" where
  "to_group_event_view ev = \<lparr>gv_slug = se_slug ev, gv_title = se_title ev, gv_status = se_status ev,
     gv_decided = se_decided_slot ev, gv_created = se_created ev\<rparr>"

record group_view =
  gw_slug :: string
  gw_name :: string
  gw_members :: "group_member_view list"
  gw_events :: "group_event_view list"
  gw_you :: "group_member_view option"

definition handle_get_group :: "env \<Rightarrow> string \<Rightarrow> string \<Rightarrow> group_view handler" where
  "handle_get_group env slug header =
     call (group_by_slug slug) group_lookup_error (\<lambda>g.
     call (group_members env (sg_id g)) (or_refuse 500 CouldNotLoadMembers) (\<lambda>members.
     call (group_events env (sg_id g)) (or_refuse 500 CouldNotLoadEvents) (\<lambda>events.
     let token = trim_space header in
     seq (if token = '''' then ret None
          else call (group_member_by_token env (sg_id g) token) (\<lambda>_. ret None)
            (\<lambda>me. ret (Some (to_group_member_view me)))) (\<lambda>you.
     reply 200 \<lparr>gw_slug = sg_slug g, gw_name = sg_name g, gw_members = map to_group_member_view members,
       gw_events = map to_group_event_view events, gw_you = you\<rparr>))))"

section \<open>Membership\<close>

record join_group_request =
  jg_name :: string
  jg_timezone :: string

record member_token_response =
  mt_member :: string
  mt_token :: string
  mt_name :: string
  mt_tz :: string
  mt_role :: string

definition member_token_response_of :: "group_member \<Rightarrow> string \<Rightarrow> member_token_response" where
  "member_token_response_of m token =
     \<lparr>mt_member = sm_id m, mt_token = token, mt_name = sm_name m, mt_tz = sm_tz m, mt_role = sm_role m\<rparr>"

definition handle_join_group :: "env \<Rightarrow> string \<Rightarrow> join_group_request option \<Rightarrow> member_token_response handler" where
  "handle_join_group env slug body =
     call (group_by_slug slug) group_lookup_error (\<lambda>g.
     decoded body (\<lambda>req.
     let name = trim_space (jg_name req) in
     if name = '''' then refuse 400 NameRequired
     else if rune_count name > max_name_runes then refuse 400 NameTooLong
     else if \<not> valid_zone env (jg_timezone req) then refuse 400 (UnknownZone (jg_timezone req))
     else
       call (join_group env (sg_id g) \<lparr>nm_name = name, nm_tz = jg_timezone req, nm_role = ''''\<rparr>) (or_refuse 500 CouldNotJoinGroup)
         (\<lambda>(m, token). reply 201 (member_token_response_of m token))))"

definition handle_claim_group_member :: "env \<Rightarrow> string \<Rightarrow> string option \<Rightarrow> member_token_response handler" where
  "handle_claim_group_member env slug body =
     call (group_by_slug slug) group_lookup_error (\<lambda>g.
     decoded body (\<lambda>member_id.
     if member_id = '''' then refuse 400 MemberIdRequired
     else
       call (claim_group_member env (sg_id g) member_id)
         (\<lambda>e. if e = NotFound then refuse 404 NoSuchMember else refuse 500 CouldNotClaim)
         (\<lambda>(m, token). reply 200 (member_token_response_of m token))))"

section \<open>A member's calendar\<close>

definition group_calendar_window :: duration where
  "group_calendar_window = 90 * 24 * hour"

definition handle_connect_group_ics :: "env \<Rightarrow> fetcher \<Rightarrow> authed_member \<Rightarrow> string option \<Rightarrow> connect_response handler" where
  "handle_connect_group_ics env fetch a body =
     decoded body (\<lambda>url.
     case fetch url of
       Inl (FetchBlocked why) \<Rightarrow> refuse 400 (UrlBlocked why)
     | Inl FetchFailed \<Rightarrow> refuse 502 FeedUnreadable
     | Inr feed \<Rightarrow>
         seq clock_now (\<lambda>t.
         let blocks = parse_feed env feed t (t + group_calendar_window) in
         call (save_group_member_busy_blocks env (sm_id (am_member a)) blocks url) (or_refuse 500 CouldNotSaveCalendar) (\<lambda>_.
         reply 200 \<lparr>cn_source = ''ics'', cn_blocks = length blocks, cn_blocked = 0, cn_fetched = t\<rparr>)))"

definition handle_disconnect_group_calendar :: "env \<Rightarrow> authed_member \<Rightarrow> string handler" where
  "handle_disconnect_group_calendar env a =
     call (save_group_member_busy_blocks env (sm_id (am_member a)) [] '''') (or_refuse 500 CouldNotDisconnect) (\<lambda>_.
     reply 200 ''none'')"

definition connect_group_route :: "env \<Rightarrow> fetcher \<Rightarrow> string \<Rightarrow> string \<Rightarrow> string option \<Rightarrow> connect_response handler" where
  "connect_group_route env fetch slug header body =
     require_group_member env slug header (\<lambda>a. handle_connect_group_ics env fetch a body)"

definition disconnect_group_route :: "env \<Rightarrow> string \<Rightarrow> string \<Rightarrow> string handler" where
  "disconnect_group_route env slug header = require_group_member env slug header (handle_disconnect_group_calendar env)"

section \<open>Proposals\<close>

definition no_proposal :: proposal where
  "no_proposal = \<lparr>pr_slot = zero_time, pr_found = False, pr_considered = []\<rparr>"

definition refresh_group_member_calendar :: "env \<Rightarrow> fetcher \<Rightarrow> group_member \<Rightarrow> instant \<Rightarrow> instant \<Rightarrow> interval list option" where
  "refresh_group_member_calendar env fetch m t_from t_to =
     (if sm_url m = '''' then None
      else case fetch (sm_url m) of Inl _ \<Rightarrow> None | Inr feed \<Rightarrow> Some (parse_feed env feed t_from t_to))"

text \<open>The members whose refresh succeeded, in the order of the members.\<close>

definition refreshed :: "env \<Rightarrow> fetcher \<Rightarrow> instant \<Rightarrow> instant \<Rightarrow> group_member list \<Rightarrow> member list" where
  "refreshed env fetch t_from t_to conn =
     List.map_filter (\<lambda>m. map_option (\<lambda>blocks. \<lparr>m_id = sm_id m, m_name = sm_name m, m_busy = Some blocks\<rparr>)
       (refresh_group_member_calendar env fetch m t_from t_to)) conn"

definition compute_group_proposal :: "env \<Rightarrow> fetcher \<Rightarrow> string \<Rightarrow> store_event \<Rightarrow> (server, failure, proposal) op" where
  "compute_group_proposal env fetch g ev =
     (case event_slots env ev of
        Inl e \<Rightarrow> fail e
      | Inr ex \<Rightarrow>
          if starts ex = [] then ret no_proposal
          else
            seq (run (group_members env g)) (\<lambda>members.
            let window = hd (starts ex); upto = last (starts ex) + se_slot_minutes ev * minute;
                conn = filter (\<lambda>m. sm_calendar m = ''ics'') members
            in if conn = [] then ret no_proposal
               else ret (best_proposal (starts ex) (se_slot_minutes ev * minute) (refreshed env fetch window upto conn))))"

text \<open>
  \<^verbatim>\<open>proposalCache.Do\<close> when no other caller is computing; \<open>ProposalCache\<close> has the interleavings.
\<close>

definition cached_now :: "string \<Rightarrow> (server, failure, proposal option) op" where
  "cached_now key = read (\<lambda>s. cache_lookup (sv_proposals s) (clock (sv_world s)) key)"

definition keep_proposal :: "string \<Rightarrow> proposal \<Rightarrow> (server, failure, unit) op" where
  "keep_proposal key r = (\<lambda>s. (Inr (), s\<lparr>sv_proposals := cache_store (sv_proposals s) (clock (sv_world s)) key r\<rparr>))"

definition do_proposal :: "string \<Rightarrow> (server, failure, proposal) op \<Rightarrow> (server, failure, proposal) op" where
  "do_proposal key compute =
     seq (read (\<lambda>s. pc_ttl (sv_proposals s))) (\<lambda>ttl.
     if ttl \<le> 0 then compute
     else
       seq (cached_now key) (\<lambda>hit. case hit of
         Some r \<Rightarrow> ret r
       | None \<Rightarrow>
           seq (cached_now key) (\<lambda>again. case again of
             Some r \<Rightarrow> ret r
           | None \<Rightarrow> seq compute (\<lambda>r. seq (keep_proposal key r) (\<lambda>_. ret r)))))"

record proposal_view =
  pw_slot :: instant
  pw_considered :: "string list"

definition proposal_view_of :: "proposal \<Rightarrow> proposal_view option" where
  "proposal_view_of p = (if pr_found p then Some \<lparr>pw_slot = pr_slot p, pw_considered = pr_considered p\<rparr> else None)"

definition handle_group_proposal :: "env \<Rightarrow> fetcher \<Rightarrow> string \<Rightarrow> string \<Rightarrow> proposal_view option handler" where
  "handle_group_proposal env fetch slug event_slug =
     call (group_by_slug slug) group_lookup_error (\<lambda>g.
     if event_slug = '''' then refuse 400 EventParameterRequired
     else
       call (event_by_slug event_slug) event_lookup_error (\<lambda>ev.
       if se_group ev \<noteq> Some (sg_id g) then refuse 404 EventNotInGroup
       else if se_status ev \<noteq> ''open'' then reply 200 None
       else
         catch (do_proposal (se_id ev) (compute_group_proposal env fetch (sg_id g) ev)) (or_refuse 500 CouldNotPropose)
           (\<lambda>p. reply 200 (proposal_view_of p))))"

section \<open>Events from a group\<close>

record create_group_event_response =
  xg_slug :: string
  xg_token :: string
  xg_participant :: string
  xg_proposal :: "proposal_view option"

text \<open>The request as the handler completes it, and the new event it asks the store for.\<close>

definition group_event_of :: "env \<Rightarrow> authed_member \<Rightarrow> create_event_request \<Rightarrow> reason + new_event" where
  "group_event_of env a req =
     and_then (to_new_event env (req\<lparr>cr_organizer_name := sm_name (am_member a)\<rparr>)) (\<lambda>inp.
     Inr (inp\<lparr>ne_group := sg_id (am_group a),
              ne_organizer := map_option (\<lambda>org. org\<lparr>np_tz := sm_tz (am_member a)\<rparr>) (ne_organizer inp)\<rparr>))"

definition link_creator :: "env \<Rightarrow> authed_member \<Rightarrow> created_event \<Rightarrow> unit step" where
  "link_creator env a created =
     (case ce_organizer created of
        None \<Rightarrow> ret ()
      | Some p \<Rightarrow> call (link_participant_to_group_member env (sp_id p) (sm_id (am_member a))) (\<lambda>_. ret ()) (\<lambda>_. ret ()))"

definition handle_create_group_event ::
  "env \<Rightarrow> fetcher \<Rightarrow> authed_member \<Rightarrow> create_event_request option \<Rightarrow> create_group_event_response handler" where
  "handle_create_group_event env fetch a body =
     decoded body (\<lambda>req.
     checked 400 (group_event_of env a req) (\<lambda>inp.
     checked 400 (wrap SlotsRefused (event_slots env (draft_event inp))) (\<lambda>_.
     call (create_event env inp) (or_refuse 500 CouldNotCreateEvent) (\<lambda>created.
     seq (link_creator env a created) (\<lambda>_.
     seq (catch (compute_group_proposal env fetch (sg_id (am_group a)) (ce_event created)) (\<lambda>_. ret None)
            (\<lambda>p. ret (proposal_view_of p))) (\<lambda>prop.
     reply 201 \<lparr>xg_slug = se_slug (ce_event created), xg_token = ce_token created,
       xg_participant = (case ce_organizer created of None \<Rightarrow> '''' | Some p \<Rightarrow> sp_id p), xg_proposal = prop\<rparr>))))))"

definition create_group_event_route ::
  "env \<Rightarrow> fetcher \<Rightarrow> string \<Rightarrow> string \<Rightarrow> create_event_request option \<Rightarrow> create_group_event_response handler" where
  "create_group_event_route env fetch slug header body =
     require_group_member env slug header (\<lambda>a. handle_create_group_event env fetch a body)"

section \<open>A member's seat\<close>

definition handle_claim_event_seat :: "env \<Rightarrow> string \<Rightarrow> string \<Rightarrow> join_response handler" where
  "handle_claim_event_seat env slug header =
     call (event_by_slug slug) event_lookup_error (\<lambda>ev.
     case se_group ev of
       None \<Rightarrow> refuse 409 EventWithoutGroup
     | Some g \<Rightarrow>
         (let token = trim_space header in
          if token = '''' then refuse 401 MissingToken
          else
            call (group_member_by_token env g token)
              (\<lambda>e. if e = NotFound then refuse 401 UnrecognisedToken else refuse 500 CouldNotVerifyMembership)
              (\<lambda>m.
            call (claim_event_seat env (se_id ev) (sm_id m)) (or_refuse 500 CouldNotClaimSeat)
              (\<lambda>(p, token). reply 200 (join_response_of p token)))))"

end
