(* ===== verification/Ics.thy ===== *)
theory Ics
  imports GoFormat
begin

text \<open>
  \<^verbatim>\<open>api/internal/ics/ics.go\<close>: a decided event as an iCalendar file. The builder the code writes to
  is the string so far. Main facts: every physical line is at most 75 octets long and no fold splits a
  rune (\<open>folded_lines\<close>), and the feed parser reads back what is rendered (\<open>IcsFacts\<close>).
\<close>

definition max_octets :: nat where
  "max_octets = 75"

record ics_event =
  ic_uid :: string
  ic_summary :: string
  ic_description :: string
  ic_start :: instant
  ic_end :: instant
  ic_url :: string

definition stamp :: "instant \<Rightarrow> string" where
  "stamp t = format_stamp t"

definition cr :: char where "cr = CHR 0x0D"
definition lf :: char where "lf = CHR 0x0A"

definition escape_text :: "string \<Rightarrow> string" where
  "escape_text s0 =
     (let s1 = replace_all [CHR 0x5C] [CHR 0x5C, CHR 0x5C] s0;
          s2 = replace_all [cr, lf] [CHR 0x5C, CHR ''n''] s1;
          s3 = replace_all [lf] [CHR 0x5C, CHR ''n''] s2;
          s4 = replace_all [cr] [CHR 0x5C, CHR ''n''] s3;
          s5 = replace_all '';'' [CHR 0x5C, CHR '';''] s4
      in replace_all '','' [CHR 0x5C, CHR '',''] s5)"

text \<open>\<^verbatim>\<open>string(r)\<close>: a byte that starts no valid sequence has become U+FFFD.\<close>

definition rune_bytes :: "string \<Rightarrow> string" where
  "rune_bytes r = (if length r = 1 \<and> 128 \<le> byte (hd r) then [CHR 0xEF, CHR 0xBF, CHR 0xBD] else r)"

text \<open>The loop keeps the octets used in the current line and whether it is the first.\<close>

definition fold_step :: "nat \<times> bool \<times> string \<Rightarrow> string \<Rightarrow> nat \<times> bool \<times> string" where
  "fold_step st r = (case st of (used, first, b) \<Rightarrow>
     let n = length (rune_bytes r);
         limit = (if \<not> first then max_octets - 1 else max_octets)
     in if used + n > limit then (n, False, b @ [cr, lf] @ '' '' @ rune_bytes r)
        else (used + n, first, b @ rune_bytes r))"

definition write_folded :: "string \<Rightarrow> string \<Rightarrow> string" where
  "write_folded b line =
     (if length line \<le> max_octets then b @ line @ [cr, lf]
      else snd (snd (foldl fold_step (0, True, b) (runes line))) @ [cr, lf])"

definition write_raw :: "string \<Rightarrow> string \<Rightarrow> string \<Rightarrow> string" where
  "write_raw name value b = write_folded b (name @ '':'' @ value)"

definition write_text :: "string \<Rightarrow> string \<Rightarrow> string \<Rightarrow> string" where
  "write_text name value b = write_folded b (name @ '':'' @ escape_text value)"

definition render :: "ics_event \<Rightarrow> instant \<Rightarrow> string" where
  "render ev t =
     (let b1 = write_raw ''BEGIN'' ''VCALENDAR'' '''';
          b2 = write_raw ''VERSION'' ''2.0'' b1;
          b3 = write_raw ''PRODID'' ''-//Overlap//Overlap Scheduler//EN'' b2;
          b4 = write_raw ''CALSCALE'' ''GREGORIAN'' b3;
          b5 = write_raw ''METHOD'' ''PUBLISH'' b4;
          b6 = write_raw ''BEGIN'' ''VEVENT'' b5;
          b7 = write_raw ''UID'' (ic_uid ev) b6;
          b8 = write_raw ''DTSTAMP'' (stamp t) b7;
          b9 = write_raw ''DTSTART'' (stamp (ic_start ev)) b8;
          b10 = write_raw ''DTEND'' (stamp (ic_end ev)) b9;
          b11 = write_text ''SUMMARY'' (ic_summary ev) b10;
          b12 = (if ic_description ev \<noteq> '''' then write_text ''DESCRIPTION'' (ic_description ev) b11 else b11);
          b13 = (if ic_url ev \<noteq> '''' then write_raw ''URL'' (ic_url ev) b12 else b12);
          b14 = write_raw ''STATUS'' ''CONFIRMED'' b13;
          b15 = write_raw ''TRANSP'' ''OPAQUE'' b14;
          b16 = write_raw ''END'' ''VEVENT'' b15
      in write_raw ''END'' ''VCALENDAR'' b16)"

definition filename :: "string \<Rightarrow> string" where
  "filename slug = ''overlap-'' @ slug @ ''.ics''"

section \<open>Escaping\<close>

text \<open>An escaped text fits on one line, and undoing the escapes restores it with its line ends normalised.\<close>

lemma escape_text_line: "cr \<notin> set (escape_text s) \<and> lf \<notin> set (escape_text s)"
  by (auto simp: escape_text_def Let_def replace_all_char cr_def lf_def split: if_splits)

fun unescape :: "string \<Rightarrow> string" where
  "unescape (c # d # s) =
     (if c = CHR 0x5C then (if d = CHR ''n'' then lf else d) # unescape s else c # unescape (d # s))"
| "unescape s = s"

definition normal_lines :: "string \<Rightarrow> string" where
  "normal_lines s = replace_all [cr] [lf] (replace_all [cr, lf] [lf] s)"

lemma line_ends [simp]:
  "cr \<noteq> lf" "lf \<noteq> cr" "cr \<noteq> CHR 0x5C" "CHR 0x5C \<noteq> cr" "lf \<noteq> CHR 0x5C" "CHR 0x5C \<noteq> lf"
  "cr \<noteq> CHR ''n''" "CHR ''n'' \<noteq> cr" "lf \<noteq> CHR ''n''" "CHR ''n'' \<noteq> lf"
  "cr \<noteq> CHR '';''" "CHR '';'' \<noteq> cr" "lf \<noteq> CHR '';''" "CHR '';'' \<noteq> lf"
  "cr \<noteq> CHR '',''" "CHR '','' \<noteq> cr" "lf \<noteq> CHR '',''" "CHR '','' \<noteq> lf"
  by (simp_all add: cr_def lf_def)

lemma crlf_step:
  "replace_all [cr, lf] new (c # s) = (if c = cr \<and> s \<noteq> [] \<and> hd s = lf then new @ replace_all [cr, lf] new (tl s)
     else c # replace_all [cr, lf] new s)"
  by (cases s) (auto simp: replace_all.simps(2))

lemma escape_step:
  "escape_text [] = []"
  "c \<noteq> cr \<Longrightarrow> escape_text (c # s) = (if c = CHR 0x5C \<or> c = CHR '';'' \<or> c = CHR '','' then [CHR 0x5C, c]
     else if c = lf then [CHR 0x5C, CHR ''n''] else [c]) @ escape_text s"
  "s = [] \<or> hd s \<noteq> lf \<Longrightarrow> escape_text (cr # s) = [CHR 0x5C, CHR ''n''] @ escape_text s"
  "escape_text (cr # lf # s) = [CHR 0x5C, CHR ''n''] @ escape_text s"
proof -
  let ?e = "replace_all [CHR 0x5C] [CHR 0x5C, CHR 0x5C]"
  have hd: "?e s \<noteq> [] \<and> hd (?e s) = lf \<longleftrightarrow> s \<noteq> [] \<and> hd s = lf"
    by (cases s) (auto simp: replace_all_char)
  show "escape_text [] = []" by (simp add: escape_text_def)
  show "escape_text (c # s) = (if c = CHR 0x5C \<or> c = CHR '';'' \<or> c = CHR '','' then [CHR 0x5C, c]
     else if c = lf then [CHR 0x5C, CHR ''n''] else [c]) @ escape_text s" if "c \<noteq> cr"
    using that by (auto simp: escape_text_def Let_def replace_all_char crlf_step)
  show "escape_text (cr # s) = [CHR 0x5C, CHR ''n''] @ escape_text s" if "s = [] \<or> hd s \<noteq> lf"
    using that hd by (auto simp: escape_text_def Let_def replace_all_char crlf_step)
  show "escape_text (cr # lf # s) = [CHR 0x5C, CHR ''n''] @ escape_text s"
    by (auto simp: escape_text_def Let_def replace_all_char crlf_step)
qed

lemma normal_step:
  "normal_lines [] = []" "c \<noteq> cr \<Longrightarrow> normal_lines (c # s) = c # normal_lines s"
  "s = [] \<or> hd s \<noteq> lf \<Longrightarrow> normal_lines (cr # s) = lf # normal_lines s" "normal_lines (cr # lf # s) = lf # normal_lines s"
  by (auto simp: normal_lines_def replace_all_char crlf_step)

text \<open>
  The escaping of a text loses nothing but the kind of its line ends: undoing the escapes gives the
  text back with CR LF and CR as LF.
\<close>

theorem escape_text_roundtrip: "unescape (escape_text s) = normal_lines s"
proof (induction "length s" arbitrary: s rule: less_induct)
  case less
  have un: "unescape (CHR 0x5C # CHR ''n'' # x) = lf # unescape x" for x by (simp add: lf_def)
  have one: "unescape ((if c = CHR 0x5C \<or> c = CHR '';'' \<or> c = CHR '','' then [CHR 0x5C, c]
     else if c = lf then [CHR 0x5C, CHR ''n''] else [c]) @ x) = c # unescape x" for c x
    by (cases x) (auto simp: un)
  show ?case
  proof (cases s)
    case Nil
    then show ?thesis by (simp add: escape_step(1) normal_step(1))
  next
    case (Cons c t)
    then have ih: "unescape (escape_text t) = normal_lines t" "t \<noteq> [] \<Longrightarrow> unescape (escape_text (tl t)) = normal_lines (tl t)"
      using less by auto
    consider "c \<noteq> cr" | "c = cr" "t = [] \<or> hd t \<noteq> lf" | u where "c = cr" "t = lf # u" by (cases t) auto
    then show ?thesis
    proof cases
      case 1
      then show ?thesis using ih(1) Cons escape_step(2) [OF 1] normal_step(2) [OF 1] one by simp
    next
      case 2
      then show ?thesis using ih(1) Cons by (simp add: escape_step(3) un normal_step(3))
    next
      case 3
      then show ?thesis using ih(2) Cons by (simp add: escape_step(4) un normal_step(4))
    qed
  qed
qed

section \<open>Folding\<close>

text \<open>The physical lines of a folded content line, and the content line they carry.\<close>

definition wire_line :: "string \<Rightarrow> string" where
  "wire_line line = (if length line \<le> max_octets then line else concat (map rune_bytes (runes line)))"

text \<open>
  The chunks of a partly folded line, each of them made of whole runes: the first has at most 75 octets,
  the others one less, and the first is empty only when it is alone.
\<close>

definition chunks_ok :: "string list list \<Rightarrow> bool" where
  "chunks_ok cs \<longleftrightarrow> cs \<noteq> [] \<and> length (concat (hd cs)) \<le> max_octets
     \<and> (\<forall>c \<in> set (tl cs). length (concat c) \<le> max_octets - 1) \<and> (tl cs \<noteq> [] \<longrightarrow> concat (hd cs) \<noteq> [])"

definition physical :: "string list list \<Rightarrow> string list" where
  "physical cs = concat (hd cs) # map (\<lambda>c. '' '' @ concat c) (tl cs)"

lemma rune_bytes_length: "length (rune_bytes r) \<le> max 3 (length r)"
  by (simp add: rune_bytes_def)

lemma rune_length: "r \<in> set (runes s) \<Longrightarrow> length r \<le> 4"
proof (induction s rule: runes.induct)
  case (2 c s)
  have "rune_width (c # s) \<le> 4" by (auto simp: rune_width_def split: list.split)
  then show ?case using 2 by (auto simp: runes.simps(2))
qed simp

definition fold_inv :: "string \<Rightarrow> string list \<Rightarrow> nat \<times> bool \<times> string \<Rightarrow> bool" where
  "fold_inv b rs st \<longleftrightarrow> (\<exists>cs. chunks_ok cs \<and> concat cs = rs
     \<and> fst st = length (concat (last cs)) \<and> fst (snd st) = (length cs = 1)
     \<and> snd (snd st) = b @ join ([cr, lf] @ '' '') (map concat cs))"

lemma join_snoc: "xs \<noteq> [] \<Longrightarrow> join sep (xs @ [x]) = join sep xs @ sep @ x"
  by (induction xs) auto

lemma join_last: "join sep (xs @ [x @ y]) = join sep (xs @ [x]) @ y"
  by (induction xs) auto

lemma fold_inv_step:
  assumes "fold_inv b rs st" "length (rune_bytes r) \<le> max_octets - 1"
  shows "fold_inv b (rs @ [rune_bytes r]) (fold_step st r)"
proof -
  obtain used first out where st: "st = (used, first, out)" by (cases st)
  obtain cs where cs: "chunks_ok cs" "concat cs = rs" "used = length (concat (last cs))" "first = (length cs = 1)"
    "out = b @ join ([cr, lf] @ '' '') (map concat cs)"
    using assms(1) by (auto simp: fold_inv_def st)
  have ne: "cs \<noteq> []" using cs(1) by (simp add: chunks_ok_def)
  let ?n = "length (rune_bytes r)" and ?limit = "if \<not> first then max_octets - 1 else max_octets"
  show ?thesis
  proof (cases "used + ?n > ?limit")
    case True
    have "concat (hd cs) \<noteq> []"
    proof (cases "tl cs = []")
      case one: True
      then obtain c where c: "cs = [c]" using ne by (cases cs) auto
      show ?thesis
      proof
        assume "concat (hd cs) = []"
        then have "used = 0" "first" using cs(3,4) c by simp_all
        then show False using True assms(2) by simp
      qed
    qed (use cs(1) in \<open>simp add: chunks_ok_def\<close>)
    then have "chunks_ok (cs @ [[rune_bytes r]])" using cs(1) assms(2) by (auto simp: chunks_ok_def)
    moreover have "fold_step st r = (?n, False, out @ [cr, lf] @ '' '' @ rune_bytes r)"
      using True by (simp add: fold_step_def st Let_def)
    moreover have "join ([cr, lf] @ '' '') (map concat (cs @ [[rune_bytes r]]))
        = join ([cr, lf] @ '' '') (map concat cs) @ [cr, lf] @ '' '' @ rune_bytes r"
      using ne by (simp add: join_snoc)
    ultimately show ?thesis
      using cs ne unfolding fold_inv_def by (intro exI [of _ "cs @ [[rune_bytes r]]"]) simp
  next
    case False
    obtain ds d where d: "cs = ds @ [d]" using ne by (metis append_butlast_last_id)
    have "chunks_ok (ds @ [d @ [rune_bytes r]])"
      using cs(1,3,4) False by (cases ds) (auto simp: chunks_ok_def d)
    moreover have "fold_step st r = (used + ?n, first, out @ rune_bytes r)"
      using False by (simp add: fold_step_def st Let_def)
    moreover have "join ([cr, lf] @ '' '') (map concat (ds @ [d @ [rune_bytes r]]))
        = join ([cr, lf] @ '' '') (map concat cs) @ rune_bytes r"
      using join_last [of _ "map concat ds"] by (simp add: d)
    ultimately show ?thesis
      using cs ne d unfolding fold_inv_def by (intro exI [of _ "ds @ [d @ [rune_bytes r]]"]) simp
  qed
qed

lemma fold_inv_run:
  assumes "fold_inv b rs st" "\<forall>r \<in> set us. length r \<le> 4"
  shows "fold_inv b (rs @ map rune_bytes us) (foldl fold_step st us)"
  using assms
proof (induction us arbitrary: rs st)
  case (Cons r us)
  have "length (rune_bytes r) \<le> max_octets - 1"
    using rune_bytes_length [of r] Cons.prems(2) by (auto simp: max_octets_def)
  from Cons.IH [OF fold_inv_step [OF Cons.prems(1) this]] Cons.prems(2) show ?case by simp
qed simp

lemma join_physical: "cs \<noteq> [] \<Longrightarrow> join ([cr, lf] @ '' '') (map concat cs) @ [cr, lf] = concat (map (\<lambda>p. p @ [cr, lf]) (physical cs))"
proof (induction cs rule: rev_nonempty_induct)
  case (single x)
  then show ?case by (simp add: physical_def)
next
  case (snoc x xs)
  then have "physical (xs @ [x]) = physical xs @ ['' '' @ concat x]" by (simp add: physical_def)
  then show ?case using snoc by (simp add: join_snoc flip: append_assoc)
qed

lemma concat_map_concat: "concat (map concat xss) = concat (concat xss)"
  by (induction xss) simp_all

text \<open>What folding writes, the case of a line that needs no folding included.\<close>

lemma write_folded_lines:
  "\<exists>cs. chunks_ok cs \<and> write_folded b line = b @ concat (map (\<lambda>p. p @ [cr, lf]) (physical cs))
     \<and> concat (map concat cs) = wire_line line
     \<and> (length line > max_octets \<longrightarrow> concat cs = map rune_bytes (runes line))"
proof (cases "length line \<le> max_octets")
  case True
  then show ?thesis
    by (intro exI [of _ "[[line]]"]) (simp add: chunks_ok_def write_folded_def physical_def wire_line_def)
next
  case False
  have "fold_inv b [] (0, True, b)"
    unfolding fold_inv_def by (intro exI [of _ "[[]]"]) (simp add: chunks_ok_def)
  from fold_inv_run [OF this, of "runes line"] obtain cs where
    cs: "chunks_ok cs" "concat cs = map rune_bytes (runes line)"
      "snd (snd (foldl fold_step (0, True, b) (runes line))) = b @ join ([cr, lf] @ '' '') (map concat cs)"
    using rune_length by (auto simp: fold_inv_def)
  have "write_folded b line = b @ concat (map (\<lambda>p. p @ [cr, lf]) (physical cs))"
    using False cs join_physical [of cs] by (simp add: write_folded_def chunks_ok_def)
  moreover have "concat (map concat cs) = wire_line line"
    using False cs(2) by (simp add: wire_line_def concat_map_concat)
  ultimately show ?thesis using cs(1,2) by blast
qed

section \<open>The whole file\<close>

text \<open>The content lines as names and values, before folding.\<close>

definition content_fields :: "ics_event \<Rightarrow> instant \<Rightarrow> (string \<times> string) list" where
  "content_fields ev t =
     [(''BEGIN'', ''VCALENDAR''), (''VERSION'', ''2.0''), (''PRODID'', ''-//Overlap//Overlap Scheduler//EN''),
      (''CALSCALE'', ''GREGORIAN''), (''METHOD'', ''PUBLISH''), (''BEGIN'', ''VEVENT''), (''UID'', ic_uid ev),
      (''DTSTAMP'', stamp t), (''DTSTART'', stamp (ic_start ev)), (''DTEND'', stamp (ic_end ev)),
      (''SUMMARY'', escape_text (ic_summary ev))]
     @ (if ic_description ev \<noteq> '''' then [(''DESCRIPTION'', escape_text (ic_description ev))] else [])
     @ (if ic_url ev \<noteq> '''' then [(''URL'', ic_url ev)] else [])
     @ [(''STATUS'', ''CONFIRMED''), (''TRANSP'', ''OPAQUE''), (''END'', ''VEVENT''), (''END'', ''VCALENDAR'')]"

definition content_lines :: "ics_event \<Rightarrow> instant \<Rightarrow> string list" where
  "content_lines ev t = map (\<lambda>(name, v). name @ '':'' @ v) (content_fields ev t)"
lemma render_content: "render ev t = foldl write_folded '''' (content_lines ev t)"
  by (simp add: render_def content_lines_def content_fields_def write_raw_def write_text_def Let_def)

lemma rune_bytes_clean:
  "cr \<notin> set r \<Longrightarrow> lf \<notin> set r \<Longrightarrow> cr \<notin> set (rune_bytes r) \<and> lf \<notin> set (rune_bytes r)"
  by (auto simp: rune_bytes_def cr_def lf_def)

lemma wire_line_clean:
  assumes "cr \<notin> set line" "lf \<notin> set line"
  shows "cr \<notin> set (wire_line line) \<and> lf \<notin> set (wire_line line)"
proof -
  have "set r \<subseteq> set line" if "r \<in> set (runes line)" for r
    using that concat_runes [of line] by (metis UN_upper set_concat)
  then have "\<forall>r \<in> set (runes line). cr \<notin> set (rune_bytes r) \<and> lf \<notin> set (rune_bytes r)"
    using rune_bytes_clean assms by blast
  then show ?thesis using assms by (auto simp: wire_line_def)
qed

lemma physical_clean:
  assumes "x \<notin> set (concat (map concat cs))" "x \<noteq> CHR '' ''" "cs \<noteq> []" "p \<in> set (physical cs)"
  shows "x \<notin> set p"
proof -
  obtain c ds where "cs = c # ds" using assms(3) by (cases cs) auto
  then show ?thesis using assms by (auto simp: physical_def)
qed

definition plain :: "string \<Rightarrow> bool" where
  "plain s \<longleftrightarrow> cr \<notin> set s \<and> lf \<notin> set s"

definition folds_to :: "string list list \<Rightarrow> string \<Rightarrow> bool" where
  "folds_to cs line \<longleftrightarrow> chunks_ok cs \<and> concat (map concat cs) = wire_line line
     \<and> (length line > max_octets \<longrightarrow> concat cs = map rune_bytes (runes line))"

lemma fold_lines:
  "\<exists>css. list_all2 folds_to css ls
     \<and> foldl write_folded b ls = b @ concat (map (\<lambda>p. p @ [cr, lf]) (concat (map physical css)))"
proof (induction ls arbitrary: b)
  case (Cons line ls)
  obtain cs where cs: "folds_to cs line" "write_folded b line = b @ concat (map (\<lambda>p. p @ [cr, lf]) (physical cs))"
    using write_folded_lines [of b line] unfolding folds_to_def by blast
  from Cons.IH [of "write_folded b line"] obtain css where "list_all2 folds_to css ls"
    "foldl write_folded (write_folded b line) ls
      = write_folded b line @ concat (map (\<lambda>p. p @ [cr, lf]) (concat (map physical css)))" by blast
  then show ?case using cs by (intro exI [of _ "cs # css"]) simp
qed simp

lemma physical_bound: "chunks_ok cs \<Longrightarrow> p \<in> set (physical cs) \<Longrightarrow> length p \<le> max_octets"
  by (auto simp: chunks_ok_def physical_def max_octets_def)

lemma plain_append [simp]: "plain (a @ b) \<longleftrightarrow> plain a \<and> plain b"
  by (auto simp: plain_def)

lemma plain_digits: "list_all is_digit s \<Longrightarrow> plain s"
  by (auto simp: plain_def list_all_iff is_digit_def cr_def lf_def)

lemma plain_pad: "plain (append_int w n)"
proof -
  have "list_all is_digit (decimal k)" for k using decimal_digits by blast
  moreover have "list_all is_digit (replicate k (CHR ''0''))" for k by (induction k) (simp_all add: is_digit_def)
  ultimately have "plain (pad_int w \<bar>n\<bar>)" by (intro plain_digits) (simp add: pad_int_def Let_def)
  then show ?thesis by (simp add: append_int_def) (simp add: plain_def cr_def lf_def)
qed

lemma plain_stamp: "plain (stamp t)"
proof -
  have "plain ''T''" "plain ''Z''" by (simp_all add: plain_def cr_def lf_def)
  then show ?thesis
    by (cases "date_in utc t"; cases "clock_in utc t")
      (simp only: stamp_def format_stamp_def plain_pad plain_append prod.case simp_thms)
qed

lemma plain_content: "plain (ic_uid ev) \<Longrightarrow> plain (ic_url ev) \<Longrightarrow> line \<in> set (content_lines ev t) \<Longrightarrow> plain line"
  using plain_stamp [of t] plain_stamp [of "ic_start ev"] plain_stamp [of "ic_end ev"]
    escape_text_line [of "ic_summary ev"] escape_text_line [of "ic_description ev"]
  by (auto simp: content_lines_def content_fields_def plain_def cr_def lf_def split: if_splits)

lemma plain_wire: "plain line \<Longrightarrow> plain (wire_line line)"
  using wire_line_clean by (simp add: plain_def)

lemma plain_physical:
  assumes "folds_to cs line" "plain line" "p \<in> set (physical cs)"
  shows "plain p"
proof -
  have "plain (concat (map concat cs))" "cs \<noteq> []" using assms(1,2) plain_wire by (auto simp: folds_to_def chunks_ok_def)
  then show ?thesis using physical_clean [OF _ _ _ assms(3)] by (auto simp: plain_def cr_def lf_def)
qed

text \<open>
  When neither the UID nor the URL contains a line end, the file is a sequence of lines of at most 75
  octets without a line end of their own, each followed by CR LF, whatever the title and the names
  contain. A content line that is too long is cut into such lines at rune boundaries: the first chunk
  stands alone, the others follow a single space.
\<close>

theorem folded_lines:
  assumes "plain (ic_uid ev)" "plain (ic_url ev)"
  shows "\<exists>css. render ev t = concat (map (\<lambda>p. p @ [cr, lf]) (concat (map physical css)))
    \<and> (\<forall>p \<in> set (concat (map physical css)). length p \<le> max_octets \<and> plain p)
    \<and> list_all2 (\<lambda>cs line. concat (map concat cs) = wire_line line
         \<and> (length line > max_octets \<longrightarrow> concat cs = map rune_bytes (runes line))) css (content_lines ev t)"
proof -
  obtain css where css: "list_all2 folds_to css (content_lines ev t)"
    "render ev t = concat (map (\<lambda>p. p @ [cr, lf]) (concat (map physical css)))"
    using fold_lines [of "content_lines ev t" "''''"] by (auto simp: render_content)
  have "length p \<le> max_octets \<and> plain p" if p: "p \<in> set (concat (map physical css))" for p
  proof -
    from p obtain cs where cs: "cs \<in> set css" "p \<in> set (physical cs)" by auto
    then obtain line where "line \<in> set (content_lines ev t)" "folds_to cs line"
      using css(1) by (metis in_set_conv_nth list_all2_conv_all_nth)
    then show ?thesis
      using cs(2) physical_bound [of cs] plain_physical [of cs line] plain_content [OF assms] by (auto simp: folds_to_def)
  qed
  moreover have "list_all2 (\<lambda>cs line. concat (map concat cs) = wire_line line
         \<and> (length line > max_octets \<longrightarrow> concat cs = map rune_bytes (runes line))) css (content_lines ev t)"
    using css(1) by (rule list.rel_mono_strong) (simp add: folds_to_def)
  ultimately show ?thesis using css(2) by blast
qed

definition demo_ics :: ics_event where
  "demo_ics = \<lparr>ic_uid = ''abc@overlap'', ic_summary = ''Lunch, or tea'', ic_description = ''With: Ann, Bob'',
     ic_start = 10 * hour, ic_end = 11 * hour, ic_url = ''/e/abc''\<rparr>"

lemma demo_plain: "plain (ic_uid demo_ics)" "plain (ic_url demo_ics)"
  by (simp_all add: demo_ics_def plain_def cr_def lf_def)

lemma folded_lines_witness:
  "\<exists>ps. render demo_ics 0 = concat (map (\<lambda>p. p @ [cr, lf]) ps) \<and> (\<forall>p \<in> set ps. length p \<le> 75 \<and> plain p)"
  using folded_lines [OF demo_plain, of 0] unfolding max_octets_def by blast

end
