(* ===== verification/IcsFacts.thy ===== *)
theory IcsFacts
  imports Ics Icsparse StoreFacts
begin

text \<open>
  What the feed parser makes of a rendered event: unfolding undoes folding (\<open>unfold_rendered\<close>), and the
  whole parse returns the one interval of the event (\<open>parse_render\<close>).
\<close>

section \<open>Unfolding\<close>

lemma crlf_plain: "plain p \<Longrightarrow> replace_all [cr, lf] [lf] (p @ cr # lf # s) = p @ lf # replace_all [cr, lf] [lf] s"
  by (induction p) (auto simp: crlf_step plain_def)

lemma crlf_lines:
  "\<forall>p \<in> set ps. plain p \<Longrightarrow> replace_all [cr, lf] [lf] (concat (map (\<lambda>p. p @ [cr, lf]) ps)) = concat (map (\<lambda>p. p @ [lf]) ps)"
  by (induction ps) (simp_all add: crlf_plain)

lemma unfold_physical:
  assumes "\<forall>p \<in> set ps. plain p"
  shows "unfold_lines (concat (map (\<lambda>p. p @ [cr, lf]) ps)) = foldl join_line [] ps"
proof -
  have "cr \<notin> set (concat (map (\<lambda>p. p @ [lf]) ps))" using assms by (auto simp: plain_def)
  then have no_cr: "replace_all [cr] [lf] (concat (map (\<lambda>p. p @ [lf]) ps)) = concat (map (\<lambda>p. p @ [lf]) ps)"
    by (intro replace_all_absent) auto
  have "split_on lf (concat (map (\<lambda>p. p @ [lf]) ps)) = ps @ [[]]"
    using assms by (intro split_on_concat) (auto simp: plain_def)
  then have "unfold_lines (concat (map (\<lambda>p. p @ [cr, lf]) ps)) = foldl join_line [] (ps @ [[]])"
    using crlf_lines [OF assms] no_cr by (simp add: unfold_lines_def cr_def lf_def)
  then show ?thesis by (simp add: join_line_def)
qed

lemma join_spaced: "out \<noteq> [] \<Longrightarrow> foldl join_line out (map (\<lambda>c. '' '' @ c) cs) = butlast out @ [last out @ concat cs]"
proof (induction cs arbitrary: out)
  case (Cons c cs)
  have "join_line out ('' '' @ c) = butlast out @ [last out @ c]" using Cons.prems by (simp add: join_line_def)
  then show ?case using Cons.IH [of "butlast out @ [last out @ c]"] by simp
qed simp

definition line_start :: "string \<Rightarrow> bool" where
  "line_start s \<longleftrightarrow> s \<noteq> [] \<and> hd s \<noteq> CHR '' '' \<and> hd s \<noteq> CHR 0x09"

lemma join_physical_lines:
  assumes "chunks_ok cs" "concat (map concat cs) = w" "line_start w"
  shows "foldl join_line out (physical cs) = out @ [w]"
proof -
  obtain c ds where cs: "cs = c # ds" using assms(1) by (cases cs) (auto simp: chunks_ok_def)
  have "concat c \<noteq> []" using assms by (cases ds) (auto simp: chunks_ok_def line_start_def cs)
  moreover have "w = concat c @ concat (map concat ds)" using assms(2) by (simp add: cs)
  ultimately have "concat c \<noteq> []" "hd w = hd (concat c)" by (simp_all only: hd_append2 not_False_eq_True)
  then have "join_line out (concat c) = out @ [concat c]"
    using assms(3) by (simp add: join_line_def line_start_def)
  then have "foldl join_line out (physical cs) = foldl join_line (out @ [concat c]) (map (\<lambda>c. '' '' @ c) (map concat ds))"
    by (simp add: physical_def cs o_def)
  also have "\<dots> = out @ [concat c @ concat (map concat ds)]" by (subst join_spaced) simp_all
  also have "\<dots> = out @ [w]" using assms(2) by (simp add: cs)
  finally show ?thesis .
qed

lemma join_all_lines:
  "list_all2 folds_to css ls \<Longrightarrow> \<forall>l \<in> set ls. line_start (wire_line l)
    \<Longrightarrow> foldl join_line out (concat (map physical css)) = out @ map wire_line ls"
proof (induction css ls arbitrary: out rule: list_all2_induct)
  case (Cons cs css l ls)
  have "foldl join_line out (physical cs) = out @ [wire_line l]"
    using Cons.hyps(1) Cons.prems by (intro join_physical_lines) (auto simp: folds_to_def)
  then show ?case using Cons by simp
qed simp

section \<open>The lines of a rendered event\<close>

lemma runes_ascii_append: "list_all (\<lambda>c. byte c < 128) a \<Longrightarrow> runes (a @ b) = map (\<lambda>c. [c]) a @ runes b"
  by (induction a) (simp_all add: runes.simps(2) rune_width_ascii)

lemma wire_line_head:
  assumes "list_all (\<lambda>c. byte c < 128) a"
  shows "\<exists>b'. wire_line (a @ b) = a @ b'"
proof -
  have "concat (map rune_bytes (map (\<lambda>c. [c]) a)) = a"
    using assms by (induction a) (auto simp: rune_bytes_def)
  then show ?thesis using assms by (auto simp: wire_line_def runes_ascii_append)
qed

lemma wire_line_short: "length line \<le> 75 \<Longrightarrow> wire_line line = line"
  by (simp add: wire_line_def max_octets_def)

text \<open>The names the renderer writes.\<close>

definition upper_word :: "string \<Rightarrow> bool" where
  "upper_word s \<longleftrightarrow> s \<noteq> [] \<and> list_all (\<lambda>c. 65 \<le> byte c \<and> byte c \<le> 90) s"

lemma upper_word_facts:
  assumes "upper_word s"
  shows "to_upper (trim_space s) = s" "CHR '':'' \<notin> set s" "CHR '';'' \<notin> set s" "list_all (\<lambda>c. byte c < 128) s" "line_start (s @ x)"
proof -
  have up: "65 \<le> byte c" "byte c \<le> 90" if "c \<in> set s" for c using assms that by (auto simp: upper_word_def list_all_iff)
  show ascii: "list_all (\<lambda>c. byte c < 128) s" using up by (force simp: list_all_iff)
  have "trim_space s = s" using up by (intro trim_space_word) force
  moreover have "to_upper s = s"
    using up by (intro to_upper_ascii) (force simp: list_all_iff)
  ultimately show "to_upper (trim_space s) = s" by simp
  show "CHR '':'' \<notin> set s" "CHR '';'' \<notin> set s" using up by force+
  show "line_start (s @ x)" using assms up [of "hd s"] by (auto simp: line_start_def upper_word_def)
qed

lemma cut_first: "c \<notin> set a \<Longrightarrow> cut c (a @ c # b) = Some (a, b)"
  by (induction a) (auto simp: cut_def)

lemma parse_simple:
  assumes "upper_word name"
  shows "parse_property (name @ '':'' @ v) = Some \<lparr>pr_name = name, pr_params = Map.empty, pr_value = v\<rparr>"
  using upper_word_facts [OF assms] assms
  by (simp add: parse_property_def cut_first split_on_last upper_word_def)

lemma parse_wire:
  assumes "upper_word name"
  obtains v' where "parse_property (wire_line (name @ '':'' @ v)) = Some \<lparr>pr_name = name, pr_params = Map.empty, pr_value = v'\<rparr>"
proof -
  have "list_all (\<lambda>c. byte c < 128) (name @ '':'')" using upper_word_facts(4) [OF assms] by simp
  from wire_line_head [OF this, of v] obtain v' where "wire_line (name @ '':'' @ v) = name @ '':'' @ v'" by auto
  then show thesis using that parse_simple [OF assms] by metis
qed

section \<open>Reading the event back\<close>

abbreviation bare :: "string \<Rightarrow> string \<Rightarrow> property" where
  "bare name v \<equiv> \<lparr>pr_name = name, pr_params = Map.empty, pr_value = v\<rparr>"

lemma upper_words:
  "upper_word ''BEGIN''" "upper_word ''VERSION''" "upper_word ''PRODID''" "upper_word ''CALSCALE''" "upper_word ''METHOD''"
  "upper_word ''UID''" "upper_word ''DTSTAMP''" "upper_word ''DTSTART''" "upper_word ''DTEND''" "upper_word ''SUMMARY''"
  "upper_word ''DESCRIPTION''" "upper_word ''URL''" "upper_word ''STATUS''" "upper_word ''TRANSP''" "upper_word ''END''"
  by (simp_all add: upper_word_def)

lemma equal_words:
  "equal_fold ''VEVENT'' ''VEVENT''" "\<not> equal_fold ''VCALENDAR'' ''VEVENT''" "\<not> equal_fold ''CONFIRMED'' ''CANCELLED''"
  "\<not> equal_fold ''OPAQUE'' ''TRANSPARENT''" "\<not> equal_fold '''' ''DATE''"
  by (simp_all add: equal_fold_def runes_ascii fold_rune_def)

definition wire_prop :: "string \<times> string \<Rightarrow> property" where
  "wire_prop f = the (parse_property (wire_line (fst f @ '':'' @ snd f)))"

lemma wire_prop:
  assumes "upper_word name"
  shows "parse_property (wire_line (name @ '':'' @ v)) = Some (wire_prop (name, v))" "pr_name (wire_prop (name, v)) = name"
    "length name + length v < 75 \<Longrightarrow> wire_prop (name, v) = bare name v"
proof -
  obtain v' where "parse_property (wire_line (name @ '':'' @ v)) = Some (bare name v')" using parse_wire [OF assms] by blast
  then show "parse_property (wire_line (name @ '':'' @ v)) = Some (wire_prop (name, v))" "pr_name (wire_prop (name, v)) = name"
    by (simp_all add: wire_prop_def)
  show "wire_prop (name, v) = bare name v" if "length name + length v < 75"
    using that wire_line_short [of "name @ '':'' @ v"] parse_simple [OF assms, of v] by (simp add: wire_prop_def)
qed

definition inner :: "string \<times> string \<Rightarrow> bool" where
  "inner f \<longleftrightarrow> upper_word (fst f) \<and> fst f \<noteq> ''BEGIN'' \<and> fst f \<noteq> ''END''"

definition field_line :: "string \<times> string \<Rightarrow> string" where
  "field_line f = wire_line (fst f @ '':'' @ snd f)"

definition preamble :: "(string \<times> string) list" where
  "preamble = [(''VERSION'', ''2.0''), (''PRODID'', ''-//Overlap//Overlap Scheduler//EN''),
      (''CALSCALE'', ''GREGORIAN''), (''METHOD'', ''PUBLISH'')]"

lemma vevent_inner:
  "\<forall>f \<in> set fs. inner f \<Longrightarrow> foldl vevent_step (out, cur) (map field_line fs)
    = (out, map_option (\<lambda>ps. ps @ map wire_prop fs) cur)"
proof (induction fs arbitrary: cur)
  case Nil
  then show ?case by (cases cur) simp_all
next
  case (Cons f fs)
  have "inner f" using Cons.prems by simp
  then have "vevent_step (out, cur) (field_line f) = (out, map_option (\<lambda>ps. ps @ [wire_prop f]) cur)"
    using wire_prop(1,2) [of "fst f" "snd f"] by (auto simp: vevent_step_def inner_def field_line_def split: option.split)
  then show ?case using Cons by (cases cur) simp_all
qed

lemma vevent_marks:
  "vevent_step (out, cur) (field_line (''BEGIN'', ''VEVENT'')) = (out, Some [])"
  "vevent_step (out, None) (field_line (''BEGIN'', ''VCALENDAR'')) = (out, None)"
  "vevent_step (out, Some ps) (field_line (''END'', ''VEVENT'')) = (out @ [ps], None)"
  "vevent_step (out, None) (field_line (''END'', ''VCALENDAR'')) = (out, None)"
  using wire_prop(1,3) [OF upper_words(1), of "''VEVENT''"] wire_prop(1,3) [OF upper_words(1), of "''VCALENDAR''"]
    wire_prop(1,3) [OF upper_words(15), of "''VEVENT''"] wire_prop(1,3) [OF upper_words(15), of "''VCALENDAR''"]
  by (simp_all add: vevent_step_def equal_words field_line_def)

text \<open>The fields of the event proper.\<close>

definition event_fields :: "ics_event \<Rightarrow> instant \<Rightarrow> (string \<times> string) list" where
  "event_fields ev t =
     [(''UID'', ic_uid ev), (''DTSTAMP'', stamp t), (''DTSTART'', stamp (ic_start ev)), (''DTEND'', stamp (ic_end ev)),
      (''SUMMARY'', escape_text (ic_summary ev))]
     @ (if ic_description ev \<noteq> '''' then [(''DESCRIPTION'', escape_text (ic_description ev))] else [])
     @ (if ic_url ev \<noteq> '''' then [(''URL'', ic_url ev)] else [])
     @ [(''STATUS'', ''CONFIRMED''), (''TRANSP'', ''OPAQUE'')]"

lemma content_fields_split:
  "content_fields ev t = (''BEGIN'', ''VCALENDAR'') # preamble @ (''BEGIN'', ''VEVENT'') # event_fields ev t
      @ [(''END'', ''VEVENT''), (''END'', ''VCALENDAR'')]"
  by (simp add: content_fields_def event_fields_def preamble_def)

lemma vevents_content:
  "vevents (map wire_line (content_lines ev t)) = [map wire_prop (event_fields ev t)]"
proof -
  have "map wire_line (content_lines ev t) = map field_line (content_fields ev t)"
    by (simp add: content_lines_def field_line_def case_prod_beta)
  moreover have "\<forall>f \<in> set (event_fields ev t). inner f"
    by (auto simp: event_fields_def inner_def upper_words)
  moreover have "\<forall>f \<in> set preamble. inner f"
    by (simp add: preamble_def inner_def upper_words)
  ultimately show ?thesis
    unfolding vevents_def content_fields_split
    by (simp only: list.map(2) map_append foldl_Cons foldl_append vevent_marks vevent_inner option.map append_Nil list.map(1) foldl_Nil fst_conv)
qed

lemma stamp_length:
  assumes "0 \<le> fst (date_in utc t)" "fst (date_in utc t) < 10000"
  shows "length (stamp t) = 16"
proof -
  obtain y m d where day: "date_in utc t = (y, m, d)" by (cases "date_in utc t")
  obtain h mi s where clk: "clock_in utc t = (h, mi, s)" by (cases "clock_in utc t")
  have "valid_date y m d" using civil_of_days_valid [of "local_sec utc t div 86400"] day by (simp add: date_in_def)
  moreover have "month_start (leap_day y) (m + 1) - month_start (leap_day y) m \<le> 31"
    using leap_day_bounds [of y] by (simp add: month_start_def)
  ultimately have md: "0 \<le> m" "m < 10 ^ 2" "0 \<le> d" "d < 10 ^ 2" by (auto simp: valid_date_def)
  show ?thesis
    using assms day clock_in_bounds [OF clk] md
    by (simp add: stamp_def format_stamp_def clk append_int_pad pad_int_digits(2))
qed

lemma field_names: "\<forall>(name, v) \<in> set (content_fields ev t). upper_word name"
  unfolding content_fields_def by (auto simp: upper_words)

text \<open>The event between the two \<^verbatim>\<open>VEVENT\<close> lines: of its properties, the three the parser uses are known.\<close>

lemma rendered_event:
  assumes "plain (ic_uid ev)" "plain (ic_url ev)"
    "0 \<le> fst (date_in utc (ic_start ev))" "fst (date_in utc (ic_start ev)) < 10000"
    "0 \<le> fst (date_in utc (ic_end ev))" "fst (date_in utc (ic_end ev)) < 10000"
  obtains e where "vevents (unfold_lines (render ev t)) = [e]"
    "first_prop e ''STATUS'' = Some (bare ''STATUS'' ''CONFIRMED'')" "first_prop e ''TRANSP'' = Some (bare ''TRANSP'' ''OPAQUE'')"
    "first_prop e ''DTSTART'' = Some (bare ''DTSTART'' (stamp (ic_start ev)))"
    "first_prop e ''DTEND'' = Some (bare ''DTEND'' (stamp (ic_end ev)))" "first_prop e ''RRULE'' = None"
proof -
  obtain css where css: "list_all2 folds_to css (content_lines ev t)"
    "render ev t = concat (map (\<lambda>p. p @ [cr, lf]) (concat (map physical css)))"
    using fold_lines [of "content_lines ev t" "''''"] by (auto simp: render_content)
  have "plain p" if p: "p \<in> set (concat (map physical css))" for p
  proof -
    from p obtain cs where cs: "cs \<in> set css" "p \<in> set (physical cs)" by auto
    then obtain line where "line \<in> set (content_lines ev t)" "folds_to cs line"
      using css(1) by (metis in_set_conv_nth list_all2_conv_all_nth)
    then show ?thesis using cs(2) plain_physical plain_content [OF assms(1,2)] by blast
  qed
  moreover have start: "line_start (wire_line (name @ '':'' @ v))" if "upper_word name" for name v
  proof -
    from wire_line_head [of "name @ '':''" v] upper_word_facts(4) [OF that] obtain v' where
      "wire_line (name @ '':'' @ v) = name @ '':'' @ v'" by auto
    then show ?thesis using upper_word_facts(5) [OF that] by metis
  qed
  have "line_start (wire_line l)" if "l \<in> set (content_lines ev t)" for l
    using that start field_names [of ev t] by (auto simp: content_lines_def)
  ultimately have lines: "unfold_lines (render ev t) = map wire_line (content_lines ev t)"
    using join_all_lines [OF css(1), of "[]"] unfold_physical [of "concat (map physical css)"] css(2) by simp
  show thesis
  proof (rule that [of "map wire_prop (event_fields ev t)"])
    show "vevents (unfold_lines (render ev t)) = [map wire_prop (event_fields ev t)]"
      by (simp only: lines vevents_content)
    have short: "wire_prop (''STATUS'', ''CONFIRMED'') = bare ''STATUS'' ''CONFIRMED''"
      "wire_prop (''TRANSP'', ''OPAQUE'') = bare ''TRANSP'' ''OPAQUE''"
      "wire_prop (''DTSTART'', stamp (ic_start ev)) = bare ''DTSTART'' (stamp (ic_start ev))"
      "wire_prop (''DTEND'', stamp (ic_end ev)) = bare ''DTEND'' (stamp (ic_end ev))"
      using stamp_length assms(3-6) by (auto intro!: wire_prop(3) upper_words)
    note names = upper_words [THEN wire_prop(2)]
    show "first_prop (map wire_prop (event_fields ev t)) ''STATUS'' = Some (bare ''STATUS'' ''CONFIRMED'')"
      "first_prop (map wire_prop (event_fields ev t)) ''TRANSP'' = Some (bare ''TRANSP'' ''OPAQUE'')"
      "first_prop (map wire_prop (event_fields ev t)) ''DTSTART'' = Some (bare ''DTSTART'' (stamp (ic_start ev)))"
      "first_prop (map wire_prop (event_fields ev t)) ''DTEND'' = Some (bare ''DTEND'' (stamp (ic_end ev)))"
      "first_prop (map wire_prop (event_fields ev t)) ''RRULE'' = None"
      by (simp_all add: first_prop_def event_fields_def names short)
  qed
qed

lemma stamp_chars:
  assumes "0 \<le> fst (date_in utc t)" "fst (date_in utc t) < 10000"
  shows "trim_space (stamp t) = stamp t" "last (stamp t) = CHR ''Z''" "stamp t \<noteq> []"
proof -
  obtain y m d where day: "date_in utc t = (y, m, d)" by (cases "date_in utc t")
  obtain h mi s where clk: "clock_in utc t = (h, mi, s)" by (cases "clock_in utc t")
  have digits: "list_all is_digit (pad_int w \<bar>n\<bar>)" for w n
  proof -
    have "list_all is_digit (replicate k (CHR ''0''))" for k by (induction k) (simp_all add: is_digit_def)
    then show ?thesis using decimal_digits by (simp add: pad_int_def Let_def)
  qed
  have "valid_date y m d" using civil_of_days_valid [of "local_sec utc t div 86400"] day by (simp add: date_in_def)
  then have pos: "0 \<le> m" "0 \<le> d" "0 \<le> y" using assms day by (auto simp: valid_date_def)
  have "33 \<le> byte c \<and> byte c < 128" if "c \<in> set (append_int w n)" "0 \<le> n" for c w n
    using that digits [of w n] by (auto simp: append_int_def list_all_iff is_digit_def)
  then have "\<forall>c \<in> set (stamp t). 33 \<le> byte c \<and> byte c < 128"
    using clock_in_bounds [OF clk] pos by (auto simp: stamp_def format_stamp_def day clk)
  then show "trim_space (stamp t) = stamp t" by (rule trim_space_word)
  show "last (stamp t) = CHR ''Z''" "stamp t \<noteq> []" by (simp_all add: stamp_def format_stamp_def day clk)
qed

lemma parse_stamp:
  assumes "0 \<le> fst (date_in utc t)" "fst (date_in utc t) < 10000"
  shows "parse_time env (bare name (stamp t)) = Some (t div second * second, utc, False)"
  using stamp_chars [OF assms] stamp_length [OF assms] stamp_roundtrip [OF assms] equal_words(5)
  by (simp add: parse_time_def param_def Let_def stamp_def)

lemma rendered_parses:
  assumes "plain (ic_uid ev)" "plain (ic_url ev)"
    "0 \<le> fst (date_in utc (ic_start ev))" "fst (date_in utc (ic_start ev)) < 10000"
    "0 \<le> fst (date_in utc (ic_end ev))" "fst (date_in utc (ic_end ev)) < 10000"
    "ic_start ev div second < ic_end ev div second"
    "(ic_end ev div second - ic_start ev div second) * second < 2 ^ 63"
  shows "parse_feed env (render ev t) t_from t_to =
    (let i = Interval (ic_start ev div second * second) (ic_end ev div second * second)
     in if overlaps i (Interval t_from t_to) then [i] else [])"
proof -
  from rendered_event [OF assms(1-6), of t] obtain e where e: "vevents (unfold_lines (render ev t)) = [e]"
    "first_prop e ''STATUS'' = Some (bare ''STATUS'' ''CONFIRMED'')" "first_prop e ''TRANSP'' = Some (bare ''TRANSP'' ''OPAQUE'')"
    "first_prop e ''DTSTART'' = Some (bare ''DTSTART'' (stamp (ic_start ev)))"
    "first_prop e ''DTEND'' = Some (bare ''DTEND'' (stamp (ic_end ev)))" "first_prop e ''RRULE'' = None"
    by blast
  let ?s = "ic_start ev div second * second" and ?t = "ic_end ev div second * second"
  have lt: "?s < ?t" using assms(7) by (simp add: second_def)
  have "?t - ?s < 2 ^ 63" using assms(8) by (simp add: left_diff_distrib)
  then have sub: "time_sub ?t ?s = ?t - ?s" using lt by (simp add: time_sub_def)
  have "event_duration env e ?s False = Some (?t - ?s)"
    using lt sub by (simp add: event_duration_def e(5) parse_stamp [OF assms(5,6)])
  moreover have "trim_space ''CONFIRMED'' = ''CONFIRMED''" "trim_space ''OPAQUE'' = ''OPAQUE''"
    by (rule trim_space_word, simp)+
  ultimately have "event_intervals env e t_from t_to = (if overlaps (Interval ?s ?t) (Interval t_from t_to) then [Interval ?s ?t] else [])"
    using lt by (simp add: event_intervals_def says_def e(2-4,6) equal_words parse_stamp [OF assms(3,4)] valid_interval_def)
  then show ?thesis by (simp add: parse_feed_def e(1) merge_intervals_def)
qed

text \<open>
  The two halves of the program that speak iCalendar agree. An event that the renderer writes (its
  UID and URL free of line ends, its times within the years 0 to 9999, less than 292 years apart) is read
  by the feed parser as the one busy interval from its start to its end, cut to whole seconds, if that
  meets the window, and as nothing otherwise: no title, name or fold gets in the way.
\<close>

theorem parse_render:
  assumes "plain (ic_uid ev)" "plain (ic_url ev)"
    "0 \<le> fst (date_in utc (ic_start ev))" "fst (date_in utc (ic_start ev)) < 10000"
    "0 \<le> fst (date_in utc (ic_end ev))" "fst (date_in utc (ic_end ev)) < 10000"
    "ic_start ev div second < ic_end ev div second"
    "(ic_end ev div second - ic_start ev div second) * second < 2 ^ 63"
  shows "parse_feed env (render ev t) t_from t_to =
    (let i = Interval (ic_start ev div second * second) (ic_end ev div second * second)
     in if overlaps i (Interval t_from t_to) then [i] else [])"
  by (rule rendered_parses [OF assms])

lemma demo_years: "date_in utc (10 * hour) = (1970, 1, 1)" "date_in utc (11 * hour) = (1970, 1, 1)"
  by code_simp+

lemma parse_render_witness:
  "parse_feed demo_env (render demo_ics 0) 0 (24 * hour) = [Interval (10 * hour) (11 * hour)]"
  using parse_render [OF demo_plain, of demo_env 0 0 "24 * hour"] demo_years
  by (simp add: demo_ics_def duration_units overlaps_def)

end
