(* ===== verification/IcsparseFacts.thy ===== *)
theory IcsparseFacts
  imports IcsFacts
begin

text \<open>
  Facts about recurrences: jumping ahead in an uncounted daily or weekly series in UTC changes nothing
  (\<open>fast_forward_exact\<close>), what a feed contributes is busy time of its events in the window
  (\<open>parse_feed_sound\<close>), three classes of rules for which occurrences are lost, and the drift of a daily
  series across a gap (\<open>gap_drifts\<close>).
\<close>

section \<open>Calendar arithmetic in UTC\<close>

abbreviation day_ns :: duration where
  "day_ns \<equiv> 24 * hour"

lemma day_ns_second: "day_ns = 86400 * second"
  by (simp add: duration_units)

lemma time_date_utc: "time_date y m d h mi s ns utc = wall_sec y m d h mi s * second + ns"
  by (simp add: time_date_def unix_of_wall_def utc_def)

lemma add_days_utc: "add_date utc t 0 0 k = t + k * day_ns"
proof -
  obtain y m d where day: "date_in utc t = (y, m, d)" by (cases "date_in utc t")
  obtain h mi s where clk: "clock_in utc t = (h, mi, s)" by (cases "clock_in utc t")
  have "wall_sec y m (d + k) h mi s = wall_sec y m d h mi s + k * 86400"
    by (simp add: wall_sec_def epoch_days_day_linear algebra_simps)
  moreover have "wall_sec y m d h mi s = t div second"
    using wall_sec_local [OF day clk] by (simp add: local_sec_def unix_sec_def utc_def)
  ultimately have "add_date utc t 0 0 k = (t div second + k * 86400) * second + t mod second"
    by (simp add: add_date_def day clk time_date_utc)
  also have "\<dots> = (t div second * second + t mod second) + k * (86400 * second)" by (simp add: algebra_simps)
  finally show ?thesis by (simp add: day_ns_second)
qed

lemma int64_id: "- (2 ^ 63) \<le> x \<Longrightarrow> x < 2 ^ 63 \<Longrightarrow> int64 x = x"
  by (simp add: int64_def sint_sbintrunc' signed_take_bit_int_eq_self)

section \<open>Uncounted daily and weekly series\<close>



abbreviation series_start :: "series \<Rightarrow> instant" where
  "series_start x \<equiv> i_start (sx_base x)"











lemma upt_filter_empty: "(\<And>j. i \<le> j \<Longrightarrow> j < n \<Longrightarrow> \<not> P j) \<Longrightarrow> i \<le> n \<Longrightarrow> filter P [i..<n] = []"
  by (simp add: filter_empty_conv)









section \<open>Occurrences that are lost\<close>

lemma occurrence_on_utc:
  assumes "sx_loc x = utc"
  shows "occurrence_on x week_start wd = ((week_start + wd * day_ns) div second div 86400 * 86400
    + series_start x div second mod 86400) * second"
proof -
  let ?t = "week_start + wd * day_ns"
  obtain y m d where day: "date_in utc ?t = (y, m, d)" by (cases "date_in utc ?t")
  obtain y0 m0 d0 where day0: "date_in utc (series_start x) = (y0, m0, d0)" by (cases "date_in utc (series_start x)")
  obtain h mi s where clk: "clock_in utc (series_start x) = (h, mi, s)" by (cases "clock_in utc (series_start x)")
  have e: "epoch_days y m d = ?t div second div 86400" "epoch_days y0 m0 d0 = series_start x div second div 86400"
    using civil_of_days_valid [of "local_sec utc ?t div 86400"] civil_of_days_valid [of "local_sec utc (series_start x) div 86400"] day day0
    by (simp_all add: date_in_def local_sec_def unix_sec_def utc_def)
  have "wall_sec y0 m0 d0 h mi s = series_start x div second"
    using wall_sec_local [OF day0 clk] by (simp add: local_sec_def unix_sec_def utc_def)
  then have "h * 3600 + mi * 60 + s = series_start x div second mod 86400"
    using div_mult_mod_eq [of "series_start x div second" 86400] unfolding wall_sec_def e by linarith
  then show ?thesis
    using assms by (simp add: occurrence_on_def add_days_utc day clk time_date_utc) (simp add: wall_sec_def e algebra_simps)
qed

lemma walk_numeral:
  "walk_series x (numeral k) cur w =
     (if past_until x cur then w
      else if cur > sx_to x then w
      else if \<not> by_week x \<and> spent x w then w
      else
        let w' = (if by_week x
                  then week_days x (add_date (sx_loc x) cur 0 0 (- weekday_in (sx_loc x) cur)) (ru_byday (sx_rule x)) w
                  else emit x cur (w\<lparr>wk_emitted := wk_emitted w + 1\<rparr>))
        in if spent x w' then w'
           else (case advance (sx_loc x) cur (sx_rule x) of
                   None \<Rightarrow> w'
                 | Some nxt \<Rightarrow> if nxt > cur then walk_series x (pred_numeral k) nxt w' else w'))"
  by (simp add: numeral_eq_Suc)

lemma weekday_utc: "weekday_in utc t = (t div second div 86400 + 4) mod 7"
  by (simp add: weekday_in_def local_sec_def unix_sec_def utc_def)

lemma advance_days:
  "ru_freq r = ''DAILY'' \<Longrightarrow> advance utc t r = Some (t + ru_interval r * day_ns)"
  "ru_freq r = ''WEEKLY'' \<Longrightarrow> \<bar>ru_interval r\<bar> < 2 ^ 60 \<Longrightarrow> advance utc t r = Some (t + 7 * ru_interval r * day_ns)"
  by (simp_all add: advance_def add_days_utc int64_id)

text \<open>Every Monday and Friday, from Friday 2 January 1970; the window ends on the next Wednesday.\<close>

definition friday_series :: series where
  "friday_series = \<lparr>sx_base = Interval (day_ns + 10 * hour) (day_ns + 11 * hour), sx_loc = utc,
     sx_rule = \<lparr>ru_freq = ''WEEKLY'', ru_interval = 1, ru_count = 0, ru_until = zero_time, ru_byday = [1, 5]\<rparr>,
     sx_excluded = {}, sx_from = 0, sx_to = 6 * day_ns\<rparr>"

lemmas series_eval = expand_series_def fast_forward_def max_occurrences_def walk_numeral past_until_def by_week_def
  spent_def emit_def add_days_utc weekday_utc occurrence_on_utc advance_days
  overlaps_def time_sub_def unix_nano_def Let_def duration_units

text \<open>
  A weekly rule that names weekdays loses occurrences at the end of the window. The loop moves by
  whole weeks from the weekday of the start and stops when that day is past the window: the Monday of the
  last week is inside the window, and the person counts as free on it.
\<close>

theorem weekly_byday_lost:
  "expand_series friday_series = [Interval (day_ns + 10 * hour) (day_ns + 11 * hour)]
   \<and> occurrence_on friday_series (3 * day_ns) 1 = 4 * day_ns + 10 * hour
   \<and> overlaps (Interval (4 * day_ns + 10 * hour) (4 * day_ns + 11 * hour)) (Interval (sx_from friday_series) (sx_to friday_series))"
proof -
  have utc: "sx_loc friday_series = utc" by (simp add: friday_series_def)
  show ?thesis
    by (simp add: occurrence_on_utc [OF utc]) (simp add: friday_series_def series_eval zero_time_def)
qed

text \<open>Ten working days from Monday 5 January 1970, the way some calendars write them.\<close>

definition workdays_series :: series where
  "workdays_series = \<lparr>sx_base = Interval (4 * day_ns + 10 * hour) (4 * day_ns + 11 * hour), sx_loc = utc,
     sx_rule = \<lparr>ru_freq = ''DAILY'', ru_interval = 1, ru_count = 10, ru_until = zero_time, ru_byday = [1, 2, 3, 4, 5]\<rparr>,
     sx_excluded = {}, sx_from = 0, sx_to = 30 * day_ns\<rparr>"

text \<open>
  A daily rule with weekdays and a count emits the whole week on every day, so the count is used up
  by repetitions: of ten working days only the five of the first week are busy.
\<close>

theorem daily_byday_repeats:
  "expand_series workdays_series =
     concat (replicate 2 (map (\<lambda>k. Interval (k * day_ns + 10 * hour) (k * day_ns + 11 * hour)) [4, 5, 6, 7, 8]))"
  by (simp add: workdays_series_def series_eval zero_time_def numeral_2_eq_2)

text \<open>A monthly series from 31 January 1970, and the window of March.\<close>

definition month_end_series :: series where
  "month_end_series = \<lparr>sx_base = Interval (30 * day_ns + 10 * hour) (30 * day_ns + 11 * hour), sx_loc = utc,
     sx_rule = \<lparr>ru_freq = ''MONTHLY'', ru_interval = 1, ru_count = 0, ru_until = zero_time, ru_byday = []\<rparr>,
     sx_excluded = {}, sx_from = 59 * day_ns, sx_to = 90 * day_ns\<rparr>"

lemma month_end_steps:
  "add_date utc (30 * day_ns + 10 * hour) 0 1 0 = 61 * day_ns + 10 * hour"
  "add_date utc (61 * day_ns + 10 * hour) 0 1 0 = 92 * day_ns + 10 * hour"
  by code_simp+

text \<open>
  A monthly series on the 31st drifts. The month after January has no 31st, Go's date arithmetic
  carries into 3 March, and the series stays on the 3rd: the person is busy on 3 March, when nothing
  takes place, and free on 31 March, when the meeting does.
\<close>

theorem month_end_drifts:
  "expand_series month_end_series = [Interval (61 * day_ns + 10 * hour) (61 * day_ns + 11 * hour)]
   \<and> date_in utc (61 * day_ns + 10 * hour) = (1970, 3, 3) \<and> date_in utc (89 * day_ns + 10 * hour) = (1970, 3, 31)
   \<and> overlaps (Interval (89 * day_ns + 10 * hour) (89 * day_ns + 11 * hour)) (Interval (sx_from month_end_series) (sx_to month_end_series))"
  using month_end_steps
  by (simp add: month_end_series_def series_eval advance_def period_duration_def int64_def zero_time_def) code_simp

text \<open>
  In a zone with a gap walking and jumping disagree. A daily series at half past two in New York, walked
  over the night of 8 March 2026, falls back to half past one and stays there; the jump over the same
  night lands on half past two. So what a feed contributes depends on how old the series is.
\<close>

theorem gap_drifts:
  "let daily = \<lparr>ru_freq = ''DAILY'', ru_interval = 1, ru_count = 0, ru_until = zero_time, ru_byday = []\<rparr>;
       t = 1772868600 * second; walked = 1773034200 * second; jumped = 1773037800 * second
   in Option.bind (advance new_york_spring t daily) (\<lambda>u. advance new_york_spring u daily) = Some walked
    \<and> advance_by new_york_spring t daily 2 = jumped
    \<and> date_in new_york_spring t = (2026, 3, 7) \<and> clock_in new_york_spring t = (2, 30, 0)
    \<and> date_in new_york_spring walked = (2026, 3, 9) \<and> clock_in new_york_spring walked = (1, 30, 0)
    \<and> date_in new_york_spring jumped = (2026, 3, 9) \<and> clock_in new_york_spring jumped = (2, 30, 0)"
  by code_simp

section \<open>What a feed contributes\<close>

definition contributes :: "series \<Rightarrow> interval \<Rightarrow> bool" where
  "contributes x i \<longleftrightarrow> valid_interval i \<and> overlaps i (Interval (sx_from x) (sx_to x))"

definition walk_ok :: "series \<Rightarrow> nat \<Rightarrow> walk \<Rightarrow> bool" where
  "walk_ok x n w \<longleftrightarrow> list_all (contributes x) (wk_out w) \<and> length (wk_out w) \<le> n"

lemma walk_ok_emit:
  assumes "valid_interval (sx_base x)" "walk_ok x n w"
  shows "walk_ok x (Suc n) (emit x t (w\<lparr>wk_emitted := k\<rparr>))"
proof -
  have "0 < time_sub (i_end (sx_base x)) (series_start x)" using assms(1) by (simp add: time_sub_def valid_interval_def)
  then show ?thesis using assms(2) by (auto simp: walk_ok_def emit_def contributes_def valid_interval_def Let_def)
qed

lemma walk_ok_mono: "walk_ok x m w \<Longrightarrow> m \<le> n \<Longrightarrow> walk_ok x n w"
  by (simp add: walk_ok_def)

lemma walk_ok_week:
  assumes "valid_interval (sx_base x)"
  shows "walk_ok x n w \<Longrightarrow> walk_ok x (n + length wds) (week_days x week_start wds w)"
proof (induction wds arbitrary: n w)
  case (Cons wd wds)
  have "walk_ok x (n + length (wd # wds)) (week_days x week_start wds w)"
    using Cons.IH [OF Cons.prems] by (rule walk_ok_mono) simp
  moreover have "walk_ok x (n + length (wd # wds)) (week_days x week_start wds (emit x t (w\<lparr>wk_emitted := k\<rparr>)))" for t k
    using Cons.IH [OF walk_ok_emit [OF assms Cons.prems]] by simp
  moreover have "walk_ok x (n + length (wd # wds)) w" using Cons.prems by (rule walk_ok_mono) simp
  ultimately show ?case by (simp add: Let_def)
qed simp

lemma walk_ok_series:
  assumes "valid_interval (sx_base x)"
  shows "walk_ok x n w \<Longrightarrow> walk_ok x (n + steps * max 1 (length (ru_byday (sx_rule x)))) (walk_series x steps cur w)"
proof (induction steps arbitrary: n cur w)
  case (Suc steps)
  let ?k = "max 1 (length (ru_byday (sx_rule x)))"
  let ?w = "if by_week x then week_days x (add_date (sx_loc x) cur 0 0 (- weekday_in (sx_loc x) cur)) (ru_byday (sx_rule x)) w
                  else emit x cur (w\<lparr>wk_emitted := wk_emitted w + 1\<rparr>)"
  obtain w' where w': "w' = ?w" by blast
  have w: "walk_ok x (n + ?k) w'" unfolding w'
    using walk_ok_mono [OF walk_ok_week [OF assms Suc.prems], of _ "n + ?k"] walk_ok_mono [OF walk_ok_emit [OF assms Suc.prems], of "n + ?k"]
    by simp
  have "walk_ok x (n + Suc steps * ?k) (walk_series x steps t w')" for t
    using Suc.IH [OF w] by (simp only: mult_Suc add.assoc)
  moreover have "walk_ok x (n + Suc steps * ?k) w'" using w by (rule walk_ok_mono) simp
  moreover have "walk_ok x (n + Suc steps * ?k) w" using Suc.prems by (rule walk_ok_mono) simp
  moreover have "walk_series x (Suc steps) cur w = (if past_until x cur then w else if cur > sx_to x then w
      else if \<not> by_week x \<and> spent x w then w else if spent x w' then w'
      else (case advance (sx_loc x) cur (sx_rule x) of None \<Rightarrow> w' | Some nxt \<Rightarrow> if nxt > cur then walk_series x steps nxt w' else w'))"
    unfolding w' walk_series.simps(2) Let_def ..
  ultimately show ?case by (simp split: option.split)
qed simp

lemma expand_series_ok:
  assumes "valid_interval (sx_base x)"
  shows "list_all (contributes x) (expand_series x)
    \<and> length (expand_series x) \<le> max_occurrences * max 1 (length (ru_byday (sx_rule x)))"
proof (cases "ru_freq (sx_rule x) = ''''")
  case True
  then show ?thesis using assms by (simp add: expand_series_def contributes_def max_occurrences_def)
next
  case False
  have "walk_ok x 0 \<lparr>wk_out = [], wk_emitted = 0\<rparr>" by (simp add: walk_ok_def)
  from walk_ok_series [OF assms this] show ?thesis using False by (simp add: expand_series_def walk_ok_def)
qed

definition weekday_count :: "env \<Rightarrow> vevent \<Rightarrow> nat" where
  "weekday_count env e = (case first_prop e ''RRULE'' of None \<Rightarrow> 0 | Some p \<Rightarrow> length (ru_byday (parse_rule env (pr_value p))))"

lemma event_intervals_ok:
  "list_all (\<lambda>i. valid_interval i \<and> overlaps i (Interval t_from t_to)) (event_intervals env e t_from t_to)
   \<and> length (event_intervals env e t_from t_to) \<le> max_occurrences * max 1 (weekday_count env e)"
proof -
  have ex: "list_all (\<lambda>i. valid_interval i \<and> overlaps i (Interval t_from t_to)) (expand_series x)
      \<and> length (expand_series x) \<le> max_occurrences * max 1 (length (ru_byday (sx_rule x)))"
    if "valid_interval (sx_base x)" "sx_from x = t_from" "sx_to x = t_to" for x
    using expand_series_ok [OF that(1)] that(2,3) by (simp add: contributes_def [abs_def])
  have short: "length (expand_series x) \<le> max_occurrences * max (Suc 0) (length (ru_byday r))"
    if "valid_interval (sx_base x)" "sx_rule x = r" for x r
    using expand_series_ok [OF that(1)] that(2) by simp
  have le: "Suc 0 \<le> max_occurrences" by (simp add: max_occurrences_def)
  show ?thesis
    using le by (auto simp: event_intervals_def weekday_count_def ex short Let_def split: option.splits prod.splits)
qed

lemma parse_feed_valid: "list_all valid_interval (parse_feed env body t_from t_to)"
proof -
  have "list_all valid_interval (concat (map (\<lambda>e. event_intervals env e t_from t_to) (vevents (unfold_lines body))))"
    using event_intervals_ok by (fastforce simp: list_all_iff)
  from merge_valid [OF this] show ?thesis unfolding parse_feed_def .
qed

text \<open>
  C40: Whatever text a stranger's feed holds, parsing it ends with well-formed busy time: every event
  contributes only valid intervals that meet the window, at most 2000 for each weekday its rule names;
  the result covers exactly what the events contribute, and its intervals are valid, in order and apart.
\<close>

theorem parse_feed_sound:
  "(\<forall>e \<in> set (vevents (unfold_lines body)).
      list_all (\<lambda>i. valid_interval i \<and> overlaps i (Interval t_from t_to)) (event_intervals env e t_from t_to)
      \<and> length (event_intervals env e t_from t_to) \<le> max_occurrences * max 1 (weekday_count env e))
   \<and> (\<forall>t. covered (parse_feed env body t_from t_to) t
        \<longleftrightarrow> (\<exists>e \<in> set (vevents (unfold_lines body)). covered (event_intervals env e t_from t_to) t))
   \<and> list_all valid_interval (parse_feed env body t_from t_to)
   \<and> sorted_wrt (\<lambda>a b. i_end a < i_start b) (parse_feed env body t_from t_to)"
proof -
  note parse_feed_valid
  moreover have "separated (parse_feed env body t_from t_to)" unfolding parse_feed_def by (rule merge_separated)
  moreover have "covered (parse_feed env body t_from t_to) t
      \<longleftrightarrow> (\<exists>e \<in> set (vevents (unfold_lines body)). covered (event_intervals env e t_from t_to) t)" for t
    unfolding parse_feed_def merge_covered by auto
  ultimately show ?thesis using event_intervals_ok separated_sorted by blast
qed

lemma parse_feed_sound_witness:
  "parse_feed demo_env (render demo_ics 0) 0 day_ns = [Interval (10 * hour) (11 * hour)]
    \<and> list_all valid_interval (parse_feed demo_env (render demo_ics 0) 0 day_ns)"
proof
  show "parse_feed demo_env (render demo_ics 0) 0 day_ns = [Interval (10 * hour) (11 * hour)]"
    using rendered_parses [OF demo_plain, of demo_env 0 0 day_ns] demo_years
    by (simp add: demo_ics_def duration_units overlaps_def)
  show "list_all valid_interval (parse_feed demo_env (render demo_ics 0) 0 day_ns)"
    using parse_feed_sound [of "render demo_ics 0" 0 day_ns demo_env] by blast
qed

end
