(* ===== verification/GroupHandlerFacts.thy ===== *)
theory GroupHandlerFacts
  imports GroupHandlers IcsparseFacts
begin

text \<open>
  What the group handlers guarantee: a proposal is the earliest slot of the event that is free in every
  calendar that answered, and names exactly those members (\<open>group_proposal_exact\<close>); the unauthenticated
  proposal route computes or repeats such a proposal for an open event of its own group only and writes
  nothing (\<open>group_proposal_served\<close>); and a seat is given only against the token of a member of the group
  the event belongs to (\<open>event_seat_needs_member\<close>).
\<close>

section \<open>Proposals\<close>

text \<open>The calendars that answer: the members with a stored feed whose host returns a body.\<close>

definition calendars_read :: "env \<Rightarrow> fetcher \<Rightarrow> instant \<Rightarrow> instant \<Rightarrow> group_member list \<Rightarrow> (string \<times> interval list) list" where
  "calendars_read env fetch t_from t_to members =
     [(sm_name m, parse_feed env (projr (fetch (sm_url m))) t_from t_to).
        m \<leftarrow> members, sm_calendar m = ''ics'' \<and> sm_url m \<noteq> '''' \<and> \<not> isl (fetch (sm_url m))]"

definition free_in_all :: "(string \<times> interval list) list \<Rightarrow> instant \<Rightarrow> duration \<Rightarrow> bool" where
  "free_in_all cals slot dur \<longleftrightarrow> (\<forall>(name, busy) \<in> set cals. \<forall>t. slot \<le> t \<and> t < slot + dur \<longrightarrow> \<not> covered busy t)"

lemma refreshed_members:
  fixes env fetch t_from t_to
  defines "ms \<equiv> \<lambda>members. refreshed env fetch t_from t_to (filter (\<lambda>m. sm_calendar m = ''ics'') members)"
  shows "map (\<lambda>m. (m_name m, the (m_busy m))) (ms members) = calendars_read env fetch t_from t_to members"
    "list_all has_calendar (ms members)"
    "\<forall>m \<in> set (ms members). \<forall>busy. m_busy m = Some busy \<longrightarrow> list_all valid_interval busy"
  unfolding ms_def
  by (induction members)
    (auto simp: refreshed_def calendars_read_def refresh_group_member_calendar_def map_filter_simps has_calendar_def
      parse_feed_valid split: sum.split option.split)

lemma free_in_all_iff:
  assumes "map (\<lambda>m. (m_name m, the (m_busy m))) ms = cals" "list_all has_calendar ms"
  shows "free_in_all cals slot dur \<longleftrightarrow> \<not> busy_during ms slot dur" "map m_name (filter has_calendar ms) = map fst cals"
    "filter has_calendar ms = [] \<longleftrightarrow> cals = []"
  unfolding assms(1) [symmetric] free_in_all_def busy_during_def
  using assms(2) by (auto simp: has_calendar_def list_all_iff)

lemma slots_positive: "event_slots env ev = Inr ex \<Longrightarrow> 0 < se_slot_minutes ev * minute"
  by (auto simp: event_slots_def event_window_def expand_def validate_def duration_units split: option.splits sum.splits if_splits)

text \<open>What a proposal over the slots \<open>cs\<close> promises about the calendars read.\<close>

definition earliest_free :: "instant list \<Rightarrow> duration \<Rightarrow> (string \<times> interval list) list \<Rightarrow> proposal \<Rightarrow> bool" where
  "earliest_free cs dur cals p \<longleftrightarrow>
     (pr_found p \<longleftrightarrow> cals \<noteq> [] \<and> (\<exists>c \<in> set cs. free_in_all cals c dur))
   \<and> (pr_found p \<longrightarrow> pr_slot p \<in> set cs \<and> free_in_all cals (pr_slot p) dur
        \<and> (\<forall>c \<in> set cs. free_in_all cals c dur \<longrightarrow> pr_slot p \<le> c))
   \<and> pr_considered p = sort (map fst cals)"

lemma best_proposal_earliest:
  assumes "0 < dur" "map (\<lambda>m. (m_name m, the (m_busy m))) ms = cals" "list_all has_calendar ms"
    "\<forall>m \<in> set ms. \<forall>busy. m_busy m = Some busy \<longrightarrow> list_all valid_interval busy"
  shows "earliest_free cs dur cals (best_proposal cs dur ms)"
proof -
  note f = free_for_all_iff [OF assms(1,4)] free_in_all_iff [OF assms(2,3)]
  have sorted: "sorted (sort cs)" by simp
  show ?thesis
  proof (cases "cals = []")
    case True
    then show ?thesis
      using f(4) by (simp add: earliest_free_def best_proposal_def connected_empty Let_def)
  next
    case False
    then have c: "connected ms \<noteq> []" "sort (map fst (connected ms)) = sort (map fst cals)"
      using f by (simp_all add: connected_empty connected_names)
    then have best: "best_proposal cs dur ms = (case find (\<lambda>slot. \<not> busy_during ms slot dur) (sort cs) of
        Some slot \<Rightarrow> \<lparr>pr_slot = slot, pr_found = True, pr_considered = sort (map fst cals)\<rparr>
      | None \<Rightarrow> \<lparr>pr_slot = zero_time, pr_found = False, pr_considered = sort (map fst cals)\<rparr>)"
      by (simp add: best_proposal_def Let_def f(1))
    show ?thesis
    proof (cases "find (\<lambda>slot. \<not> busy_during ms slot dur) (sort cs)")
      case None
      then show ?thesis unfolding best by (simp add: earliest_free_def f(2)) (simp add: find_None_iff)
    next
      case (Some c)
      have "\<not> busy_during ms c dur" "c \<in> set cs" using find_Some_mem [OF Some] by simp_all
      moreover have "c \<le> c'" if "c' \<in> set cs" "\<not> busy_during ms c' dur" for c'
        using sorted_find_least [OF sorted Some] that by simp
      ultimately show ?thesis unfolding best Some using False by (auto simp: earliest_free_def f(2))
    qed
  qed
qed

lemma compute_reads:
  "compute_group_proposal env fetch g ev s = (r, s') \<Longrightarrow> s' = s"
proof (rule reads_onlyD)
  show "reads_only (compute_group_proposal env fetch g ev)"
    unfolding compute_group_proposal_def group_members_def list_members_rows_def Let_def by (intro reads_intros)
qed

text \<open>
  C10: A computed proposal reads only, and is the earliest slot of the event during whose whole length no
  member whose feed could be fetched just now is busy; there is one exactly when some feed was fetched and
  some slot is free in all of them. It names exactly the members whose feed was fetched; an event without
  slots gets no proposal.
\<close>

theorem group_proposal_exact:
  assumes "compute_group_proposal env fetch g ev s = (Inr p, s')"
  shows "s' = s \<and> (\<exists>ex. event_slots env ev = Inr ex
    \<and> (starts ex = [] \<and> p = no_proposal
       \<or> (\<exists>members. fst (group_members env g (sv_world s)) = Inr members
          \<and> (let dur = se_slot_minutes ev * minute;
                 cals = calendars_read env fetch (hd (starts ex)) (last (starts ex) + dur) members
             in earliest_free (starts ex) dur cals p))))"
proof -
  have reads: "reads_only (group_members env g)"
    unfolding group_members_def list_members_rows_def by (intro reads_intros)
  obtain ex where ex: "event_slots env ev = Inr ex"
    using assms by (cases "event_slots env ev") (auto simp: compute_group_proposal_def)
  show ?thesis
  proof (cases "starts ex = []")
    case True
    then show ?thesis using assms ex by (simp add: compute_group_proposal_def)
  next
    case False
    then obtain members where m: "group_members env g (sv_world s) = (Inr members, sv_world s)"
      using assms ex reads_onlyD [OF reads] 
      by (cases "group_members env g (sv_world s)") (auto simp: compute_group_proposal_def seq_apply run_apply split: sum.splits)
    let ?dur = "se_slot_minutes ev * minute" and ?conn = "filter (\<lambda>m. sm_calendar m = ''ics'') members"
    let ?to = "last (starts ex) + se_slot_minutes ev * minute"
    let ?cals = "calendars_read env fetch (hd (starts ex)) ?to members"
    have best: "earliest_free (starts ex) ?dur ?cals (best_proposal (starts ex) ?dur (refreshed env fetch (hd (starts ex)) ?to ?conn))"
      using refreshed_members [of env fetch "hd (starts ex)" ?to members] by (intro best_proposal_earliest slots_positive [OF ex])
    have "?conn = [] \<Longrightarrow> best_proposal (starts ex) ?dur (refreshed env fetch (hd (starts ex)) ?to ?conn) = no_proposal"
      by (simp add: refreshed_def map_filter_simps best_proposal_def connected_def no_proposal_def)
    then have "p = best_proposal (starts ex) ?dur (refreshed env fetch (hd (starts ex)) ?to ?conn)" "s' = s"
      using assms ex False m by (auto simp: compute_group_proposal_def seq_apply run_apply Let_def split: if_splits)
    then show ?thesis using best ex m by (simp add: Let_def)
  qed
qed

section \<open>The handlers\<close>

lemma group_by_slug_eq:
  "group_by_slug slug w = (case find (\<lambda>g. gr_slug g = slug) (tbl_groups (tables w)) of
     None \<Rightarrow> (Inl NotFound, w) | Some g \<Rightarrow> (Inr (decode_group g), w))"
  by (simp add: group_by_slug_def get_group_by_slug_row_def not_found_def select_one_def op_simps split: option.split)

lemma group_member_by_token_eq:
  "env_scan env g = Some k \<Longrightarrow> group_member_by_token env g token w =
    (case find (\<lambda>m. gm_group m = k \<and> gm_token m = Some (env_hash env token)) (tbl_members (tables w)) of
       None \<Rightarrow> (Inl NotFound, w) | Some m \<Rightarrow> (Inr (decode_group_member m), w))"
  by (simp add: group_member_by_token_def parse_uuid_def get_member_by_token_row_def not_found_def select_one_def
      hash_token_def op_simps split: option.split)

lemma do_proposal_Inr:
  assumes "do_proposal key compute s = (Inr p, s')"
  shows "cache_lookup (sv_proposals s) (clock (sv_world s)) key = Some p \<and> s' = s
    \<or> (\<exists>s1. compute s = (Inr p, s1)
        \<and> (if 0 < pc_ttl (sv_proposals s) then s' = snd (keep_proposal key p s1) else s' = s1))"
  using assms
  by (auto simp: do_proposal_def seq_apply cached_now_def keep_proposal_def split: if_splits option.splits prod.splits sum.splits)

text \<open>What is kept is found again at once.\<close>

lemma stored_then_found:
  "0 < pc_ttl c \<Longrightarrow> did_store c t key \<Longrightarrow> cache_lookup (cache_store c t key r) t key = Some r"
  by (auto simp: cache_store_def did_store_def cache_lookup_def map_of_put Let_def stale_def time_sub_def split: if_splits)

text \<open>
  C20: The proposal route, which takes no token, answers for an event of the group in the path only, and
  writes nothing and tells nobody. For an event that is no longer open it answers without a proposal; for
  an open one with what a computation has just found, or with the cached result of one while that is
  fresh. What was computed is kept, unless the cache is full of fresh entries, so that asking again at
  once computes nothing.
\<close>

theorem group_proposal_served:
  assumes "handle_group_proposal env fetch slug event_slug s = (Inr (status, v), s')"
  shows "status = 200 \<and> sv_world s' = sv_world s \<and> sv_published s' = sv_published s
    \<and> (\<exists>g e. find (\<lambda>g. gr_slug g = slug) (tbl_groups (tables (sv_world s))) = Some g
       \<and> find (\<lambda>e. ev_slug e = event_slug) (tbl_events (tables (sv_world s))) = Some e
       \<and> map_option uuid_string (ev_group e) = Some (uuid_string (gr_id g))
       \<and> (if ev_status e \<noteq> ''open'' then v = None \<and> s' = s
          else \<exists>p. v = proposal_view_of p
            \<and> (let key = uuid_string (ev_id e); t = clock (sv_world s) in
               cache_lookup (sv_proposals s) t key = Some p \<and> s' = s
             \<or> compute_group_proposal env fetch (uuid_string (gr_id g)) (decode_event e) s = (Inr p, s)
               \<and> (0 < pc_ttl (sv_proposals s) \<and> did_store (sv_proposals s) t key \<longrightarrow> cache_lookup (sv_proposals s') t key = Some p))))"
proof -
  let ?w = "sv_world s"
  obtain g where g: "find (\<lambda>g. gr_slug g = slug) (tbl_groups (tables ?w)) = Some g"
    using assms by (cases "find (\<lambda>g. gr_slug g = slug) (tbl_groups (tables ?w))")
      (auto simp: handle_group_proposal_def call_apply group_by_slug_eq group_lookup_error_def)
  obtain e where e: "find (\<lambda>e. ev_slug e = event_slug) (tbl_events (tables ?w)) = Some e"
    using assms g by (cases "find (\<lambda>e. ev_slug e = event_slug) (tbl_events (tables ?w))")
      (auto simp: handle_group_proposal_def call_apply group_by_slug_eq event_by_slug_eq event_lookup_error_def split: if_splits)
  let ?key = "uuid_string (ev_id e)" and ?gid = "uuid_string (gr_id g)" and ?t = "clock (sv_world s)"
  have fields: "se_group (decode_event e) = map_option uuid_string (ev_group e)" "se_status (decode_event e) = ev_status e"
    "se_id (decode_event e) = ?key" "sg_id (decode_group g) = ?gid" by (simp_all add: decode_event_def decode_group_def)
  note run = assms [unfolded handle_group_proposal_def, simplified call_apply group_by_slug_eq g option.case prod.case sum.case
      event_by_slug_eq server_collapse]
  have own: "map_option uuid_string (ev_group e) = Some ?gid"
    using run e by (auto simp: call_apply event_by_slug_eq fields split: if_splits)
  have run': "(if ev_status e \<noteq> ''open'' then reply 200 None
      else catch (do_proposal ?key (compute_group_proposal env fetch ?gid (decode_event e))) (or_refuse 500 CouldNotPropose)
        (\<lambda>p. reply 200 (proposal_view_of p))) s = (Inr (status, v), s')"
    using run e own by (auto simp: call_apply event_by_slug_eq fields split: if_splits)
  show ?thesis
  proof (cases "ev_status e = ''open''")
    case False
    then show ?thesis using run' g e own by simp
  next
    case True
    then obtain p where p: "do_proposal ?key (compute_group_proposal env fetch ?gid (decode_event e)) s = (Inr p, s')"
        "status = 200" "v = proposal_view_of p"
      using run' by (auto simp: catch_apply split: prod.splits sum.splits)
    have once: "cache_lookup (sv_proposals s) ?t ?key = Some p \<and> s' = s
        \<or> compute_group_proposal env fetch ?gid (decode_event e) s = (Inr p, s)
          \<and> (if 0 < pc_ttl (sv_proposals s) then s' = snd (keep_proposal ?key p s) else s' = s)"
      using do_proposal_Inr [OF p(1)] compute_reads by blast
    then have "sv_world s' = sv_world s" "sv_published s' = sv_published s"
      by (auto simp: keep_proposal_def split: if_splits)
    moreover have "cache_lookup (sv_proposals s) ?t ?key = Some p \<and> s' = s
        \<or> compute_group_proposal env fetch ?gid (decode_event e) s = (Inr p, s)
          \<and> (0 < pc_ttl (sv_proposals s) \<and> did_store (sv_proposals s) ?t ?key \<longrightarrow> cache_lookup (sv_proposals s') ?t ?key = Some p)"
      using once by (auto simp: keep_proposal_def stored_then_found)
    ultimately show ?thesis using True g e own p(2,3) by (auto simp: Let_def)
  qed
qed

text \<open>
  C21: A seat in a group event is given only against the token of a member of the very group the event
  belongs to; the participant answered with sits in that event, is linked to that member, and carries the
  digest of the token handed out; a member who has a seat already gets no second one.
\<close>

theorem event_seat_needs_member:
  assumes "scan_ok env" "db_ok (tables (sv_world s))"
    "handle_claim_event_seat env slug header s = (Inr (status, answer), s')"
  shows "status = 200 \<and> trim_space header \<noteq> '''' \<and> db_ok (tables (sv_world s')) \<and> sv_published s' = sv_published s
    \<and> (\<exists>e m p. find (\<lambda>e. ev_slug e = slug) (tbl_events (tables (sv_world s))) = Some e
       \<and> m \<in> set (tbl_members (tables (sv_world s))) \<and> ev_group e = Some (gm_group m)
       \<and> gm_token m = Some (env_hash env (trim_space header))
       \<and> p \<in> set (tbl_participants (tables (sv_world s'))) \<and> pt_event p = ev_id e \<and> pt_member p = Some (gm_id m)
       \<and> jv_participant answer = uuid_string (pt_id p) \<and> pt_token p = env_hash env (jv_token answer)
       \<and> (\<forall>old \<in> set (tbl_participants (tables (sv_world s))). pt_event old = ev_id e \<and> pt_member old = Some (gm_id m) \<longrightarrow>
            pt_id p = pt_id old
            \<and> length (tbl_participants (tables (sv_world s'))) = length (tbl_participants (tables (sv_world s)))))"
proof -
  let ?w = "sv_world s" and ?token = "trim_space header"
  have scan: "env_scan env (uuid_string u) = Some u" for u using assms(1) by (simp add: scan_ok_def)
  obtain e where e: "find (\<lambda>e. ev_slug e = slug) (tbl_events (tables ?w)) = Some e"
    using assms(3) by (cases "find (\<lambda>e. ev_slug e = slug) (tbl_events (tables ?w))")
      (auto simp: handle_claim_event_seat_def call_apply event_by_slug_eq event_lookup_error_def)
  obtain k where k: "ev_group e = Some k"
    using assms(3) e by (cases "ev_group e")
      (auto simp: handle_claim_event_seat_def call_apply event_by_slug_eq decode_event_def)
  have fields: "se_group (decode_event e) = Some (uuid_string k)" "se_id (decode_event e) = uuid_string (ev_id e)"
    using k by (simp_all add: decode_event_def)
  have token: "?token \<noteq> ''''"
    using assms(3) e by (auto simp: handle_claim_event_seat_def call_apply event_by_slug_eq fields)
  obtain m where m: "find (\<lambda>m. gm_group m = k \<and> gm_token m = Some (env_hash env ?token)) (tbl_members (tables ?w)) = Some m"
    using assms(3) e token
    by (cases "find (\<lambda>m. gm_group m = k \<and> gm_token m = Some (env_hash env ?token)) (tbl_members (tables ?w))")
      (auto simp: handle_claim_event_seat_def call_apply event_by_slug_eq fields group_member_by_token_eq [OF scan])
  have mid: "sm_id (decode_group_member m) = uuid_string (gm_id m)" by (simp add: decode_group_member_def)
  obtain p t w where c: "claim_event_seat env (uuid_string (ev_id e)) (uuid_string (gm_id m)) ?w = (Inr (p, t), w)"
      "status = 200" "answer = join_response_of p t" "s' = s\<lparr>sv_world := w\<rparr>"
    using assms(3) e token m
    by (auto simp: handle_claim_event_seat_def call_apply event_by_slug_eq fields group_member_by_token_eq [OF scan] mid
        split: prod.splits sum.splits)
  have "db_ok (tables w)" using preservesD [OF preserves_store_groups(10), of ?w] assms(2) c(1) by (metis snd_conv)
  moreover obtain row where row: "row \<in> set (tbl_participants (tables w))" "p = decode_participant row" "pt_event row = ev_id e"
      "pt_member row = Some (gm_id m)" "pt_token row = env_hash env t"
      "\<forall>old. old \<in> set (tbl_participants (tables ?w)) \<and> pt_event old = ev_id e \<and> pt_member old = Some (gm_id m) \<longrightarrow>
        pt_id row = pt_id old \<and> map pt_id (tbl_participants (tables w)) = map pt_id (tbl_participants (tables ?w))"
    using claim_event_seat_Inr [OF assms(1,2) c(1)] by blast
  moreover have "jv_participant answer = uuid_string (pt_id row)" "jv_token answer = t"
    using row(2) c(3) by (simp_all add: join_response_of_def decode_participant_def)
  moreover have "length (tbl_participants (tables w)) = length (tbl_participants (tables ?w))"
    if "map pt_id (tbl_participants (tables w)) = map pt_id (tbl_participants (tables ?w))"
    using that by (metis length_map)
  ultimately show ?thesis
    using c(2,4) e k token find_Some_mem [OF m] by (intro conjI) (auto intro!: exI [of _ e] exI [of _ m] exI [of _ row])
qed

section \<open>Examples\<close>

definition demo_group_server :: server where
  "demo_group_server = demo_server\<lparr>sv_world := demo_group_world\<rparr>"

definition demo_fetch :: fetcher where
  "demo_fetch url = Inr (render demo_ics 0)"

lemma demo_busy: "parse_feed demo_env (render demo_ics 0) (10 * hour) (13 * hour) = [Interval (10 * hour) (11 * hour)]"
  using rendered_parses [OF demo_plain, of demo_env 0 "10 * hour" "13 * hour"] demo_years
  by (simp add: demo_ics_def duration_units overlaps_def)

definition demo_group_event :: store_event where
  "demo_group_event = decode_event (demo_event\<lparr>ev_group := Some 20\<rparr>)"

lemma demo_group_slots: "event_slots demo_env demo_group_event
    = Inr \<lparr>starts = [10 * hour, 11 * hour, 12 * hour], skipped = [], ambiguous = []\<rparr>"
proof -
  have "event_window demo_env demo_group_event = event_window demo_env (decode_event demo_event)"
    by (simp add: event_window_def demo_group_event_def decode_event_def split: option.split)
  then show ?thesis using demo_event_slots by (simp add: event_slots_def)
qed

lemma demo_group_members: "fst (group_members demo_env (uuid_string 20) demo_group_world)
    = Inr [decode_group_member (demo_member 21 ''Ann''), decode_group_member (demo_member 22 ''Bob'')]"
  by (simp add: group_members_def parse_uuid_def list_members_rows_def select_rows_def op_simps demo_scan demo_group_db_def demo_member_def)

lemma demo_group_proposal:
  "\<exists>p. compute_group_proposal demo_env demo_fetch (uuid_string 20) demo_group_event demo_group_server = (Inr p, demo_group_server)"
proof -
  have "run (group_members demo_env (uuid_string 20)) demo_group_server
      = (fst (group_members demo_env (uuid_string 20) demo_group_world), demo_group_server)"
    using reads_onlyD [of "run (group_members demo_env (uuid_string 20))" demo_group_server]
    by (simp add: group_members_def parse_uuid_def list_members_rows_def select_rows_def op_simps demo_scan demo_group_server_def demo_server_def)
  then show ?thesis
    by (simp add: compute_group_proposal_def demo_group_slots seq_apply demo_group_members Let_def)
qed

lemma group_proposal_exact_witness:
  "\<exists>p. compute_group_proposal demo_env demo_fetch (uuid_string 20) demo_group_event demo_group_server = (Inr p, demo_group_server)
     \<and> pr_found p \<and> pr_slot p = 11 * hour \<and> pr_considered p = [''Ann'', ''Bob'']"
proof -
  obtain p where p: "compute_group_proposal demo_env demo_fetch (uuid_string 20) demo_group_event demo_group_server = (Inr p, demo_group_server)"
    using demo_group_proposal by blast
  have minutes: "se_slot_minutes demo_group_event * minute = hour"
    by (simp add: demo_group_event_def decode_event_def demo_event_def duration_units)
  have cals: "calendars_read demo_env demo_fetch (10 * hour) (13 * hour)
      [decode_group_member (demo_member 21 ''Ann''), decode_group_member (demo_member 22 ''Bob'')]
    = [(''Ann'', [Interval (10 * hour) (11 * hour)]), (''Bob'', [Interval (10 * hour) (11 * hour)])]"
    by (simp add: calendars_read_def decode_group_member_def demo_member_def demo_fetch_def demo_busy)
  have world: "sv_world demo_group_server = demo_group_world" by (simp add: demo_group_server_def)
  have free: "free_in_all [(''Ann'', [Interval (10 * hour) (11 * hour)]), (''Bob'', [Interval (10 * hour) (11 * hour)])] (k * hour) hour \<longleftrightarrow> k \<noteq> 10"
    if "k \<in> {10, 11, 12}" for k
    using that by (auto simp: free_in_all_def covers_def duration_units)
  have sorted: "sort [''Ann'', ''Bob''] = [''Ann'', ''Bob'']" by code_simp
  have twelve: "12 * hour + hour = 13 * hour" by simp
  have "earliest_free [10 * hour, 11 * hour, 12 * hour] hour
      [(''Ann'', [Interval (10 * hour) (11 * hour)]), (''Bob'', [Interval (10 * hour) (11 * hour)])] p"
    using group_proposal_exact [OF p] by (simp add: demo_group_slots world demo_group_members Let_def minutes twelve cals)
  then have "pr_found p \<and> pr_slot p = 11 * hour \<and> pr_considered p = [''Ann'', ''Bob'']"
    using free [of 10] free [of 11] free [of 12] by (auto simp: earliest_free_def sorted duration_units)
  then show ?thesis using p by blast
qed

lemma group_proposal_served_witness:
  "\<exists>p v s'. handle_group_proposal demo_env demo_fetch ''grp'' ''abc'' demo_group_server = (Inr (200, v), s')
     \<and> v = proposal_view_of p \<and> sv_world s' = demo_group_world \<and> cache_lookup (sv_proposals s') hour (uuid_string 1) = Some p"
proof -
  obtain p where p: "compute_group_proposal demo_env demo_fetch (uuid_string 20) demo_group_event demo_group_server = (Inr p, demo_group_server)"
    using demo_group_proposal by blast
  have world: "sv_world demo_group_server = demo_group_world" "sv_proposals demo_group_server = new_proposal_cache (30 * second)"
    by (simp_all add: demo_group_server_def demo_server_def)
  have same: "demo_group_server\<lparr>sv_world := demo_group_world\<rparr> = demo_group_server" by (simp add: demo_group_server_def)
  have finds: "find (\<lambda>g. gr_slug g = ''grp'') (tbl_groups demo_group_db)
      = Some \<lparr>gr_id = 20, gr_slug = ''grp'', gr_name = ''Team'', gr_created_from = Some 1, gr_created = 0\<rparr>"
    "find (\<lambda>e. ev_slug e = ''abc'') (tbl_events demo_group_db) = Some (demo_event\<lparr>ev_group := Some 20\<rparr>)"
    by (simp_all add: demo_group_db_def demo_event_def)
  have fields: "se_group demo_group_event = Some (uuid_string 20)" "se_status demo_group_event = ''open''" "se_id demo_group_event = uuid_string 1"
    by (simp_all add: demo_group_event_def decode_event_def demo_event_def)
  have empty: "cache_lookup (sv_proposals demo_group_server) hour (uuid_string 1) = None" "0 < pc_ttl (sv_proposals demo_group_server)"
    "did_store (sv_proposals demo_group_server) hour (uuid_string 1)"
    by (simp_all add: world cache_lookup_def new_proposal_cache_def duration_units did_store_def max_cached_proposals_def)
  obtain s' where h: "handle_group_proposal demo_env demo_fetch ''grp'' ''abc'' demo_group_server = (Inr (200, proposal_view_of p), s')"
    using p empty by (simp add: handle_group_proposal_def call_apply group_by_slug_eq event_by_slug_eq world(1) finds decode_group_def
        demo_group_event_def [symmetric] fields same catch_apply do_proposal_def seq_apply cached_now_def keep_proposal_def)
  from group_proposal_served [OF h]
  have "\<exists>q. proposal_view_of p = proposal_view_of q \<and> cache_lookup (sv_proposals s') hour (uuid_string 1) = Some q" "sv_world s' = demo_group_world"
    using p empty finds by (auto simp: world(1) demo_group_event_def [symmetric] Let_def demo_event_def)
  then show ?thesis using h by auto
qed

lemma demo_seat_claimed:
  "\<exists>answer. handle_claim_event_seat demo_env ''abc'' ''Ann'' demo_group_server
     = (Inr (200, answer), demo_group_server\<lparr>sv_world := demo_seat_world\<rparr>)"
proof -
  have world: "sv_world demo_group_server = demo_group_world" "demo_group_server\<lparr>sv_world := demo_group_world\<rparr> = demo_group_server"
    by (simp_all add: demo_group_server_def)
  have word: "trim_space ''Ann'' = ''Ann''" by (rule trim_space_word) simp
  have finds: "find (\<lambda>e. ev_slug e = ''abc'') (tbl_events demo_group_db) = Some (demo_event\<lparr>ev_group := Some 20\<rparr>)"
    "find (\<lambda>m. gm_group m = 20 \<and> gm_token m = Some ''Ann'') (tbl_members demo_group_db) = Some (demo_member 21 ''Ann'')"
    by (simp_all add: demo_group_db_def demo_event_def demo_member_def)
  have fields: "se_group demo_group_event = Some (uuid_string 20)" "se_id demo_group_event = uuid_string 1"
    "sm_id (decode_group_member (demo_member 21 ''Ann'')) = uuid_string 21"
    by (simp_all add: demo_group_event_def decode_event_def demo_event_def decode_group_member_def demo_member_def)
  show ?thesis
    by (simp add: handle_claim_event_seat_def call_apply event_by_slug_eq group_member_by_token_eq [OF demo_scan(2)] world finds word
        fields demo_group_event_def [symmetric] demo_claim)
qed

lemma event_seat_needs_member_witness:
  "\<exists>answer s'. handle_claim_event_seat demo_env ''abc'' ''Ann'' demo_group_server = (Inr (200, answer), s')
     \<and> (\<exists>p \<in> set (tbl_participants (tables (sv_world s'))). pt_event p = 1 \<and> pt_member p = Some 21 \<and> pt_token p = jv_token answer)"
proof -
  obtain answer s' where h: "handle_claim_event_seat demo_env ''abc'' ''Ann'' demo_group_server = (Inr (200, answer), s')"
    using demo_seat_claimed by blast
  have world: "sv_world demo_group_server = demo_group_world" by (simp add: demo_group_server_def)
  have word: "trim_space ''Ann'' = ''Ann''" by (rule trim_space_word) simp
  from event_seat_needs_member [OF demo_scan(1) _ h] demo_group_ok world obtain e m p where
    e: "find (\<lambda>e. ev_slug e = ''abc'') (tbl_events demo_group_db) = Some e" "m \<in> set (tbl_members demo_group_db)"
      "gm_token m = Some (env_hash demo_env ''Ann'')"
    and p: "p \<in> set (tbl_participants (tables (sv_world s')))" "pt_event p = ev_id e" "pt_member p = Some (gm_id m)"
      "pt_token p = env_hash demo_env (jv_token answer)"
    by (auto simp: word)
  have "ev_id e = 1" "gm_id m = 21"
    using e by (auto simp: demo_event_def demo_group_db_def demo_member_def demo_env_def)
  then show ?thesis using h p by (auto simp: demo_env_def)
qed

end
