(* ===== verification/Dominance.thy ===== *)
theory Dominance
  imports Ranking
begin

text \<open>
  \<^verbatim>\<open>api/internal/solver/solver.go\<close>, lines 403 to 631: can the group stop waiting? \<open>analyze\<close> bounds
  every slot by filling the unknown answers with refusals and with preferences, and \<open>relevant\<close>
  non-responders are those whose settled answer changes the set of slots that could still win.

  Main facts: on slots at a sociable hour for everyone who has not answered, \<open>analyze\<close> is exact. It
  reports a decision exactly when one slot wins in every completion of the answers, and the possible
  winners are exactly the slots that win in some completion. The last section shows that both the
  sociability and the reading of its documentation matter.
\<close>

section \<open>Bounds\<close>

definition zero_score :: slot_score where
  "zero_score = \<lparr>start_at = zero_time, eliminated = False, eliminated_by = [], excludes = [], unknown = [],
     coverage = 0, total = 0, score = 0, penalty = 0\<rparr>"

text \<open>Reading a map: a missing key is the zero value.\<close>

definition score_at :: "(instant \<rightharpoonup> slot_score) \<Rightarrow> instant \<Rightarrow> slot_score" where
  "score_at m s = (case m s of None \<Rightarrow> zero_score | Some v \<Rightarrow> v)"

definition fill_lookup :: "responses \<Rightarrow> tier \<Rightarrow> lookup" where
  "fill_lookup rs fill pid slot = (case get rs pid slot of Some t \<Rightarrow> Some t | None \<Rightarrow> Some fill)"

definition pinned_lookup :: "responses \<Rightarrow> tier \<Rightarrow> string \<Rightarrow> tier \<Rightarrow> lookup" where
  "pinned_lookup rs fill pin_id pin pid slot =
     (case get rs pid slot of
        Some t \<Rightarrow> Some t
      | None \<Rightarrow> if pid = pin_id then Some pin else Some fill)"

definition bound_all :: "instant list \<Rightarrow> participant list \<Rightarrow> responses \<Rightarrow> config \<Rightarrow> tier
    \<Rightarrow> (instant \<rightharpoonup> slot_score)" where
  "bound_all slots ps rs cfg fill =
     map_of_loop (\<lambda>s. s) (\<lambda>s. score_slot_with s ps cfg (fill_lookup rs fill)) slots"

definition bound_all_pinned :: "instant list \<Rightarrow> participant list \<Rightarrow> responses \<Rightarrow> config \<Rightarrow> tier
    \<Rightarrow> string \<Rightarrow> tier \<Rightarrow> (instant \<rightharpoonup> slot_score)" where
  "bound_all_pinned slots ps rs cfg fill pin_id pin =
     map_of_loop (\<lambda>s. s) (\<lambda>s. score_slot_with s ps cfg (pinned_lookup rs fill pin_id pin)) slots"

section \<open>Possible winners\<close>

text \<open>
  The inner loop over the rivals \<open>j \<noteq> i\<close>: whether some rival that is not eliminated in \<open>theirs\<close>
  scores higher there than slot \<open>i\<close> does in \<open>mine\<close>.
\<close>

definition beaten :: "instant list \<Rightarrow> (instant \<rightharpoonup> slot_score) \<Rightarrow> (instant \<rightharpoonup> slot_score) \<Rightarrow> nat \<Rightarrow> bool" where
  "beaten slots mine theirs i \<longleftrightarrow>
     (\<exists>j \<in> set [0..<length slots]. j \<noteq> i \<and> \<not> eliminated (score_at theirs (slots ! j))
        \<and> score (score_at theirs (slots ! j)) > score (score_at mine (slots ! i)))"

definition winners_from :: "instant list \<Rightarrow> (instant \<rightharpoonup> slot_score) \<Rightarrow> (instant \<rightharpoonup> slot_score)
    \<Rightarrow> instant set" where
  "winners_from slots lo hi =
     foldl (\<lambda>winners i.
        if eliminated (score_at hi (slots ! i)) then winners
        else if beaten slots hi lo i then winners
        else insert (slots ! i) winners) {} [0..<length slots]"

definition possible_winners :: "instant list \<Rightarrow> participant list \<Rightarrow> responses \<Rightarrow> config \<Rightarrow> instant set" where
  "possible_winners slots ps rs cfg =
     winners_from slots (bound_all slots ps rs cfg TierNo) (bound_all slots ps rs cfg TierPreferred)"

definition possible_winners_pinned :: "instant list \<Rightarrow> participant list \<Rightarrow> responses \<Rightarrow> config
    \<Rightarrow> string \<Rightarrow> tier \<Rightarrow> instant set" where
  "possible_winners_pinned slots ps rs cfg pin_id pin =
     winners_from slots (bound_all_pinned slots ps rs cfg TierNo pin_id pin)
       (bound_all_pinned slots ps rs cfg TierPreferred pin_id pin)"

text \<open>\<open>same_set\<close> compares the sizes, then looks every element of the first set up in the second.\<close>

definition same_set :: "instant set \<Rightarrow> instant set \<Rightarrow> bool" where
  "same_set a b = (if card a \<noteq> card b then False else (\<forall>k \<in> a. k \<in> b))"

section \<open>Who is missing, who is relevant\<close>

definition missing_some :: "instant list \<Rightarrow> responses \<Rightarrow> participant \<Rightarrow> bool" where
  "missing_some slots rs p \<longleftrightarrow> (\<exists>s \<in> set slots. get rs (p_id p) s = None)"

definition relevant_non_responders :: "instant list \<Rightarrow> participant list \<Rightarrow> responses \<Rightarrow> config
    \<Rightarrow> string list" where
  "relevant_non_responders slots ps rs cfg =
     (let as_things_stand = possible_winners slots ps rs cfg in
      foldl (\<lambda>out p.
        if \<not> missing_some slots rs p then out
        else
          let worst = possible_winners_pinned slots ps rs cfg (p_id p) TierNo;
              best = possible_winners_pinned slots ps rs cfg (p_id p) TierPreferred
          in if \<not> same_set worst best \<or> \<not> same_set as_things_stand worst \<or> \<not> same_set as_things_stand best
             then out @ [p_name p] else out) [] ps)"

section \<open>The verdict\<close>

record dominance =
  decidable :: bool
  leader :: instant
  blocking_required :: "string list"
  relevant :: "string list"

definition analyze :: "instant list \<Rightarrow> participant list \<Rightarrow> responses \<Rightarrow> config \<Rightarrow> dominance" where
  "analyze slots ps rs cfg =
     (let front = (case leader_of slots ps rs cfg of Some l \<Rightarrow> l | None \<Rightarrow> zero_time);
          blocking = map p_name (filter (\<lambda>p. p_role p = RoleRequired \<and> missing_some slots rs p) ps);
          lo = bound_all slots ps rs cfg TierNo;
          hi = bound_all slots ps rs cfg TierPreferred
      in case find (\<lambda>i. \<not> eliminated (score_at lo (slots ! i)) \<and> \<not> beaten slots lo hi i) [0..<length slots] of
           Some i \<Rightarrow> \<lparr>decidable = True, leader = slots ! i, blocking_required = blocking, relevant = []\<rparr>
         | None \<Rightarrow> \<lparr>decidable = False, leader = front, blocking_required = blocking,
                    relevant = relevant_non_responders slots ps rs cfg\<rparr>)"

section \<open>Completions\<close>

text \<open>
  A completion answers everything: every known answer is kept, every unknown one is given some tier.
  A slot wins in it when no required participant refuses it and no surviving slot scores higher.
\<close>

definition completes :: "(string \<Rightarrow> instant \<Rightarrow> tier) \<Rightarrow> responses \<Rightarrow> bool" where
  "completes c rs \<longleftrightarrow> (\<forall>pid s t. get rs pid s = Some t \<longrightarrow> c pid s = t)"

definition full :: "(string \<Rightarrow> instant \<Rightarrow> tier) \<Rightarrow> lookup" where
  "full c pid s = Some (c pid s)"

definition wins :: "instant list \<Rightarrow> participant list \<Rightarrow> config \<Rightarrow> (string \<Rightarrow> instant \<Rightarrow> tier) \<Rightarrow> instant
    \<Rightarrow> bool" where
  "wins slots ps cfg c s \<longleftrightarrow> s \<in> set slots \<and> \<not> eliminated (score_slot_with s ps cfg (full c))
     \<and> (\<forall>s' \<in> set slots. \<not> eliminated (score_slot_with s' ps cfg (full c)) \<longrightarrow>
          score (score_slot_with s' ps cfg (full c)) \<le> score (score_slot_with s ps cfg (full c)))"

text \<open>Everyone who has not answered a slot would attend it at a sociable hour.\<close>

definition sociable_unknowns :: "instant list \<Rightarrow> participant list \<Rightarrow> responses \<Rightarrow> config \<Rightarrow> bool" where
  "sociable_unknowns slots ps rs cfg \<longleftrightarrow>
     (\<forall>s \<in> set slots. \<forall>p \<in> set ps. get rs (p_id p) s = None \<longrightarrow> \<not> unsociable s (location_of p) cfg)"

section \<open>Reading the bounds\<close>

lemma score_slot_cong:
  assumes "\<And>p. p \<in> set ps \<Longrightarrow> l1 (p_id p) s = l2 (p_id p) s"
  shows "score_slot_with s ps cfg l1 = score_slot_with s ps cfg l2"
proof -
  have "foldl (score_step s cfg l1) a qs = foldl (score_step s cfg l2) a qs" if "set qs \<subseteq> set ps" for a qs
    using that assms by (induction qs arbitrary: a) (auto simp: score_step_def)
  then show ?thesis by (simp add: score_slot_with_def)
qed

abbreviation filled :: "participant list \<Rightarrow> responses \<Rightarrow> config \<Rightarrow> tier \<Rightarrow> instant \<Rightarrow> slot_score" where
  "filled ps rs cfg fill s \<equiv> score_slot_with s ps cfg (fill_lookup rs fill)"

abbreviation completed :: "participant list \<Rightarrow> config \<Rightarrow> (string \<Rightarrow> instant \<Rightarrow> tier) \<Rightarrow> instant \<Rightarrow> slot_score" where
  "completed ps cfg c s \<equiv> score_slot_with s ps cfg (full c)"

lemma score_at_bound [simp]:
  "s \<in> set slots \<Longrightarrow> score_at (bound_all slots ps rs cfg fill) s = filled ps rs cfg fill s"
  by (simp add: score_at_def bound_all_def map_of_loop_id)

lemma beaten_bounds:
  assumes "i < length slots"
  shows "beaten slots (bound_all slots ps rs cfg f) (bound_all slots ps rs cfg g) i
    \<longleftrightarrow> (\<exists>j < length slots. j \<noteq> i \<and> \<not> eliminated (filled ps rs cfg g (slots ! j))
          \<and> score (filled ps rs cfg f (slots ! i)) < score (filled ps rs cfg g (slots ! j)))"
  using assms by (auto simp: beaten_def)

lemma winners_from_set:
  "winners_from slots lo hi =
    {slots ! i | i. i < length slots \<and> \<not> eliminated (score_at hi (slots ! i)) \<and> \<not> beaten slots hi lo i}"
proof -
  have "foldl (\<lambda>w i. if eliminated (score_at hi (slots ! i)) then w
        else if beaten slots hi lo i then w else insert (slots ! i) w) w0 js
     = w0 \<union> {slots ! i | i. i \<in> set js \<and> \<not> eliminated (score_at hi (slots ! i)) \<and> \<not> beaten slots hi lo i}" for w0 js
    by (induction js arbitrary: w0) auto
  from this [of "{}" "[0..<length slots]"] show ?thesis by (simp add: winners_from_def)
qed

lemma winners_from_finite [simp]: "finite (winners_from slots lo hi)"
proof -
  have "winners_from slots lo hi \<subseteq> set slots" by (auto simp: winners_from_set)
  then show ?thesis by (rule finite_subset) simp
qed

lemma same_set_eq: "finite a \<Longrightarrow> finite b \<Longrightarrow> same_set a b \<longleftrightarrow> a = b"
  using card_subset_eq [of b a] by (auto simp: same_set_def)

lemma decidable_iff:
  "decidable (analyze slots ps rs cfg) \<longleftrightarrow>
    (\<exists>i < length slots. \<not> eliminated (filled ps rs cfg TierNo (slots ! i))
      \<and> \<not> beaten slots (bound_all slots ps rs cfg TierNo) (bound_all slots ps rs cfg TierPreferred) i)"
  by (auto simp: analyze_def Let_def find_None_iff find_Some_iff split: option.split)

lemma decidable_leader:
  assumes "decidable (analyze slots ps rs cfg)"
  shows "\<exists>i < length slots. leader (analyze slots ps rs cfg) = slots ! i
      \<and> \<not> eliminated (filled ps rs cfg TierNo (slots ! i))
      \<and> \<not> beaten slots (bound_all slots ps rs cfg TierNo) (bound_all slots ps rs cfg TierPreferred) i"
proof -
  let ?P = "\<lambda>i. \<not> eliminated (score_at (bound_all slots ps rs cfg TierNo) (slots ! i))
      \<and> \<not> beaten slots (bound_all slots ps rs cfg TierNo) (bound_all slots ps rs cfg TierPreferred) i"
  obtain i where i: "find ?P [0..<length slots] = Some i"
    using assms by (auto simp: analyze_def Let_def split: option.splits)
  then have "i < length slots" "?P i" by (auto simp: find_Some_iff)
  moreover have "leader (analyze slots ps rs cfg) = slots ! i"
    using i by (simp add: analyze_def Let_def)
  ultimately show ?thesis by auto
qed

section \<open>Completions lie between the bounds\<close>

lemma completion_bounds:
  assumes "config_ok cfg" "sociable_unknowns slots ps rs cfg" "completes c rs" "s \<in> set slots"
  shows "\<not> eliminated (filled ps rs cfg TierNo s) \<Longrightarrow> \<not> eliminated (completed ps cfg c s)
      \<and> score (filled ps rs cfg TierNo s) \<le> score (completed ps cfg c s)"
    and "\<not> eliminated (completed ps cfg c s) \<Longrightarrow> \<not> eliminated (filled ps rs cfg TierPreferred s)
      \<and> score (completed ps cfg c s) \<le> score (filled ps rs cfg TierPreferred s)"
proof -
  have "answers_le (fill_lookup rs TierNo) (full c) s cfg p"
    "answers_le (full c) (fill_lookup rs TierPreferred) s cfg p" if "p \<in> set ps" for p
    using assms(2-4) that
    by (auto simp: answers_le_def fill_lookup_def full_def completes_def sociable_unknowns_def
        split: option.split)
  then show "\<not> eliminated (filled ps rs cfg TierNo s) \<Longrightarrow> \<not> eliminated (completed ps cfg c s)
      \<and> score (filled ps rs cfg TierNo s) \<le> score (completed ps cfg c s)"
    "\<not> eliminated (completed ps cfg c s) \<Longrightarrow> \<not> eliminated (filled ps rs cfg TierPreferred s)
      \<and> score (completed ps cfg c s) \<le> score (filled ps rs cfg TierPreferred s)"
    using score_mono_aux [OF assms(1)] by blast+
qed

text \<open>The two extreme completions for one slot: it is answered in one way, every other slot in another.\<close>

definition extreme :: "responses \<Rightarrow> instant \<Rightarrow> tier \<Rightarrow> tier \<Rightarrow> string \<Rightarrow> instant \<Rightarrow> tier" where
  "extreme rs s0 here there pid s =
     (case get rs pid s of Some t \<Rightarrow> t | None \<Rightarrow> if s = s0 then here else there)"

lemma extreme_completes: "completes (extreme rs s0 here there) rs"
  by (simp add: completes_def extreme_def)

lemma extreme_scores:
  "completed ps cfg (extreme rs s0 here there) s0 = filled ps rs cfg here s0"
  "s \<noteq> s0 \<Longrightarrow> completed ps cfg (extreme rs s0 here there) s = filled ps rs cfg there s"
  by (rule score_slot_cong; simp add: full_def extreme_def fill_lookup_def split: option.split)+

lemma wins_extreme:
  assumes "distinct slots" "i < length slots"
  shows "wins slots ps cfg (extreme rs (slots ! i) f g) (slots ! i) \<longleftrightarrow>
     \<not> eliminated (filled ps rs cfg f (slots ! i))
     \<and> \<not> beaten slots (bound_all slots ps rs cfg f) (bound_all slots ps rs cfg g) i"
proof -
  have "(\<forall>s' \<in> set slots. s' \<noteq> slots ! i \<longrightarrow> P s') \<longleftrightarrow> (\<forall>j < length slots. j \<noteq> i \<longrightarrow> P (slots ! j))" for P
    using assms distinct_nth_neq [OF assms(1)] by (metis in_set_conv_nth)
  note ex = this [of "\<lambda>s'. \<not> eliminated (filled ps rs cfg g s') \<longrightarrow>
     score (filled ps rs cfg g s') \<le> score (filled ps rs cfg f (slots ! i))"]
  have q: "(\<forall>s' \<in> set slots. \<not> eliminated (completed ps cfg (extreme rs (slots ! i) f g) s') \<longrightarrow>
        score (completed ps cfg (extreme rs (slots ! i) f g) s') \<le> score (filled ps rs cfg f (slots ! i)))
    \<longleftrightarrow> (\<forall>s' \<in> set slots. s' \<noteq> slots ! i \<longrightarrow> \<not> eliminated (filled ps rs cfg g s') \<longrightarrow>
     score (filled ps rs cfg g s') \<le> score (filled ps rs cfg f (slots ! i)))"
    by (metis extreme_scores order_refl)
  moreover have "\<not> beaten slots (bound_all slots ps rs cfg f) (bound_all slots ps rs cfg g) i
    \<longleftrightarrow> (\<forall>j < length slots. j \<noteq> i \<longrightarrow> \<not> eliminated (filled ps rs cfg g (slots ! j)) \<longrightarrow>
     score (filled ps rs cfg g (slots ! j)) \<le> score (filled ps rs cfg f (slots ! i)))"
    unfolding beaten_bounds [OF assms(2)] by (metis not_le)
  ultimately show ?thesis
    using assms(2) unfolding wins_def extreme_scores(1) by (simp add: ex)
qed

lemma possible_winners_exact:
  assumes "config_ok cfg" "sociable_unknowns slots ps rs cfg" "distinct slots"
  shows "possible_winners slots ps rs cfg = {s. \<exists>c. completes c rs \<and> wins slots ps cfg c s}"
proof (intro set_eqI iffI)
  fix s
  assume "s \<in> possible_winners slots ps rs cfg"
  then obtain i where "i < length slots" "s = slots ! i"
    "\<not> eliminated (filled ps rs cfg TierPreferred (slots ! i))"
    "\<not> beaten slots (bound_all slots ps rs cfg TierPreferred) (bound_all slots ps rs cfg TierNo) i"
    by (auto simp: possible_winners_def winners_from_set)
  then show "s \<in> {s. \<exists>c. completes c rs \<and> wins slots ps cfg c s}"
    using wins_extreme [OF assms(3)] extreme_completes by blast
next
  fix s
  assume "s \<in> {s. \<exists>c. completes c rs \<and> wins slots ps cfg c s}"
  then obtain c where c: "completes c rs" "wins slots ps cfg c s" by blast
  note b = completion_bounds [OF assms(1,2) c(1)]
  obtain i where i: "i < length slots" "s = slots ! i"
    using c(2) by (auto simp: wins_def in_set_conv_nth)
  have hi: "\<not> eliminated (filled ps rs cfg TierPreferred s)"
      "score (completed ps cfg c s) \<le> score (filled ps rs cfg TierPreferred s)"
    using b(2) [of s] c(2) by (auto simp: wins_def)
  have "score (filled ps rs cfg TierNo s') \<le> score (filled ps rs cfg TierPreferred s)"
    if s': "s' \<in> set slots" "\<not> eliminated (filled ps rs cfg TierNo s')" for s'
  proof -
    have "score (filled ps rs cfg TierNo s') \<le> score (completed ps cfg c s')" "\<not> eliminated (completed ps cfg c s')"
      using b(1) [OF s'] by auto
    moreover from this(2) have "score (completed ps cfg c s') \<le> score (completed ps cfg c s)"
      using c(2) s'(1) by (simp add: wins_def)
    ultimately show ?thesis using hi(2) by simp
  qed
  then have "\<not> beaten slots (bound_all slots ps rs cfg TierPreferred) (bound_all slots ps rs cfg TierNo) i"
    using i nth_mem unfolding beaten_bounds [OF i(1)] by (metis not_less)
  then show "s \<in> possible_winners slots ps rs cfg"
    using i hi(1) by (auto simp: possible_winners_def winners_from_set)
qed

section \<open>Settling one participant\<close>

text \<open>The matrix in which a participant gives one answer wherever he had given none.\<close>

definition settle :: "responses \<Rightarrow> string \<Rightarrow> tier \<Rightarrow> responses" where
  "settle rs pid pin = rs(pid \<mapsto> (\<lambda>s. case get rs pid s of Some t \<Rightarrow> Some t | None \<Rightarrow> Some pin))"

lemma get_settle:
  "get (settle rs pid pin) q s = (if q = pid \<and> get rs pid s = None then Some pin else get rs q s)"
  by (auto simp: settle_def get_def split: option.split)

lemma pinned_lookup_settle: "pinned_lookup rs fill pid pin = fill_lookup (settle rs pid pin) fill"
  by (auto simp: fun_eq_iff pinned_lookup_def fill_lookup_def get_settle split: option.split)

lemma possible_winners_pinned_settle:
  "possible_winners_pinned slots ps rs cfg pid pin = possible_winners slots ps (settle rs pid pin) cfg"
  by (simp add: possible_winners_pinned_def possible_winners_def bound_all_pinned_def bound_all_def
      pinned_lookup_settle)

lemma sociable_settle: "sociable_unknowns slots ps rs cfg \<Longrightarrow> sociable_unknowns slots ps (settle rs pid pin) cfg"
  by (auto simp: sociable_unknowns_def get_settle split: if_splits)

lemma completes_settle:
  "completes c (settle rs pid pin) \<longleftrightarrow> completes c rs \<and> (\<forall>s. get rs pid s = None \<longrightarrow> c pid s = pin)"
  unfolding completes_def get_settle by (metis option.distinct(1) option.inject)

lemma relevant_filter:
  "relevant_non_responders slots ps rs cfg = map p_name (filter (\<lambda>p. missing_some slots rs p
     \<and> \<not> (possible_winners_pinned slots ps rs cfg (p_id p) TierNo = possible_winners slots ps rs cfg
        \<and> possible_winners_pinned slots ps rs cfg (p_id p) TierPreferred = possible_winners slots ps rs cfg)) ps)"
proof -
  have "foldl (\<lambda>out p. if \<not> missing_some slots rs p then out else if \<not> Q p then out @ [p_name p] else out) out0 qs
      = out0 @ map p_name (filter (\<lambda>p. missing_some slots rs p \<and> \<not> Q p) qs)" for Q out0 qs
    by (induction qs arbitrary: out0) auto
  note fold = this [of "\<lambda>p. possible_winners_pinned slots ps rs cfg (p_id p) TierNo = possible_winners slots ps rs cfg
        \<and> possible_winners_pinned slots ps rs cfg (p_id p) TierPreferred = possible_winners slots ps rs cfg" "[]" ps]
  have "finite (possible_winners slots ps rs cfg)" "finite (possible_winners_pinned slots ps rs cfg q t)" for q t
    by (simp_all add: possible_winners_def possible_winners_pinned_def)
  then have eq: "(\<not> same_set (possible_winners_pinned slots ps rs cfg (p_id p) TierNo)
          (possible_winners_pinned slots ps rs cfg (p_id p) TierPreferred)
      \<or> \<not> same_set (possible_winners slots ps rs cfg) (possible_winners_pinned slots ps rs cfg (p_id p) TierNo)
      \<or> \<not> same_set (possible_winners slots ps rs cfg) (possible_winners_pinned slots ps rs cfg (p_id p) TierPreferred))
    \<longleftrightarrow> \<not> (possible_winners_pinned slots ps rs cfg (p_id p) TierNo = possible_winners slots ps rs cfg
        \<and> possible_winners_pinned slots ps rs cfg (p_id p) TierPreferred = possible_winners slots ps rs cfg)" for p
    by (auto simp: same_set_eq)
  show ?thesis unfolding relevant_non_responders_def Let_def eq using fold by simp
qed

section \<open>Polls with two slots\<close>

lemma beaten_two:
  "beaten [a, b] mine theirs 0 \<longleftrightarrow>
     \<not> eliminated (score_at theirs b) \<and> score (score_at mine a) < score (score_at theirs b)"
  "beaten [a, b] mine theirs (Suc 0) \<longleftrightarrow>
     \<not> eliminated (score_at theirs a) \<and> score (score_at mine b) < score (score_at theirs a)"
  by (auto simp: beaten_def upt_rec)

lemma decidable_two:
  "decidable (analyze [a, b] ps rs cfg) \<longleftrightarrow>
     (\<not> eliminated (filled ps rs cfg TierNo a) \<and> (eliminated (filled ps rs cfg TierPreferred b)
        \<or> score (filled ps rs cfg TierPreferred b) \<le> score (filled ps rs cfg TierNo a)))
   \<or> (\<not> eliminated (filled ps rs cfg TierNo b) \<and> (eliminated (filled ps rs cfg TierPreferred a)
        \<or> score (filled ps rs cfg TierPreferred a) \<le> score (filled ps rs cfg TierNo b)))"
  by (auto simp: decidable_iff less_Suc_eq beaten_two not_less ex_disj_distrib conj_disj_distribR)

lemma winners_two:
  "winners_from [a, b] lo hi =
     {s. s = a \<and> \<not> eliminated (score_at hi a) \<and> (eliminated (score_at lo b)
           \<or> score (score_at lo b) \<le> score (score_at hi a))}
   \<union> {s. s = b \<and> \<not> eliminated (score_at hi b) \<and> (eliminated (score_at lo a)
           \<or> score (score_at lo a) \<le> score (score_at hi b))}"
  by (auto simp: winners_from_def upt_rec beaten_two not_less)


text \<open>Ann prefers both slots and Bob has not answered.\<close>

definition tied_answers :: responses where
  "tied_answers = [''1'' \<mapsto> [ten \<mapsto> TierPreferred, noon \<mapsto> TierPreferred]]"

lemma tie_roundings:
  "fl64 (2 / 3) = 6004799503160661 / 9007199254740992"
  "fl64 (18930248963408223477217620848367 / 40564819207303340847894502572032) = 8406719304424925 / 18014398509481984"
  "fl64 (13811038857269521 / 18014398509481984) = 863189928579345 / 1125899906842624"
proof -
  show "fl64 (2 / 3) = 6004799503160661 / 9007199254740992"
    by (rule fl64_eqI2 [of _ 53 6004799503160661]) simp_all
  show "fl64 (18930248963408223477217620848367 / 40564819207303340847894502572032) = 8406719304424925 / 18014398509481984"
    by (rule fl64_eqI2 [of _ 54 8406719304424925]) simp_all
  show "fl64 (13811038857269521 / 18014398509481984) = 863189928579345 / 1125899906842624"
    by (rule fl64_eqI2 [of _ 53 6905519428634760]) simp_all
qed

lemma mean_two_thirds: "mean_score (fl64 (2 / 3)) = 863189928579345 / 1125899906842624"
  unfolding mean_score_alt tier_consts by (simp add: tie_roundings chain_roundings)

lemma tied_scores:
  assumes "s = ten \<or> s = noon"
  shows "eliminated (filled [ann, bob] tied_answers default_config f s) = False"
    and "score (filled [ann, bob] tied_answers default_config TierNo s) = mean_score (fl64 (2 / 3))"
    and "score (filled [ann, bob] tied_answers default_config TierPreferred s) = mean_score 1"
  using assms
  by (auto simp: score_fields vetoes_def fill_lookup_def tied_answers_def get_def ann_def bob_def)
    (auto simp: score_eval fill_lookup_def tied_answers_def ann_def bob_def mean_score_def)

lemma tied_undecided: "\<not> decidable (analyze [ten, noon] [ann, bob] tied_answers default_config)"
  by (simp add: decidable_two tied_scores chain_values mean_two_thirds)

text \<open>Scores of the third poll, where one participant is asked for an unsociable hour.\<close>

definition host :: "string \<Rightarrow> participant" where
  "host i = \<lparr>p_id = i, p_name = i, p_role = RoleRequired, p_loc = None\<rparr>"

definition hosts :: "participant list" where
  "hosts = [host ''a'', host ''b'', host ''c'', host ''d'', cho]"

definition evening_answers :: responses where
  "evening_answers pid =
     (if pid = ''3'' then Some [ten \<mapsto> TierPreferred]
      else if pid = ''d'' then Some [ten \<mapsto> TierOK, noon \<mapsto> TierPreferred]
      else Some [ten \<mapsto> TierPreferred, noon \<mapsto> TierPreferred])"

lemma evening_roundings:
  "fl64 (16663318621270835 / 4503599627370496) = 4165829655317709 / 1125899906842624"
  "fl64 (4728779608739021 / 1125899906842624) = 4728779608739021 / 1125899906842624"
  "fl64 (4728779608739021 / 5066549580791808) = 4203359652212463 / 4503599627370496"
  "fl64 (13251174274385757379808256341661 / 20282409603651670423947251286016) = 735587939137181 / 1125899906842624"
  "fl64 (4259306016766851149316892959703 / 20282409603651670423947251286016) = 3783023686991217 / 18014398509481984"
  "fl64 (15552430713186113 / 18014398509481984) = 243006729893533 / 281474976710656"
  "fl64 (3 / 20) = 5404319552844595 / 36028797018963968"
  "fl64 (5404319552844595 / 36028797018963968) = 5404319552844595 / 36028797018963968"
  "fl64 (9 / 20) = 8106479329266893 / 18014398509481984"
  "fl64 (30624477466119373 / 36028797018963968) = 7656119366529843 / 9007199254740992"
  "fl64 (243006729893533 / 281474976710656) = 243006729893533 / 281474976710656"
  "fl64 (8 / 9) = 2001599834386887 / 2251799813685248"
  "fl64 (6310082987802741159072540282789 / 10141204801825835211973625643008) = 5604479536283283 / 9007199254740992"
  "fl64 (8306639312705581 / 9007199254740992) = 8306639312705581 / 9007199254740992"
proof -
  show "fl64 (16663318621270835 / 4503599627370496) = 4165829655317709 / 1125899906842624"
    by (rule fl64_eqI2 [of _ 51 8331659310635418]) simp_all
  show "fl64 (4728779608739021 / 1125899906842624) = 4728779608739021 / 1125899906842624"
    by (rule fl64_eqI2 [of _ 50 4728779608739021]) simp_all
  show "fl64 (4728779608739021 / 5066549580791808) = 4203359652212463 / 4503599627370496"
    by (rule fl64_eqI2 [of _ 53 8406719304424926]) simp_all
  show "fl64 (13251174274385757379808256341661 / 20282409603651670423947251286016) = 735587939137181 / 1125899906842624"
    by (rule fl64_eqI2 [of _ 53 5884703513097448]) simp_all
  show "fl64 (4259306016766851149316892959703 / 20282409603651670423947251286016) = 3783023686991217 / 18014398509481984"
    by (rule fl64_eqI2 [of _ 55 7566047373982434]) simp_all
  show "fl64 (15552430713186113 / 18014398509481984) = 243006729893533 / 281474976710656"
    by (rule fl64_eqI2 [of _ 53 7776215356593056]) simp_all
  show "fl64 (3 / 20) = 5404319552844595 / 36028797018963968"
    by (rule fl64_eqI2 [of _ 55 5404319552844595]) simp_all
  show "fl64 (5404319552844595 / 36028797018963968) = 5404319552844595 / 36028797018963968"
    by (rule fl64_eqI2 [of _ 55 5404319552844595]) simp_all
  show "fl64 (9 / 20) = 8106479329266893 / 18014398509481984"
    by (rule fl64_eqI2 [of _ 54 8106479329266893]) simp_all
  show "fl64 (30624477466119373 / 36028797018963968) = 7656119366529843 / 9007199254740992"
    by (rule fl64_eqI2 [of _ 53 7656119366529843]) simp_all
  show "fl64 (243006729893533 / 281474976710656) = 243006729893533 / 281474976710656"
    by (rule fl64_eqI2 [of _ 53 7776215356593056]) simp_all
  show "fl64 (8 / 9) = 2001599834386887 / 2251799813685248"
    by (rule fl64_eqI2 [of _ 53 8006399337547548]) simp_all
  show "fl64 (6310082987802741159072540282789 / 10141204801825835211973625643008) = 5604479536283283 / 9007199254740992"
    by (rule fl64_eqI2 [of _ 53 5604479536283283]) simp_all
  show "fl64 (8306639312705581 / 9007199254740992) = 8306639312705581 / 9007199254740992"
    by (rule fl64_eqI2 [of _ 53 8306639312705581]) simp_all
qed

lemma evening_hours:
  "\<not> unsociable ten (\<lambda>_. 32400) default_config" "unsociable noon (\<lambda>_. 32400) default_config"
  by code_simp+

lemma default_values:
  "alpha default_config = fl64 (7 / 10)" "unsociable_penalty default_config = 5404319552844595 / 36028797018963968"
  "unsociable_cap default_config = 8106479329266893 / 18014398509481984"
  by (simp_all add: default_config_def evening_roundings)

lemma evening_scores:
  "\<not> eliminated (filled hosts evening_answers default_config f ten)"
  "\<not> eliminated (filled hosts evening_answers default_config f noon)"
  "score (filled hosts evening_answers default_config TierNo ten) = 243006729893533 / 281474976710656"
  "score (filled hosts evening_answers default_config TierPreferred noon) = 7656119366529843 / 9007199254740992"
  "score (filled hosts evening_answers default_config TierNo noon) = 8306639312705581 / 9007199254740992"
proof -
  show "\<not> eliminated (filled hosts evening_answers default_config f ten)"
    "\<not> eliminated (filled hosts evening_answers default_config f noon)"
    by (auto simp: score_fields vetoes_def fill_lookup_def evening_answers_def get_def hosts_def host_def cho_def)
  show "score (filled hosts evening_answers default_config TierNo ten) = 243006729893533 / 281474976710656"
    by (simp add: score_eval fill_lookup_def evening_answers_def hosts_def host_def cho_def evening_hours
      penalty_of_0 [OF default_config_ok] blend_def default_values tier_consts evening_roundings chain_roundings fl64_0)
  show "score (filled hosts evening_answers default_config TierPreferred noon) = 7656119366529843 / 9007199254740992"
    by (simp add: score_eval fill_lookup_def evening_answers_def hosts_def host_def cho_def evening_hours
      penalty_of_def blend_def default_values tier_consts evening_roundings chain_roundings fl64_0)
  show "score (filled hosts evening_answers default_config TierNo noon) = 8306639312705581 / 9007199254740992"
    by (simp add: score_eval fill_lookup_def evening_answers_def hosts_def host_def cho_def evening_hours
      penalty_of_0 [OF default_config_ok] blend_def default_values tier_consts evening_roundings chain_roundings fl64_0)
qed

section \<open>Properties\<close>

text \<open>Ann has settled it: she prefers ten and refuses noon; Bob has not answered.\<close>

definition settled_answers :: responses where
  "settled_answers = [''1'' \<mapsto> [ten \<mapsto> TierPreferred, noon \<mapsto> TierNo]]"

lemma sociable_ann_bob: "sociable_unknowns [ten, noon] [ann, bob] rs default_config"
  by (simp add: sociable_unknowns_def location_of_def ann_def bob_def)

lemma settled_bounds:
  "\<not> eliminated (filled [ann, bob] settled_answers default_config t ten)"
  "eliminated (filled [ann, bob] settled_answers default_config t noon)"
  by (auto simp: score_fields vetoes_def fill_lookup_def settled_answers_def get_def ann_def bob_def)

lemma settled_decidable: "decidable (analyze [ten, noon] [ann, bob] settled_answers default_config)"
  unfolding decidable_iff
  by (rule exI [of _ 0]) (auto simp: beaten_bounds settled_bounds less_Suc_eq)

lemma decidable_wins:
  assumes "config_ok cfg" "sociable_unknowns slots ps rs cfg"
    and "decidable (analyze slots ps rs cfg)" "completes c rs"
  shows "wins slots ps cfg c (leader (analyze slots ps rs cfg))"
proof -
  obtain i where i: "i < length slots" "leader (analyze slots ps rs cfg) = slots ! i"
    and lo: "\<not> eliminated (filled ps rs cfg TierNo (slots ! i))"
    and nb: "\<not> beaten slots (bound_all slots ps rs cfg TierNo) (bound_all slots ps rs cfg TierPreferred) i"
    using decidable_leader [OF assms(3)] by blast
  note b = completion_bounds [OF assms(1,2,4)]
  have mem: "slots ! i \<in> set slots" using i(1) by simp
  have "score (completed ps cfg c s') \<le> score (completed ps cfg c (slots ! i))"
    if s': "s' \<in> set slots" "\<not> eliminated (completed ps cfg c s')" for s'
  proof -
    obtain j where j: "j < length slots" "s' = slots ! j" using s'(1) by (auto simp: in_set_conv_nth)
    show ?thesis
    proof (cases "j = i")
      case False
      have hi: "\<not> eliminated (filled ps rs cfg TierPreferred s')"
        "score (completed ps cfg c s') \<le> score (filled ps rs cfg TierPreferred s')"
        using b(2) [OF s'] by auto
      then have "score (filled ps rs cfg TierPreferred s') \<le> score (filled ps rs cfg TierNo (slots ! i))"
        using nb j False unfolding beaten_bounds [OF i(1)] by (metis not_le)
      then show ?thesis using hi(2) b(1) [OF mem lo] by linarith
    qed (simp add: j)
  qed
  then show ?thesis using b(1) [OF mem lo] mem by (simp add: wins_def i(2))
qed

text \<open>
  C1: A verdict is sound. When every slot is at a sociable hour for those who have not answered it, and
  the analysis says the outcome is decided, then however the outstanding answers turn out, no required
  participant refuses the leader and no surviving slot scores higher.
\<close>

theorem decidable_sound:
  assumes "config_ok cfg" "sociable_unknowns slots ps rs cfg"
    and "decidable (analyze slots ps rs cfg)" "completes c rs"
  shows "wins slots ps cfg c (leader (analyze slots ps rs cfg))"
  by (rule decidable_wins [OF assms])

lemma decidable_sound_witness:
  "wins [ten, noon] [ann, bob] default_config (extreme settled_answers ten TierNo TierOK)
     (leader (analyze [ten, noon] [ann, bob] settled_answers default_config))"
  by (rule decidable_sound [OF default_config_ok sociable_ann_bob settled_decidable extreme_completes])

lemma always_wins_decidable:
  assumes "distinct slots" "\<forall>c. completes c rs \<longrightarrow> wins slots ps cfg c s"
  shows "decidable (analyze slots ps rs cfg)"
proof -
  have "wins slots ps cfg (extreme rs s TierNo TierPreferred) s" using assms(2) extreme_completes by blast
  moreover from this obtain i where "i < length slots" "s = slots ! i"
    by (auto simp: wins_def in_set_conv_nth)
  ultimately show ?thesis using wins_extreme [OF assms(1)] unfolding decidable_iff by blast
qed

text \<open>
  C9: A verdict is complete. When the slots are distinct and one of them wins however the outstanding
  answers turn out, the analysis says that the outcome is decided: nobody is waited for in vain.
\<close>

theorem decidable_complete:
  assumes "distinct slots" "\<forall>c. completes c rs \<longrightarrow> wins slots ps cfg c s"
  shows "decidable (analyze slots ps rs cfg)"
  by (rule always_wins_decidable [OF assms])

lemma decidable_complete_witness: "decidable (analyze [ten, noon] [ann] settled_answers default_config)"
proof (rule decidable_complete [of _ _ _ _ ten])
  show "\<forall>c. completes c settled_answers \<longrightarrow> wins [ten, noon] [ann] default_config c ten"
  proof (intro allI impI)
    fix c assume c: "completes c settled_answers"
    have "get settled_answers ''1'' ten = Some TierPreferred" "get settled_answers ''1'' noon = Some TierNo"
      by (simp_all add: settled_answers_def get_def)
    then have "c ''1'' ten = TierPreferred" "c ''1'' noon = TierNo"
      using c by (auto simp: completes_def)
    then show "wins [ten, noon] [ann] default_config c ten"
      by (auto simp: wins_def score_fields vetoes_def full_def ann_def)
  qed
qed simp

text \<open>
  C19: For distinct slots, and where every unanswered slot is at a sociable hour for whoever has not
  answered it, the slots the analysis considers possible winners are exactly those that win under some
  completion of the outstanding answers.
\<close>

theorem possible_winners_correct:
  assumes "config_ok cfg" "sociable_unknowns slots ps rs cfg" "distinct slots"
  shows "possible_winners slots ps rs cfg = {s. \<exists>c. completes c rs \<and> wins slots ps cfg c s}"
  by (rule possible_winners_exact [OF assms])

lemma possible_winners_correct_witness:
  "possible_winners [ten, noon] [ann, bob] settled_answers default_config
    = {s. \<exists>c. completes c settled_answers \<and> wins [ten, noon] [ann, bob] default_config c s}"
  by (rule possible_winners_correct [OF default_config_ok sociable_ann_bob]) simp

lemma relevant_undecided:
  assumes "config_ok cfg" "sociable_unknowns slots ps rs cfg" "distinct slots"
    and "\<not> decidable (analyze slots ps rs cfg)"
  shows "relevant (analyze slots ps rs cfg) = map p_name (filter (\<lambda>p.
      (\<exists>s \<in> set slots. get rs (p_id p) s = None)
    \<and> (\<exists>pin \<in> {TierNo, TierPreferred}.
        {s. \<exists>c. completes c rs \<and> (\<forall>t. get rs (p_id p) t = None \<longrightarrow> c (p_id p) t = pin) \<and> wins slots ps cfg c s}
        \<noteq> {s. \<exists>c. completes c rs \<and> wins slots ps cfg c s})) ps)"
proof -
  have "relevant (analyze slots ps rs cfg) = relevant_non_responders slots ps rs cfg"
    using assms(4) by (auto simp: analyze_def Let_def split: option.splits)
  moreover have "possible_winners_pinned slots ps rs cfg q pin
      = {s. \<exists>c. completes c rs \<and> (\<forall>t. get rs q t = None \<longrightarrow> c q t = pin) \<and> wins slots ps cfg c s}" for q pin
    unfolding possible_winners_pinned_settle
      possible_winners_exact [OF assms(1) sociable_settle [OF assms(2)] assms(3)] completes_settle
    by blast
  ultimately show ?thesis
    unfolding relevant_filter possible_winners_exact [OF assms(1-3)] missing_some_def
    by (auto intro!: arg_cong [of _ _ "map p_name"] filter_cong)
qed

text \<open>
  C22: Who is worth asking. On an undecided poll of distinct slots, and where every unanswered slot is at a
  sociable hour for whoever has not answered it, the participants named are exactly those with an
  unanswered slot for whom settling all their open answers at refusal, or all at preference, changes the
  set of slots that some completion makes win. An answer that settles one slot only can matter beyond
  that (\<open>relevant_misses_tie_breaker\<close>).
\<close>

theorem relevant_exact:
  assumes "config_ok cfg" "sociable_unknowns slots ps rs cfg" "distinct slots"
    and "\<not> decidable (analyze slots ps rs cfg)"
  shows "relevant (analyze slots ps rs cfg) = map p_name (filter (\<lambda>p.
      (\<exists>s \<in> set slots. get rs (p_id p) s = None)
    \<and> (\<exists>pin \<in> {TierNo, TierPreferred}.
        {s. \<exists>c. completes c rs \<and> (\<forall>t. get rs (p_id p) t = None \<longrightarrow> c (p_id p) t = pin) \<and> wins slots ps cfg c s}
        \<noteq> {s. \<exists>c. completes c rs \<and> wins slots ps cfg c s})) ps)"
  by (rule relevant_undecided [OF assms])

lemma relevant_exact_witness:
  "relevant (analyze [ten, noon] [ann, bob] tied_answers default_config) = map p_name (filter (\<lambda>p.
      (\<exists>s \<in> set [ten, noon]. get tied_answers (p_id p) s = None)
    \<and> (\<exists>pin \<in> {TierNo, TierPreferred}.
        {s. \<exists>c. completes c tied_answers \<and> (\<forall>t. get tied_answers (p_id p) t = None \<longrightarrow> c (p_id p) t = pin)
            \<and> wins [ten, noon] [ann, bob] default_config c s}
        \<noteq> {s. \<exists>c. completes c tied_answers \<and> wins [ten, noon] [ann, bob] default_config c s})) [ann, bob])"
  by (rule relevant_exact [OF default_config_ok sociable_ann_bob _ tied_undecided]) simp

text \<open>
  The required participants who block are exactly those with an unanswered slot, in order; and while
  every slot still misses the answer of some required participant, nothing is decided.
\<close>

theorem blocking_required_exact:
  "blocking_required (analyze slots ps rs cfg)
     = map p_name (filter (\<lambda>p. p_role p = RoleRequired \<and> (\<exists>s \<in> set slots. get rs (p_id p) s = None)) ps)
   \<and> (decidable (analyze slots ps rs cfg) \<longrightarrow>
        (\<exists>s \<in> set slots. \<forall>p \<in> set ps. p_role p = RoleRequired \<longrightarrow> get rs (p_id p) s \<notin> {None, Some TierNo}))"
proof
  show "blocking_required (analyze slots ps rs cfg)
     = map p_name (filter (\<lambda>p. p_role p = RoleRequired \<and> (\<exists>s \<in> set slots. get rs (p_id p) s = None)) ps)"
    by (simp add: analyze_def Let_def missing_some_def split: option.split)
  show "decidable (analyze slots ps rs cfg) \<longrightarrow>
        (\<exists>s \<in> set slots. \<forall>p \<in> set ps. p_role p = RoleRequired \<longrightarrow> get rs (p_id p) s \<notin> {None, Some TierNo})"
    using nth_mem unfolding decidable_iff
    by (fastforce simp: score_fields vetoes_def fill_lookup_def split: option.splits)
qed

lemma blocking_required_exact_witness:
  "blocking_required (analyze [ten, noon] [ann, bob] settled_answers default_config) = []
   \<and> (\<exists>s \<in> {ten, noon}. get settled_answers ''1'' s \<notin> {None, Some TierNo})"
  using blocking_required_exact [of "[ten, noon]" "[ann, bob]" settled_answers default_config] settled_decidable
  by (auto simp: settled_answers_def get_def ann_def bob_def)

text \<open>
  The documentation of a verdict says that nothing is ever decidable while a required participant
  blocks. That is not what the analysis does: a required participant who prefers one slot and has not
  answered the other blocks a decided outcome.
\<close>

definition half_answered :: responses where
  "half_answered = [''1'' \<mapsto> [ten \<mapsto> TierPreferred]]"

theorem decidable_while_blocking:
  "decidable (analyze [ten, noon] [ann] half_answered default_config)
   \<and> blocking_required (analyze [ten, noon] [ann] half_answered default_config) = [''Ann'']"
proof
  have "score (filled [ann] half_answered default_config TierNo ten) = mean_score 1"
    "score (filled [ann] half_answered default_config TierPreferred noon) = mean_score 1"
    "\<not> eliminated (filled [ann] half_answered default_config TierNo ten)"
    by (simp_all add: score_eval fill_lookup_def half_answered_def ann_def mean_score_def)
  then show "decidable (analyze [ten, noon] [ann] half_answered default_config)"
    unfolding decidable_iff by (intro exI [of _ 0]) (auto simp: beaten_bounds less_Suc_eq)
  show "blocking_required (analyze [ten, noon] [ann] half_answered default_config) = [''Ann'']"
    by (simp add: analyze_def Let_def missing_some_def half_answered_def get_def ann_def split: option.split)
qed

text \<open>
  An undecided poll can name nobody to wait for although one answer decides it: Ann prefers both
  slots, Bob has not answered, the analysis names nobody, and depending on Bob's answer either slot is
  the only winner. Settling all of a participant's open answers the same way never shows that he can
  break a tie.
\<close>

theorem relevant_misses_tie_breaker:
  "\<not> decidable (analyze [ten, noon] [ann, bob] tied_answers default_config)
   \<and> relevant (analyze [ten, noon] [ann, bob] tied_answers default_config) = []
   \<and> (\<exists>c. completes c tied_answers \<and> (\<forall>s. wins [ten, noon] [ann, bob] default_config c s \<longleftrightarrow> s = ten))
   \<and> (\<exists>c. completes c tied_answers \<and> (\<forall>s. wins [ten, noon] [ann, bob] default_config c s \<longleftrightarrow> s = noon))"
proof (intro conjI)
  have le: "score (filled [ann, bob] tied_answers default_config TierNo s)
      \<le> score (filled [ann, bob] tied_answers default_config TierPreferred s')"
    "score (filled [ann, bob] tied_answers default_config TierNo s)
      < score (filled [ann, bob] tied_answers default_config TierPreferred s')"
    if "s = ten \<or> s = noon" "s' = ten \<or> s' = noon" for s s'
    using that by (simp_all add: tied_scores chain_values mean_two_thirds)
  have all: "possible_winners [ten, noon] [ann, bob] tied_answers default_config = {ten, noon}"
    using le by (auto simp: possible_winners_def winners_two tied_scores)
  have pin_bob: "filled [ann, bob] (settle tied_answers (p_id bob) pin) default_config f s
      = filled [ann, bob] tied_answers default_config pin s" if "s = ten \<or> s = noon" for f s pin
  proof (rule score_slot_cong)
    have "get tied_answers ''1'' s = Some TierPreferred" "get tied_answers ''2'' s = None"
      using that by (auto simp: tied_answers_def get_def)
    then show "p \<in> set [ann, bob] \<Longrightarrow> fill_lookup (settle tied_answers (p_id bob) pin) f (p_id p) s
        = fill_lookup tied_answers pin (p_id p) s" for p
      by (auto simp: fill_lookup_def get_settle ann_def bob_def)
  qed
  have pinned: "possible_winners_pinned [ten, noon] [ann, bob] tied_answers default_config (p_id bob) pin = {ten, noon}"
    if "pin = TierNo \<or> pin = TierPreferred" for pin
    using that unfolding possible_winners_pinned_settle
    by (auto simp: possible_winners_def winners_two pin_bob tied_scores)
  have "\<not> missing_some [ten, noon] tied_answers ann"
    by (simp add: missing_some_def tied_answers_def get_def ann_def)
  then show "relevant (analyze [ten, noon] [ann, bob] tied_answers default_config) = []"
    using tied_undecided all pinned
    by (auto simp: analyze_def Let_def relevant_filter split: option.split)
  have win: "wins [ten, noon] [ann, bob] default_config
      (extreme tied_answers s0 TierPreferred TierNo) s \<longleftrightarrow> s = s0" if "s0 = ten \<or> s0 = noon" for s0 s
    using that by (auto simp: wins_def extreme_scores tied_scores chain_values mean_two_thirds)
  show "\<exists>c. completes c tied_answers \<and> (\<forall>s. wins [ten, noon] [ann, bob] default_config c s \<longleftrightarrow> s = ten)"
    "\<exists>c. completes c tied_answers \<and> (\<forall>s. wins [ten, noon] [ann, bob] default_config c s \<longleftrightarrow> s = noon)"
    using win extreme_completes by blast+
qed (rule tied_undecided)

text \<open>
  The soundness of a verdict needs the sociable hours. Four required hosts all prefer noon and nearly
  all prefer ten; Cho, for whom noon is late in the evening, has only answered for ten. The analysis
  declares ten decided, but if Cho refuses noon, no penalty applies there and noon scores higher: an
  attending participant at an unsociable hour costs a slot more than a declining one, so filling the
  unknowns with preferences is not an upper bound.
\<close>

theorem verdict_unsound_at_unsociable_hours:
  "decidable (analyze [ten, noon] hosts evening_answers default_config)
   \<and> leader (analyze [ten, noon] hosts evening_answers default_config) = ten
   \<and> (\<exists>c. completes c evening_answers \<and> \<not> wins [ten, noon] hosts default_config c ten)"
proof (intro conjI)
  show "decidable (analyze [ten, noon] hosts evening_answers default_config)"
    by (simp add: decidable_two evening_scores)
  have "find (\<lambda>i. \<not> eliminated (score_at (bound_all [ten, noon] hosts evening_answers default_config TierNo) ([ten, noon] ! i))
     \<and> \<not> beaten [ten, noon] (bound_all [ten, noon] hosts evening_answers default_config TierNo)
         (bound_all [ten, noon] hosts evening_answers default_config TierPreferred) i) [0..<length [ten, noon]] = Some 0"
    by (simp add: upt_rec beaten_two evening_scores)
  then show "leader (analyze [ten, noon] hosts evening_answers default_config) = ten"
    by (simp add: analyze_def Let_def)
  have "\<not> wins [ten, noon] hosts default_config (extreme evening_answers ten TierNo TierNo) ten"
    by (simp add: wins_def extreme_scores evening_scores)
  then show "\<exists>c. completes c evening_answers \<and> \<not> wins [ten, noon] hosts default_config c ten"
    using extreme_completes by blast
qed

end
