(* ===== verification/SolveHandlers.thy ===== *)
theory SolveHandlers
  imports EventHandlerFacts Dominance Ics
begin

text \<open>
  The handlers of \<^verbatim>\<open>api/internal/server/solve.go\<close>: the ranked results with the verdict, and
  deciding and reopening an event. The power function of the history weights is \<^verbatim>\<open>math.Pow\<close>, an
  argument. Main facts (\<open>SolveHandlerFacts\<close>): the verdict names exactly one situation, a decision is
  made by the organizer only and for a slot of the event only, and a slot a required participant rules
  out is decided only when forced.
\<close>

section \<open>Results\<close>

record ranked_slot =
  rk_slot :: instant
  rk_coverage :: nat
  rk_total :: nat
  rk_eliminated :: bool
  rk_eliminated_by :: "string list"
  rk_excludes :: "string list"
  rk_unknown :: "string list"
  rk_unsociable :: bool

definition to_ranked_slot :: "slot_score \<Rightarrow> nat \<Rightarrow> ranked_slot" where
  "to_ranked_slot sc n = \<lparr>rk_slot = start_at sc, rk_coverage = coverage sc, rk_total = n, rk_eliminated = eliminated sc,
     rk_eliminated_by = eliminated_by sc, rk_excludes = excludes sc, rk_unknown = unknown sc,
     rk_unsociable = penalty sc > 0\<rparr>"

datatype verdict = Decided | Decidable | WaitingRequired | WaitingRelevant | Tied | NoSlots

definition verdict_string :: "verdict \<Rightarrow> string" where
  "verdict_string v = (case v of Decided \<Rightarrow> ''decided'' | Decidable \<Rightarrow> ''decidable''
     | WaitingRequired \<Rightarrow> ''waiting_on_required'' | WaitingRelevant \<Rightarrow> ''waiting_on_relevant''
     | Tied \<Rightarrow> ''tied'' | NoSlots \<Rightarrow> ''no_slots'')"

record dominance_view =
  dv_verdict :: verdict
  dv_decidable :: bool
  dv_leader :: "instant option"
  dv_blocking :: "string list"
  dv_relevant :: "string list"

definition to_dominance_view :: "dominance \<Rightarrow> slot_score list \<Rightarrow> string \<Rightarrow> dominance_view" where
  "to_dominance_view d ranked status =
     (let any_alive = list_ex (\<lambda>r. \<not> eliminated r) ranked in
      \<lparr>dv_verdict =
         (if status = ''decided'' then Decided
          else if \<not> any_alive then NoSlots
          else if decidable d then Decidable
          else if blocking_required d \<noteq> [] then WaitingRequired
          else if relevant d \<noteq> [] then WaitingRelevant
          else Tied),
       dv_decidable = decidable d,
       dv_leader = (if leader d = zero_time then None else Some (leader d)),
       dv_blocking = blocking_required d,
       dv_relevant = relevant d\<rparr>)"

record solve_response =
  so_slug :: string
  so_status :: string
  so_responded :: nat
  so_total :: nat
  so_ranked :: "ranked_slot list"
  so_dominance :: dominance_view
  so_decided :: "instant option"

definition history_half_life :: duration where
  "history_half_life = 30 * 24 * hour"

text \<open>What \<^verbatim>\<open>solverInputs\<close> loads; each error is reported the same way by its callers.\<close>

definition solver_inputs ::
  "env \<Rightarrow> (rat \<Rightarrow> rat \<Rightarrow> rat) \<Rightarrow> store_event \<Rightarrow> (server, failure,
     solver_input \<times> store_participant list \<times> config \<times> history_affinity option) op" where
  "solver_inputs env pow ev =
     (case event_slots env ev of
        Inl e \<Rightarrow> fail e
      | Inr ex \<Rightarrow>
          seq (run (participants_of env (se_id ev))) (\<lambda>ps.
          seq (run (responses_for_event env (se_id ev))) (\<lambda>rs.
          let inp = build env ps rs (starts ex) in
          case se_group ev of
            None \<Rightarrow> ret (inp, ps, default_config, None)
          | Some g \<Rightarrow>
              let loc = (case load_zone env (se_tz ev) of None \<Rightarrow> utc | Some l \<Rightarrow> l) in
              catch (run (group_decision_history env g))
                (\<lambda>_. ret (inp, ps, default_config, None))
                (\<lambda>ds. seq (read (\<lambda>s. clock (sv_world s))) (\<lambda>t.
                   ret (inp, ps, default_config, affinity_from_decisions pow ds (Some loc) history_half_life t))))))"

definition rank_event ::
  "env \<Rightarrow> (rat \<Rightarrow> rat \<Rightarrow> rat) \<Rightarrow> store_event \<Rightarrow> (server, failure, slot_score list \<times> store_participant list) op" where
  "rank_event env pow ev =
     seq (solver_inputs env pow ev) (\<lambda>(inp, ps, cfg, hist).
     ret (rank_with_history (in_slots inp) (in_participants inp) (in_responses inp) cfg hist, ps))"

definition rank_and_analyze ::
  "env \<Rightarrow> (rat \<Rightarrow> rat \<Rightarrow> rat) \<Rightarrow> store_event
    \<Rightarrow> (server, failure, slot_score list \<times> store_participant list \<times> dominance) op" where
  "rank_and_analyze env pow ev =
     seq (solver_inputs env pow ev) (\<lambda>(inp, ps, cfg, hist).
     ret (rank_with_history (in_slots inp) (in_participants inp) (in_responses inp) cfg hist, ps,
          analyze (in_slots inp) (in_participants inp) (in_responses inp) cfg))"

definition handle_solve :: "env \<Rightarrow> (rat \<Rightarrow> rat \<Rightarrow> rat) \<Rightarrow> string \<Rightarrow> solve_response handler" where
  "handle_solve env pow slug =
     call (event_by_slug slug) event_lookup_error (\<lambda>ev.
     catch (rank_and_analyze env pow ev) (or_refuse 500 CouldNotCompute) (\<lambda>(ranked, ps, dom).
     reply 200 \<lparr>so_slug = se_slug ev, so_status = se_status ev, so_responded = responded_count ps,
       so_total = length ps, so_ranked = map (\<lambda>sc. to_ranked_slot sc (length ps)) ranked,
       so_dominance = to_dominance_view dom ranked (se_status ev), so_decided = se_decided_slot ev\<rparr>))"

section \<open>Deciding and reopening\<close>

record decide_request =
  dr_slot :: instant
  dr_force :: bool

definition handle_decide ::
  "env \<Rightarrow> (rat \<Rightarrow> rat \<Rightarrow> rat) \<Rightarrow> authed \<Rightarrow> decide_request option \<Rightarrow> store_event handler" where
  "handle_decide env pow a body =
     (if \<not> sp_organizer (au_participant a) then refuse 403 OrganizerOnly
      else
        decoded body (\<lambda>req.
        catch (rank_event env pow (au_event a)) (or_refuse 500 CouldNotCompute) (\<lambda>(ranked, ps).
        case find (\<lambda>r. start_at r = dr_slot req) ranked of
          None \<Rightarrow> refuse 400 (NotASlot (dr_slot req))
        | Some chosen \<Rightarrow>
            if eliminated chosen \<and> \<not> dr_force req
            then refuse 409 (RuledOut (dr_slot req) (eliminated_by chosen))
            else
              call (decide env (se_id (au_event a)) (start_at chosen)) (or_refuse 500 CouldNotLock) (\<lambda>updated.
              seq (publish (se_id (au_event a)) ''decided'') (\<lambda>_. reply 200 updated)))))"

definition handle_reopen :: "env \<Rightarrow> authed \<Rightarrow> store_event handler" where
  "handle_reopen env a =
     (if \<not> sp_organizer (au_participant a) then refuse 403 OrganizerOnly
      else
        call (reopen env (se_id (au_event a))) (or_refuse 500 CouldNotReopen) (\<lambda>updated.
        seq (publish (se_id (au_event a)) ''reopened'') (\<lambda>_. reply 200 updated)))"

definition decide_route ::
  "env \<Rightarrow> (rat \<Rightarrow> rat \<Rightarrow> rat) \<Rightarrow> string \<Rightarrow> string \<Rightarrow> decide_request option \<Rightarrow> store_event handler" where
  "decide_route env pow slug header body = require_participant env slug header (\<lambda>a. handle_decide env pow a body)"

definition reopen_route :: "env \<Rightarrow> string \<Rightarrow> string \<Rightarrow> store_event handler" where
  "reopen_route env slug header = require_participant env slug header (handle_reopen env)"

section \<open>The calendar file\<close>

record ics_file =
  if_name :: string
  if_body :: string

definition attendee_line :: "store_participant list \<Rightarrow> string" where
  "attendee_line ps = (if ps = [] then '''' else ''With: '' @ join '', '' (map sp_name ps))"

definition decided_file :: "string \<Rightarrow> store_event \<Rightarrow> store_participant list \<Rightarrow> instant \<Rightarrow> instant \<Rightarrow> ics_file" where
  "decided_file web_url ev ps start t =
     \<lparr>if_name = filename (se_slug ev),
      if_body = render \<lparr>ic_uid = se_slug ev @ ''@overlap'', ic_summary = se_title ev, ic_description = attendee_line ps,
        ic_start = start, ic_end = start + se_slot_minutes ev * minute, ic_url = web_url @ ''/e/'' @ se_slug ev\<rparr> t\<rparr>"

definition handle_decided_ics :: "env \<Rightarrow> string \<Rightarrow> string \<Rightarrow> ics_file handler" where
  "handle_decided_ics env web_url slug =
     call (event_by_slug slug) event_lookup_error (\<lambda>ev.
     if se_status ev \<noteq> ''decided'' then refuse 409 NotDecided
     else case se_decided_slot ev of
       None \<Rightarrow> refuse 409 NotDecided
     | Some start \<Rightarrow>
         call (participants_of env (se_id ev)) (or_refuse 500 CouldNotLoadParticipants) (\<lambda>ps.
         seq clock_now (\<lambda>t. reply 200 (decided_file web_url ev ps start t))))"

end
