(* ===== verification/SolveHandlerFacts.thy ===== *)
theory SolveHandlerFacts
  imports SolveHandlers IcsFacts
begin

text \<open>
  The facts about \<open>SolveHandlers\<close>: which of its operations only read, what a decision writes, and what
  the ranking of an event is computed from, down to the stored answers. The properties are in
  \<open>DecideFacts\<close>.
\<close>

section \<open>Reading only\<close>

lemma reads_rank_event [reads_intros]: "reads_only (rank_event env pow ev)" "reads_only (rank_and_analyze env pow ev)"
  unfolding rank_event_def rank_and_analyze_def solver_inputs_def Let_def by (intro reads_intros)+

lemma reads_handle_solve [reads_intros]: "reads_only (handle_solve env pow slug)"
  unfolding handle_solve_def by (intro reads_intros)

section \<open>Deciding\<close>

definition decided_tables :: "uuid \<Rightarrow> instant \<Rightarrow> instant \<Rightarrow> database \<Rightarrow> database" where
  "decided_tables k slot t d = d\<lparr>tbl_events := set_where (\<lambda>x. ev_id x = k)
     (\<lambda>e. e\<lparr>ev_status := ''decided'', ev_decided_slot := Some slot, ev_decided_at := Some t\<rparr>) (tbl_events d)\<rparr>"

lemma decide_Inr:
  assumes "env_scan env event = Some k" "decide env event slot w = (Inr ev, w')"
  shows "w' = w\<lparr>tables := decided_tables k slot (clock w) (tables w)\<rparr>
    \<and> (\<exists>e \<in> set (tbl_events (tables w)). ev_id e = k
        \<and> ev = decode_event (e\<lparr>ev_status := ''decided'', ev_decided_slot := Some slot, ev_decided_at := Some (clock w)\<rparr>))"
  using assms
  by (auto simp: decide_def parse_uuid_def not_found_def decide_event_row_def update_event_def now_def select_one_def
      modify_def decided_tables_def op_simps split: option.splits if_splits dest: find_Some_mem)

lemma handle_decide_Inr:
  assumes "handle_decide env pow a body s = (Inr (status, ev), s')"
  obtains req ranked ps chosen w where "sp_organizer (au_participant a)" "body = Some req"
    "rank_event env pow (au_event a) s = (Inr (ranked, ps), s)" "chosen \<in> set ranked" "start_at chosen = dr_slot req"
    "eliminated chosen \<longrightarrow> dr_force req" "decide env (se_id (au_event a)) (dr_slot req) (sv_world s) = (Inr ev, w)"
    "status = 200" "s' = s\<lparr>sv_world := w, sv_published := sv_published s @ [(se_id (au_event a), ''decided'')]\<rparr>"
proof -
  have org: "sp_organizer (au_participant a)"
    using assms by (cases "sp_organizer (au_participant a)") (simp_all add: handle_decide_def)
  obtain req where body: "body = Some req" using assms org by (cases body) (auto simp: handle_decide_def decoded_apply)
  obtain x s1 where rk: "rank_event env pow (au_event a) s = (x, s1)" by (cases "rank_event env pow (au_event a) s")
  have s1: "s1 = s" using reads_onlyD [OF reads_rank_event(1) rk] .
  obtain ranked ps where x: "x = Inr (ranked, ps)"
    using assms org body rk by (cases x) (auto simp: handle_decide_def decoded_apply catch_apply)
  obtain chosen where ch: "find (\<lambda>r. start_at r = dr_slot req) ranked = Some chosen"
    using assms org body rk x s1 by (cases "find (\<lambda>r. start_at r = dr_slot req) ranked")
      (auto simp: handle_decide_def decoded_apply catch_apply)
  have mem: "chosen \<in> set ranked" "start_at chosen = dr_slot req" using find_Some_mem [OF ch] by auto
  have go: "eliminated chosen \<longrightarrow> dr_force req"
    using assms org body rk x s1 ch by (cases "dr_force req") (auto simp: handle_decide_def decoded_apply catch_apply)
  obtain y w where dec: "decide env (se_id (au_event a)) (dr_slot req) (sv_world s) = (y, w)"
    by (cases "decide env (se_id (au_event a)) (dr_slot req) (sv_world s)")
  have "y = Inr ev \<and> status = 200
      \<and> s' = s\<lparr>sv_world := w, sv_published := sv_published s @ [(se_id (au_event a), ''decided'')]\<rparr>"
    using assms org body rk x s1 ch go mem dec
    by (cases y) (auto simp: handle_decide_def decoded_apply catch_apply call_apply seq_apply publish_apply)
  then show thesis using that org body rk x s1 mem go dec by blast
qed

section \<open>What the ranking of an event is computed from\<close>

definition event_answers :: "database \<Rightarrow> uuid \<Rightarrow> response_row list" where
  "event_answers d k = sort_key (\<lambda>r. (rs_participant r, rs_slot r))
     (filter (\<lambda>r. \<exists>p \<in> set (tbl_participants d). pt_id p = rs_participant r \<and> pt_event p = k) (tbl_responses d))"

definition event_people :: "database \<Rightarrow> uuid \<Rightarrow> participant_row list" where
  "event_people d k = sort_key (\<lambda>p. (pt_created p, pt_id p)) (filter (\<lambda>p. pt_event p = k) (tbl_participants d))"

definition answer_groups :: "response_row list \<Rightarrow> (string \<rightharpoonup> stored_response list)" where
  "answer_groups rows = foldl (\<lambda>out r. let pid = uuid_string (rs_participant r) in
     out(pid \<mapsto> (case out pid of None \<Rightarrow> [] | Some l \<Rightarrow> l) @ [decode_response r])) Map.empty rows"

lemma answer_groups_lookup:
  assumes "scan_ok env"
  shows "(case answer_groups rows (uuid_string k) of None \<Rightarrow> [] | Some l \<Rightarrow> l)
    = map decode_response (filter (\<lambda>r. rs_participant r = k) rows)"
proof (induction rows rule: rev_induct)
  case Nil
  then show ?case by (simp add: answer_groups_def)
next
  case (snoc r rows)
  have "answer_groups (rows @ [r]) = (answer_groups rows)(uuid_string (rs_participant r) \<mapsto>
      (case answer_groups rows (uuid_string (rs_participant r)) of None \<Rightarrow> [] | Some l \<Rightarrow> l) @ [decode_response r])"
    by (simp add: answer_groups_def Let_def)
  then show ?case using snoc by (simp add: eq_commute [of k])
qed

lemma responses_for_event_eq:
  assumes "env_scan env event = Some k"
  shows "responses_for_event env event w = (Inr (answer_groups (event_answers (tables w) k)), w)"
  using assms
  by (simp add: responses_for_event_def parse_uuid_def list_event_responses_rows_def select_rows_def op_simps
      answer_groups_def event_answers_def)

lemma people_of_event:
  assumes "env_scan env event = Some k"
  shows "participants_of env event w = (Inr (map decode_participant (event_people (tables w) k)), w)"
  using assms
  by (simp add: participants_of_def parse_uuid_def list_participants_rows_def select_rows_def op_simps event_people_def)

lemma solver_inputs_Inr:
  assumes "scan_ok env" "solver_inputs env pow (decode_event e) s = (Inr (inp, ps, cfg, hist), s')"
  shows "ps = map decode_participant (event_people (tables (sv_world s)) (ev_id e)) \<and> cfg = default_config \<and> s' = s
    \<and> (\<exists>ex. event_slots env (decode_event e) = Inr ex
        \<and> inp = build env ps (answer_groups (event_answers (tables (sv_world s)) (ev_id e))) (starts ex))"
proof -
  have id: "env_scan env (se_id (decode_event e)) = Some (ev_id e)" using assms(1) by (simp add: decode_event_def scan_ok_def)
  obtain ex where ex: "event_slots env (decode_event e) = Inr ex"
    using assms(2) by (cases "event_slots env (decode_event e)") (simp_all add: solver_inputs_def)
  note run = assms(2) [unfolded solver_inputs_def, simplified ex sum.case seq_apply run_apply
      people_of_event [OF id] responses_for_event_eq [OF id] prod.case server_collapse Let_def]
  show ?thesis
  proof (cases "se_group (decode_event e)")
    case None
    then show ?thesis using run ex by auto
  next
    case (Some g)
    obtain x w where h: "group_decision_history env g (sv_world s) = (x, w)" by (cases "group_decision_history env g (sv_world s)")
    then have "w = sv_world s" by (rule reads_onlyD [OF reads_history])
    then show ?thesis using run ex Some h
      by (cases x) (auto simp: catch_apply run_apply seq_apply)
  qed
qed

lemma event_people_facts:
  assumes "db_ok d" "scan_ok env"
  shows "set (event_people d k) = {p \<in> set (tbl_participants d). pt_event p = k}"
    "distinct (map sp_id (map decode_participant (event_people d k)))"
proof -
  show "set (event_people d k) = {p \<in> set (tbl_participants d). pt_event p = k}" by (auto simp: event_people_def)
  have "distinct (map pt_id (tbl_participants d))" using assms(1) by (simp add: table_ok_defs)
  then have "distinct (map pt_id (event_people d k))"
    by (simp add: event_people_def distinct_map_sort distinct_map_filter)
  then show "distinct (map sp_id (map decode_participant (event_people d k)))"
    by (auto simp: distinct_map inj_on_def decode_participant_def)
qed

text \<open>Who is ruled out by the answers that are stored: silence of somebody who has submitted counts as "no".\<close>

definition accepts :: "database \<Rightarrow> participant_row \<Rightarrow> instant \<Rightarrow> bool" where
  "accepts d p t \<longleftrightarrow> (\<exists>r \<in> set (tbl_responses d). rs_participant r = pt_id p \<and> unix_nano (rs_slot r) = unix_nano t
     \<and> rs_tier r \<noteq> TierNo)"

lemma unvetoed_accepts:
  assumes "scan_ok env" "db_ok d" "p \<in> set (event_people d k)" "pt_role p = ''required''" "pt_responded p \<noteq> None"
    "inj_on unix_nano (set slots)" "t \<in> set slots"
    "\<not> vetoes (get (in_responses (build env (map decode_participant (event_people d k)) (answer_groups (event_answers d k)) slots))) t
       (solver_participant env (decode_participant p))"
  shows "accepts d p t"
proof -
  let ?ps = "map decode_participant (event_people d k)" and ?rs = "answer_groups (event_answers d k)"
  let ?mine = "map decode_response (filter (\<lambda>r. rs_participant r = pt_id p) (event_answers d k))"
  have id: "sp_id (decode_participant p) = uuid_string (pt_id p)" "responded (decode_participant p)" "sp_role (decode_participant p) = ''required''"
    using assms(4,5) by (simp_all add: decode_participant_def responded_def)
  have "in_responses (build env ?ps ?rs slots) (sp_id (decode_participant p))
      = Some (answers_by_slot slots (case ?rs (uuid_string (pt_id p)) of None \<Rightarrow> [] | Some l \<Rightarrow> l))"
    using build_responses_lookup [OF event_people_facts(2) [OF assms(2,1)], of "decode_participant p" k env ?rs slots] assms(3) id by simp
  then have look: "get (in_responses (build env ?ps ?rs slots)) (sp_id (decode_participant p)) t
      = Some (case find (\<lambda>r. unix_nano (sr_slot r) = unix_nano t) (rev ?mine) of None \<Rightarrow> TierNo | Some r \<Rightarrow> sr_tier r)"
    by (simp add: get_def answer_groups_lookup [OF assms(1)] answers_by_slot_lookup [OF assms(6)] assms(7))
  then have "(case find (\<lambda>r. unix_nano (sr_slot r) = unix_nano t) (rev ?mine) of None \<Rightarrow> TierNo | Some r \<Rightarrow> sr_tier r) \<noteq> TierNo"
    using assms(8) id by (simp add: vetoes_def solver_participant_def)
  then obtain r where r: "find (\<lambda>r. unix_nano (sr_slot r) = unix_nano t) (rev ?mine) = Some r" "sr_tier r \<noteq> TierNo"
    by (cases "find (\<lambda>r. unix_nano (sr_slot r) = unix_nano t) (rev ?mine)") simp_all
  have "r \<in> set ?mine" "unix_nano (sr_slot r) = unix_nano t" using find_Some_mem [OF r(1)] by auto
  then show ?thesis using r(2) by (auto simp: accepts_def event_answers_def decode_response_def)
qed

lemma rank_event_Inr:
  assumes "scan_ok env" "db_ok (tables (sv_world s))" "rank_event env pow (decode_event e) s = (Inr (ranked, ps), s')"
    "chosen \<in> set ranked"
  shows "\<exists>ex. event_slots env (decode_event e) = Inr ex \<and> start_at chosen \<in> set (starts ex)
    \<and> (inj_on unix_nano (set (starts ex)) \<and> \<not> eliminated chosen \<longrightarrow>
        (\<forall>p \<in> set (tbl_participants (tables (sv_world s))).
           pt_event p = ev_id e \<and> pt_role p = ''required'' \<and> pt_responded p \<noteq> None
             \<longrightarrow> accepts (tables (sv_world s)) p (start_at chosen)))"
proof -
  let ?d = "tables (sv_world s)"
  let ?ps = "map decode_participant (event_people ?d (ev_id e))" and ?rs = "answer_groups (event_answers ?d (ev_id e))"
  obtain inp cfg hist where si: "solver_inputs env pow (decode_event e) s = (Inr (inp, ps, cfg, hist), s')"
    and rk: "ranked = rank_with_history (in_slots inp) (in_participants inp) (in_responses inp) cfg hist"
    using assms(3) by (auto simp: rank_event_def seq_apply split: prod.splits sum.splits)
  from solver_inputs_Inr [OF assms(1) si] obtain ex where
    ex: "event_slots env (decode_event e) = Inr ex" "inp = build env ?ps ?rs (starts ex)" "cfg = default_config" by auto
  have "set ranked = (\<lambda>t. score_slot t (in_participants inp) (in_responses inp) cfg) ` set (in_slots inp)"
    using arg_cong [OF rank_perm, of set_mset "in_slots inp" "in_participants inp" "in_responses inp" cfg hist] by (simp add: rk)
  moreover have "in_slots inp = starts ex" by (simp add: ex(2) build_def)
  ultimately obtain t where t: "t \<in> set (starts ex)" "chosen = score_slot t (in_participants inp) (in_responses inp) cfg"
    using assms(4) by auto
  have "accepts ?d p t" if "inj_on unix_nano (set (starts ex))" "\<not> eliminated chosen" "p \<in> set (tbl_participants ?d)"
    "pt_event p = ev_id e" "pt_role p = ''required''" "pt_responded p \<noteq> None" for p
  proof -
    have "p \<in> set (event_people ?d (ev_id e))" using that(3,4) by (simp add: event_people_def)
    moreover from this have "\<not> vetoes (get (in_responses (build env ?ps ?rs (starts ex)))) t (solver_participant env (decode_participant p))"
      using that(2) t(2) by (auto simp: score_slot_def score_fields ex(2) build_def)
    ultimately show ?thesis using unvetoed_accepts [OF assms(1,2)] that(1,5,6) t(1) by blast
  qed
  then show ?thesis using ex(1) t by (auto simp: score_slot_def score_fields)
qed

end
