(* ===== verification/DecideFacts.thy ===== *)
theory DecideFacts
  imports SolveHandlerFacts
begin

text \<open>
  What the handlers of \<^verbatim>\<open>solve.go\<close> promise: who may decide an event and for what slot
  (\<open>decide_exact\<close>), that a refusal leaves no trace (\<open>decide_refused_inert\<close>), what each verdict means
  (\<open>verdict_meaning\<close>), and that the calendar file of a decision carries the decided slot
  (\<open>decided_ics_reads_back\<close>).
\<close>

section \<open>Properties\<close>

text \<open>
  C2: A decision that succeeds was made with the token of an organizer of the very event the request
  names, for one of the event's slots; unless it was forced, every required participant who has
  submitted has an answer other than "no" stored for it. It sets that event's status and slot, stamps it
  with the current time, changes no other row, and tells the event's watchers once.
\<close>

theorem decide_exact:
  assumes "scan_ok env" "db_ok (tables (sv_world s))"
    "decide_route env pow slug header body s = (Inr (status, ev), s')"
  shows "\<exists>req e p ex. body = Some req \<and> e \<in> set (tbl_events (tables (sv_world s))) \<and> ev_slug e = slug
    \<and> p \<in> set (tbl_participants (tables (sv_world s))) \<and> pt_event p = ev_id e \<and> pt_organizer p
    \<and> pt_token p = env_hash env (trim_space header)
    \<and> event_slots env (decode_event e) = Inr ex \<and> dr_slot req \<in> set (starts ex)
    \<and> (\<not> dr_force req \<and> inj_on unix_nano (set (starts ex)) \<longrightarrow>
        (\<forall>q \<in> set (tbl_participants (tables (sv_world s))).
           pt_event q = ev_id e \<and> pt_role q = ''required'' \<and> pt_responded q \<noteq> None
             \<longrightarrow> accepts (tables (sv_world s)) q (dr_slot req)))
    \<and> sv_world s' = (sv_world s)\<lparr>tables := decided_tables (ev_id e) (dr_slot req) (clock (sv_world s)) (tables (sv_world s))\<rparr>
    \<and> sv_published s' = sv_published s @ [(uuid_string (ev_id e), ''decided'')]
    \<and> se_status ev = ''decided'' \<and> se_decided_slot ev = Some (dr_slot req) \<and> status = 200"
proof -
  from require_participant_Inr [OF assms(1) assms(3) [unfolded decide_route_def]] obtain e p where
    e: "find (\<lambda>e. ev_slug e = slug) (tbl_events (tables (sv_world s))) = Some e"
    and p: "p \<in> set (tbl_participants (tables (sv_world s)))" "pt_event p = ev_id e" "pt_token p = env_hash env (trim_space header)"
    and h: "handle_decide env pow \<lparr>au_event = decode_event e, au_participant = decode_participant p\<rparr> body s = (Inr (status, ev), s')"
    by blast
  from handle_decide_Inr [OF h] obtain req ranked ps chosen w where
    d: "sp_organizer (decode_participant p)" "body = Some req" "rank_event env pow (decode_event e) s = (Inr (ranked, ps), s)"
      "chosen \<in> set ranked" "start_at chosen = dr_slot req" "eliminated chosen \<longrightarrow> dr_force req"
      "decide env (se_id (decode_event e)) (dr_slot req) (sv_world s) = (Inr ev, w)" "status = 200"
      "s' = s\<lparr>sv_world := w, sv_published := sv_published s @ [(se_id (decode_event e), ''decided'')]\<rparr>"
    unfolding authed.simps by blast
  have id: "env_scan env (se_id (decode_event e)) = Some (ev_id e)" using assms(1) by (simp add: decode_event_def scan_ok_def)
  from rank_event_Inr [OF assms(1,2) d(3,4)] obtain ex where
    ex: "event_slots env (decode_event e) = Inr ex" "dr_slot req \<in> set (starts ex)"
      "inj_on unix_nano (set (starts ex)) \<and> \<not> eliminated chosen \<longrightarrow>
        (\<forall>q \<in> set (tbl_participants (tables (sv_world s))).
           pt_event q = ev_id e \<and> pt_role q = ''required'' \<and> pt_responded q \<noteq> None
             \<longrightarrow> accepts (tables (sv_world s)) q (dr_slot req))"
    unfolding d(5) by blast
  have "se_status ev = ''decided'' \<and> se_decided_slot ev = Some (dr_slot req)"
    using decide_Inr [OF id d(7)] by (auto simp: decode_event_def)
  moreover have "pt_organizer p" using d(1) by (simp add: decode_participant_def)
  moreover have "sv_published s' = sv_published s @ [(uuid_string (ev_id e), ''decided'')]" by (simp add: d(9)) (simp add: decode_event_def)
  moreover have "sv_world s' = (sv_world s)\<lparr>tables := decided_tables (ev_id e) (dr_slot req) (clock (sv_world s)) (tables (sv_world s))\<rparr>"
    using decide_Inr [OF id d(7)] by (simp add: d(9))
  ultimately show ?thesis
    using find_Some_mem [OF e] p d(2,6,8) ex
    by (intro exI [of _ req] exI [of _ e] exI [of _ p] exI [of _ ex]) blast
qed

definition demo_choice :: decide_request where
  "demo_choice = \<lparr>dr_slot = 10 * hour, dr_force = False\<rparr>"

lemma demo_find: "find (\<lambda>e. ev_slug e = ''abc'') (tbl_events (tables (sv_world demo_server))) = Some demo_event"
  by (simp add: demo_server_def demo_world_def demo_db_def demo_event_def)

lemma demo_event_fields: "ev_id demo_event = 1" "se_group (decode_event demo_event) = None" "se_id (decode_event demo_event) = uuid_string 1"
  by (simp_all add: demo_event_def decode_event_def)

lemma find_ranked:
  assumes "t \<in> set ts"
  shows "\<exists>sc. find (\<lambda>r. start_at r = t) (rank_with_history ts ps rs cfg hist) = Some sc \<and> start_at sc = t
    \<and> sc = score_slot t ps rs cfg"
proof -
  let ?ranked = "rank_with_history ts ps rs cfg hist"
  have set: "set ?ranked = (\<lambda>t. score_slot t ps rs cfg) ` set ts"
    using arg_cong [OF rank_perm, of set_mset ts ps rs cfg hist] by simp
  have start: "start_at (score_slot u ps rs cfg) = u" for u by (simp add: score_slot_def score_fields)
  have "find (\<lambda>r. start_at r = t) ?ranked \<noteq> None"
  proof
    assume "find (\<lambda>r. start_at r = t) ?ranked = None"
    then have "\<forall>r \<in> set ?ranked. start_at r \<noteq> t" by (auto simp: find_None_iff)
    then show False using assms set start by auto
  qed
  then obtain sc where sc: "find (\<lambda>r. start_at r = t) ?ranked = Some sc" by blast
  then have "sc \<in> set ?ranked" "start_at sc = t" using find_Some_mem [OF sc] by auto
  then show ?thesis using sc set start by auto
qed

lemma fold_none: "\<forall>p \<in> set ps. \<not> P p \<Longrightarrow> foldl (\<lambda>m p. if \<not> P p then m else m(f p \<mapsto> g p)) m ps = m"
  by (induction ps) simp_all

text \<open>Nobody has answered yet, so no slot is ruled out.\<close>

lemma demo_rank:
  "\<exists>ranked ps. rank_event demo_env pow (decode_event demo_event) demo_server = (Inr (ranked, ps), demo_server)
    \<and> (\<exists>sc. find (\<lambda>r. start_at r = 10 * hour) ranked = Some sc \<and> \<not> eliminated sc \<and> start_at sc = 10 * hour)"
proof -
  let ?ps = "map decode_participant (event_people demo_db 1)"
  let ?inp = "build demo_env ?ps (answer_groups (event_answers demo_db 1)) [10 * hour, 11 * hour, 12 * hour]"
  let ?ranked = "rank_with_history (in_slots ?inp) (in_participants ?inp) (in_responses ?inp) default_config None"
  have id: "env_scan demo_env (uuid_string 1) = Some 1" by (simp add: demo_scan)
  have w: "sv_world demo_server = demo_world" "tables demo_world = demo_db" by (simp_all add: demo_server_def demo_world_def)
  have run: "rank_event demo_env pow (decode_event demo_event) demo_server = (Inr (?ranked, ?ps), demo_server)"
    by (simp add: rank_event_def solver_inputs_def demo_event_slots seq_apply run_apply people_of_event [OF id]
        responses_for_event_eq [OF id] demo_event_fields w)
  have silent: "in_responses ?inp = Map.empty"
  proof -
    have "\<forall>p \<in> set ?ps. \<not> responded p"
      by (auto simp: event_people_def demo_db_def demo_participant_def decode_participant_def responded_def)
    from fold_none [of ?ps responded, OF this] show ?thesis unfolding build_def solver_input.simps .
  qed
  have "10 * hour \<in> set (in_slots ?inp)" by (simp add: build_def)
  from find_ranked [OF this, of "in_participants ?inp" "in_responses ?inp" default_config None] obtain sc where
    sc: "find (\<lambda>r. start_at r = 10 * hour) ?ranked = Some sc" "start_at sc = 10 * hour"
      "sc = score_slot (10 * hour) (in_participants ?inp) (in_responses ?inp) default_config" by blast
  have "\<not> eliminated sc" unfolding sc(3) silent by (simp add: score_slot_def score_fields vetoes_def get_def)
  then show ?thesis using run sc(1,2) by blast
qed

lemma demo_decide_row: "\<exists>ev w. decide demo_env (uuid_string 1) slot demo_world = (Inr ev, w)"
proof -
  have "first_broken (event_checks demo_db (filter (\<lambda>x. ev_id x \<noteq> 1) (tbl_events demo_db))
      (demo_event\<lparr>ev_status := ''decided'', ev_decided_slot := Some slot, ev_decided_at := Some hour\<rparr>)) = None"
    by (simp add: first_broken_None event_checks_def demo_defs present_def encode_time_of_day_def micros_per_minute_def)
  moreover have "find (\<lambda>e. ev_id e = 1) (tbl_events demo_db) = Some demo_event" by (simp add: demo_db_def demo_event_def)
  ultimately show ?thesis
    by (simp add: decide_def parse_uuid_def demo_scan not_found_def decide_event_row_def update_event_def now_def select_one_def
        modify_def op_simps demo_world_def)
qed

lemma demo_guard:
  "require_participant demo_env ''abc'' ''Ann'' next demo_server = next demo_authed demo_server"
proof -
  have "trim_space ''Ann'' = ''Ann''" by (rule trim_space_word) simp
  moreover have "find (\<lambda>p. pt_event p = 1 \<and> pt_token p = env_hash demo_env ''Ann'') (tbl_participants (tables (sv_world demo_server)))
      = Some (demo_participant 2 ''Ann'' ''required'')"
    by (simp add: demo_server_def demo_world_def demo_db_def demo_participant_def demo_env_def)
  moreover have id: "env_scan demo_env (se_id (decode_event demo_event)) = Some 1" by (simp add: demo_event_fields demo_scan)
  ultimately show ?thesis
    by (simp add: require_participant_def call_apply event_by_slug_eq demo_find participant_by_token_eq [OF id] demo_authed_def)
qed

lemma demo_decide:
  "\<exists>ev s'. decide_route demo_env pow ''abc'' ''Ann'' (Some demo_choice) demo_server = (Inr (200, ev), s')"
proof -
  obtain ranked ps sc where r: "rank_event demo_env pow (decode_event demo_event) demo_server = (Inr (ranked, ps), demo_server)"
    "find (\<lambda>r. start_at r = 10 * hour) ranked = Some sc" "\<not> eliminated sc" "start_at sc = 10 * hour"
    using demo_rank by blast
  obtain ev w where d: "decide demo_env (uuid_string 1) (10 * hour) demo_world = (Inr ev, w)" using demo_decide_row by blast
  have "sp_organizer (au_participant demo_authed)" "au_event demo_authed = decode_event demo_event"
    by (simp_all add: demo_authed_def decode_participant_def demo_participant_def)
  moreover have "sv_world demo_server = demo_world" by (simp add: demo_server_def)
  ultimately show ?thesis
    by (simp add: decide_route_def demo_guard handle_decide_def decoded_apply catch_apply r demo_choice_def call_apply
        demo_event_fields d seq_apply publish_apply)
qed

lemma decide_exact_witness:
  "\<exists>ev s'. decide_route demo_env (\<lambda>_ _. 1) ''abc'' ''Ann'' (Some demo_choice) demo_server = (Inr (200, ev), s')
    \<and> se_decided_slot ev = Some (10 * hour) \<and> sv_published s' = [(uuid_string 1, ''decided'')]"
proof -
  obtain ev s' where h: "decide_route demo_env (\<lambda>_ _. 1) ''abc'' ''Ann'' (Some demo_choice) demo_server = (Inr (200, ev), s')"
    using demo_decide by blast
  have ok: "db_ok (tables (sv_world demo_server))" using demo_ok by (simp add: demo_server_def demo_world_def)
  from decide_exact [OF demo_scan(1) ok h] h show ?thesis
    by (auto simp: demo_server_def demo_world_def demo_db_def demo_event_fields demo_choice_def)
qed







section \<open>Verdicts\<close>

text \<open>
  What a verdict should be, in terms of the answers alone: whether every slot is refused by somebody
  required, whether some slot wins however the open answers turn out, whether somebody required is still
  silent somewhere, and whether settling one person's open answers changes who can win.
\<close>

definition all_refused :: "instant list \<Rightarrow> participant list \<Rightarrow> responses \<Rightarrow> bool" where
  "all_refused slots ps rs \<longleftrightarrow>
     (\<forall>t \<in> set slots. \<exists>p \<in> set ps. p_role p = RoleRequired \<and> get rs (p_id p) t = Some TierNo)"

definition certain :: "instant list \<Rightarrow> participant list \<Rightarrow> responses \<Rightarrow> config \<Rightarrow> bool" where
  "certain slots ps rs cfg \<longleftrightarrow> (\<exists>t. \<forall>c. completes c rs \<longrightarrow> wins slots ps cfg c t)"

definition matters :: "instant list \<Rightarrow> participant list \<Rightarrow> responses \<Rightarrow> config \<Rightarrow> participant \<Rightarrow> bool" where
  "matters slots ps rs cfg p \<longleftrightarrow> (\<exists>t \<in> set slots. get rs (p_id p) t = None)
    \<and> (\<exists>pin \<in> {TierNo, TierPreferred}.
        {s. \<exists>c. completes c rs \<and> (\<forall>t. get rs (p_id p) t = None \<longrightarrow> c (p_id p) t = pin) \<and> wins slots ps cfg c s}
        \<noteq> {s. \<exists>c. completes c rs \<and> wins slots ps cfg c s})"

definition verdict_spec :: "instant list \<Rightarrow> participant list \<Rightarrow> responses \<Rightarrow> config \<Rightarrow> verdict" where
  "verdict_spec slots ps rs cfg =
     (if all_refused slots ps rs then NoSlots
      else if certain slots ps rs cfg then Decidable
      else if \<exists>p \<in> set ps. p_role p = RoleRequired \<and> (\<exists>t \<in> set slots. get rs (p_id p) t = None) then WaitingRequired
      else if \<exists>p \<in> set ps. matters slots ps rs cfg p then WaitingRelevant
      else Tied)"

lemma any_alive: "list_ex (\<lambda>r. \<not> eliminated r) (rank_with_history slots ps rs cfg hist) \<longleftrightarrow> \<not> all_refused slots ps rs"
proof -
  have "set (rank_with_history slots ps rs cfg hist) = (\<lambda>t. score_slot t ps rs cfg) ` set slots"
    using arg_cong [OF rank_perm, of set_mset slots ps rs cfg hist] by simp
  then show ?thesis
    by (auto simp: list_ex_iff all_refused_def score_slot_def score_fields vetoes_def)
qed

lemma decidable_certain:
  assumes "config_ok cfg" "sociable_unknowns slots ps rs cfg" "distinct slots"
  shows "decidable (analyze slots ps rs cfg) \<longleftrightarrow> certain slots ps rs cfg"
  unfolding certain_def using decidable_wins [OF assms(1,2)] always_wins_decidable [OF assms(3)] by blast

text \<open>
  C8: The verdict an organizer sees on an event that is not decided, under a sane configuration, for distinct
  slots, and where every unanswered slot is at a sociable hour for whoever has not answered it: the
  five-way answer computed from the bounds and the loops of the analysis is the one the answers alone
  determine, by the specification above. At unsociable hours it can be wrong
  (\<open>verdict_unsound_at_unsociable_hours\<close>).
\<close>

theorem verdict_refines_spec:
  assumes "config_ok cfg" "sociable_unknowns slots ps rs cfg" "distinct slots" "status \<noteq> ''decided''"
  shows "dv_verdict (to_dominance_view (analyze slots ps rs cfg) (rank_with_history slots ps rs cfg hist) status)
    = verdict_spec slots ps rs cfg"
proof -
  have blocking: "blocking_required (analyze slots ps rs cfg) \<noteq> []
      \<longleftrightarrow> (\<exists>p \<in> set ps. p_role p = RoleRequired \<and> (\<exists>t \<in> set slots. get rs (p_id p) t = None))"
    by (auto simp: analyze_def Let_def missing_some_def filter_empty_conv split: option.split)
  have open_ends: "relevant (analyze slots ps rs cfg) \<noteq> [] \<longleftrightarrow> (\<exists>p \<in> set ps. matters slots ps rs cfg p)"
    if "\<not> decidable (analyze slots ps rs cfg)"
    unfolding relevant_undecided [OF assms(1-3) that] by (auto simp: filter_empty_conv matters_def)
  show ?thesis
  proof (cases "certain slots ps rs cfg")
    case True
    then show ?thesis
      unfolding to_dominance_view_def verdict_spec_def Let_def dominance_view.simps any_alive blocking
      using assms(4) by (simp add: decidable_certain [OF assms(1-3)])
  next
    case False
    then have no: "\<not> decidable (analyze slots ps rs cfg)" using decidable_certain [OF assms(1-3)] by blast
    show ?thesis
      unfolding to_dominance_view_def verdict_spec_def Let_def dominance_view.simps any_alive blocking open_ends [OF no]
      using assms(4) False no by simp
  qed
qed

lemma verdict_refines_spec_witness:
  "dv_verdict (to_dominance_view (analyze [ten, noon] [ann, bob] settled_answers default_config)
     (rank [ten, noon] [ann, bob] settled_answers default_config) ''open'') = verdict_spec [ten, noon] [ann, bob] settled_answers default_config
   \<and> verdict_spec [ten, noon] [ann, bob] settled_answers default_config = Decidable"
proof -
  have "\<not> all_refused [ten, noon] [ann, bob] settled_answers"
    by (auto simp: all_refused_def settled_answers_def get_def ann_def bob_def)
  then have "verdict_spec [ten, noon] [ann, bob] settled_answers default_config = Decidable"
    using settled_decidable decidable_certain [OF default_config_ok sociable_ann_bob] by (simp add: verdict_spec_def ten_def noon_def duration_units)
  then show ?thesis
    using verdict_refines_spec [OF default_config_ok sociable_ann_bob, of "''open''" settled_answers None]
    by (simp add: rank_def ten_def noon_def duration_units)
qed

section \<open>The calendar file\<close>

lemma year_mono:
  assumes "t \<le> u"
  shows "fst (date_in utc t) \<le> fst (date_in utc u)"
proof (rule ccontr)
  let ?n = "local_sec utc t div 86400 + 719162" and ?k = "local_sec utc u div 86400 + 719162"
  have y: "fst (date_in utc t) = year_of ?n" "fst (date_in utc u) = year_of ?k"
    by (simp_all add: date_in_def civil_of_days_def Let_def)
  assume "\<not> fst (date_in utc t) \<le> fst (date_in utc u)"
  then have "year_start (year_of ?k + 1) \<le> year_start (year_of ?n)" unfolding y by (intro year_start_mono) simp
  moreover have "?n \<le> ?k"
    using assms by (simp add: local_sec_def unix_sec_def utc_def zdiv_mono1 second_def)
  ultimately show False using year_of_bounds [of ?n] year_of_bounds [of ?k] by linarith
qed

text \<open>
  C38: The file a decision is downloaded as is an event of the decided slot: read by the program's own
  feed parser, it is busy from the slot's start, in whole seconds, for the event's slot length, and at no
  other time. An event that is not decided has no file, and downloading changes nothing.
\<close>

theorem decided_ics_reads_back:
  assumes "db_ok (tables (sv_world s))" "handle_decided_ics env web_url slug s = (Inr (status, f), s')"
    "plain slug" "plain web_url"
  shows "s' = s \<and> (\<exists>e slot. e \<in> set (tbl_events (tables (sv_world s))) \<and> ev_slug e = slug \<and> ev_status e = ''decided''
    \<and> ev_decided_slot e = Some slot \<and> if_name f = ''overlap-'' @ slug @ ''.ics''
    \<and> (let from_sec = slot div second; to_sec = from_sec + sint (ev_slot_minutes e) * 60 in
        0 \<le> fst (date_in utc slot) \<longrightarrow> fst (date_in utc (slot + sint (ev_slot_minutes e) * minute)) < 10000
        \<longrightarrow> parse_feed env (if_body f) t_from t_to
             = (if overlaps (Interval (from_sec * second) (to_sec * second)) (Interval t_from t_to)
                then [Interval (from_sec * second) (to_sec * second)] else [])))"
proof -
  have row: "event_ok (tables (sv_world s)) e" if "e \<in> set (tbl_events (tables (sv_world s)))" for e
    using assms(1) that by (simp add: db_ok_def events_ok_def)
  obtain e where e: "find (\<lambda>e. ev_slug e = slug) (tbl_events (tables (sv_world s))) = Some e"
    using assms(2) by (cases "find (\<lambda>e. ev_slug e = slug) (tbl_events (tables (sv_world s)))")
      (simp_all add: handle_decided_ics_def call_apply event_by_slug_eq event_lookup_error_def)
  then have mem: "e \<in> set (tbl_events (tables (sv_world s)))" "ev_slug e = slug" using find_Some_mem [OF e] by auto
  have dec: "ev_status e = ''decided''"
    using assms(2) e by (cases "ev_status e = ''decided''")
      (simp_all add: handle_decided_ics_def call_apply event_by_slug_eq decode_event_def)
  then obtain slot where slot: "ev_decided_slot e = Some slot" using row [OF mem(1)] by (auto simp: event_ok_def)
  have fields: "se_status (decode_event e) = ''decided''" "se_decided_slot (decode_event e) = Some slot" "se_slug (decode_event e) = slug"
    "se_slot_minutes (decode_event e) = sint (ev_slot_minutes e)"
    using dec slot mem by (simp_all add: decode_event_def)
  obtain x w where ps: "participants_of env (se_id (decode_event e)) (sv_world s) = (x, w)" by fastforce
  then have w: "w = sv_world s" by (rule reads_onlyD [OF reads_lookups(3)])
  obtain ps' where x: "x = Inr ps'"
    using assms(2) e ps by (cases x) (simp_all add: handle_decided_ics_def call_apply event_by_slug_eq fields)
  have f: "f = decided_file web_url (decode_event e) ps' slot (clock (sv_world s))" "s' = s"
    using assms(2) e ps x w by (auto simp: handle_decided_ics_def call_apply event_by_slug_eq fields seq_apply clock_now_def)
  let ?m = "sint (ev_slot_minutes e)" and ?t = "slot + sint (ev_slot_minutes e) * minute"
  have m: "5 \<le> ?m" "?m \<le> 480" using row [OF mem(1)] by (simp_all add: event_ok_def)
  have stop: "?t div second = slot div second + ?m * 60"
  proof -
    have "?m * minute = (?m * 60) * second" by (simp add: duration_units)
    moreover have "(slot + (?m * 60) * second) div second = slot div second + ?m * 60" by (simp add: second_def)
    ultimately show ?thesis by (simp only:)
  qed
  have "parse_feed env (if_body f) t_from t_to
      = (if overlaps (Interval (slot div second * second) ((slot div second + ?m * 60) * second)) (Interval t_from t_to)
         then [Interval (slot div second * second) ((slot div second + ?m * 60) * second)] else [])"
    if years: "0 \<le> fst (date_in utc slot)" "fst (date_in utc ?t) < 10000"
  proof -
    let ?ev = "\<lparr>ic_uid = slug @ ''@overlap'', ic_summary = se_title (decode_event e), ic_description = attendee_line ps',
        ic_start = slot, ic_end = ?t, ic_url = web_url @ ''/e/'' @ slug\<rparr>"
    have body: "if_body f = render ?ev (clock (sv_world s))" by (simp add: f(1) decided_file_def fields)
    have lits: "plain ''@overlap''" "plain ''/e/''" by (simp_all add: plain_def cr_def lf_def)
    have p: "plain (ic_uid ?ev)" "plain (ic_url ?ev)"
      unfolding ics_event.simps plain_append using lits assms(3,4) by blast+
    have le: "fst (date_in utc slot) \<le> fst (date_in utc ?t)" using m by (intro year_mono) (simp add: duration_units)
    have "(?t div second - slot div second) * second < 2 ^ 63" using m by (simp add: stop duration_units)
    moreover have "slot div second < ?t div second" using m by (simp add: stop)
    ultimately show ?thesis
      using rendered_parses [OF p, of env "clock (sv_world s)" t_from t_to] years le
      by (simp add: body stop Let_def)
  qed
  then show ?thesis
    using f(2) mem dec slot by (intro conjI exI [of _ e] exI [of _ slot]) (simp_all add: f(1) decided_file_def filename_def fields Let_def)
qed

definition decided_event :: event_row where
  "decided_event = demo_event\<lparr>ev_status := ''decided'', ev_decided_slot := Some (10 * hour), ev_decided_at := Some hour\<rparr>"

definition decided_server :: server where
  "decided_server = \<lparr>sv_world = demo_world\<lparr>tables := demo_db\<lparr>tbl_events := [decided_event]\<rparr>\<rparr>, sv_published = [], sv_proposals = new_proposal_cache (30 * second)\<rparr>"

lemma decided_ok: "db_ok (tables (sv_world decided_server))"
  by (simp add: table_ok_defs row_ok_defs demo_defs decided_event_def decided_server_def present_def encode_time_of_day_def micros_per_minute_def)

lemma decided_download: "\<exists>f. handle_decided_ics demo_env ''https://o'' ''abc'' decided_server = (Inr (200, f), decided_server)"
proof -
  have "find (\<lambda>e. ev_slug e = ''abc'') (tbl_events (tables (sv_world decided_server))) = Some decided_event"
    by (simp add: decided_server_def decided_event_def demo_event_def)
  moreover have "se_status (decode_event decided_event) = ''decided''" "se_decided_slot (decode_event decided_event) = Some (10 * hour)"
    "se_id (decode_event decided_event) = uuid_string 1"
    by (simp_all add: decode_event_def decided_event_def demo_event_def)
  ultimately show ?thesis
    by (simp add: handle_decided_ics_def call_apply event_by_slug_eq people_of_event [OF demo_scan(2)] seq_apply clock_now_def)
qed

lemma decided_ics_reads_back_witness:
  "\<exists>f. handle_decided_ics demo_env ''https://o'' ''abc'' decided_server = (Inr (200, f), decided_server)
    \<and> parse_feed demo_env (if_body f) 0 (24 * hour) = [Interval (10 * hour) (11 * hour)]"
proof -
  obtain f where f: "handle_decided_ics demo_env ''https://o'' ''abc'' decided_server = (Inr (200, f), decided_server)"
    using decided_download by blast
  have lits: "plain ''abc''" "plain ''https://o''" by (simp_all add: plain_def cr_def lf_def)
  have only: "e \<in> set (tbl_events (tables (sv_world decided_server))) \<Longrightarrow> e = decided_event" for e by (simp add: decided_server_def)
  have len: "ev_decided_slot decided_event = Some (10 * hour)" "sint (ev_slot_minutes decided_event) = 60"
    by (simp_all add: decided_event_def demo_event_def)
  have end_hour: "10 * hour + 60 * minute = 11 * hour" by (simp add: duration_units)
  from decided_ics_reads_back [OF decided_ok f lits, of 0 "24 * hour"]
  have "parse_feed demo_env (if_body f) 0 (24 * hour) = [Interval (10 * hour) (11 * hour)]"
  proof (elim exE conjE)
    fix e slot
    assume e: "e \<in> set (tbl_events (tables (sv_world decided_server)))" "ev_decided_slot e = Some slot"
      and r: "let from_sec = slot div second; to_sec = from_sec + sint (ev_slot_minutes e) * 60 in
        0 \<le> fst (date_in utc slot) \<longrightarrow> fst (date_in utc (slot + sint (ev_slot_minutes e) * minute)) < 10000
        \<longrightarrow> parse_feed demo_env (if_body f) 0 (24 * hour)
             = (if overlaps (Interval (from_sec * second) (to_sec * second)) (Interval 0 (24 * hour))
                then [Interval (from_sec * second) (to_sec * second)] else [])"
    have "e = decided_event" "slot = 10 * hour" using only [OF e(1)] e(2) len by auto
    then show ?thesis
      using r by (simp add: len end_hour demo_years Let_def) (simp add: overlaps_def duration_units)
  qed
  then show ?thesis using f by blast
qed

end
