(* ===== verification/CalendarHandlerFacts.thy ===== *)
theory CalendarHandlerFacts
  imports CalendarHandlers SolveHandlerFacts
begin

text \<open>
  The facts about \<open>CalendarHandlers\<close>: what connecting and disconnecting a calendar leave in the database
  (\<open>connect_ics_exact\<close>, \<open>disconnect_calendar_exact\<close>), and that a connection, unlike what it is for, makes a
  person refuse the slots the calendar leaves free (\<open>connecting_refuses_free_slots\<close>).
\<close>

section \<open>Reading back what was saved\<close>

lemma saved_answers:
  assumes "scan_ok env" "db_ok (tables w)" "save_responses env (uuid_string k) rs w = (Inr u, w')"
    "\<forall>r \<in> set rs. sr_source r \<noteq> ''''"
  shows "responses_for_participant env (uuid_string k) w' = (Inr (sort_key sr_slot rs), w')"
    "j \<noteq> k \<Longrightarrow> fst (responses_for_participant env (uuid_string j) w') = fst (responses_for_participant env (uuid_string j) w)"
proof -
  have scan: "env_scan env (uuid_string u) = Some u" for u using assms(1) by (simp add: scan_ok_def)
  note saved = save_responses_Inr [OF assms(1-3)]
  have "map sourced rs = rs" using assms(4) by (intro map_idI sourced_id) auto
  then show "responses_for_participant env (uuid_string k) w' = (Inr (sort_key sr_slot rs), w')"
    using saved by (simp add: responses_for_participant_eq [OF scan] replaced_own decode_response_rows)
  show "j \<noteq> k \<Longrightarrow> fst (responses_for_participant env (uuid_string j) w') = fst (responses_for_participant env (uuid_string j) w)"
    using saved by (simp add: responses_for_participant_eq [OF scan] replaced_other)
qed

text \<open>The tables after a set of busy blocks is replaced.\<close>

definition replace_busy :: "uuid \<Rightarrow> interval list \<Rightarrow> string \<Rightarrow> string \<Rightarrow> instant \<Rightarrow> database \<Rightarrow> database" where
  "replace_busy k blocks source url t d =
     d\<lparr>tbl_busy := filter (\<lambda>b. bb_owner b \<noteq> k) (tbl_busy d) @ busy_rows k blocks source t,
       tbl_participants := set_where (\<lambda>p. pt_id p = k)
         (\<lambda>p. p\<lparr>pt_calendar := source, pt_url := (if url = '''' then None else Some url)\<rparr>) (tbl_participants d)\<rparr>"

lemma save_busy_Inr:
  assumes "scan_ok env" "db_ok (tables w)" "save_busy_blocks env (uuid_string k) blocks source url w = (Inr u, w')"
    "source \<in> {''none'', ''google'', ''ics''}"
  shows "w' = w\<lparr>tables := replace_busy k blocks source url (clock w) (tables w)\<rparr>"
proof -
  have scan: "env_scan env (uuid_string k) = Some k" using assms(1) by (simp add: scan_ok_def)
  have ok: "participants_ok ((tables w)\<lparr>tbl_busy := x\<rparr>)" for x using assms(2) by (simp add: db_ok_def)
  have set: "exec_update (update_participant k f) (w\<lparr>tables := (tables w)\<lparr>tbl_busy := x\<rparr>\<rparr>)
      = (Inr (), w\<lparr>tables := (tables w)\<lparr>tbl_busy := x, tbl_participants := set_where (\<lambda>p. pt_id p = k) f (tbl_participants (tables w))\<rparr>\<rparr>)"
    if "f = (\<lambda>p. p\<lparr>pt_calendar := source, pt_url := y\<rparr>)" for f x y
    using update_participant_keep [of "w\<lparr>tables := (tables w)\<lparr>tbl_busy := x\<rparr>\<rparr>" f k] ok [of x] assms(4)
    by (simp add: that)
  show ?thesis
    using assms(3)
    by (auto simp: save_busy_blocks_def parse_uuid_def scan transaction_def delete_busy_rows_def insert_busy_rows_def modify_def
        now_def op_simps set_calendar_source_def set [OF refl] replace_busy_def busy_rows_def split: if_splits option.splits)
qed

lemma responses_after_busy:
  assumes "scan_ok env" "w' = w\<lparr>tables := replace_busy k blocks source url t (tables w)\<rparr>"
  shows "fst (responses_for_participant env (uuid_string j) w') = fst (responses_for_participant env (uuid_string j) w)"
proof -
  have scan: "env_scan env (uuid_string j) = Some j" using assms(1) by (simp add: scan_ok_def)
  show ?thesis by (simp add: responses_for_participant_eq [OF scan] assms(2) replace_busy_def)
qed

section \<open>What the calendar makes of the answers\<close>

lemma stated_answers_lookup:
  assumes "\<forall>r \<in> set rs. nano_range (sr_slot r)" "nano_range t"
  shows "stated_answers rs (unix_nano t) = find (\<lambda>r. sr_source r \<noteq> ''calendar'' \<and> sr_slot r = t) (rev rs)"
  using assms(1)
proof (induction rs rule: rev_induct)
  case Nil
  then show ?case by (simp add: stated_answers_def)
next
  case (snoc r rs)
  have "unix_nano t = unix_nano (sr_slot r) \<longleftrightarrow> sr_slot r = t"
    using unix_nano_inj [of t "sr_slot r"] snoc.prems assms(2) by auto
  then show ?case using snoc by (auto simp: stated_answers_def)
qed

text \<open>The rows for a list of slots, as a function of what was stated.\<close>

definition calendar_row :: "int \<Rightarrow> interval list \<Rightarrow> (64 word \<rightharpoonup> stored_response) \<Rightarrow> instant \<Rightarrow> stored_response option" where
  "calendar_row mins blocks stated t = (case stated (unix_nano t) of
     Some prior \<Rightarrow> Some prior
   | None \<Rightarrow> if covered_by t mins blocks then Some \<lparr>sr_slot = t, sr_tier = TierNo, sr_source = ''calendar''\<rparr> else None)"

lemma calendar_fold:
  "foldl (calendar_step mins blocks stated) (out, b) ts =
     (out @ List.map_filter (calendar_row mins blocks stated) ts,
      b + length (filter (\<lambda>t. stated (unix_nano t) = None \<and> covered_by t mins blocks) ts))"
  by (induction ts arbitrary: out b)
    (auto simp: calendar_step_def calendar_row_def List.map_filter_def split: option.split)

lemma event_slots_distinct:
  assumes "event_slots env ev = Inr ex"
  shows "distinct (starts ex)"
proof -
  obtain w where w: "expand w = Inr ex" using assms by (auto simp: event_slots_def split: sum.splits)
  then have v: "validate w = None" by (auto simp: expand_def split: option.splits)
  then obtain loc where "w_loc w = Some loc" using validate_loc by blast
  then show ?thesis
    using w v expand_loop_bounds [of loc "grid w" no_expansion "{}" ex] by (simp add: expand_def) (simp add: no_expansion_def)
qed

lemma calendar_row_slot:
  assumes "\<forall>r \<in> set prior. nano_range (sr_slot r)" "nano_range t" "calendar_row mins blocks (stated_answers prior) t = Some r"
  shows "sr_slot r = t \<and> (r \<in> set prior \<or> sr_source r = ''calendar'')"
  using assms(3) find_Some_mem [of _ "rev prior" r]
  by (auto simp: calendar_row_def stated_answers_lookup [OF assms(1,2)] split: option.splits if_splits)

lemma calendar_rows_answers:
  fixes mins :: int and blocks :: "interval list" and prior :: "stored_response list"
  assumes "\<forall>r \<in> set prior. nano_range (sr_slot r)" "distinct ts" "\<forall>t \<in> set ts. nano_range t"
  defines "rows \<equiv> List.map_filter (calendar_row mins blocks (stated_answers prior)) ts"
  shows "distinct (map sr_slot rows)"
    "answer_at rows t = (if t \<in> set ts then map_option (\<lambda>r. (sr_tier r, sr_source r)) (calendar_row mins blocks (stated_answers prior) t) else None)"
proof -
  have "distinct (map sr_slot rows) \<and> sr_slot ` set rows \<subseteq> set ts \<and> answer_at rows t =
      (if t \<in> set ts then map_option (\<lambda>r. (sr_tier r, sr_source r)) (calendar_row mins blocks (stated_answers prior) t) else None)"
    using assms(2,3) unfolding rows_def
  proof (induction ts)
    case Nil
    then show ?case by (simp add: List.map_filter_simps answer_at_def)
  next
    case (Cons u ts)
    show ?case
    proof (cases "calendar_row mins blocks (stated_answers prior) u")
      case None
      then show ?thesis using Cons by (auto simp: List.map_filter_simps)
    next
      case (Some r)
      have "sr_slot r = u" using calendar_row_slot [OF assms(1) _ Some] Cons.prems by simp
      then show ?thesis using Cons Some by (auto simp: List.map_filter_simps answer_at_def)
    qed
  qed
  then show "distinct (map sr_slot rows)"
    "answer_at rows t = (if t \<in> set ts then map_option (\<lambda>r. (sr_tier r, sr_source r)) (calendar_row mins blocks (stated_answers prior) t) else None)"
    by simp_all
qed

section \<open>Connecting\<close>

lemma call_Inr:
  "call m (or_refuse st why) k s = (Inr b, s') \<longleftrightarrow> (\<exists>a w. m (sv_world s) = (Inr a, w) \<and> k a (s\<lparr>sv_world := w\<rparr>) = (Inr b, s'))"
  by (auto simp: call_apply split: prod.splits sum.splits)

lemma apply_calendar_Inr:
  "apply_calendar_to_responses env a ts blocks w = (Inr blocked, w') \<longleftrightarrow>
    (\<exists>existing out u. responses_for_participant env (sp_id (au_participant a)) w = (Inr existing, w)
      \<and> foldl (calendar_step (se_slot_minutes (au_event a)) blocks (stated_answers existing)) ([], 0) ts = (out, blocked)
      \<and> save_responses env (sp_id (au_participant a)) out w = (Inr u, w'))"
proof -
  obtain e w1 where res: "responses_for_participant env (sp_id (au_participant a)) w = (e, w1)" by fastforce
  have w1: "w1 = w" using reads_onlyD [OF reads_lookups(4) res] .
  show ?thesis
    by (cases e) (auto simp: apply_calendar_to_responses_def seq_apply res w1 Let_def split: prod.splits sum.splits)
qed

lemma connect_steps:
  assumes "handle_connect_ics env fetch a body s = (Inr (status, resp), s')"
  obtains url ex feed blocks w u existing out blocked u' w' where "body = Some url" "event_slots env (au_event a) = Inr ex"
    "starts ex \<noteq> []" "fetch url = Inr feed"
    "blocks = (let window = slot_window (starts ex) (se_slot_minutes (au_event a)) in parse_feed env feed (i_start window) (i_end window))"
    "save_busy_blocks env (sp_id (au_participant a)) blocks ''ics'' url (sv_world s) = (Inr u, w)"
    "responses_for_participant env (sp_id (au_participant a)) w = (Inr existing, w)"
    "foldl (calendar_step (se_slot_minutes (au_event a)) blocks (stated_answers existing)) ([], 0) (starts ex) = (out, blocked)"
    "save_responses env (sp_id (au_participant a)) out w = (Inr u', w')" "sv_world s' = w'"
    "sv_published s' = sv_published s @ [(se_id (au_event a), ''response_submitted'')]"
    "resp = \<lparr>cn_source = ''ics'', cn_blocks = length blocks, cn_blocked = blocked, cn_fetched = clock w'\<rparr>" "status = 200"
proof -
  obtain url where url: "body = Some url" using assms by (cases body) (simp_all add: handle_connect_ics_def decoded_apply)
  obtain ex where ex: "event_slots env (au_event a) = Inr ex"
    using assms url by (cases "event_slots env (au_event a)") (simp_all add: handle_connect_ics_def decoded_apply)
  have ne: "starts ex \<noteq> []" using assms url ex by (cases "starts ex = []") (simp_all add: handle_connect_ics_def decoded_apply)
  obtain feed where feed: "fetch url = Inr feed"
    using assms url ex ne by (cases "fetch url") (simp_all add: handle_connect_ics_def decoded_apply split: fetch_error.splits)
  obtain blocks where blocks: "blocks = (let window = slot_window (starts ex) (se_slot_minutes (au_event a))
      in parse_feed env feed (i_start window) (i_end window))" by blast
  from assms obtain u w blocked w' where run: "save_busy_blocks env (sp_id (au_participant a)) blocks ''ics'' url (sv_world s) = (Inr u, w)"
    "apply_calendar_to_responses env a (starts ex) blocks w = (Inr blocked, w')" "sv_world s' = w'"
    "sv_published s' = sv_published s @ [(se_id (au_event a), ''response_submitted'')]"
    "resp = \<lparr>cn_source = ''ics'', cn_blocks = length blocks, cn_blocked = blocked, cn_fetched = clock w'\<rparr>" "status = 200"
    by (auto simp: handle_connect_ics_def url ex ne feed decoded_apply blocks Let_def call_Inr seq_Inr publish_apply clock_now_def)
  then show thesis using that url ex ne feed blocks unfolding apply_calendar_Inr by blast
qed

lemma db_ok_replace_busy:
  assumes "db_ok (tables w)" "save_busy_blocks env p blocks source url w = (Inr u, w')"
  shows "db_ok (tables w')"
  using preservesD [OF preserves_store(10), of w] assms by (metis snd_conv)

text \<open>What a calendar leaves of an answer: the stated one, or a refusal where the calendar is busy.\<close>

definition calendar_answer :: "stored_response list \<Rightarrow> int \<Rightarrow> interval list \<Rightarrow> instant \<Rightarrow> (tier \<times> string) option" where
  "calendar_answer prior mins blocks t =
     (case find (\<lambda>r. sr_source r \<noteq> ''calendar'' \<and> sr_slot r = t) (rev prior) of
        Some r \<Rightarrow> Some (sr_tier r, sr_source r)
      | None \<Rightarrow> if covered_by t mins blocks then Some (TierNo, ''calendar'') else None)"

lemma calendar_row_answer:
  assumes "\<forall>r \<in> set prior. nano_range (sr_slot r)" "nano_range t"
  shows "map_option (\<lambda>r. (sr_tier r, sr_source r)) (calendar_row mins blocks (stated_answers prior) t) = calendar_answer prior mins blocks t"
  by (simp add: calendar_row_def calendar_answer_def stated_answers_lookup [OF assms] split: option.split)

lemma stored_sources:
  assumes "db_ok d" "r \<in> set (map decode_response (sort_key rs_slot (filter (\<lambda>r. rs_participant r = k) (tbl_responses d))))"
  shows "sr_source r \<noteq> ''''"
  using assms by (auto simp: db_ok_def answers_ok_def response_ok_def decode_response_def)

text \<open>The writes of a connection, seen from the person's answers.\<close>

lemma connect_writes:
  assumes "scan_ok env" "db_ok (tables w0)"
    "save_busy_blocks env (uuid_string k) blocks ''ics'' url w0 = (Inr u, w)"
    "responses_for_participant env (uuid_string k) w = (Inr prior, w)"
    "foldl (calendar_step mins blocks (stated_answers prior)) ([], 0) ts = (out, n)"
    "save_responses env (uuid_string k) out w = (Inr u', w')"
    "distinct ts" "\<forall>t \<in> set ts. nano_range t" "\<forall>r \<in> set prior. nano_range (sr_slot r)"
  shows "fst (responses_for_participant env (uuid_string k) w0) = Inr prior"
    "tables w' = replace_responses k out (clock w0) (replace_busy k blocks ''ics'' url (clock w0) (tables w0))"
    "\<exists>after. responses_for_participant env (uuid_string k) w' = (Inr after, w')
       \<and> (\<forall>t. answer_at after t = (if t \<in> set ts then calendar_answer prior mins blocks t else None))"
    "n = length (filter (\<lambda>t. stated_answers prior (unix_nano t) = None \<and> covered_by t mins blocks) ts)"
    "j \<noteq> k \<Longrightarrow> fst (responses_for_participant env (uuid_string j) w') = fst (responses_for_participant env (uuid_string j) w0)"
proof -
  have w: "w = w0\<lparr>tables := replace_busy k blocks ''ics'' url (clock w0) (tables w0)\<rparr>"
    using save_busy_Inr [OF assms(1-3)] by simp
  note ok = db_ok_replace_busy [OF assms(2,3)]
  note keep = responses_after_busy [OF assms(1) w]
  show was: "fst (responses_for_participant env (uuid_string k) w0) = Inr prior" using keep [of k] assms(4) by simp
  show "tables w' = replace_responses k out (clock w0) (replace_busy k blocks ''ics'' url (clock w0) (tables w0))"
    using save_responses_Inr [OF assms(1) ok assms(6)] by (simp add: w)
  let ?rows = "List.map_filter (calendar_row mins blocks (stated_answers prior)) ts"
  have out: "out = ?rows" "n = length (filter (\<lambda>t. stated_answers prior (unix_nano t) = None \<and> covered_by t mins blocks) ts)"
    using assms(5) by (auto simp: calendar_fold)
  note rows = calendar_rows_answers [OF assms(9,7,8), of mins blocks]
  have "prior = map decode_response (sort_key rs_slot (filter (\<lambda>r. rs_participant r = k) (tbl_responses (tables w))))"
    using assms(1,4) by (simp add: responses_for_participant_eq scan_ok_def)
  then have src: "\<forall>r \<in> set prior. sr_source r \<noteq> ''''" using stored_sources [OF ok, of _ k] by blast
  have "sr_source r \<noteq> ''''" if "r \<in> set ?rows" for r
  proof -
    from that obtain t where "t \<in> set ts" "calendar_row mins blocks (stated_answers prior) t = Some r"
      by (auto simp: List.map_filter_def)
    then have "r \<in> set prior \<or> sr_source r = ''calendar''" using calendar_row_slot [OF assms(9)] assms(8) by blast
    then show ?thesis using src by auto
  qed
  then have src_out: "\<forall>r \<in> set out. sr_source r \<noteq> ''''" by (simp add: out(1))
  note reread = saved_answers [OF assms(1) ok assms(6) src_out]
  have "answer_at (sort_key sr_slot out) t = (if t \<in> set ts then calendar_answer prior mins blocks t else None)" for t
    using rows assms(8) calendar_row_answer [OF assms(9), of t mins blocks] by (simp add: answer_at_sort out(1))
  then show "\<exists>after. responses_for_participant env (uuid_string k) w' = (Inr after, w')
       \<and> (\<forall>t. answer_at after t = (if t \<in> set ts then calendar_answer prior mins blocks t else None))"
    using reread(1) by blast
  show "n = length (filter (\<lambda>t. stated_answers prior (unix_nano t) = None \<and> covered_by t mins blocks) ts)" by (rule out(2))
  show "j \<noteq> k \<Longrightarrow> fst (responses_for_participant env (uuid_string j) w') = fst (responses_for_participant env (uuid_string j) w0)"
    using reread(2) keep [of j] by simp
qed

section \<open>Properties\<close>

text \<open>
  C36: What connecting a calendar stores. For every slot of the event the answer the person has stated
  stays, a slot without one becomes an inferred "no" when the feed is busy during it, and a free slot has
  no answer; the reported count is the number of inferred answers. The busy blocks kept are those the
  feed parser returns for the span of the slots, everybody else's answers stay, and the watchers are told
  once. The instants of the answers are within the 584 years that fit in 64 bits of nanoseconds.
\<close>

theorem connect_ics_exact:
  assumes "scan_ok env" "db_ok (tables (sv_world s))" "sp_id (au_participant a) = uuid_string k"
    "handle_connect_ics env fetch a body s = (Inr (status, resp), s')"
    "responses_for_participant env (uuid_string k) (sv_world s) = (Inr prior, w)" "\<forall>r \<in> set prior. nano_range (sr_slot r)"
    "\<forall>ex. event_slots env (au_event a) = Inr ex \<longrightarrow> (\<forall>t \<in> set (starts ex). nano_range t)"
  shows "\<exists>url feed ex blocks after. body = Some url \<and> fetch url = Inr feed \<and> event_slots env (au_event a) = Inr ex
    \<and> blocks = (let window = slot_window (starts ex) (se_slot_minutes (au_event a)) in parse_feed env feed (i_start window) (i_end window))
    \<and> responses_for_participant env (uuid_string k) (sv_world s') = (Inr after, sv_world s')
    \<and> (\<forall>t. answer_at after t = (if t \<in> set (starts ex) then calendar_answer prior (se_slot_minutes (au_event a)) blocks t else None))
    \<and> cn_blocked resp = length (filter (\<lambda>t. stated_answers prior (unix_nano t) = None \<and> covered_by t (se_slot_minutes (au_event a)) blocks) (starts ex))
    \<and> filter (\<lambda>b. bb_owner b = k) (tbl_busy (tables (sv_world s'))) = busy_rows k blocks ''ics'' (clock (sv_world s))
    \<and> (\<forall>j. j \<noteq> k \<longrightarrow> fst (responses_for_participant env (uuid_string j) (sv_world s'))
        = fst (responses_for_participant env (uuid_string j) (sv_world s)))
    \<and> sv_published s' = sv_published s @ [(se_id (au_event a), ''response_submitted'')]"
proof -
  from assms(4) obtain url ex feed blocks w1 u existing out n u' w' where st: "body = Some url" "event_slots env (au_event a) = Inr ex"
    "fetch url = Inr feed"
    "blocks = (let window = slot_window (starts ex) (se_slot_minutes (au_event a)) in parse_feed env feed (i_start window) (i_end window))"
    "save_busy_blocks env (uuid_string k) blocks ''ics'' url (sv_world s) = (Inr u, w1)"
    "responses_for_participant env (uuid_string k) w1 = (Inr existing, w1)"
    "foldl (calendar_step (se_slot_minutes (au_event a)) blocks (stated_answers existing)) ([], 0) (starts ex) = (out, n)"
    "save_responses env (uuid_string k) out w1 = (Inr u', w')" "sv_world s' = w'"
    "sv_published s' = sv_published s @ [(se_id (au_event a), ''response_submitted'')]" "cn_blocked resp = n"
    by (rule connect_steps) (auto simp: assms(3))
  have "fst (responses_for_participant env (uuid_string k) w1) = Inr prior"
    using responses_after_busy [OF assms(1) save_busy_Inr [OF assms(1,2) st(5)], of k] assms(5) by simp
  then have existing: "existing = prior" using st(6) by simp
  have ts: "distinct (starts ex)" "\<forall>t \<in> set (starts ex). nano_range t" using event_slots_distinct assms(7) st(2) by auto
  note wr = connect_writes [OF assms(1,2) st(5) st(6-8) [unfolded existing] ts assms(6)]
  have "filter (\<lambda>b. bb_owner b = k) (tbl_busy (tables w')) = busy_rows k blocks ''ics'' (clock (sv_world s))"
    by (simp add: wr(2) replace_responses_def replace_busy_def busy_rows_def o_def)
  then show ?thesis using wr(3-5) st(1-4,9-11) by blast
qed

lemma refused_rows:
  assumes "scan_ok env" "db_ok d" "p \<in> set (event_people d ev)" "pt_responded p \<noteq> None"
    "\<forall>r \<in> set (tbl_responses d). rs_participant r = pt_id p \<longrightarrow> rs_tier r = TierNo" "inj_on unix_nano (set ts)" "t \<in> set ts"
  shows "get (in_responses (build env (map decode_participant (event_people d ev)) (answer_groups (event_answers d ev)) ts))
    (uuid_string (pt_id p)) t = Some TierNo"
proof -
  let ?ps = "map decode_participant (event_people d ev)" and ?rs = "answer_groups (event_answers d ev)"
  let ?mine = "map decode_response (filter (\<lambda>r. rs_participant r = pt_id p) (event_answers d ev))"
  have id: "sp_id (decode_participant p) = uuid_string (pt_id p)" "responded (decode_participant p)"
    using assms(4) by (simp_all add: decode_participant_def responded_def)
  have "in_responses (build env ?ps ?rs ts) (sp_id (decode_participant p))
      = Some (answers_by_slot ts (case ?rs (uuid_string (pt_id p)) of None \<Rightarrow> [] | Some l \<Rightarrow> l))"
    using build_responses_lookup [OF event_people_facts(2) [OF assms(2,1)], of "decode_participant p" ev env ?rs ts] assms(3) id by simp
  then have "get (in_responses (build env ?ps ?rs ts)) (uuid_string (pt_id p)) t
      = Some (case find (\<lambda>r. unix_nano (sr_slot r) = unix_nano t) (rev ?mine) of None \<Rightarrow> TierNo | Some r \<Rightarrow> sr_tier r)"
    by (simp add: id get_def answer_groups_lookup [OF assms(1)] answers_by_slot_lookup [OF assms(6)] assms(7))
  moreover have "sr_tier r = TierNo" if "r \<in> set ?mine" for r
    using that assms(5) by (auto simp: event_answers_def decode_response_def)
  then have "find (\<lambda>r. unix_nano (sr_slot r) = unix_nano t) (rev ?mine) = Some r \<Longrightarrow> sr_tier r = TierNo" for r
    using find_Some_mem [of _ "rev ?mine" r] by simp
  ultimately show ?thesis by (auto split: option.split)
qed

text \<open>
  Connecting a calendar counts as having answered, and who has answered refuses every slot they said
  nothing about. So somebody who connects a calendar before answering is taken to refuse every slot of
  the event, the slots their calendar leaves free included; before, the solver knew nothing about them.
\<close>

theorem connecting_refuses_free_slots:
  assumes "scan_ok env" "db_ok (tables (sv_world s))" "sp_id (au_participant a) = uuid_string k"
    "handle_connect_ics env fetch a body s = (Inr (status, resp), s')"
    "responses_for_participant env (uuid_string k) (sv_world s) = (Inr [], w)"
    "event_slots env (au_event a) = Inr ex" "\<forall>t \<in> set (starts ex). nano_range t"
    "p \<in> set (tbl_participants (tables (sv_world s)))" "pt_id p = k" "pt_event p = ev" "t \<in> set (starts ex)"
  shows "get (in_responses (build env (map decode_participant (event_people (tables (sv_world s')) ev))
      (answer_groups (event_answers (tables (sv_world s')) ev)) (starts ex))) (uuid_string k) t = Some TierNo
    \<and> (pt_responded p = None \<longrightarrow>
        get (in_responses (build env (map decode_participant (event_people (tables (sv_world s)) ev))
          (answer_groups (event_answers (tables (sv_world s)) ev)) (starts ex))) (uuid_string k) t = None)"
proof
  let ?d = "tables (sv_world s)" and ?d' = "tables (sv_world s')"
  have inj: "inj_on unix_nano (set (starts ex))" using assms(7) unix_nano_inj by (blast intro: inj_onI)
  from assms(4) obtain url feed blocks w1 u existing out n u' w' where st:
    "save_busy_blocks env (uuid_string k) blocks ''ics'' url (sv_world s) = (Inr u, w1)"
    "responses_for_participant env (uuid_string k) w1 = (Inr existing, w1)"
    "foldl (calendar_step (se_slot_minutes (au_event a)) blocks (stated_answers existing)) ([], 0) (starts ex) = (out, n)"
    "save_responses env (uuid_string k) out w1 = (Inr u', w')" "sv_world s' = w'"
    by (rule connect_steps) (auto simp: assms(3,6))
  have "fst (responses_for_participant env (uuid_string k) w1) = Inr []"
    using responses_after_busy [OF assms(1) save_busy_Inr [OF assms(1,2) st(1)], of k] assms(5) by simp
  then have existing: "existing = []" using st(2) by simp
  have ok1: "db_ok (tables w1)" by (rule db_ok_replace_busy [OF assms(2) st(1)])
  have ok: "db_ok ?d'" using preservesD [OF preserves_store(7), of w1] ok1 st(4,5) by (metis snd_conv)
  note wr = connect_writes [OF assms(1,2) st(1) st(2-4) [unfolded existing] event_slots_distinct [OF assms(6)] assms(7)]
  have d': "?d' = replace_responses k out (clock (sv_world s)) (replace_busy k blocks ''ics'' url (clock (sv_world s)) ?d)"
    using wr(2) st(5) by simp
  have "r \<in> set out \<Longrightarrow> sr_tier r = TierNo" for r
    using st(3) by (auto simp: existing calendar_fold stated_answers_def List.map_filter_def calendar_row_def split: if_splits)
  then have no: "\<forall>r \<in> set (tbl_responses ?d'). rs_participant r = k \<longrightarrow> rs_tier r = TierNo"
  proof (intro ballI impI)
    fix r assume "r \<in> set (tbl_responses ?d')" "rs_participant r = k"
    then have "r \<in> set (filter (\<lambda>r. rs_participant r = k) (tbl_responses ?d'))" by simp
    then have "r \<in> set (response_rows k out)" by (simp only: d' replaced_own)
    then show "rs_tier r = TierNo" using \<open>\<And>r. r \<in> set out \<Longrightarrow> sr_tier r = TierNo\<close> by (auto simp: response_rows_def)
  qed
  let ?p = "p\<lparr>pt_calendar := ''ics'', pt_url := (if url = '''' then None else Some url), pt_responded := Some (clock (sv_world s))\<rparr>"
  have "?p \<in> set (tbl_participants ?d')"
    using assms(8,9) by (force simp: d' replace_responses_def replace_busy_def mark_responded_def set_where_def)
  then have "?p \<in> set (event_people ?d' ev)" using assms(10) by (simp add: event_people_def)
  from refused_rows [OF assms(1) ok this _ _ inj assms(11)] no assms(9)
  show "get (in_responses (build env (map decode_participant (event_people ?d' ev))
      (answer_groups (event_answers ?d' ev)) (starts ex))) (uuid_string k) t = Some TierNo" by simp
  show "pt_responded p = None \<longrightarrow>
        get (in_responses (build env (map decode_participant (event_people ?d ev))
          (answer_groups (event_answers ?d ev)) (starts ex))) (uuid_string k) t = None"
  proof
    assume none: "pt_responded p = None"
    have "decode_participant p \<in> set (map decode_participant (event_people ?d ev))" using assms(8,10) by (simp add: event_people_def)
    from build_responses_lookup [OF event_people_facts(2) [OF assms(2,1)] this, of env "answer_groups (event_answers ?d ev)" "starts ex"]
    show "get (in_responses (build env (map decode_participant (event_people ?d ev))
          (answer_groups (event_answers ?d ev)) (starts ex))) (uuid_string k) t = None"
      using none assms(9) by (simp add: get_def decode_participant_def responded_def)
  qed
qed

lemma empty_feed: "parse_feed env '''' f t = []"
  by (simp add: parse_feed_def unfold_lines_def join_line_def vevents_def merge_intervals_def)

lemma demo_me: "sp_id (au_participant demo_authed) = uuid_string 2" "au_event demo_authed = decode_event demo_event"
  by (simp_all add: demo_authed_def decode_participant_def demo_participant_def)

lemma demo_no_answers:
  "responses_for_participant demo_env (uuid_string 2) demo_world = (Inr [], demo_world)"
  by (simp add: responses_for_participant_eq [OF demo_scan(2)]) (simp add: demo_world_def demo_db_def)

text \<open>Ann connects a calendar on which she is never busy.\<close>

lemma demo_connect:
  "\<exists>resp s'. handle_connect_ics demo_env (\<lambda>_. Inr '''') demo_authed (Some ''/a.ics'') demo_server = (Inr (200, resp), s')"
proof -
  have ok: "db_ok (tables demo_world)" using demo_ok by (simp add: demo_world_def)
  obtain w where busy: "save_busy_blocks demo_env (uuid_string 2) [] ''ics'' ''/a.ics'' demo_world = (Inr (), w)"
    using update_participant_keep [of demo_world "\<lambda>p. p\<lparr>pt_calendar := ''ics'', pt_url := Some ''/a.ics''\<rparr>" 2] ok
    by (auto simp: save_busy_blocks_def store_eval delete_busy_rows_def modify_def set_calendar_source_def db_ok_def demo_world_def demo_db_def)
  have "''ics'' \<in> {''none'', ''google'', ''ics''}" by simp
  note w = save_busy_Inr [OF demo_scan(1) ok busy this]
  have okw: "db_ok (tables w)" by (rule db_ok_replace_busy [OF ok busy])
  have "fst (responses_for_participant demo_env (uuid_string 2) w) = Inr []"
    using responses_after_busy [OF demo_scan(1) w, of 2] demo_no_answers by simp
  then have prior: "responses_for_participant demo_env (uuid_string 2) w = (Inr [], w)"
    by (simp add: responses_for_participant_eq [OF demo_scan(2)])
  have "save_responses demo_env (uuid_string 2) [] w = (Inr (), w\<lparr>tables := replace_responses 2 [] (clock w) (tables w)\<rparr>)"
    by (simp add: save_responses_eq [OF demo_scan(2) okw])
  then have "\<exists>v. apply_calendar_to_responses demo_env demo_authed [10 * hour, 11 * hour, 12 * hour] [] w = (Inr 0, v)"
    by (simp add: apply_calendar_to_responses_def seq_apply demo_me prior calendar_step_def stated_answers_def covered_by_def)
  then show ?thesis
    by (auto simp: handle_connect_ics_def decoded_apply demo_me demo_event_slots empty_feed call_apply busy demo_server_def Let_def
        seq_apply publish_apply clock_now_def)
qed

lemma connecting_refuses_free_slots_witness:
  "\<exists>resp s'. handle_connect_ics demo_env (\<lambda>_. Inr '''') demo_authed (Some ''/a.ics'') demo_server = (Inr (200, resp), s')
    \<and> get (in_responses (build demo_env (map decode_participant (event_people (tables (sv_world s')) 1))
      (answer_groups (event_answers (tables (sv_world s')) 1)) [10 * hour, 11 * hour, 12 * hour])) (uuid_string 2) (11 * hour) = Some TierNo"
proof -
  obtain resp s' where h: "handle_connect_ics demo_env (\<lambda>_. Inr '''') demo_authed (Some ''/a.ics'') demo_server = (Inr (200, resp), s')"
    using demo_connect by blast
  have ok: "db_ok (tables (sv_world demo_server))" using demo_ok by (simp add: demo_server_def demo_world_def)
  have prior: "responses_for_participant demo_env (uuid_string 2) (sv_world demo_server) = (Inr [], demo_world)"
    using demo_no_answers by (simp add: demo_server_def)
  have ex: "event_slots demo_env (au_event demo_authed) = Inr \<lparr>starts = [10 * hour, 11 * hour, 12 * hour], skipped = [], ambiguous = []\<rparr>"
    by (simp add: demo_me demo_event_slots)
  have p: "demo_participant 2 ''Ann'' ''required'' \<in> set (tbl_participants (tables (sv_world demo_server)))"
    by (simp add: demo_server_def demo_world_def demo_db_def)
  have "pt_id (demo_participant 2 ''Ann'' ''required'') = 2" "pt_event (demo_participant 2 ''Ann'' ''required'') = 1"
    by (simp_all add: demo_participant_def)
  from connecting_refuses_free_slots [OF demo_scan(1) ok demo_me(1) h prior ex _ p this, of "11 * hour"] h
  show ?thesis by (auto simp: nano_range_def duration_units)
qed

lemma connect_ics_exact_witness:
  "\<exists>resp s' after. handle_connect_ics demo_env (\<lambda>_. Inr '''') demo_authed (Some ''/a.ics'') demo_server = (Inr (200, resp), s')
    \<and> responses_for_participant demo_env (uuid_string 2) (sv_world s') = (Inr after, sv_world s')
    \<and> answer_at after (11 * hour) = None \<and> cn_blocked resp = 0"
proof -
  obtain resp s' where h: "handle_connect_ics demo_env (\<lambda>_. Inr '''') demo_authed (Some ''/a.ics'') demo_server = (Inr (200, resp), s')"
    using demo_connect by blast
  have ok: "db_ok (tables (sv_world demo_server))" using demo_ok by (simp add: demo_server_def demo_world_def)
  have prior: "responses_for_participant demo_env (uuid_string 2) (sv_world demo_server) = (Inr [], demo_world)"
    using demo_no_answers by (simp add: demo_server_def)
  have range: "\<forall>ex. event_slots demo_env (au_event demo_authed) = Inr ex \<longrightarrow> (\<forall>t \<in> set (starts ex). nano_range t)"
    by (simp add: demo_me demo_event_slots nano_range_def duration_units)
  have none: "calendar_answer [] m [] t = None" "\<not> covered_by t m []" for m t by (simp_all add: calendar_answer_def covered_by_def)
  have np: "\<forall>r \<in> set []. nano_range (sr_slot r)" by simp
  from connect_ics_exact [OF demo_scan(1) ok demo_me(1) h prior np range] show ?thesis
  proof (elim exE conjE)
    fix feed ex blocks after
    assume r: "Inr '''' = (Inr feed :: fetch_error + string)"
      "blocks = (let window = slot_window (starts ex) (se_slot_minutes (au_event demo_authed)) in parse_feed demo_env feed (i_start window) (i_end window))"
      "responses_for_participant demo_env (uuid_string 2) (sv_world s') = (Inr after, sv_world s')"
      "\<forall>t. answer_at after t = (if t \<in> set (starts ex) then calendar_answer [] (se_slot_minutes (au_event demo_authed)) blocks t else None)"
      "cn_blocked resp = length (filter (\<lambda>t. stated_answers [] (unix_nano t) = None \<and> covered_by t (se_slot_minutes (au_event demo_authed)) blocks) (starts ex))"
    from r(1,2) have "blocks = []" by (simp add: empty_feed Let_def)
    then show ?thesis using h r(3-5) by (auto simp: none)
  qed
qed

text \<open>
  C29: Disconnecting a calendar drops
 the busy blocks and every inferred answer, keeps what the person has
  stated, leaves everybody else alone, and tells the watchers once.
\<close>

theorem disconnect_calendar_exact:
  assumes "scan_ok env" "db_ok (tables (sv_world s))" "sp_id (au_participant a) = uuid_string k"
    "handle_disconnect_calendar env a s = (Inr (status, source), s')"
    "responses_for_participant env (uuid_string k) (sv_world s) = (Inr prior, w)"
  shows "\<exists>after. responses_for_participant env (uuid_string k) (sv_world s') = (Inr after, sv_world s')
    \<and> (\<forall>t. answer_at after t = answer_at (filter (\<lambda>r. sr_source r \<noteq> ''calendar'') prior) t)
    \<and> filter (\<lambda>b. bb_owner b = k) (tbl_busy (tables (sv_world s'))) = []
    \<and> (\<forall>j. j \<noteq> k \<longrightarrow> fst (responses_for_participant env (uuid_string j) (sv_world s'))
        = fst (responses_for_participant env (uuid_string j) (sv_world s)))
    \<and> sv_published s' = sv_published s @ [(se_id (au_event a), ''response_submitted'')] \<and> source = ''none'' \<and> status = 200"
proof -
  have w: "w = sv_world s" using reads_onlyD [OF reads_lookups(4) assms(5)] .
  let ?kept = "filter (\<lambda>r. sr_source r \<noteq> ''calendar'') prior"
  have res: "responses_for_participant env (uuid_string k) (sv_world s) = (Inr prior, sv_world s)" using assms(5) w by simp
  from assms(4) obtain u w1 u' w2 where st: "save_busy_blocks env (uuid_string k) [] ''none'' '''' (sv_world s) = (Inr u, w1)"
    "save_responses env (uuid_string k) ?kept w1 = (Inr u', w2)" "sv_world s' = w2"
    "sv_published s' = sv_published s @ [(se_id (au_event a), ''response_submitted'')]" "source = ''none'' \<and> status = 200"
    by (auto simp: handle_disconnect_calendar_def
 assms(3) call_Inr Let_def res seq_Inr publish_apply)
  have w1: "w1 = (sv_world s)\<lparr>tables := replace_busy k [] ''none'' '''' (clock (sv_world s)) (tables (sv_world s))\<rparr>"
    using save_busy_Inr [OF assms(1,2) st(1)] by simp
  have ok: "db_ok (tables w1)" by (rule db_ok_replace_busy [OF assms(2) st(1)])
  have prior: "prior = map decode_response (sort_key rs_slot (filter (\<lambda>r. rs_participant r = k) (tbl_responses (tables (sv_world s)))))"
    using res assms(1) by (simp add: responses_for_participant_eq scan_ok_def)
  have "\<forall>r \<in> set ?kept. sr_source r \<noteq> ''''" using stored_sources [OF assms(2), of _ k] prior by auto
  note saved = saved_answers [OF assms(1) ok st(2) this]
  have "distinct (map sr_slot ?kept)" using stored_distinct [OF assms(2), of k] by (simp add: prior distinct_map_filter)
  then have "answer_at (sort_key sr_slot ?kept) t = answer_at ?kept t" for t by (rule answer_at_sort)
  moreover have "filter (\<lambda>b. bb_owner b = k) (tbl_busy (tables w2)) = []"
    using save_responses_Inr [OF assms(1) ok st(2)] by (simp add: w1 replace_busy_def replace_responses_def busy_rows_def filter_empty_conv)
  moreover have "fst (responses_for_participant env (uuid_string j) w2) = fst (responses_for_participant env (uuid_string j) (sv_world s))"
    if "j \<noteq> k" for j
    using saved(2) [OF that] responses_after_busy [OF assms(1) w1, of j] by simp
  ultimately show ?thesis using saved(1) st(3-5) by (intro exI [of _ "sort_key sr_slot ?kept"]) simp
qed

lemma demo_disconnect: "\<exists>s'. handle_disconnect_calendar demo_env demo_authed demo_server = (Inr (200, ''none''), s')"
proof -
  have ok: "db_ok (tables demo_world)" using demo_ok by (simp add: demo_world_def)
  obtain w where busy: "save_busy_blocks demo_env (uuid_string 2) [] ''none'' '''' demo_world = (Inr (), w)"
    using update_participant_keep [of demo_world "\<lambda>p. p\<lparr>pt_calendar := ''none'', pt_url := None\<rparr>" 2] ok
    by (auto simp: save_busy_blocks_def store_eval delete_busy_rows_def modify_def set_calendar_source_def db_ok_def demo_world_def demo_db_def)
  have okw: "db_ok (tables w)" by (rule db_ok_replace_busy [OF ok busy])
  have "save_responses demo_env (uuid_string 2) [] w = (Inr (), w\<lparr>tables := replace_responses 2 [] (clock w) (tables w)\<rparr>)"
    by (simp add: save_responses_eq [OF demo_scan(2) okw])
  then show ?thesis
    by (auto simp: handle_disconnect_calendar_def demo_me demo_no_answers call_apply busy demo_server_def Let_def seq_apply publish_apply)
qed

lemma disconnect_calendar_exact_witness:
  "\<exists>s' after. handle_disconnect_calendar demo_env demo_authed demo_server = (Inr (200, ''none''), s')
    \<and> responses_for_participant demo_env (uuid_string 2) (sv_world s') = (Inr after, sv_world s') \<and> answer_at after (10 * hour) = None"
proof -
  obtain s' where h: "handle_disconnect_calendar demo_env demo_authed demo_server = (Inr (200, ''none''), s')"
    using demo_disconnect by blast
  have ok: "db_ok (tables (sv_world demo_server))" using demo_ok by (simp add: demo_server_def demo_world_def)
  have prior: "responses_for_participant demo_env (uuid_string 2) (sv_world demo_server) = (Inr [], demo_world)"
    using demo_no_answers by (simp add: demo_server_def)
  from disconnect_calendar_exact [OF demo_scan(1) ok demo_me(1) h prior] h show ?thesis by (auto simp: answer_at_def)
qed

end
