(* ===== verification/RateLimit.thy ===== *)
theory RateLimit
  imports GoFloat GoTime
begin

text \<open>
  \<^verbatim>\<open>api/internal/ratelimit/ratelimit.go\<close>: a token bucket for each key, in a map of bounded
  size, in binary64 arithmetic without fused operations. The buckets are an association list with one
  entry for each key; \<^verbatim>\<open>now()\<close> is an argument. The wait is the exact integral part of the float, where
  Go's conversion is to 64 bits: they differ only for a wait of 292 years or more, which needs a refill
  rate below 1e-10. Main facts: the tokens stay between zero and the
  burst and the keys within their bound (\<open>allow_ok\<close>), of simultaneous requests exactly the burst is
  admitted (\<open>burst_exact\<close>), and a sweep is never noticed (\<open>sweep_unnoticed\<close>).
\<close>


record bucket =
  bk_tokens :: rat
  bk_last :: instant

record limiter =
  li_burst :: rat
  li_refill :: rat
  li_max :: int
  li_buckets :: "(string \<times> bucket) list"

definition new_limiter :: "int \<Rightarrow> rat \<Rightarrow> int \<Rightarrow> limiter" where
  "new_limiter burst per_minute max_keys =
     \<lparr>li_burst = fl64 (of_int burst), li_refill = fdiv per_minute 60, li_max = max_keys, li_buckets = []\<rparr>"

text \<open>\<^verbatim>\<open>Duration.Seconds\<close>: whole seconds and the rest; Go's division truncates.\<close>

definition seconds_of :: "duration \<Rightarrow> rat" where
  "seconds_of d =
     (let part = (\<lambda>n. fadd (fl64 (of_int (n div second))) (fdiv (fl64 (of_int (n mod second))) 1000000000))
      in if 0 \<le> d then part d else - part (- d))"

definition level :: "limiter \<Rightarrow> instant \<Rightarrow> bucket \<Rightarrow> rat" where
  "level l t b = fadd (bk_tokens b) (fmul (seconds_of (time_sub t (bk_last b))) (li_refill l))"

definition refill :: "limiter \<Rightarrow> instant \<Rightarrow> bucket \<Rightarrow> bucket" where
  "refill l t b =
     (if seconds_of (time_sub t (bk_last b)) > 0
      then \<lparr>bk_tokens = min (li_burst l) (level l t b), bk_last = t\<rparr> else b)"

definition evict :: "limiter \<Rightarrow> instant \<Rightarrow> limiter" where
  "evict l t = l\<lparr>li_buckets := filter (\<lambda>(key, b). \<not> level l t b \<ge> li_burst l) (li_buckets l)\<rparr>"

definition wait_for :: "limiter \<Rightarrow> rat \<Rightarrow> duration" where
  "wait_for l tokens = \<lfloor>fmul (fdiv (fsub 1 tokens) (li_refill l)) 1000000000\<rfloor>"

text \<open>The second half of \<^verbatim>\<open>Allow\<close>, with the bucket it found or made.\<close>

definition spend :: "limiter \<Rightarrow> instant \<Rightarrow> string \<Rightarrow> bucket \<Rightarrow> (bool \<times> duration) \<times> limiter" where
  "spend l t key b0 =
     (let b = refill l t b0 in
      if bk_tokens b < 1 then ((False, wait_for l (bk_tokens b)), l\<lparr>li_buckets := AList.update key b (li_buckets l)\<rparr>)
      else ((True, 0), l\<lparr>li_buckets := AList.update key (b\<lparr>bk_tokens := fsub (bk_tokens b) 1\<rparr>) (li_buckets l)\<rparr>))"

definition allow :: "limiter \<Rightarrow> instant \<Rightarrow> string \<Rightarrow> (bool \<times> duration) \<times> limiter" where
  "allow l t key =
     (case map_of (li_buckets l) key of
        Some b \<Rightarrow> spend l t key b
      | None \<Rightarrow>
          (let fresh = \<lparr>bk_tokens = li_burst l, bk_last = t\<rparr> in
           if int (length (li_buckets l)) \<ge> li_max l
           then (let l' = evict l t in
                 if int (length (li_buckets l')) \<ge> li_max l' then ((True, 0), l') else spend l' t key fresh)
           else spend l t key fresh))"

definition sweep_limiter :: "limiter \<Rightarrow> instant \<Rightarrow> nat \<times> limiter" where
  "sweep_limiter l t = (length (li_buckets l) - length (li_buckets (evict l t)), evict l t)"

definition tracked :: "limiter \<Rightarrow> nat" where
  "tracked l = length (li_buckets l)"

text \<open>The answers to a sequence of requests.\<close>

primrec serve :: "limiter \<Rightarrow> (instant \<times> string) list \<Rightarrow> (bool \<times> duration) list \<times> limiter" where
  "serve l [] = ([], l)"
| "serve l (r # rs) = (let (answer, l') = allow l (fst r) (snd r); (answers, l'') = serve l' rs in (answer # answers, l''))"

section \<open>Seconds\<close>

lemma seconds_0 [simp]: "seconds_of 0 = 0"
  by (simp add: seconds_of_def)

lemma seconds_pos:
  assumes "0 < d"
  shows "0 < seconds_of d"
proof -
  have nonneg: "0 \<le> fl64 (of_int (d div second))" "0 \<le> fdiv (fl64 (of_int (d mod second))) 1000000000"
    using assms by (auto intro!: ieee.rnd_nonneg divide_nonneg_pos simp: second_def pos_imp_zdiv_nonneg_iff)
  have "0 < d div second \<or> 0 < d mod second"
    using assms by (metis div_mod_decomp_int dual_order.strict_iff_order mult_zero_left pos_imp_zdiv_nonneg_iff
        pos_mod_sign second_def zero_less_numeral add_0 order_less_le)
  then have "0 < fl64 (of_int (d div second)) \<or> 0 < fdiv (fl64 (of_int (d mod second))) 1000000000"
    by (auto intro!: fl64_pos divide_pos_pos)
  then have "0 < fl64 (of_int (d div second)) + fdiv (fl64 (of_int (d mod second))) 1000000000"
    using nonneg by linarith
  then show ?thesis using assms by (simp add: seconds_of_def Let_def fl64_pos)
qed

lemma seconds_mono:
  assumes "0 \<le> d" "d \<le> e" "e < 2 ^ 63"
  shows "seconds_of d \<le> seconds_of e"
proof -
  have whole: "fl64 (of_int (n div second)) = of_int (n div second)" if "0 \<le> n" "n < 2 ^ 63" for n
    using that by (intro fl64_of_int) (auto simp: second_def)
  have part: "0 \<le> fdiv (fl64 (of_int (n mod second))) 1000000000 \<and> fdiv (fl64 (of_int (n mod second))) 1000000000 \<le> 1" for n
  proof -
    have "0 \<le> n mod second" "n mod second \<le> 1000000000" by (simp_all add: second_def)
    then have "fl64 (of_int (n mod second)) = of_int (n mod second)" "0 \<le> of_int (n mod second) / (1000000000 :: rat)"
      "of_int (n mod second) / (1000000000 :: rat) \<le> 1"
      by (auto intro!: fl64_of_int)
    then show ?thesis by (simp add: ieee.rnd_nonneg ieee.rnd_le_1)
  qed
  have "fl64 (of_int (d div second)) + fdiv (fl64 (of_int (d mod second))) 1000000000
      \<le> fl64 (of_int (e div second)) + fdiv (fl64 (of_int (e mod second))) 1000000000"
  proof (cases "d div second = e div second")
    case True
    then have "d mod second \<le> e mod second"
      using assms(2) by (metis add_le_cancel_left div_mult_mod_eq)
    then have "fl64 (of_int (d mod second)) \<le> fl64 (of_int (e mod second))" by (intro fl64_mono) simp
    then have "fdiv (fl64 (of_int (d mod second))) 1000000000 \<le> fdiv (fl64 (of_int (e mod second))) 1000000000"
      by (intro ieee.div_mono) simp_all
    then show ?thesis using True by simp
  next
    case False
    moreover have "d div second \<le> e div second" using assms(2) by (intro zdiv_mono1) (simp_all add: second_def)
    ultimately have "of_int (d div second) + 1 \<le> (of_int (e div second) :: rat)"
      by (metis int_le_real_less of_int_1 of_int_add of_int_le_iff order_le_less zless_imp_add1_zle)
    then show ?thesis using part [of d] part [of e] whole [of d] whole [of e] assms by linarith
  qed
  then show ?thesis using assms(1,2) by (simp add: seconds_of_def Let_def fl64_mono)
qed

section \<open>One bucket\<close>

text \<open>Instants are nanoseconds since 1970 that fit in 64 bits, which they do until 2262.\<close>

definition bucket_ok :: "limiter \<Rightarrow> instant \<Rightarrow> bucket \<Rightarrow> bool" where
  "bucket_ok l t b \<longleftrightarrow> 0 \<le> bk_tokens b \<and> bk_tokens b \<le> li_burst l \<and> fl64 (bk_tokens b) = bk_tokens b
     \<and> 0 \<le> bk_last b \<and> bk_last b \<le> t"

definition settings_ok :: "limiter \<Rightarrow> bool" where
  "settings_ok l \<longleftrightarrow> 0 \<le> li_burst l \<and> fl64 (li_burst l) = li_burst l \<and> 0 < li_refill l"

lemma level_ge:
  assumes "settings_ok l" "bucket_ok l t b"
  shows "bk_tokens b \<le> level l t b"
proof -
  have "0 \<le> seconds_of (time_sub t (bk_last b))"
    using assms(2) seconds_pos [of "time_sub t (bk_last b)"] by (cases "bk_last b = t") (auto simp: bucket_ok_def time_sub_def)
  then have "0 \<le> fmul (seconds_of (time_sub t (bk_last b))) (li_refill l)"
    using assms(1) by (intro ieee.rnd_nonneg) (simp add: settings_ok_def)
  then show ?thesis using assms(2) unfolding level_def by (intro ieee.accumulate_ge) (simp_all add: bucket_ok_def)
qed

lemma level_mono:
  assumes "settings_ok l" "0 \<le> bk_last b" "bk_last b \<le> t" "t \<le> u" "u < 2 ^ 63"
  shows "level l t b \<le> level l u b"
proof -
  have "seconds_of (time_sub t (bk_last b)) \<le> seconds_of (time_sub u (bk_last b))"
    using assms(2-5) by (intro seconds_mono) (auto simp: time_sub_def)
  then have "fmul (seconds_of (time_sub t (bk_last b))) (li_refill l) \<le> fmul (seconds_of (time_sub u (bk_last b))) (li_refill l)"
    using assms(1) by (intro ieee.mult_right_mono) (simp_all add: settings_ok_def)
  then show ?thesis unfolding level_def by (intro ieee.add_mono) simp_all
qed

lemma refill_ok:
  assumes "settings_ok l" "bucket_ok l t b"
  shows "bucket_ok l t (refill l t b)" "bk_tokens b \<le> bk_tokens (refill l t b)"
  using assms level_ge [OF assms]
  by (auto simp: refill_def bucket_ok_def settings_ok_def level_def min_def)

text \<open>A bucket that has refilled is the bucket a new key would get.\<close>

lemma refill_full:
  assumes "settings_ok l" "bucket_ok l t b" "t \<le> u" "u < 2 ^ 63" "level l t b \<ge> li_burst l"
  shows "refill l u b = \<lparr>bk_tokens = li_burst l, bk_last = u\<rparr>"
proof (cases "bk_last b = u")
  case True
  then have "t = u" using assms(2,3) by (simp add: bucket_ok_def)
  then have "level l t b = bk_tokens b" using True assms(2) by (simp add: level_def time_sub_def bucket_ok_def)
  then have "bk_tokens b = li_burst l" using assms(2,5) by (simp add: bucket_ok_def)
  then show ?thesis using True by (simp add: refill_def time_sub_def)
next
  case False
  then have "0 < seconds_of (time_sub u (bk_last b))"
    using assms(2,3) by (intro seconds_pos) (auto simp: bucket_ok_def time_sub_def)
  moreover have "li_burst l \<le> level l u b"
    using assms(5) level_mono [OF assms(1) _ _ assms(3,4), of b] assms(2) by (auto simp: bucket_ok_def)
  ultimately show ?thesis by (simp add: refill_def)
qed

lemma refill_fresh [simp]: "refill l t \<lparr>bk_tokens = x, bk_last = t\<rparr> = \<lparr>bk_tokens = x, bk_last = t\<rparr>"
  by (simp add: refill_def time_sub_def)

section \<open>The whole limiter\<close>

definition limiter_ok :: "limiter \<Rightarrow> instant \<Rightarrow> bool" where
  "limiter_ok l t \<longleftrightarrow> settings_ok l \<and> distinct (map fst (li_buckets l)) \<and> int (length (li_buckets l)) \<le> max 0 (li_max l)
     \<and> (\<forall>k b. map_of (li_buckets l) k = Some b \<longrightarrow> bucket_ok l t b)"

text \<open>What a request for a key finds at an instant.\<close>

definition view :: "limiter \<Rightarrow> instant \<Rightarrow> string \<Rightarrow> bucket" where
  "view l t key = (case map_of (li_buckets l) key of
     None \<Rightarrow> \<lparr>bk_tokens = li_burst l, bk_last = t\<rparr> | Some b \<Rightarrow> refill l t b)"

definition same_settings :: "limiter \<Rightarrow> limiter \<Rightarrow> bool" where
  "same_settings l l' \<longleftrightarrow> li_burst l' = li_burst l \<and> li_refill l' = li_refill l \<and> li_max l' = li_max l"

definition room :: "limiter \<Rightarrow> string set \<Rightarrow> bool" where
  "room l ks \<longleftrightarrow> finite ks \<and> int (card (fst ` set (li_buckets l) \<union> ks)) \<le> li_max l"

text \<open>Granting from a bucket: the answer and what is left.\<close>

definition grant :: "limiter \<Rightarrow> bucket \<Rightarrow> (bool \<times> duration) \<times> bucket" where
  "grant l b = (if bk_tokens b < 1 then ((False, wait_for l (bk_tokens b)), b)
     else ((True, 0), b\<lparr>bk_tokens := fsub (bk_tokens b) 1\<rparr>))"

lemma spend_grant: "spend l t key b = (case grant l (refill l t b) of (answer, b') \<Rightarrow>
    (answer, l\<lparr>li_buckets := AList.update key b' (li_buckets l)\<rparr>))"
  by (simp add: spend_def grant_def Let_def)

lemma not_full:
  assumes "room l ks" "key \<in> ks" "distinct (map fst (li_buckets l))" "map_of (li_buckets l) key = None"
  shows "int (length (li_buckets l)) < li_max l"
proof -
  have "length (li_buckets l) = card (fst ` set (li_buckets l))"
    using distinct_card [OF assms(3)] by simp
  moreover have "fst ` set (li_buckets l) \<subset> fst ` set (li_buckets l) \<union> ks"
    using assms(2,4) by (auto simp: map_of_eq_None_iff)
  then have "card (fst ` set (li_buckets l)) < card (fst ` set (li_buckets l) \<union> ks)"
    using assms(1) by (intro psubset_card_mono) (auto simp: room_def)
  ultimately show ?thesis using assms(1) by (simp add: room_def)
qed

lemma allow_roomy:
  assumes "room l ks" "key \<in> ks" "distinct (map fst (li_buckets l))"
  shows "allow l t key = (case grant l (view l t key) of (answer, b) \<Rightarrow>
    (answer, l\<lparr>li_buckets := AList.update key b (li_buckets l)\<rparr>))"
proof (cases "map_of (li_buckets l) key")
  case None
  then show ?thesis using not_full [OF assms None] by (simp add: allow_def view_def spend_grant Let_def)
qed (simp add: allow_def view_def spend_grant)

lemma grant_ok: "settings_ok l \<Longrightarrow> bucket_ok l t b \<Longrightarrow> bucket_ok l t (snd (grant l b))"
  using ieee.rnd_nonneg [of "bk_tokens b - 1"] fl64_mono [of "bk_tokens b - 1" "bk_tokens b"]
  by (auto simp: grant_def bucket_ok_def)

lemma bucket_ok_later: "bucket_ok l t b \<Longrightarrow> t \<le> u \<Longrightarrow> bucket_ok l u b"
  by (simp add: bucket_ok_def)

lemma bucket_ok_cong: "li_burst l' = li_burst l \<Longrightarrow> bucket_ok l' t b = bucket_ok l t b"
  by (simp add: bucket_ok_def)

lemma map_of_bucket_evict:
  "distinct (map fst (li_buckets l)) \<Longrightarrow> map_of (li_buckets (evict l t)) k =
     (case map_of (li_buckets l) k of None \<Rightarrow> None | Some b \<Rightarrow> if level l t b \<ge> li_burst l then None else Some b)"
  by (simp add: evict_def map_of_filter_distinct split: option.split)

lemma evict_settings [simp]:
  "li_burst (evict l t) = li_burst l" "li_refill (evict l t) = li_refill l" "li_max (evict l t) = li_max l"
  "length (li_buckets (evict l t)) \<le> length (li_buckets l)"
  by (simp_all add: evict_def)

lemma settings_cong: "li_burst l' = li_burst l \<Longrightarrow> li_refill l' = li_refill l \<Longrightarrow> settings_ok l' = settings_ok l"
  by (simp add: settings_ok_def)

lemma evict_ok:
  assumes "limiter_ok l t"
  shows "limiter_ok (evict l u) t"
proof -
  have "distinct (map fst (li_buckets (evict l u)))" using assms by (simp add: limiter_ok_def evict_def distinct_map_filter)
  moreover have "int (length (li_buckets (evict l u))) \<le> max 0 (li_max l)"
    using assms evict_settings(4) [of l u] unfolding limiter_ok_def by linarith
  ultimately show ?thesis
    using assms settings_cong [of "evict l u" l] bucket_ok_cong [of "evict l u" l]
    by (auto simp: limiter_ok_def map_of_bucket_evict split: option.splits if_splits)
qed

lemma put_ok:
  assumes "limiter_ok l t" "bucket_ok l t b" "int (length (li_buckets l)) < li_max l \<or> map_of (li_buckets l) key \<noteq> None"
  shows "limiter_ok (l\<lparr>li_buckets := AList.update key b (li_buckets l)\<rparr>) t"
proof -
  have "length (AList.update key b (li_buckets l)) = (if map_of (li_buckets l) key = None then Suc (length (li_buckets l)) else length (li_buckets l))"
    by (simp add: length_update map_of_eq_None_iff)
  then show ?thesis
    using assms by (auto simp: limiter_ok_def update_conv' distinct_update settings_ok_def bucket_ok_def)
qed

text \<open>
  The limiter keeps its bounds. A request leaves every bucket between zero and the burst, the number of
  tracked keys within its limit, and the configuration alone; an admitted request is told to wait for
  nothing, a refused one for a time that is not negative, and who has a token is never refused.
\<close>

theorem allow_ok:
  assumes "limiter_ok l t" "t \<le> u" "u < 2 ^ 63" "0 \<le> u" "allow l u key = ((ok, wait), l')"
  shows "limiter_ok l' u \<and> same_settings l l' \<and> 0 \<le> wait \<and> (ok \<longrightarrow> wait = 0)
    \<and> (\<not> ok \<longrightarrow> (\<exists>b. map_of (li_buckets l') key = Some b \<and> bk_tokens b < 1))"
proof -
  have later: "limiter_ok l u" using assms(1,2) bucket_ok_later unfolding limiter_ok_def by blast
  have fresh: "bucket_ok k u \<lparr>bk_tokens = li_burst k, bk_last = u\<rparr>" if "limiter_ok k u" for k
    using that assms(4) by (simp add: limiter_ok_def settings_ok_def bucket_ok_def)
  have go: ?thesis if k: "limiter_ok k u" "same_settings l k" and b: "bucket_ok k u b"
    and room: "int (length (li_buckets k)) < li_max k \<or> map_of (li_buckets k) key \<noteq> None"
    and run: "spend k u key b = ((ok, wait), l')" for k b
  proof -
    obtain a b' where g: "grant k (refill k u b) = (a, b')" by fastforce
    have s: "settings_ok k" using k by (simp add: limiter_ok_def)
    have "bucket_ok k u b'" using grant_ok [OF s refill_ok(1) [OF s b]] g by simp
    from put_ok [OF k(1) this room] have "limiter_ok l' u" using run g by (simp add: spend_grant)
    moreover have "0 \<le> wait_for k x" if "x < 1" for x
      using that s unfolding wait_for_def by (intro zero_le_floor [THEN iffD2] ieee.rnd_nonneg mult_nonneg_nonneg divide_nonneg_pos)
        (auto simp: settings_ok_def ieee.rnd_nonneg)
    ultimately show ?thesis
      using run g k(2) by (auto simp: spend_grant grant_def same_settings_def update_conv' split: if_splits)
  qed
  show ?thesis
  proof (cases "map_of (li_buckets l) key")
    case None
    show ?thesis
    proof (cases "int (length (li_buckets l)) \<ge> li_max l")
      case full: True
      have e: "limiter_ok (evict l u) u" "same_settings l (evict l u)" using evict_ok [OF later] by (simp_all add: same_settings_def)
      show ?thesis
      proof (cases "int (length (li_buckets (evict l u))) \<ge> li_max l")
        case True
        then show ?thesis using assms(5) None full e by (auto simp: allow_def Let_def)
      next
        case False
        then show ?thesis using assms(5) None full by (intro go [OF e fresh [OF e(1)]]) (auto simp: allow_def Let_def)
      qed
    next
      case False
      then show ?thesis using assms(5) None
        by (intro go [OF later _ fresh [OF later]]) (auto simp: allow_def Let_def same_settings_def)
    qed
  next
    case (Some b)
    then show ?thesis using assms(5) later
      by (intro go [OF later, of b]) (auto simp: allow_def same_settings_def limiter_ok_def)
  qed
qed

section \<open>What a caller can notice\<close>

text \<open>Two limiters that a request for one of the keys cannot tell apart from some instant on.\<close>

definition alike :: "string set \<Rightarrow> instant \<Rightarrow> limiter \<Rightarrow> limiter \<Rightarrow> bool" where
  "alike ks t l l' \<longleftrightarrow> same_settings l l' \<and> (\<forall>k \<in> ks. \<forall>u. t \<le> u \<and> u < 2 ^ 63 \<longrightarrow> view l u k = view l' u k)"

lemma grant_settings: "same_settings l l' \<Longrightarrow> grant l' b = grant l b"
  by (simp add: grant_def wait_for_def same_settings_def)

lemma refill_settings: "same_settings l l' \<Longrightarrow> refill l' t b = refill l t b"
  by (simp add: refill_def level_def same_settings_def)

lemma view_put:
  "view (l\<lparr>li_buckets := AList.update key b (li_buckets l)\<rparr>) u k = (if k = key then refill l u b else view l u k)"
  by (simp add: view_def update_conv' refill_def level_def split: option.split)

lemma alike_sym: "alike ks t l l' \<Longrightarrow> alike ks t l' l"
  by (simp add: alike_def same_settings_def)

lemma alike_trans: "alike ks t l l' \<Longrightarrow> alike ks t l' l'' \<Longrightarrow> alike ks t l l''"
  by (simp add: alike_def same_settings_def)

text \<open>A request that the limiter has room for leaves room, and touches its own key only.\<close>

lemma allow_room:
  assumes "room l ks" "key \<in> ks" "limiter_ok l t" "t \<le> u" "0 \<le> u" "u < 2 ^ 63" "allow l u key = (answer, l')"
  shows "room l' ks" "limiter_ok l' u" "key \<notin> js \<Longrightarrow> alike js t l l'"
proof -
  have d: "distinct (map fst (li_buckets l))" using assms(3) by (simp add: limiter_ok_def)
  obtain b where l': "l' = l\<lparr>li_buckets := AList.update key b (li_buckets l)\<rparr>"
    using assms(7) unfolding allow_roomy [OF assms(1,2) d] by (auto split: prod.splits)
  have "fst ` set (AList.update key b (li_buckets l)) = insert key (fst ` set (li_buckets l))"
    using dom_update [of key b "li_buckets l"] by simp
  moreover have "insert key (fst ` set (li_buckets l)) \<union> ks = fst ` set (li_buckets l) \<union> ks" using assms(2) by auto
  ultimately show "room l' ks" using assms(1) unfolding l' room_def by simp
  obtain ok wait where a: "answer = (ok, wait)" by fastforce
  show "limiter_ok l' u" using allow_ok [OF assms(3,4,6,5), of key ok wait l'] assms(7) a by simp
  show "key \<notin> js \<Longrightarrow> alike js t l l'" unfolding alike_def l' by (auto simp: view_put same_settings_def)
qed

lemma allow_alike:
  assumes "room l ks" "room l' ks'" "key \<in> ks" "key \<in> ks'" "limiter_ok l t" "limiter_ok l' t" "t \<le> u" "u < 2 ^ 63"
    "alike js t l l'" "key \<in> js"
  shows "fst (allow l u key) = fst (allow l' u key) \<and> alike js u (snd (allow l u key)) (snd (allow l' u key))"
proof -
  have d: "distinct (map fst (li_buckets l))" "distinct (map fst (li_buckets l'))" using assms(5,6) by (simp_all add: limiter_ok_def)
  have same: "same_settings l l'" using assms(9) by (simp add: alike_def)
  have "view l u key = view l' u key" using assms(7-10) by (auto simp: alike_def)
  moreover have "alike js u (l\<lparr>li_buckets := AList.update key b (li_buckets l)\<rparr>) (l'\<lparr>li_buckets := AList.update key b (li_buckets l')\<rparr>)" for b
    using assms(7,9) refill_settings [OF same] by (auto simp: alike_def view_put same_settings_def)
  ultimately show ?thesis
    unfolding allow_roomy [OF assms(1,3) d(1)] allow_roomy [OF assms(2,4) d(2)] grant_settings [OF same]
    by (simp split: prod.split)
qed

definition arriving :: "instant \<Rightarrow> (instant \<times> string) list \<Rightarrow> bool" where
  "arriving t rs \<longleftrightarrow> 0 \<le> t \<and> sorted (t # map fst rs) \<and> (\<forall>r \<in> set rs. fst r < 2 ^ 63)"

lemma serve_Cons: "fst (serve l (r # rs)) = fst (allow l (fst r) (snd r)) # fst (serve (snd (allow l (fst r) (snd r))) rs)"
  by (simp add: Let_def case_prod_unfold)

lemma alike_later: "alike js t l l' \<Longrightarrow> t \<le> u \<Longrightarrow> alike js u l l'"
  by (auto simp: alike_def)

text \<open>Serving a list of requests, and only those for the keys in question, from limiters that look alike.\<close>

lemma serve_alike:
  assumes "limiter_ok l t" "limiter_ok l' t" "arriving t rs" "snd ` set rs \<subseteq> ks" "room l ks" "room l' ks" "alike js t l l'"
  shows "map snd (filter (\<lambda>(r, answer). snd r \<in> js) (zip rs (fst (serve l rs)))) = fst (serve l' (filter (\<lambda>r. snd r \<in> js) rs))"
  using assms
proof (induction rs arbitrary: t l l')
  case (Cons r rs)
  obtain u key where r: "r = (u, key)" by fastforce
  have time: "t \<le> u" "0 \<le> u" "u < 2 ^ 63" "arriving u rs" using Cons.prems(3) by (auto simp: r arriving_def)
  have ks: "key \<in> ks" "snd ` set rs \<subseteq> ks" using Cons.prems(4) by (auto simp: r)
  obtain answer l1 where a: "allow l u key = (answer, l1)" by fastforce
  obtain answer' l1' where a': "allow l' u key = (answer', l1')" by fastforce
  note left = allow_room [OF Cons.prems(5) ks(1) Cons.prems(1) time(1-3) a]
  note right = allow_room [OF Cons.prems(6) ks(1) Cons.prems(2) time(1-3) a']
  have later: "limiter_ok l' u" using Cons.prems(2) time(1) bucket_ok_later unfolding limiter_ok_def by blast
  show ?case
  proof (cases "key \<in> js")
    case True
    have "answer = answer'" "alike js u l1 l1'"
      using allow_alike [OF Cons.prems(5,6) ks(1) ks(1) Cons.prems(1,2) time(1,3) Cons.prems(7) True] by (simp_all add: a a')
    then show ?thesis
      using Cons.IH [OF left(2) right(2) time(4) ks(2) left(1) right(1)] True
      by (simp add: r a a' serve_Cons del: serve.simps)
  next
    case False
    have "alike js u l1 l'"
      using alike_trans [OF alike_sym [OF left(3) [OF False]] Cons.prems(7)] time(1) alike_later by blast
    then show ?thesis
      using Cons.IH [OF left(2) later time(4) ks(2) left(1) Cons.prems(6)] False
      by (simp add: r a serve_Cons del: serve.simps)
  qed
qed simp

lemma serve_length: "length (fst (serve l rs)) = length rs"
  by (induction rs arbitrary: l) (simp_all add: serve_Cons del: serve.simps(2))

lemma alike_refl: "alike js t l l" by (simp add: alike_def same_settings_def)

lemma alike_evict:
  assumes "limiter_ok l t"
  shows "alike js t l (evict l t)"
proof -
  have "view l u k = view (evict l t) u k" if "t \<le> u" "u < 2 ^ 63" for u k
  proof (cases "map_of (li_buckets l) k")
    case (Some b)
    have ok: "settings_ok l" "bucket_ok l t b" "distinct (map fst (li_buckets l))" using assms Some by (auto simp: limiter_ok_def)
    have "refill (evict l t) u b = refill l u b" by (simp add: refill_def level_def)
    then show ?thesis using Some refill_full [OF ok(1,2) that] by (simp add: view_def map_of_bucket_evict [OF ok(3)])
  qed (use assms in \<open>simp add: view_def map_of_bucket_evict limiter_ok_def\<close>)
  then show ?thesis by (simp add: alike_def same_settings_def)
qed

lemma room_evict: "room l ks \<Longrightarrow> room (evict l t) ks"
proof -
  assume r: "room l ks"
  have "card (fst ` set (li_buckets (evict l t)) \<union> ks) \<le> card (fst ` set (li_buckets l) \<union> ks)"
    using r by (intro card_mono) (auto simp: room_def evict_def)
  then show ?thesis using r by (simp add: room_def)
qed

text \<open>A request, with the buckets it works on: those that have refilled go when a new key finds no room.\<close>

definition lets_through :: "limiter \<Rightarrow> instant \<Rightarrow> string \<Rightarrow> bool" where
  "lets_through l u key \<longleftrightarrow> map_of (li_buckets l) key = None \<and> li_max l \<le> int (length (li_buckets (evict l u)))"

definition working :: "limiter \<Rightarrow> instant \<Rightarrow> string \<Rightarrow> limiter" where
  "working l u key = (if map_of (li_buckets l) key = None \<and> li_max l \<le> int (length (li_buckets l)) then evict l u else l)"

lemma allow_cases:
  assumes "distinct (map fst (li_buckets l))"
  shows "allow l u key = (if lets_through l u key then ((True, 0), evict l u)
    else case grant l (view l u key) of (answer, b) \<Rightarrow>
      (answer, (working l u key)\<lparr>li_buckets := AList.update key b (li_buckets (working l u key))\<rparr>))"
proof (cases "map_of (li_buckets l) key")
  case None
  have "grant (evict l u) b = grant l b" for b by (rule grant_settings) (simp add: same_settings_def)
  moreover have "li_max l \<le> int (length (li_buckets l))" if "li_max l \<le> int (length (li_buckets (evict l u)))"
    using that evict_settings(4) [of l u] by linarith
  ultimately show ?thesis
    using None by (auto simp: allow_def lets_through_def working_def view_def spend_grant Let_def split: prod.splits)
next
  case (Some b)
  then show ?thesis by (simp add: allow_def lets_through_def working_def view_def spend_grant)
qed

text \<open>
  Limiters that no sequence of requests can tell apart, however full they are: they look alike, and after
  dropping what has refilled by any later instant they hold the same buckets.
\<close>

definition twins :: "instant \<Rightarrow> limiter \<Rightarrow> limiter \<Rightarrow> bool" where
  "twins t l l' \<longleftrightarrow> limiter_ok l t \<and> limiter_ok l' t \<and> alike UNIV t l l'
     \<and> (\<forall>u. t \<le> u \<and> u < 2 ^ 63 \<longrightarrow> map_of (li_buckets (evict l u)) = map_of (li_buckets (evict l' u)))"

lemma twins_sym: "twins t l l' \<Longrightarrow> twins t l' l"
  using alike_sym by (auto simp: twins_def)

lemma limiter_ok_later: "limiter_ok l t \<Longrightarrow> t \<le> u \<Longrightarrow> limiter_ok l u"
  using bucket_ok_later unfolding limiter_ok_def by blast

lemma evict_evict:
  assumes "limiter_ok l t" "t \<le> u" "u \<le> v" "v < 2 ^ 63"
  shows "map_of (li_buckets (evict (evict l u) v)) = map_of (li_buckets (evict l v))"
proof
  fix k
  have d: "distinct (map fst (li_buckets l))" "distinct (map fst (li_buckets (evict l u)))"
    using assms(1) evict_ok [OF assms(1)] by (simp_all add: limiter_ok_def)
  have same: "level (evict l u) v b = level l v b" for b by (simp add: level_def)
  have "li_burst l \<le> level l v b" if "map_of (li_buckets l) k = Some b" "li_burst l \<le> level l u b" for b
    using that level_mono [of l b u v] assms by (force simp: limiter_ok_def bucket_ok_def)
  then show "map_of (li_buckets (evict (evict l u) v)) k = map_of (li_buckets (evict l v)) k"
    by (cases "map_of (li_buckets l) k") (simp_all add: map_of_bucket_evict d same)
qed

lemma twins_later:
  assumes "twins t l l'" "t \<le> u"
  shows "twins u l l'"
proof -
  have "limiter_ok l u" "limiter_ok l' u" using assms limiter_ok_later by (auto simp: twins_def)
  then show ?thesis using assms alike_later unfolding twins_def by (meson order_trans)
qed

lemma twins_evict:
  assumes "twins t l l'" "t \<le> u" "u < 2 ^ 63"
  shows "twins u (evict l u) l'"
proof -
  have t: "twins u l l'" using twins_later assms(1,2) by blast
  then have ok: "limiter_ok l u" "limiter_ok l' u" by (simp_all add: twins_def)
  have "alike UNIV u (evict l u) l'"
    using alike_trans [OF alike_sym [OF alike_evict [OF ok(1)]]] t by (auto simp: twins_def)
  moreover have "map_of (li_buckets (evict (evict l u) v)) = map_of (li_buckets (evict l' v))" if "u \<le> v" "v < 2 ^ 63" for v
    using evict_evict [OF ok(1) order_refl that] t that by (simp add: twins_def)
  ultimately show ?thesis using ok evict_ok [OF ok(1)] by (simp add: twins_def)
qed

lemma twins_put:
  assumes "twins u l l'" "bucket_ok l u b"
    "int (length (li_buckets l)) < li_max l \<or> map_of (li_buckets l) key \<noteq> None"
    "int (length (li_buckets l')) < li_max l' \<or> map_of (li_buckets l') key \<noteq> None"
  shows "twins u (l\<lparr>li_buckets := AList.update key b (li_buckets l)\<rparr>) (l'\<lparr>li_buckets := AList.update key b (li_buckets l')\<rparr>)"
    (is "twins u ?m ?m'")
proof -
  have same: "same_settings l l'" using assms(1) by (simp add: twins_def alike_def)
  have ok: "limiter_ok ?m u" "limiter_ok ?m' u"
    using assms put_ok bucket_ok_cong [of l' l] same by (auto simp: twins_def same_settings_def)
  then have d: "distinct (map fst (li_buckets ?m))" "distinct (map fst (li_buckets ?m'))" by (simp_all add: limiter_ok_def)
  have d0: "distinct (map fst (li_buckets l))" "distinct (map fst (li_buckets l'))" using assms(1) by (simp_all add: twins_def limiter_ok_def)
  have level: "level ?m v x = level l v x" "level ?m' v x = level l v x" "level l' v x = level l v x" for v x
    using same by (simp_all add: level_def same_settings_def)
  have look: "view ?m v k = view ?m' v k" if "u \<le> v" "v < 2 ^ 63" for v k
    using assms(1) that refill_settings [OF same] by (auto simp: twins_def alike_def view_put)
  have left: "map_of (li_buckets (evict ?m v)) k = map_of (li_buckets (evict ?m' v)) k" if v: "u \<le> v" "v < 2 ^ 63" for v k
  proof (cases "k = key")
    case True
    then show ?thesis using same by (simp add: map_of_bucket_evict [OF d(1)] map_of_bucket_evict [OF d(2)] level update_conv' same_settings_def)
  next
    case False
    have "map_of (li_buckets (evict l v)) k = map_of (li_buckets (evict l' v)) k" using assms(1) v by (simp add: twins_def)
    then show ?thesis using False same
      by (cases "map_of (li_buckets l) k"; cases "map_of (li_buckets l') k")
        (simp_all add: map_of_bucket_evict [OF d(1)] map_of_bucket_evict [OF d(2)] map_of_bucket_evict [OF d0(1)]
          map_of_bucket_evict [OF d0(2)] level update_conv' same_settings_def)
  qed
  show ?thesis using ok look left same by (auto simp: twins_def alike_def same_settings_def)
qed

lemma keys_count: "distinct (map fst xs) \<Longrightarrow> length xs = card (dom (map_of xs))"
  by (metis distinct_card dom_map_of_conv_image_fst length_map list.set_map)

text \<open>Where one of two twins has no bucket for a key, whoever has one can drop it.\<close>

lemma gone:
  assumes "twins u l l'" "map_of (li_buckets l) key = None" "u < 2 ^ 63"
  shows "int (length (li_buckets (evict l u))) = int (length (li_buckets (evict l' u)))"
    and "map_of (li_buckets l') key \<noteq> None \<Longrightarrow> length (li_buckets (evict l' u)) < length (li_buckets l')"
proof -
  have ok: "limiter_ok l u" "limiter_ok l' u" using assms(1) by (simp_all add: twins_def)
  have d: "distinct (map fst (li_buckets l))" "distinct (map fst (li_buckets l'))"
    "distinct (map fst (li_buckets (evict l u)))" "distinct (map fst (li_buckets (evict l' u)))"
    using ok evict_ok [OF ok(1)] evict_ok [OF ok(2)] by (simp_all add: limiter_ok_def)
  have same: "map_of (li_buckets (evict l u)) = map_of (li_buckets (evict l' u))" using assms(1,3) by (simp add: twins_def)
  then show "int (length (li_buckets (evict l u))) = int (length (li_buckets (evict l' u)))"
    by (simp add: keys_count d)
  have "key \<notin> dom (map_of (li_buckets (evict l' u)))"
    using assms(2) by (simp add: same [symmetric] map_of_bucket_evict [OF d(1)] domIff)
  moreover have "dom (map_of (li_buckets (evict l' u))) \<subseteq> dom (map_of (li_buckets l'))"
    by (auto simp: map_of_bucket_evict [OF d(2)] split: option.splits if_splits)
  moreover assume "map_of (li_buckets l') key \<noteq> None"
  then have "key \<in> dom (map_of (li_buckets l'))" by blast
  ultimately have "dom (map_of (li_buckets (evict l' u))) \<subset> dom (map_of (li_buckets l'))" by blast
  then show "length (li_buckets (evict l' u)) < length (li_buckets l')"
    by (simp add: keys_count d finite_dom_map_of psubset_card_mono)
qed

lemma twins_working:
  assumes "twins u l l'" "u < 2 ^ 63"
  shows "twins u (working l u key) (working l' u key)"
  using twins_evict [OF assms(1) order_refl assms(2)]
    twins_evict [OF twins_sym [OF assms(1)] order_refl assms(2), THEN twins_sym]
    twins_evict [OF twins_sym [OF twins_evict [OF assms(1) order_refl assms(2)]] order_refl assms(2), THEN twins_sym] assms(1)
  by (simp add: working_def)

lemma twins_lets:
  assumes "twins u l l'" "u < 2 ^ 63" "lets_through l u key"
  shows "lets_through l' u key"
proof -
  have none: "map_of (li_buckets l) key = None" and full: "li_max l \<le> int (length (li_buckets (evict l u)))"
    using assms(3) by (simp_all add: lets_through_def)
  note g = gone [OF assms(1) none assms(2)]
  have same: "li_max l' = li_max l" using assms(1) by (simp add: twins_def alike_def same_settings_def)
  have "int (length (li_buckets l')) \<le> max 0 (li_max l')" using assms(1) by (simp add: twins_def limiter_ok_def)
  then have "map_of (li_buckets l') key = None" using g full same by (cases "map_of (li_buckets l') key = None") auto
  then show ?thesis using g(1) full same by (simp add: lets_through_def)
qed

lemma fits:
  assumes "\<not> lets_through l u key"
  shows "int (length (li_buckets (working l u key))) < li_max (working l u key) \<or> map_of (li_buckets (working l u key)) key \<noteq> None"
  using assms by (auto simp: lets_through_def working_def)

lemma allow_twins:
  assumes "twins t l l'" "t \<le> u" "0 \<le> u" "u < 2 ^ 63"
  shows "fst (allow l u key) = fst (allow l' u key) \<and> twins u (snd (allow l u key)) (snd (allow l' u key))"
proof -
  have t: "twins u l l'" using twins_later assms(1,2) by blast
  then have ok: "limiter_ok l u" "limiter_ok l' u" by (simp_all add: twins_def)
  have d: "distinct (map fst (li_buckets l))" "distinct (map fst (li_buckets l'))" using ok by (simp_all add: limiter_ok_def)
  have same: "same_settings l l'" "view l u key = view l' u key" using t assms(4) by (auto simp: twins_def alike_def)
  have lets: "lets_through l' u key = lets_through l u key"
    using twins_lets [OF t assms(4)] twins_lets [OF twins_sym [OF t] assms(4)] by blast
  show ?thesis
  proof (cases "lets_through l u key")
    case True
    have "twins u (evict l u) (evict l' u)"
      using twins_evict [OF twins_sym [OF twins_evict [OF t order_refl assms(4)]] order_refl assms(4), THEN twins_sym] .
    then show ?thesis using True lets by (simp add: allow_cases d)
  next
    case False
    obtain answer b where g: "grant l (view l u key) = (answer, b)" by fastforce
    have "bucket_ok l u (view l u key)"
      using ok(1) assms(3) refill_ok(1) by (auto simp: view_def limiter_ok_def bucket_ok_def settings_ok_def split: option.split)
    then have "bucket_ok l u b" using grant_ok [of l u "view l u key"] ok(1) g by (simp add: limiter_ok_def)
    then have "bucket_ok (working l u key) u b" using bucket_ok_cong [of "working l u key" l] by (simp add: working_def)
    from twins_put [OF twins_working [OF t assms(4)] this fits [OF False] fits]
    show ?thesis using False lets g grant_settings [OF same(1)] same(2) by (simp add: allow_cases d)
  qed
qed

lemma serve_twins:
  assumes "twins t l l'" "arriving t rs"
  shows "fst (serve l rs) = fst (serve l' rs)"
  using assms
proof (induction rs arbitrary: t l l')
  case (Cons r rs)
  have time: "t \<le> fst r" "0 \<le> fst r" "fst r < 2 ^ 63" "arriving (fst r) rs" using Cons.prems(2) by (auto simp: arriving_def)
  from allow_twins [OF Cons.prems(1) time(1-3)] Cons.IH [OF _ time(4)] show ?case by (simp add: serve_Cons del: serve.simps)
qed simp

text \<open>
  C17: The sweep is housekeeping that nobody can notice. Dropping the buckets that have refilled changes no
  later answer to any sequence of requests in the order of time, neither whether a request is admitted
  nor how long a refused one is told to wait. This holds at capacity too, where a new key is let through
  unmetered: a limiter that is full with refilled buckets drops them before it does so.
\<close>

theorem sweep_unnoticed:
  assumes "limiter_ok l t" "arriving t rs"
  shows "fst (serve (snd (sweep_limiter l t)) rs) = fst (serve l rs)"
proof (cases rs)
  case (Cons r rest)
  have "t < 2 ^ 63" using assms(2) by (auto simp: Cons arriving_def)
  moreover have "twins t l l" using assms(1) alike_refl by (simp add: twins_def)
  ultimately have "twins t (evict l t) l" using twins_evict by blast
  from serve_twins [OF this assms(2)] show ?thesis by (simp add: sweep_limiter_def)
qed simp

text \<open>
  One caller's traffic does not touch another's. The answers to the requests for a key, in any mix of
  requests in the order of time, are the answers it would get if nobody else asked, as long as there is
  room for the keys.
\<close>

theorem others_unnoticed:
  assumes "limiter_ok l t" "arriving t rs" "room l (snd ` set rs)"
  shows "map snd (filter (\<lambda>(r, answer). snd r = key) (zip rs (fst (serve l rs)))) = fst (serve l (filter (\<lambda>r. snd r = key) rs))"
  using serve_alike [OF assms(1,1,2) order_refl assms(3,3) alike_refl, of "{key}"] by simp

section \<open>Bursts\<close>

lemma refill_now [simp]: "refill l t (b\<lparr>bk_last := t\<rparr>) = b\<lparr>bk_last := t\<rparr>"
  by (cases b) simp

lemma burst_from:
  assumes "map_of (li_buckets l) key = Some \<lparr>bk_tokens = of_int (int m), bk_last = t\<rparr>" "m \<le> 2 ^ 53"
  shows "map fst (fst (serve l (replicate n (t, key)))) = replicate (min n m) True @ replicate (n - m) False"
  using assms
proof (induction n arbitrary: l m)
  case (Suc n)
  show ?case
  proof (cases m)
    case 0
    then have "allow l t key = ((False, wait_for l 0), l\<lparr>li_buckets := AList.update key \<lparr>bk_tokens = 0, bk_last = t\<rparr> (li_buckets l)\<rparr>)"
      using Suc.prems(1) by (simp add: allow_def spend_def)
    then show ?thesis
      using Suc.IH [of "l\<lparr>li_buckets := AList.update key \<lparr>bk_tokens = 0, bk_last = t\<rparr> (li_buckets l)\<rparr>" 0] 0
      by (simp add: update_conv' serve_Cons del: serve.simps)
  next
    case (Suc k)
    have "fl64 (of_int (int k)) = (of_int (int k) :: rat)" using Suc Suc.prems(2) by (intro fl64_of_int) simp
    then have "allow l t key = ((True, 0), l\<lparr>li_buckets := AList.update key \<lparr>bk_tokens = of_int (int k), bk_last = t\<rparr> (li_buckets l)\<rparr>)"
      using Suc.prems(1) Suc by (simp add: allow_def spend_def)
    then show ?thesis
      using Suc.IH [of "l\<lparr>li_buckets := AList.update key \<lparr>bk_tokens = of_int (int k), bk_last = t\<rparr> (li_buckets l)\<rparr>" k] Suc Suc.prems(2)
      by (simp add: update_conv' serve_Cons del: serve.simps)
  qed
qed simp


text \<open>At capacity, with no bucket to drop, a key that has none is let through each time.\<close>

lemma let_all_through:
  assumes "map_of (li_buckets l) key = None" "li_max l \<le> int (length (li_buckets (evict l t)))"
  shows "map fst (fst (serve l (replicate n (t, key)))) = replicate n True"
  using assms
proof (induction n arbitrary: l)
  case (Suc n)
  have "li_max l \<le> int (length (li_buckets l))" using Suc.prems(2) evict_settings(4) [of l t] by linarith
  then have "allow l t key = ((True, 0), evict l t)"
    using Suc.prems by (simp add: allow_def Let_def)
  moreover have "map_of (li_buckets (evict l t)) key = None"
    using Suc.prems(1) by (auto simp: evict_def map_of_eq_None_iff)
  moreover have "evict (evict l t) t = evict l t" by (simp add: evict_def level_def)
  ultimately show ?case using Suc.IH [of "evict l t"] Suc.prems(2) by (simp add: serve_Cons del: serve.simps)
qed simp

text \<open>
  C18: Of any number of simultaneous requests for a key that has been quiet, exactly as many as the burst are
  admitted, the first ones, and all others are refused. The exception is a limiter at capacity: when
  the buckets that have not refilled are as many as it may hold, it admits every request for a new key.
\<close>

theorem burst_exact:
  assumes "li_burst l = of_int (int burst)" "burst \<le> 2 ^ 53" "map_of (li_buckets l) key = None"
  shows "map fst (fst (serve l (replicate n (t, key)))) =
    (if int (length (li_buckets (evict l t))) < li_max l then replicate (min n burst) True @ replicate (n - burst) False
     else replicate n True)"
proof (cases "int (length (li_buckets (evict l t))) < li_max l")
  case room: True
  show ?thesis
  proof (cases n)
    case (Suc k)
    have put: "AList.update key b (AList.update key c xs) = AList.update key b xs" for b c :: bucket and xs
      by (induction xs) auto
    define m where "m = (if li_max l \<le> int (length (li_buckets l)) then evict l t else l)"
    let ?m = "m\<lparr>li_buckets := AList.update key \<lparr>bk_tokens = li_burst l, bk_last = t\<rparr> (li_buckets m)\<rparr>"
    have "allow l t key = spend m t key \<lparr>bk_tokens = li_burst l, bk_last = t\<rparr>"
      using assms(3) room by (simp add: allow_def m_def Let_def)
    then have "allow l t key = allow ?m t key"
      by (simp add: allow_def spend_def update_conv' wait_for_def Let_def put)
    then have "fst (serve l (replicate n (t, key))) = fst (serve ?m (replicate n (t, key)))" by (simp add: Suc serve_Cons del: serve.simps)
    then show ?thesis using burst_from [of ?m key burst t n] assms(1,2) room by (simp add: update_conv')
  qed simp
next
  case False
  then show ?thesis using let_all_through [OF assms(3), of t n] by simp
qed

section \<open>Instances\<close>

definition demo_limiter :: limiter where
  "demo_limiter = new_limiter 2 60 5"

lemma demo_limiter_ok: "limiter_ok demo_limiter 0" "li_burst demo_limiter = of_int (int 2)" "li_max demo_limiter = 5"
    "li_buckets demo_limiter = []"
  by (simp_all add: demo_limiter_def new_limiter_def limiter_ok_def settings_ok_def)

lemma allow_ok_witness: "limiter_ok (snd (allow demo_limiter 0 ''a'')) 0"
proof -
  obtain ok wait l' where a: "allow demo_limiter 0 ''a'' = ((ok, wait), l')" by (metis prod.exhaust)
  from allow_ok [OF demo_limiter_ok(1) order_refl _ order_refl a] show ?thesis by (simp add: a)
qed

lemma burst_exact_witness:
  "map fst (fst (serve demo_limiter (replicate 3 (7, ''a'')))) = [True, True, False]"
proof -
  have "replicate (min 3 2) True @ replicate (3 - 2) False = [True, True, False]" by (simp add: numeral_eq_Suc)
  moreover have "map_of (li_buckets demo_limiter) ''a'' = None" "int (length (li_buckets (evict demo_limiter 7))) < li_max demo_limiter"
    by (simp_all add: demo_limiter_ok evict_def)
  ultimately show ?thesis using burst_exact [OF demo_limiter_ok(2), of "''a''" 3 7] by (simp del: serve.simps)
qed

definition demo_requests :: "(instant \<times> string) list" where
  "demo_requests = [(0, ''a''), (0, ''b''), (second, ''a'')]"

lemma demo_requests_ok: "arriving 0 demo_requests" "room demo_limiter (snd ` set demo_requests)"
  by (simp_all add: arriving_def room_def demo_requests_def demo_limiter_ok second_def card_insert_if)

lemma sweep_unnoticed_witness:
  "fst (serve (snd (sweep_limiter demo_limiter 0)) demo_requests) = fst (serve demo_limiter demo_requests)"
  by (rule sweep_unnoticed [OF demo_limiter_ok(1) demo_requests_ok(1)])

lemma others_unnoticed_witness:
  "map snd (filter (\<lambda>(r, answer). snd r = ''a'') (zip demo_requests (fst (serve demo_limiter demo_requests))))
    = fst (serve demo_limiter [(0, ''a''), (second, ''a'')])"
  using others_unnoticed [OF demo_limiter_ok(1) demo_requests_ok, of "''a''"] by (simp add: demo_requests_def)

end
