(* ===== verification/GoNet.thy ===== *)
theory GoNet
  imports GoFormat "HOL-Library.Word"
begin

text \<open>
  What Go's \<^verbatim>\<open>net\<close> package does with addresses in text: \<open>parse_ip\<close> is \<^verbatim>\<open>net.ParseIP\<close>
  and \<open>socket_host\<close> the host that \<^verbatim>\<open>net.SplitHostPort\<close> returns, with \<open>None\<close> for its errors. An IPv4
  address in text is the IPv4 one, whatever clothes the library keeps it in.
\<close>

datatype ip = V4 "32 word" | V6 "128 word"

definition quad :: "int \<Rightarrow> int \<Rightarrow> int \<Rightarrow> int \<Rightarrow> 32 word" where
  "quad a b c d = word_of_int (((a * 256 + b) * 256 + c) * 256 + d)"

section \<open>IPv4\<close>

text \<open>One field: decimal digits without a leading zero, at most 255.\<close>

definition octet :: "string \<Rightarrow> int option" where
  "octet s =
     (if s = '''' \<or> \<not> list_all is_digit s then None
      else if length s > 1 \<and> hd s = CHR ''0'' then None
      else if digits_value s > 255 then None
      else Some (int (digits_value s)))"

definition octets :: "string \<Rightarrow> (int \<times> int \<times> int \<times> int) option" where
  "octets s =
     (case map octet (split_on (CHR ''.'') s) of
        [Some a, Some b, Some c, Some d] \<Rightarrow> Some (a, b, c, d)
      | _ \<Rightarrow> None)"

section \<open>IPv6\<close>

definition hex_value :: "char \<Rightarrow> int option" where
  "hex_value c =
     (if is_digit c then Some (int (byte c) - 48)
      else if 97 \<le> byte c \<and> byte c \<le> 102 then Some (int (byte c) - 87)
      else if 65 \<le> byte c \<and> byte c \<le> 70 then Some (int (byte c) - 55)
      else None)"

definition hex_number :: "string \<Rightarrow> int" where
  "hex_number s = foldl (\<lambda>a c. a * 16 + (case hex_value c of Some v \<Rightarrow> v | None \<Rightarrow> 0)) 0 s"

lemma dropWhile_tail: "dropWhile P s = c # more \<Longrightarrow> length more < length s"
  by (metis Suc_le_eq length_Cons length_dropWhile_le)

text \<open>
  The loop over the groups of 16 bits: the groups so far and where the ellipsis stands among them. An
  IPv4 address may take the place of the last two groups.
\<close>

function groups :: "string \<Rightarrow> int list \<Rightarrow> nat option \<Rightarrow> (int list \<times> nat option) option" where
  "groups s gs ellipsis =
     (if length gs \<ge> 8 then (if s = '''' then Some (gs, ellipsis) else None)
      else
        (let digits = takeWhile (\<lambda>c. hex_value c \<noteq> None) s; rest = dropWhile (\<lambda>c. hex_value c \<noteq> None) s;
             gs' = gs @ [hex_number digits] in
         if digits = '''' \<or> length digits > 4 then None
         else case rest of
           [] \<Rightarrow> Some (gs', ellipsis)
         | c # more \<Rightarrow>
             if c = CHR ''.'' then
               (if ellipsis = None \<and> length gs \<noteq> 6 then None
                else if length gs > 6 then None
                else map_option (\<lambda>(p, q, r, t). (gs @ [p * 256 + q, r * 256 + t], ellipsis)) (octets s))
             else if c \<noteq> CHR '':'' then None
             else case more of
               [] \<Rightarrow> None
             | c' # tail \<Rightarrow>
                 if c' \<noteq> CHR '':'' then groups more gs' ellipsis
                 else if ellipsis \<noteq> None then None
                 else if tail = [] then Some (gs', Some (length gs'))
                 else groups tail gs' (Some (length gs'))))"
  by pat_completeness auto

termination
  by (relation "measure (\<lambda>(s, _). length s)") (auto dest!: dropWhile_tail [OF sym] dest: Suc_lessD)

declare groups.simps [simp del]

definition place :: "int list \<Rightarrow> 128 word" where
  "place gs = word_of_int (foldl (\<lambda>a g. a * 65536 + g) 0 gs)"

definition parse_ipv6 :: "string \<Rightarrow> 128 word option" where
  "parse_ipv6 s =
     (let (start, ellipsis) = (if take 2 s = ''::'' then (drop 2 s, Some 0) else (s, None)) in
      if ellipsis \<noteq> None \<and> start = '''' then Some 0
      else case groups start [] ellipsis of
        None \<Rightarrow> None
      | Some (gs, None) \<Rightarrow> if length gs < 8 then None else Some (place gs)
      | Some (gs, Some k) \<Rightarrow>
          if length gs < 8 then Some (place (take k gs @ replicate (8 - length gs) 0 @ drop k gs)) else None)"

text \<open>The first dot or colon decides; an address with a zone is not a \<^verbatim>\<open>net.IP\<close>.\<close>

definition parse_ip :: "string \<Rightarrow> ip option" where
  "parse_ip s =
     (if CHR ''%'' \<in> set s then None
      else case find (\<lambda>c. c = CHR ''.'' \<or> c = CHR '':'') s of
        None \<Rightarrow> None
      | Some c \<Rightarrow>
          if c = CHR ''.'' then map_option (\<lambda>(p, q, r, t). V4 (quad p q r t)) (octets s)
          else map_option V6 (parse_ipv6 s))"

section \<open>Host and port\<close>

text \<open>The text before and after the last occurrence of a character.\<close>

definition before_last :: "char \<Rightarrow> string \<Rightarrow> string" where
  "before_last c s = rev (tl (dropWhile (\<lambda>x. x \<noteq> c) (rev s)))"

definition after_last :: "char \<Rightarrow> string \<Rightarrow> string" where
  "after_last c s = rev (takeWhile (\<lambda>x. x \<noteq> c) (rev s))"

definition socket_host :: "string \<Rightarrow> string option" where
  "socket_host s =
     (if CHR '':'' \<notin> set s then None
      else if hd s = CHR ''['' then
        (let inner = takeWhile (\<lambda>c. c \<noteq> CHR '']'') (tl s); outer = dropWhile (\<lambda>c. c \<noteq> CHR '']'') s in
         if outer = [] \<or> tl outer = [] then None
         else if tl outer \<noteq> CHR '':'' # after_last (CHR '':'') s then None
         else if CHR ''['' \<in> set (tl s) \<or> CHR '']'' \<in> set (tl outer) then None
         else Some inner)
      else
        (let host = before_last (CHR '':'') s in
         if CHR '':'' \<in> set host then None
         else if CHR ''['' \<in> set s \<or> CHR '']'' \<in> set s then None
         else Some host))"

section \<open>Facts\<close>

lemma after_last_append: "c \<notin> set t \<Longrightarrow> after_last c (s @ c # t) = t"
proof -
  assume "c \<notin> set t"
  then have "takeWhile (\<lambda>x. x \<noteq> c) (rev t @ c # rev s) = rev t" by (subst takeWhile_append2) auto
  then show ?thesis by (simp add: after_last_def)
qed

lemma before_last_append: "c \<notin> set t \<Longrightarrow> before_last c (s @ c # t) = s"
proof -
  assume "c \<notin> set t"
  then have "dropWhile (\<lambda>x. x \<noteq> c) (rev t @ c # rev s) = c # rev s" by (subst dropWhile_append2) auto
  then show ?thesis by (simp add: before_last_def)
qed

lemma zero_groups: "replicate 7 (0 :: int) = [0, 0, 0, 0, 0, 0, 0]" "replicate 5 (0 :: int) = [0, 0, 0, 0, 0]" "replicate 2 (0 :: int) = [0, 0]"
  by (simp_all add: numeral_eq_Suc)

lemma parse_ip_examples:
  "parse_ip ''169.254.169.254'' = Some (V4 (quad 169 254 169 254))"
  "parse_ip ''::ffff:127.0.0.1'' = Some (V6 0xFFFF7F000001)"
  "parse_ip ''2001:db8::8:800:200c:417a'' = Some (V6 0x20010DB80000000000080800200C417A)"
  "parse_ip ''::1'' = Some (V6 1)" "parse_ip ''010.0.0.1'' = None" "parse_ip ''cal.example.org'' = None"
  by (simp_all add: parse_ip_def octets_def octet_def is_digit_def digits_value_def parse_ipv6_def groups.simps hex_value_def
      hex_number_def place_def zero_groups)

lemma socket_host_examples:
  "socket_host ''192.0.2.1:8080'' = Some ''192.0.2.1''" "socket_host ''[::1]:8080'' = Some ''::1''" "socket_host ''::1'' = None"
  by (simp_all add: socket_host_def before_last_def after_last_def)

end
