(* ===== verification/FetchGuard.thy ===== *)
theory FetchGuard
  imports GoNet Effects
begin

text \<open>
  \<^verbatim>\<open>api/internal/fetchguard/fetchguard.go\<close>: fetching a URL a stranger supplied without
  reaching into the private network. The URL parser, the resolver, which may answer differently every
  time it is asked, and the servers, which may redirect anywhere, are arguments. Main facts: which
  addresses are refused (\<open>public_exact\<close>), and that no resolver and no server makes the code dial one of
  them (\<open>fetch_only_public\<close>).
\<close>

section \<open>Addresses\<close>

text \<open>\<^verbatim>\<open>To4\<close>: an IPv4 address in IPv6 clothes is an IPv4 address.\<close>

definition to4 :: "ip \<Rightarrow> ip" where
  "to4 a = (case a of V4 w \<Rightarrow> V4 w | V6 w \<Rightarrow> if drop_bit 32 w = 0xFFFF then V4 (ucast w) else V6 w)"

text \<open>Membership in a network of the given prefix length.\<close>

definition in_net4 :: "32 word \<Rightarrow> nat \<Rightarrow> 32 word \<Rightarrow> bool" where
  "in_net4 p l a \<longleftrightarrow> drop_bit (32 - l) a = drop_bit (32 - l) p"

definition in_net6 :: "128 word \<Rightarrow> nat \<Rightarrow> 128 word \<Rightarrow> bool" where
  "in_net6 p l a \<longleftrightarrow> drop_bit (128 - l) a = drop_bit (128 - l) p"

definition contains :: "ip \<times> nat \<Rightarrow> ip \<Rightarrow> bool" where
  "contains net a = (case (fst net, a) of
     (V4 p, V4 w) \<Rightarrow> in_net4 p (snd net) w | (V6 p, V6 w) \<Rightarrow> in_net6 p (snd net) w | _ \<Rightarrow> False)"

text \<open>The predicates of Go's \<^verbatim>\<open>net.IP\<close>, on an address \<open>to4\<close> has been applied to.\<close>

definition is_loopback :: "ip \<Rightarrow> bool" where
  "is_loopback a = (case a of V4 w \<Rightarrow> in_net4 (quad 127 0 0 0) 8 w | V6 w \<Rightarrow> w = 1)"

definition is_private :: "ip \<Rightarrow> bool" where
  "is_private a = (case a of
     V4 w \<Rightarrow> in_net4 (quad 10 0 0 0) 8 w \<or> in_net4 (quad 172 16 0 0) 12 w \<or> in_net4 (quad 192 168 0 0) 16 w
   | V6 w \<Rightarrow> in_net6 (0xFC00 * 2 ^ 112) 7 w)"

definition is_unspecified :: "ip \<Rightarrow> bool" where
  "is_unspecified a = (case a of V4 w \<Rightarrow> w = 0 | V6 w \<Rightarrow> w = 0)"

definition is_link_local_unicast :: "ip \<Rightarrow> bool" where
  "is_link_local_unicast a = (case a of
     V4 w \<Rightarrow> in_net4 (quad 169 254 0 0) 16 w | V6 w \<Rightarrow> in_net6 (0xFE80 * 2 ^ 112) 10 w)"

text \<open>The scope of an IPv6 multicast address is the low half of its second byte.\<close>

definition multicast_scope :: "128 word \<Rightarrow> 128 word \<Rightarrow> bool" where
  "multicast_scope s w \<longleftrightarrow> drop_bit 120 w = 0xFF \<and> take_bit 4 (drop_bit 112 w) = s"

definition is_link_local_multicast :: "ip \<Rightarrow> bool" where
  "is_link_local_multicast a = (case a of V4 w \<Rightarrow> in_net4 (quad 224 0 0 0) 24 w | V6 w \<Rightarrow> multicast_scope 2 w)"

definition is_interface_local_multicast :: "ip \<Rightarrow> bool" where
  "is_interface_local_multicast a = (case a of V4 w \<Rightarrow> False | V6 w \<Rightarrow> multicast_scope 1 w)"

definition is_multicast :: "ip \<Rightarrow> bool" where
  "is_multicast a = (case a of V4 w \<Rightarrow> in_net4 (quad 224 0 0 0) 4 w | V6 w \<Rightarrow> drop_bit 120 w = 0xFF)"

definition blocked_nets :: "(ip \<times> nat) list" where
  "blocked_nets =
     [(V4 (quad 100 64 0 0), 10), (V4 (quad 192 0 0 0), 24), (V4 (quad 192 0 2 0), 24), (V4 (quad 198 18 0 0), 15),
      (V4 (quad 198 51 100 0), 24), (V4 (quad 203 0 113 0), 24), (V4 (quad 240 0 0 0), 4), (V4 (quad 255 255 255 255), 32),
      (V6 0, 128), (V6 (0x64FF9B * 2 ^ 96), 96), (V6 (0x100 * 2 ^ 112), 64), (V6 (0x20010DB8 * 2 ^ 96), 32),
      (V6 (0xFC00 * 2 ^ 112), 7)]"

definition is_public :: "ip \<Rightarrow> bool" where
  "is_public a0 =
     (let a = to4 a0 in
      if is_loopback a \<or> is_private a \<or> is_unspecified a \<or> is_link_local_unicast a \<or> is_link_local_multicast a
         \<or> is_interface_local_multicast a \<or> is_multicast a then False
      else \<not> list_ex (\<lambda>net. contains net a) blocked_nets)"

section \<open>URLs\<close>

record url =
  u_scheme :: string
  u_host :: string
  u_user :: bool
  u_rest :: string

datatype guard_error =
    EmptyUrl | NotAUrl | BadScheme string | NoHost | Credentials | NotPublic ip
  | Unresolvable string | ResolvesToNothing string | ResolvesTo string ip
  | TooManyRedirects | BadReply nat | TransportFailed | TooLarge | IndexPanic | OutOfFuel

text \<open>The errors that wrap \<^verbatim>\<open>ErrBlocked\<close>.\<close>

definition blocked_error :: "guard_error \<Rightarrow> bool" where
  "blocked_error e = (case e of BadScheme _ \<Rightarrow> True | NoHost \<Rightarrow> True | Credentials \<Rightarrow> True | NotPublic _ \<Rightarrow> True
     | Unresolvable _ \<Rightarrow> True | ResolvesToNothing _ \<Rightarrow> True | ResolvesTo _ _ \<Rightarrow> True | _ \<Rightarrow> False)"

datatype http_reply = Broken | Redirect url | Reply nat "string option"

record net =
  nt_parse :: "string \<Rightarrow> url option"
  nt_resolve :: "nat \<Rightarrow> string \<Rightarrow> ip list option"
  nt_reply :: "nat \<Rightarrow> url \<Rightarrow> ip \<Rightarrow> http_reply"

record wire =
  wi_lookups :: nat
  wi_dialled :: "ip list"
  wi_requested :: "url list"

type_synonym 'a fetching = "(wire, guard_error, 'a) op"

definition idle_wire :: wire where
  "idle_wire = \<lparr>wi_lookups = 0, wi_dialled = [], wi_requested = []\<rparr>"

definition max_bytes :: nat where "max_bytes = 5 * 2 ^ 20"
definition max_redirects :: nat where "max_redirects = 3"

definition normalize :: "net \<Rightarrow> string \<Rightarrow> guard_error + url" where
  "normalize nw raw0 =
     (let raw = trim_space raw0 in
      if raw = '''' then Inl EmptyUrl
      else case nt_parse nw raw of
        None \<Rightarrow> Inl NotAUrl
      | Some u \<Rightarrow> Inr (if equal_fold (u_scheme u) ''webcal'' then u\<lparr>u_scheme := ''https''\<rparr> else u))"

text \<open>\<^verbatim>\<open>strings.ToLower\<close> on a scheme, which the URL parser lets through in ASCII only.\<close>

definition to_lower :: "string \<Rightarrow> string" where
  "to_lower = map (\<lambda>c. if 65 \<le> byte c \<and> byte c \<le> 90 then char_of (byte c + 32) else c)"

definition check_url_shape :: "url \<Rightarrow> guard_error option" where
  "check_url_shape u =
     (if to_lower (u_scheme u) \<noteq> ''http'' \<and> to_lower (u_scheme u) \<noteq> ''https'' then Some (BadScheme (u_scheme u))
      else if u_host u = '''' then Some NoHost
      else if u_user u then Some Credentials
      else None)"

definition check_url :: "(ip \<Rightarrow> bool) \<Rightarrow> url \<Rightarrow> guard_error option" where
  "check_url ok u =
     (case check_url_shape u of
        Some e \<Rightarrow> Some e
      | None \<Rightarrow> (case parse_ip (u_host u) of
          Some a \<Rightarrow> if \<not> ok a then Some (NotPublic a) else None
        | None \<Rightarrow> None))"

section \<open>Fetching\<close>

definition must :: "guard_error option \<Rightarrow> unit fetching" where
  "must e = (case e of None \<Rightarrow> ret () | Some x \<Rightarrow> fail x)"

definition resolve_host :: "net \<Rightarrow> string \<Rightarrow> ip list option fetching" where
  "resolve_host nw host = (\<lambda>w. (Inr (nt_resolve nw (wi_lookups w) host), w\<lparr>wi_lookups := Suc (wi_lookups w)\<rparr>))"

text \<open>The dial hook: resolve again, check every address, dial the first one.\<close>

definition dial :: "net \<Rightarrow> (ip \<Rightarrow> bool) \<Rightarrow> string \<Rightarrow> ip fetching" where
  "dial nw ok host =
     seq (resolve_host nw host) (\<lambda>ips. case ips of
       None \<Rightarrow> fail (Unresolvable host)
     | Some as \<Rightarrow> (case find (\<lambda>a. \<not> ok a) as of
         Some a \<Rightarrow> fail (ResolvesTo host a)
       | None \<Rightarrow> (case as of
           [] \<Rightarrow> fail IndexPanic
         | a # _ \<Rightarrow> (\<lambda>w. (Inr a, w\<lparr>wi_dialled := wi_dialled w @ [a]\<rparr>)))))"

definition exchange :: "net \<Rightarrow> (ip \<Rightarrow> bool) \<Rightarrow> url \<Rightarrow> http_reply fetching" where
  "exchange nw ok u =
     seq (dial nw ok (u_host u)) (\<lambda>a.
     (\<lambda>w. (Inr (nt_reply nw (length (wi_requested w)) u a), w\<lparr>wi_requested := wi_requested w @ [u]\<rparr>)))"

text \<open>\<open>via\<close> is the number of requests made already.\<close>

definition check_redirect :: "(ip \<Rightarrow> bool) \<Rightarrow> nat \<Rightarrow> url \<Rightarrow> guard_error option" where
  "check_redirect ok via u = (if via \<ge> max_redirects then Some TooManyRedirects else check_url ok u)"

primrec hop :: "net \<Rightarrow> (ip \<Rightarrow> bool) \<Rightarrow> nat \<Rightarrow> nat \<Rightarrow> url \<Rightarrow> (nat \<times> string option) fetching" where
  "hop nw ok 0 via u = fail OutOfFuel"
| "hop nw ok (Suc fuel) via u =
     seq (exchange nw ok u) (\<lambda>r. case r of
       Broken \<Rightarrow> fail TransportFailed
     | Reply status body \<Rightarrow> ret (status, body)
     | Redirect u' \<Rightarrow> seq (must (check_redirect ok (Suc via) u')) (\<lambda>_. hop nw ok fuel (Suc via) u'))"

definition get_url :: "net \<Rightarrow> (ip \<Rightarrow> bool) \<Rightarrow> string \<Rightarrow> string fetching" where
  "get_url nw ok raw =
     (case normalize nw raw of
        Inl e \<Rightarrow> fail e
      | Inr u \<Rightarrow>
          seq (must (check_url ok u)) (\<lambda>_.
          seq (resolve_host nw (u_host u)) (\<lambda>ips. case ips of
            None \<Rightarrow> fail (Unresolvable (u_host u))
          | Some as \<Rightarrow>
              if as = [] then fail (ResolvesToNothing (u_host u))
              else (case find (\<lambda>a. \<not> ok a) as of
                Some a \<Rightarrow> fail (ResolvesTo (u_host u) a)
              | None \<Rightarrow>
                  seq (hop nw ok (Suc max_redirects) 0 u) (\<lambda>(status, body).
                  if status \<noteq> 200 then fail (BadReply status)
                  else (case body of
                    None \<Rightarrow> fail TransportFailed
                  | Some b \<Rightarrow>
                      let got = take (max_bytes + 1) b in
                      if length got > max_bytes then fail TooLarge else ret got))))))"

text \<open>The policy of a fetcher: only public addresses, except where development allows all.\<close>

definition policy :: "bool \<Rightarrow> ip \<Rightarrow> bool" where
  "policy private_allowed a = (if private_allowed then True else is_public a)"


section \<open>Which addresses are refused\<close>

text \<open>The refused ranges, with their ends.\<close>

definition special4 :: "(32 word \<times> 32 word) list" where
  "special4 =
     [(quad 0 0 0 0, quad 0 0 0 0), (quad 10 0 0 0, quad 10 255 255 255), (quad 100 64 0 0, quad 100 127 255 255),
      (quad 127 0 0 0, quad 127 255 255 255), (quad 169 254 0 0, quad 169 254 255 255), (quad 172 16 0 0, quad 172 31 255 255),
      (quad 192 0 0 0, quad 192 0 0 255), (quad 192 0 2 0, quad 192 0 2 255), (quad 192 168 0 0, quad 192 168 255 255),
      (quad 198 18 0 0, quad 198 19 255 255), (quad 198 51 100 0, quad 198 51 100 255), (quad 203 0 113 0, quad 203 0 113 255),
      (quad 224 0 0 0, quad 255 255 255 255)]"

definition special6 :: "(128 word \<times> 128 word) list" where
  "special6 =
     [(0, 1), (0x64FF9B * 2 ^ 96, 0x64FF9B * 2 ^ 96 + 0xFFFFFFFF), (0x100 * 2 ^ 112, 0x100 * 2 ^ 112 + 0xFFFFFFFFFFFFFFFF),
      (0x20010DB8 * 2 ^ 96, 0x20010DB9 * 2 ^ 96 - 1), (0xFC00 * 2 ^ 112, 0xFE00 * 2 ^ 112 - 1),
      (0xFE80 * 2 ^ 112, 0xFEC0 * 2 ^ 112 - 1), (0xFF00 * 2 ^ 112, 0xFFFFFFFFFFFFFFFFFFFFFFFFFFFFFFFF)]"

lemma aligned_div:
  fixes a p k :: int
  assumes "0 < k" "p mod k = 0"
  shows "a div k = p div k \<longleftrightarrow> p \<le> a \<and> a < p + k"
proof -
  have p: "p = k * (p div k)" using assms(2) by (metis add.right_neutral mult_div_mod_eq)
  show ?thesis
  proof
    assume "a div k = p div k"
    then have "a = k * (p div k) + a mod k" by (metis mult_div_mod_eq)
    then show "p \<le> a \<and> a < p + k" using p pos_mod_sign [OF assms(1), of a] pos_mod_bound [OF assms(1), of a] by linarith
  next
    assume "p \<le> a \<and> a < p + k"
    then show "a div k = p div k" using p by (intro int_div_pos_eq [of a k "p div k" "a - p"]) auto
  qed
qed

lemma uint_drop: "uint (drop_bit k (w :: 'a :: len word)) = uint w div 2 ^ k"
  by (simp add: unsigned_drop_bit_eq drop_bit_int_def take_bit_int_eq_self)

lemma in_net4_uint:
  "uint p mod 2 ^ (32 - l) = 0 \<Longrightarrow> in_net4 p l w \<longleftrightarrow> uint p \<le> uint w \<and> uint w < uint p + 2 ^ (32 - l)"
  by (simp add: in_net4_def aligned_div [symmetric] word_uint_eq_iff uint_drop)

lemma in_net6_uint:
  "uint p mod 2 ^ (128 - l) = 0 \<Longrightarrow> in_net6 p l w \<longleftrightarrow> uint p \<le> uint w \<and> uint w < uint p + 2 ^ (128 - l)"
  by (simp add: in_net6_def aligned_div [symmetric] word_uint_eq_iff uint_drop)

lemma uint_quad:
  assumes "0 \<le> ((a * 256 + b) * 256 + c) * 256 + d" "((a * 256 + b) * 256 + c) * 256 + d < 2 ^ 32"
  shows "uint (quad a b c d) = ((a * 256 + b) * 256 + c) * 256 + d"
  unfolding quad_def uint_word_of_int_eq using assms by (intro take_bit_int_eq_self) simp_all

lemma nets4:
  "in_net4 (quad 127 0 0 0) 8 w \<longleftrightarrow> 2130706432 \<le> uint w \<and> uint w \<le> 2147483647"
  "in_net4 (quad 10 0 0 0) 8 w \<longleftrightarrow> 167772160 \<le> uint w \<and> uint w \<le> 184549375"
  "in_net4 (quad 172 16 0 0) 12 w \<longleftrightarrow> 2886729728 \<le> uint w \<and> uint w \<le> 2887778303"
  "in_net4 (quad 192 168 0 0) 16 w \<longleftrightarrow> 3232235520 \<le> uint w \<and> uint w \<le> 3232301055"
  "in_net4 (quad 169 254 0 0) 16 w \<longleftrightarrow> 2851995648 \<le> uint w \<and> uint w \<le> 2852061183"
  "in_net4 (quad 224 0 0 0) 24 w \<longleftrightarrow> 3758096384 \<le> uint w \<and> uint w \<le> 3758096639"
  "in_net4 (quad 224 0 0 0) 4 w \<longleftrightarrow> 3758096384 \<le> uint w \<and> uint w \<le> 4026531839"
  "in_net4 (quad 100 64 0 0) 10 w \<longleftrightarrow> 1681915904 \<le> uint w \<and> uint w \<le> 1686110207"
  "in_net4 (quad 192 0 0 0) 24 w \<longleftrightarrow> 3221225472 \<le> uint w \<and> uint w \<le> 3221225727"
  "in_net4 (quad 192 0 2 0) 24 w \<longleftrightarrow> 3221225984 \<le> uint w \<and> uint w \<le> 3221226239"
  "in_net4 (quad 198 18 0 0) 15 w \<longleftrightarrow> 3323068416 \<le> uint w \<and> uint w \<le> 3323199487"
  "in_net4 (quad 198 51 100 0) 24 w \<longleftrightarrow> 3325256704 \<le> uint w \<and> uint w \<le> 3325256959"
  "in_net4 (quad 203 0 113 0) 24 w \<longleftrightarrow> 3405803776 \<le> uint w \<and> uint w \<le> 3405804031"
  "in_net4 (quad 240 0 0 0) 4 w \<longleftrightarrow> 4026531840 \<le> uint w \<and> uint w \<le> 4294967295"
  "in_net4 (quad 255 255 255 255) 32 w \<longleftrightarrow> 4294967295 \<le> uint w \<and> uint w \<le> 4294967295"
  by (auto simp: in_net4_uint uint_quad)

lemma top4: "uint (w :: 32 word) < 4294967296" "0 \<le> uint w"
  using uint_lt2p [of w] by simp_all

lemma public4:
  "is_public (V4 w) \<longleftrightarrow> (\<forall>(lo, hi) \<in> set special4. \<not> (lo \<le> w \<and> w \<le> hi))"
proof -
  have zero: "w = 0 \<longleftrightarrow> uint w = 0" by (simp add: word_uint_eq_iff)
  have "is_public (V4 w) \<longleftrightarrow> \<not> (in_net4 (quad 127 0 0 0) 8 w \<or> in_net4 (quad 10 0 0 0) 8 w \<or> in_net4 (quad 172 16 0 0) 12 w
      \<or> in_net4 (quad 192 168 0 0) 16 w \<or> w = 0 \<or> in_net4 (quad 169 254 0 0) 16 w \<or> in_net4 (quad 224 0 0 0) 24 w
      \<or> in_net4 (quad 224 0 0 0) 4 w \<or> in_net4 (quad 100 64 0 0) 10 w \<or> in_net4 (quad 192 0 0 0) 24 w
      \<or> in_net4 (quad 192 0 2 0) 24 w \<or> in_net4 (quad 198 18 0 0) 15 w \<or> in_net4 (quad 198 51 100 0) 24 w
      \<or> in_net4 (quad 203 0 113 0) 24 w \<or> in_net4 (quad 240 0 0 0) 4 w \<or> in_net4 (quad 255 255 255 255) 32 w)"
    by (simp add: is_public_def to4_def is_loopback_def is_private_def is_unspecified_def is_link_local_unicast_def
        is_link_local_multicast_def is_interface_local_multicast_def is_multicast_def blocked_nets_def contains_def Let_def)
  moreover have "(\<forall>(lo, hi) \<in> set special4. \<not> (lo \<le> w \<and> w \<le> hi)) \<longleftrightarrow>
      \<not> (uint w \<le> 0 \<or> 167772160 \<le> uint w \<and> uint w \<le> 184549375 \<or> 1681915904 \<le> uint w \<and> uint w \<le> 1686110207
      \<or> 2130706432 \<le> uint w \<and> uint w \<le> 2147483647 \<or> 2851995648 \<le> uint w \<and> uint w \<le> 2852061183
      \<or> 2886729728 \<le> uint w \<and> uint w \<le> 2887778303 \<or> 3221225472 \<le> uint w \<and> uint w \<le> 3221225727
      \<or> 3221225984 \<le> uint w \<and> uint w \<le> 3221226239 \<or> 3232235520 \<le> uint w \<and> uint w \<le> 3232301055
      \<or> 3323068416 \<le> uint w \<and> uint w \<le> 3323199487 \<or> 3325256704 \<le> uint w \<and> uint w \<le> 3325256959
      \<or> 3405803776 \<le> uint w \<and> uint w \<le> 3405804031 \<or> 3758096384 \<le> uint w \<and> uint w \<le> 4294967295)"
    by (simp add: special4_def word_le_def uint_quad)
  moreover have "3758096384 \<le> uint w \<and> uint w \<le> 3758096639 \<or> 3758096384 \<le> uint w \<and> uint w \<le> 4026531839
      \<or> 4026531840 \<le> uint w \<and> uint w \<le> 4294967295 \<or> 4294967295 \<le> uint w \<and> uint w \<le> 4294967295
      \<longleftrightarrow> 3758096384 \<le> uint w \<and> uint w \<le> 4294967295" "uint w = 0 \<longleftrightarrow> uint w \<le> 0"
    using top4 [of w] by linarith+
  ultimately show ?thesis unfolding nets4 zero by argo
qed

lemma top6: "uint (w :: 128 word) \<le> 340282366920938463463374607431768211455" "0 \<le> uint w"
  using uint_lt2p [of w] by simp_all

lemma nets6:
  "in_net6 (0xFC00 * 2 ^ 112) 7 w \<longleftrightarrow> 334965454937798799971759379190646833152 \<le> uint w \<and> uint w \<le> 337623910929368631717566993311207522303"
  "in_net6 (0xFE80 * 2 ^ 112) 10 w \<longleftrightarrow> 338288524927261089654018896841347694592 \<le> uint w \<and> uint w \<le> 338620831926207318622244848606417780735"
  "in_net6 (0x64FF9B * 2 ^ 96) 96 w \<longleftrightarrow> 524413980667603649783483181312245760 \<le> uint w \<and> uint w \<le> 524413980667603649783483185607213055"
  "in_net6 (0x100 * 2 ^ 112) 64 w \<longleftrightarrow> 1329227995784915872903807060280344576 \<le> uint w \<and> uint w \<le> 1329227995784915891350551133989896191"
  "in_net6 (0x20010DB8 * 2 ^ 96) 32 w \<longleftrightarrow> 42540766411282592856903984951653826560 \<le> uint w \<and> uint w \<le> 42540766490510755371168322545197776895"
  using top6 [of w] by (auto simp: in_net6_uint)

lemma whole6: "in_net6 0 128 w \<longleftrightarrow> uint w \<le> 0"
proof -
  have "in_net6 0 128 w \<longleftrightarrow> uint w = uint (0 :: 128 word)" by (simp add: in_net6_def word_uint_eq_iff)
  then show ?thesis using top6(2) [of w] by (simp only: uint_0_eq) presburger
qed

lemma bytes6:
  "drop_bit 120 w = (0xFF :: 128 word) \<longleftrightarrow> 338953138925153547590470800371487866880 \<le> uint w \<and> uint w \<le> 340282366920938463463374607431768211455"
  "drop_bit 32 w = (0xFFFF :: 128 word) \<longleftrightarrow> 281470681743360 \<le> uint w \<and> uint w \<le> 281474976710655"
  using top6 [of w] by (auto simp: word_uint_eq_iff uint_drop)

lemma public6:
  "is_public (V6 w) \<longleftrightarrow> (if 0xFFFF00000000 \<le> w \<and> w \<le> 0xFFFFFFFFFFFF then is_public (V4 (ucast w))
     else \<forall>(lo, hi) \<in> set special6. \<not> (lo \<le> w \<and> w \<le> hi))"
proof (cases "drop_bit 32 w = 0xFFFF")
  case True
  then have "0xFFFF00000000 \<le> w \<and> w \<le> 0xFFFFFFFFFFFF" unfolding bytes6 by (simp add: word_le_def)
  moreover have "is_public (V6 w) = is_public (V4 (ucast w))" using True by (simp add: is_public_def to4_def)
  ultimately show ?thesis by simp
next
  case False
  then have "\<not> (0xFFFF00000000 \<le> w \<and> w \<le> 0xFFFFFFFFFFFF)" unfolding bytes6 by (simp add: word_le_def)
  moreover have "is_public (V6 w) \<longleftrightarrow> \<not> (w = 1 \<or> in_net6 (0xFC00 * 2 ^ 112) 7 w \<or> w = 0 \<or> in_net6 (0xFE80 * 2 ^ 112) 10 w
      \<or> drop_bit 120 w = 0xFF \<or> in_net6 0 128 w \<or> in_net6 (0x64FF9B * 2 ^ 96) 96 w \<or> in_net6 (0x100 * 2 ^ 112) 64 w
      \<or> in_net6 (0x20010DB8 * 2 ^ 96) 32 w)"
    using False
    by (auto simp: is_public_def to4_def is_loopback_def is_private_def is_unspecified_def is_link_local_unicast_def
        is_link_local_multicast_def is_interface_local_multicast_def is_multicast_def blocked_nets_def contains_def Let_def multicast_scope_def)
  moreover have "(\<forall>(lo, hi) \<in> set special6. \<not> (lo \<le> w \<and> w \<le> hi)) \<longleftrightarrow>
      \<not> (uint w \<le> 1 \<or> 524413980667603649783483181312245760 \<le> uint w \<and> uint w \<le> 524413980667603649783483185607213055 \<or> 1329227995784915872903807060280344576 \<le> uint w \<and> uint w \<le> 1329227995784915891350551133989896191 \<or> 42540766411282592856903984951653826560 \<le> uint w \<and> uint w \<le> 42540766490510755371168322545197776895
       \<or> 334965454937798799971759379190646833152 \<le> uint w \<and> uint w \<le> 337623910929368631717566993311207522303 \<or> 338288524927261089654018896841347694592 \<le> uint w \<and> uint w \<le> 338620831926207318622244848606417780735 \<or> 338953138925153547590470800371487866880 \<le> uint w \<and> uint w \<le> 340282366920938463463374607431768211455)"
    by (simp add: special6_def word_le_def)
  moreover have "w = 1 \<or> w = 0 \<longleftrightarrow> uint w \<le> 1" "uint w \<le> 0 \<longrightarrow> uint w \<le> 1"
    unfolding word_uint_eq_iff uint_1_eq uint_0_eq using top6 [of w] by presburger+
  ultimately show ?thesis unfolding nets6 whole6 bytes6 by argo
qed

text \<open>
  C23: Exactly these addresses are refused: of the IPv4 addresses the thirteen ranges of loopback, private,
  link-local, shared, documentation, benchmarking, multicast and reserved space; of the IPv6 addresses
  the seven ranges of their kind; and an IPv4 address written as an IPv6 one is judged as what it is.
\<close>

theorem public_exact:
  "(\<forall>w. is_public (V4 w) \<longleftrightarrow> (\<forall>(lo, hi) \<in> set special4. \<not> (lo \<le> w \<and> w \<le> hi)))
   \<and> (\<forall>w. is_public (V6 w) \<longleftrightarrow> (if 0xFFFF00000000 \<le> w \<and> w \<le> 0xFFFFFFFFFFFF then is_public (V4 (ucast w))
        else \<forall>(lo, hi) \<in> set special6. \<not> (lo \<le> w \<and> w \<le> hi)))"
  by (intro conjI allI public4 public6)

lemma public_exact_witness:
  "is_public (V4 (quad 8 8 8 8)) \<and> \<not> is_public (V4 (quad 169 254 169 254)) \<and> \<not> is_public (V6 0xFFFF7F000001)"
proof (intro conjI)
  show "is_public (V4 (quad 8 8 8 8))"
    unfolding public_exact [THEN conjunct1, rule_format] by (simp add: special4_def word_le_def uint_quad)
  show "\<not> is_public (V4 (quad 169 254 169 254))"
    unfolding public_exact [THEN conjunct1, rule_format] by (simp add: special4_def word_le_def uint_quad)
  have word: "(0xFFFF7F000001 :: 32 word) = 0x7F000001" by simp
  have "is_public (V6 0xFFFF7F000001) = is_public (V4 (quad 127 0 0 1))"
    by (subst public_exact [THEN conjunct2, rule_format]) (simp add: quad_def word)
  also have "\<not> is_public (V4 (quad 127 0 0 1))" by (simp add: public4 special4_def word_le_def uint_quad)
  finally show "\<not> is_public (V6 0xFFFF7F000001)" .
qed

text \<open>
  Addresses with a special meaning that pass: the rest of 0.0.0.0/8, IPv4-compatible and 6to4 addresses
  that carry a loopback address, and the NAT64 prefix for local use.
\<close>

theorem special_addresses_pass:
  "is_public (V4 (quad 0 0 0 1)) \<and> is_public (V6 0x7F000001) \<and> is_public (V6 (0x20027F000001 * 2 ^ 80))
   \<and> is_public (V6 (0x64FF9B0001 * 2 ^ 80))"
  by (simp add: public4 public6 special4_def special6_def word_le_def uint_quad)

section \<open>What a fetch may reach\<close>

definition proper :: "(ip \<Rightarrow> bool) \<Rightarrow> url \<Rightarrow> bool" where
  "proper ok u \<longleftrightarrow> to_lower (u_scheme u) \<in> {''http'', ''https''} \<and> u_host u \<noteq> '''' \<and> \<not> u_user u
     \<and> pred_option ok (parse_ip (u_host u))"

definition clean :: "(ip \<Rightarrow> bool) \<Rightarrow> wire \<Rightarrow> bool" where
  "clean ok w \<longleftrightarrow> list_all ok (wi_dialled w) \<and> list_all (proper ok) (wi_requested w)
     \<and> length (wi_dialled w) = length (wi_requested w)"

definition hollow :: "net \<Rightarrow> bool" where
  "hollow nw \<longleftrightarrow> (\<exists>n h. nt_resolve nw n h = Some [])"

lemma check_url_proper: "check_url ok u = None \<longleftrightarrow> proper ok u"
  by (auto simp: check_url_def check_url_shape_def proper_def split: option.split)

lemma check_url_errors: "check_url ok u = Some e \<Longrightarrow> e \<noteq> OutOfFuel \<and> e \<noteq> IndexPanic"
  by (auto simp: check_url_def check_url_shape_def split: option.splits if_splits)

lemma normalize_errors: "normalize nw raw = Inl e \<Longrightarrow> e \<noteq> OutOfFuel \<and> e \<noteq> IndexPanic"
  by (auto simp: normalize_def Let_def split: option.splits if_splits)

text \<open>One dial: an address is dialled only when the answer it came from was clean throughout.\<close>

lemma dial_cases:
  "dial nw ok host w = (r, w') \<Longrightarrow>
     (\<exists>a. r = Inr a \<and> ok a \<and> w' = w\<lparr>wi_lookups := Suc (wi_lookups w), wi_dialled := wi_dialled w @ [a]\<rparr>)
   \<or> (\<exists>e. r = Inl e \<and> w' = w\<lparr>wi_lookups := Suc (wi_lookups w)\<rparr> \<and> e \<noteq> OutOfFuel \<and> (e = IndexPanic \<longrightarrow> hollow nw))"
  by (auto simp: dial_def resolve_host_def seq_apply hollow_def find_None_iff split: option.splits list.splits)

lemma exchange_clean:
  assumes "clean ok w" "proper ok u" "exchange nw ok u w = (r, w')"
  shows "clean ok w'"
    "case r of Inl e \<Rightarrow> wi_requested w' = wi_requested w \<and> e \<noteq> OutOfFuel \<and> (e = IndexPanic \<longrightarrow> hollow nw)
     | Inr x \<Rightarrow> length (wi_requested w') = Suc (length (wi_requested w))"
proof -
  obtain d v where d: "dial nw ok (u_host u) w = (d, v)" by (cases "dial nw ok (u_host u) w")
  show "clean ok w'" using assms d dial_cases [OF d] by (auto simp: exchange_def seq_apply clean_def)
  show "case r of Inl e \<Rightarrow> wi_requested w' = wi_requested w \<and> e \<noteq> OutOfFuel \<and> (e = IndexPanic \<longrightarrow> hollow nw)
     | Inr x \<Rightarrow> length (wi_requested w') = Suc (length (wi_requested w))"
    using assms d dial_cases [OF d] by (auto simp: exchange_def seq_apply clean_def)
qed

lemma hop_clean:
  "clean ok w \<Longrightarrow> proper ok u \<Longrightarrow> length (wi_requested w) = via \<Longrightarrow> via < max_redirects
    \<Longrightarrow> max_redirects < fuel + via \<Longrightarrow> hop nw ok fuel via u w = (r, w')
    \<Longrightarrow> clean ok w' \<and> length (wi_requested w') \<le> max_redirects
      \<and> (case r of Inl e \<Rightarrow> e \<noteq> OutOfFuel \<and> (e = IndexPanic \<longrightarrow> hollow nw) | Inr x \<Rightarrow> wi_requested w' \<noteq> [])"
proof (induction fuel arbitrary: via u w)
  case 0
  then show ?case by simp
next
  case (Suc fuel)
  obtain x v where x: "exchange nw ok u w = (x, v)" by (cases "exchange nw ok u w")
  note v = exchange_clean [OF Suc.prems(1,2) x]
  show ?case
  proof (cases x)
    case (Inl e)
    then show ?thesis using Suc.prems x v by (auto simp: seq_apply)
  next
    case (Inr reply)
    then have sent: "length (wi_requested v) = Suc via" using v(2) Suc.prems(3) by simp
    show ?thesis
    proof (cases reply)
      case (Redirect u')
      show ?thesis
      proof (cases "check_redirect ok (Suc via) u'")
        case None
        then have "Suc via < max_redirects" "proper ok u'"
          by (simp_all add: check_redirect_def check_url_proper split: if_splits)
        moreover have "hop nw ok fuel (Suc via) u' v = (r, w')"
          using Suc.prems(6) x Inr Redirect None by (simp add: seq_apply must_def)
        ultimately show ?thesis using Suc.IH [OF v(1)] sent Suc.prems(5) by simp
      next
        case (Some e)
        then have "e \<noteq> OutOfFuel" "e \<noteq> IndexPanic"
          by (auto simp: check_redirect_def dest: check_url_errors split: if_splits)
        then show ?thesis
          using Suc.prems(4,6) x Inr Redirect Some v(1) sent by (auto simp: seq_apply must_def)
      qed
    qed (use Suc.prems(4,6) x Inr v(1) sent in \<open>auto simp: seq_apply\<close>)
  qed
qed

text \<open>
  C4: Whatever the URL, whatever the resolver answers at each lookup and wherever the servers redirect, a
  fetch dials public addresses only; it sends at most three requests, one per dial, each to an http or
  https URL with a host, without credentials, whose host is no private address written out; a body it
  returns came from such a request and is within the size limit. The recursion over redirects never runs
  out of fuel, and the unchecked \<^verbatim>\<open>ips[0]\<close> of the dial hook panics only when the resolver succeeds with no
  address.
\<close>

theorem fetch_only_public:
  "case get_url nw is_public raw idle_wire of (r, w) \<Rightarrow>
     list_all is_public (wi_dialled w) \<and> length (wi_dialled w) = length (wi_requested w)
   \<and> length (wi_requested w) \<le> 3
   \<and> list_all (\<lambda>u. to_lower (u_scheme u) \<in> {''http'', ''https''} \<and> u_host u \<noteq> '''' \<and> \<not> u_user u
        \<and> pred_option is_public (parse_ip (u_host u))) (wi_requested w)
   \<and> (case r of Inr body \<Rightarrow> length body \<le> 5 * 2 ^ 20 \<and> wi_requested w \<noteq> []
      | Inl e \<Rightarrow> e \<noteq> OutOfFuel \<and> (e = IndexPanic \<longrightarrow> (\<exists>n h. nt_resolve nw n h = Some [])))"
proof -
  have idle: "clean is_public idle_wire" "clean is_public (idle_wire\<lparr>wi_lookups := n\<rparr>)"
    "wi_requested idle_wire = []" for n by (simp_all add: clean_def idle_wire_def)
  obtain r w where rw: "get_url nw is_public raw idle_wire = (r, w)" by fastforce
  let ?goal = "clean is_public w \<and> length (wi_requested w) \<le> max_redirects
    \<and> (case r of Inl e \<Rightarrow> e \<noteq> OutOfFuel \<and> (e = IndexPanic \<longrightarrow> hollow nw) | Inr body \<Rightarrow> length body \<le> max_bytes \<and> wi_requested w \<noteq> [])"
  have ?goal
  proof (cases "normalize nw raw")
    case (Inl e)
    then show ?thesis using rw idle normalize_errors by (auto simp: get_url_def)
  next
    case (Inr u)
    show ?thesis
    proof (cases "check_url is_public u")
      case (Some e)
      then show ?thesis using rw Inr idle check_url_errors by (auto simp: get_url_def seq_apply must_def)
    next
      case None
      let ?w = "idle_wire\<lparr>wi_lookups := Suc (wi_lookups idle_wire)\<rparr>"
      obtain h v where h: "hop nw is_public (Suc max_redirects) 0 u ?w = (h, v)" by fastforce
      have "clean is_public v \<and> length (wi_requested v) \<le> max_redirects
        \<and> (case h of Inl e \<Rightarrow> e \<noteq> OutOfFuel \<and> (e = IndexPanic \<longrightarrow> hollow nw) | Inr x \<Rightarrow> wi_requested v \<noteq> [])"
        using None idle h by (intro hop_clean [OF idle(2)]) (simp_all add: check_url_proper max_redirects_def)
      then show ?thesis
        using rw Inr None idle h
        by (auto simp: get_url_def seq_apply must_def resolve_host_def Let_def split: option.splits if_splits sum.splits prod.splits)
    qed
  qed
  then show ?thesis using rw
    by (auto simp: clean_def proper_def [abs_def] hollow_def max_bytes_def max_redirects_def split: sum.splits)
qed

text \<open>A server that redirects to the metadata address of a cloud.\<close>

definition demo_url :: "string \<Rightarrow> url" where
  "demo_url host = \<lparr>u_scheme = ''http'', u_host = host, u_user = False, u_rest = ''''\<rparr>"

definition demo_net :: net where
  "demo_net = \<lparr>nt_parse = \<lambda>_. Some (demo_url ''cal.example.org''),
     nt_resolve = \<lambda>_ _. Some [V4 (quad 8 8 8 8)],
     nt_reply = \<lambda>_ _ _. Redirect (demo_url ''169.254.169.254'')\<rparr>"

lemma demo_public: "is_public (V4 (quad 8 8 8 8))" "\<not> is_public (V4 (quad 169 254 169 254))"
  by (simp_all add: public4 special4_def word_le_def uint_quad)

lemma demo_urls: "proper is_public (demo_url ''cal.example.org'')"
  "check_url is_public (demo_url ''169.254.169.254'') = Some (NotPublic (V4 (quad 169 254 169 254)))"
proof -
  have http: "to_lower ''http'' = ''http''" by code_simp
  show "proper is_public (demo_url ''cal.example.org'')" by (simp add: proper_def demo_url_def http parse_ip_examples)
  show "check_url is_public (demo_url ''169.254.169.254'') = Some (NotPublic (V4 (quad 169 254 169 254)))"
    by (simp add: check_url_def check_url_shape_def demo_url_def http demo_public parse_ip_examples)
qed

lemma demo_get:
  "get_url demo_net is_public ''x'' idle_wire =
     (Inl (NotPublic (V4 (quad 169 254 169 254))),
      \<lparr>wi_lookups = 2, wi_dialled = [V4 (quad 8 8 8 8)], wi_requested = [demo_url ''cal.example.org'']\<rparr>)"
proof -
  have texts: "trim_space ''x'' = ''x''" "\<not> equal_fold ''http'' ''webcal''"
    by (simp_all add: trim_space_def equal_fold_def runes_ascii is_space_def rune_value_def fold_rune_def)
  have n: "normalize demo_net ''x'' = Inr (demo_url ''cal.example.org'')"
    by (simp add: normalize_def texts demo_net_def demo_url_def)
  have fuel: "Suc max_redirects = Suc (Suc (Suc (Suc 0)))" "\<not> max_redirects \<le> Suc 0" by (simp_all add: max_redirects_def)
  have c: "check_url is_public (demo_url ''cal.example.org'') = None" by (simp add: check_url_proper demo_urls)
  have r: "nt_resolve demo_net n h = Some [V4 (quad 8 8 8 8)]" "nt_reply demo_net i u a = Redirect (demo_url ''169.254.169.254'')" for n h i u a
    by (simp_all add: demo_net_def)
  show ?thesis
    by (simp add: get_url_def n c r seq_apply must_def resolve_host_def demo_public exchange_def dial_def check_redirect_def
        demo_urls idle_wire_def fuel)
qed

lemma fetch_only_public_witness:
  "fst (get_url demo_net is_public ''x'' idle_wire) = Inl (NotPublic (V4 (quad 169 254 169 254)))
   \<and> wi_dialled (snd (get_url demo_net is_public ''x'' idle_wire)) = [V4 (quad 8 8 8 8)]
   \<and> list_all is_public (wi_dialled (snd (get_url demo_net is_public ''x'' idle_wire)))"
  using fetch_only_public [of demo_net "''x''"] by (simp add: demo_get)

end
