(* ===== verification/Config.thy ===== *)
theory Config
  imports FetchGuard GoTime
begin

text \<open>
  \<^verbatim>\<open>api/internal/server/config.go\<close>, and what \<^verbatim>\<open>middleware.go\<close> and \<^verbatim>\<open>server.go\<close> make of
  it: the settings read from the environment, the cross-origin headers and which addresses the fetcher
  may reach. The environment is a function with the empty string for what is unset;
  \<^verbatim>\<open>time.ParseDuration\<close> and \<^verbatim>\<open>strconv.ParseFloat\<close> are arguments. Main facts: every environment
  gives usable settings (\<open>config_usable\<close>), private addresses are reachable in development only
  (\<open>private_only_in_development\<close>), and no foreign origin is ever let in (\<open>cors_allowlist\<close>).
\<close>

section \<open>Settings\<close>

text \<open>A parsed number: a finite one, an infinity or no number at all.\<close>

datatype number = Finite rat | PlusInf | MinusInf | NaN

definition negative :: "number \<Rightarrow> bool" where
  "negative x = (case x of Finite r \<Rightarrow> r < 0 | MinusInf \<Rightarrow> True | _ \<Rightarrow> False)"

definition positive :: "number \<Rightarrow> bool" where
  "positive x = (case x of Finite r \<Rightarrow> r > 0 | PlusInf \<Rightarrow> True | _ \<Rightarrow> False)"

record settings =
  cf_addr :: string
  cf_env :: string
  cf_database :: string
  cf_origins :: "string list"
  cf_private_hosts :: bool
  cf_web_url :: string
  cf_migrate :: bool
  cf_purge :: duration
  cf_ip_headers :: "string list"
  cf_burst :: int
  cf_per_minute :: number
  cf_max_keys :: int
  cf_cooldown :: duration
  cf_shutdown :: duration

type_synonym environment = "string \<Rightarrow> string"

definition env_or :: "environment \<Rightarrow> string \<Rightarrow> string \<Rightarrow> string" where
  "env_or os key fallback = (let v = os key in if v \<noteq> '''' then v else fallback)"

definition duration_env :: "environment \<Rightarrow> (string \<Rightarrow> duration option) \<Rightarrow> string \<Rightarrow> duration \<Rightarrow> duration" where
  "duration_env os parse key fallback =
     (let v = os key in
      if v = '''' then fallback
      else case parse v of None \<Rightarrow> fallback | Some d \<Rightarrow> if d < 0 then fallback else d)"

definition int_env :: "environment \<Rightarrow> string \<Rightarrow> int \<Rightarrow> int" where
  "int_env os key fallback =
     (let v = os key in
      if v = '''' then fallback
      else case atoi v of None \<Rightarrow> fallback | Some n \<Rightarrow> if n < 0 then fallback else n)"

definition float_env :: "environment \<Rightarrow> (string \<Rightarrow> number option) \<Rightarrow> string \<Rightarrow> number \<Rightarrow> number" where
  "float_env os parse key fallback =
     (let v = os key in
      if v = '''' then fallback
      else case parse v of None \<Rightarrow> fallback | Some x \<Rightarrow> if negative x then fallback else x)"

definition split_list :: "string \<Rightarrow> string list" where
  "split_list s = filter (\<lambda>p. p \<noteq> '''') (map trim_space (split_on (CHR '','') s))"

definition config_from_env ::
  "environment \<Rightarrow> (string \<Rightarrow> duration option) \<Rightarrow> (string \<Rightarrow> number option) \<Rightarrow> settings" where
  "config_from_env os parse_dur parse_num =
     \<lparr>cf_addr = '':'' @ env_or os ''PORT'' ''8080'',
      cf_env = env_or os ''APP_ENV'' ''development'',
      cf_database = os ''DATABASE_URL'',
      cf_origins = split_list (env_or os ''ALLOWED_ORIGINS'' ''http://localhost:5173''),
      cf_private_hosts = (env_or os ''ALLOW_PRIVATE_CALENDAR_HOSTS'' '''' = ''true''),
      cf_web_url = rev (dropWhile (\<lambda>c. c = CHR ''/'') (rev (env_or os ''WEB_URL'' ''http://localhost:5173''))),
      cf_migrate = (env_or os ''RUN_MIGRATIONS'' ''true'' \<noteq> ''false''),
      cf_purge = duration_env os parse_dur ''PURGE_INTERVAL'' (6 * hour),
      cf_ip_headers = split_list (os ''CLIENT_IP_HEADER''),
      cf_burst = int_env os ''RATE_LIMIT_BURST'' 20,
      cf_per_minute = float_env os parse_num ''RATE_LIMIT_PER_MINUTE'' (Finite 60),
      cf_max_keys = int_env os ''RATE_LIMIT_MAX_KEYS'' 20000,
      cf_cooldown = duration_env os parse_dur ''PROPOSAL_COOLDOWN'' (30 * second),
      cf_shutdown = 15 * second\<rparr>"

section \<open>What follows from the settings\<close>

text \<open>\<^verbatim>\<open>New\<close>: the fetcher's policy, and whether there is a limiter.\<close>

definition fetch_policy :: "settings \<Rightarrow> ip \<Rightarrow> bool" where
  "fetch_policy cf = policy (cf_env cf = ''development'' \<and> cf_private_hosts cf)"

definition limits_requests :: "settings \<Rightarrow> bool" where
  "limits_requests cf = positive (cf_per_minute cf)"

text \<open>The headers \<^verbatim>\<open>cors\<close> sets, and whether it answers a preflight itself.\<close>

record cors_outcome =
  co_headers :: "(string \<times> string) list"
  co_answered :: bool

definition cors :: "settings \<Rightarrow> string \<Rightarrow> string \<Rightarrow> cors_outcome" where
  "cors cf meth origin =
     \<lparr>co_headers =
        (if origin \<noteq> '''' \<and> origin \<in> set (cf_origins cf)
         then [(''Access-Control-Allow-Origin'', origin),
               (''Access-Control-Allow-Headers'', ''Content-Type, X-Participant-Token, X-Member-Token''),
               (''Access-Control-Allow-Methods'', ''GET, POST, PUT, PATCH, DELETE, OPTIONS''),
               (''Access-Control-Expose-Headers'', ''Retry-After''),
               (''Access-Control-Max-Age'', ''600''),
               (''Vary'', ''Origin'')]
         else []),
      co_answered = (meth = ''OPTIONS'')\<rparr>"

section \<open>Facts\<close>

lemma trimmed_part:
  assumes "p \<in> set (split_list s)"
  shows "p \<noteq> '''' \<and> (\<exists>q. p = trim_space q \<and> CHR '','' \<notin> set q)"
  using assms split_on_none [of _ "CHR '',''" s] by (auto simp: split_list_def)

text \<open>
  Whatever the environment and whatever the parsers of the library return, the settings are usable:
  nothing malformed or negative gets through, a rate that is no number at all turns limiting off, the
  lists hold no empty entry, and the address of the web client ends in no slash.
\<close>

theorem config_usable:
  "let cf = config_from_env os parse_dur parse_num in
     0 \<le> cf_purge cf \<and> 0 \<le> cf_cooldown cf \<and> 0 \<le> cf_burst cf \<and> 0 \<le> cf_max_keys cf \<and> \<not> negative (cf_per_minute cf)
   \<and> '''' \<notin> set (cf_origins cf) \<and> '''' \<notin> set (cf_ip_headers cf) \<and> cf_env cf \<noteq> ''''
   \<and> (cf_web_url cf = '''' \<or> last (cf_web_url cf) \<noteq> CHR ''/'')"
proof -
  have dur: "0 \<le> f \<Longrightarrow> 0 \<le> duration_env os parse_dur key f" for key f
    by (auto simp: duration_env_def Let_def split: option.split)
  have num: "0 \<le> f \<Longrightarrow> 0 \<le> int_env os key f" for key f
    by (auto simp: int_env_def Let_def split: option.split)
  have flt: "\<not> negative f \<Longrightarrow> \<not> negative (float_env os parse_num key f)" for key f
    by (auto simp: float_env_def Let_def split: option.split)
  have list: "'''' \<notin> set (split_list s)" for s using trimmed_part [of "''''" s] by blast
  have slash: "rev (dropWhile P (rev s)) = '''' \<or> \<not> P (last (rev (dropWhile P (rev s))))" for P and s :: string
    using hd_dropWhile [of P "rev s"] by (cases "dropWhile P (rev s) = []") (auto simp: last_rev)
  show ?thesis
    unfolding Let_def config_from_env_def settings.simps
    using dur [of "6 * hour"] dur [of "30 * second"] num [of 20] num [of 20000] flt [of "Finite 60"] list
      slash [of "\<lambda>c. c = CHR ''/''"]
    by (simp add: duration_units negative_def env_or_def Let_def)
qed

text \<open>
  A fetch may reach an address outside the public internet only in an environment named development, and
  only with the flag set.
\<close>

theorem private_only_in_development:
  "fetch_policy (config_from_env os parse_dur parse_num) a \<longleftrightarrow>
     is_public a \<or> os ''APP_ENV'' \<in> {'''', ''development''} \<and> os ''ALLOW_PRIVATE_CALENDAR_HOSTS'' = ''true''"
  by (auto simp: fetch_policy_def policy_def config_from_env_def env_or_def Let_def)

text \<open>Only a configured origin is named in the headers, never a wildcard it did not configure.\<close>

theorem cors_allowlist:
  "(name, v) \<in> set (co_headers (cors cf meth origin)) \<Longrightarrow> name = ''Access-Control-Allow-Origin''
    \<Longrightarrow> v = origin \<and> origin \<in> set (cf_origins cf) \<and> (''Vary'', ''Origin'') \<in> set (co_headers (cors cf meth origin))"
  by (auto simp: cors_def split: if_splits)

end
