(* ===== verification/Broker.thy ===== *)
theory Broker
  imports GoFormat
begin

text \<open>
  \<^verbatim>\<open>api/internal/sse/broker.go\<close>: who watches which event, and what waits to be read by whom. A
  channel is a number with a buffer; sending on a closed channel and closing one twice panic in Go, so
  the operations that could return \<open>None\<close> for it. Main facts: neither ever happens, nobody is left in
  the broker after cancelling (\<open>broker_safe\<close>), and a broadcast reaches or has already woken everybody
  who watches (\<open>publish_wakes\<close>).
\<close>

section \<open>Channels and subscriptions\<close>

record message =
  ms_name :: string
  ms_data :: string

record channel =
  ch_event :: string
  ch_buffer :: "message list"
  ch_open :: bool
  ch_once :: bool

record broker =
  br_subs :: "(string \<times> nat list) list"
  br_channels :: "nat \<rightharpoonup> channel"
  br_next :: nat

definition subscriber_buffer :: nat where
  "subscriber_buffer = 8"

definition new_broker :: broker where
  "new_broker = \<lparr>br_subs = [], br_channels = Map.empty, br_next = 0\<rparr>"

definition watchers :: "broker \<Rightarrow> string \<Rightarrow> nat list" where
  "watchers b event = (case map_of (br_subs b) event of None \<Rightarrow> [] | Some cs \<Rightarrow> cs)"

definition subscribe :: "broker \<Rightarrow> string \<Rightarrow> nat \<times> broker" where
  "subscribe b event =
     (let ch = br_next b in
      (ch, \<lparr>br_subs = AList.update event (watchers b event @ [ch]) (br_subs b),
            br_channels = (br_channels b)(ch \<mapsto> \<lparr>ch_event = event, ch_buffer = [], ch_open = True, ch_once = False\<rparr>),
            br_next = Suc ch\<rparr>))"

text \<open>The function that \<^verbatim>\<open>Subscribe\<close> returns; \<^verbatim>\<open>once\<close> guards its body.\<close>

definition cancel :: "broker \<Rightarrow> nat \<Rightarrow> broker option" where
  "cancel b ch =
     (case br_channels b ch of
        None \<Rightarrow> Some b
      | Some c \<Rightarrow>
          if ch_once c then Some b
          else
            let subs = (case map_of (br_subs b) (ch_event c) of
                   None \<Rightarrow> br_subs b
                 | Some cs \<Rightarrow>
                     let rest = removeAll ch cs in
                     if rest = [] then AList.delete (ch_event c) (br_subs b)
                     else AList.update (ch_event c) rest (br_subs b))
            in if ch_open c
               then Some (b\<lparr>br_subs := subs, br_channels := (br_channels b)(ch \<mapsto> c\<lparr>ch_open := False, ch_once := True\<rparr>)\<rparr>)
               else None)"

text \<open>The \<^verbatim>\<open>select\<close> with a default: a full buffer drops the message.\<close>

definition offer :: "message \<Rightarrow> channel \<Rightarrow> channel option" where
  "offer m c =
     (if \<not> ch_open c then None
      else if length (ch_buffer c) < subscriber_buffer then Some (c\<lparr>ch_buffer := ch_buffer c @ [m]\<rparr>)
      else Some c)"

primrec offer_all :: "message \<Rightarrow> nat list \<Rightarrow> (nat \<rightharpoonup> channel) \<Rightarrow> (nat \<rightharpoonup> channel) option" where
  "offer_all m [] cs = Some cs"
| "offer_all m (ch # chs) cs =
     Option.bind (cs ch) (\<lambda>c. Option.bind (offer m c) (\<lambda>c'. offer_all m chs (cs(ch \<mapsto> c'))))"

definition publish_to :: "broker \<Rightarrow> string \<Rightarrow> message \<Rightarrow> broker option" where
  "publish_to b event m =
     map_option (\<lambda>cs. b\<lparr>br_channels := cs\<rparr>) (offer_all m (watchers b event) (br_channels b))"

definition subscribers :: "broker \<Rightarrow> string \<Rightarrow> nat" where
  "subscribers b event = length (watchers b event)"

definition events_watched :: "broker \<Rightarrow> nat" where
  "events_watched b = length (br_subs b)"

text \<open>Reading a channel: a message, the end of a closed one, or nothing yet.\<close>

datatype received = Got message | Ended | Nothing

definition receive :: "broker \<Rightarrow> nat \<Rightarrow> received \<times> broker" where
  "receive b ch =
     (case br_channels b ch of
        None \<Rightarrow> (Nothing, b)
      | Some c \<Rightarrow>
          (case ch_buffer c of
             m # ms \<Rightarrow> (Got m, b\<lparr>br_channels := (br_channels b)(ch \<mapsto> c\<lparr>ch_buffer := ms\<rparr>)\<rparr>)
           | [] \<Rightarrow> (if ch_open c then Nothing else Ended, b)))"

section \<open>The wire format\<close>

definition lf_char :: char where "lf_char = CHR 0x0A"

definition encode :: "message \<Rightarrow> string" where
  "encode m =
     (if ms_name m \<noteq> '''' then ''event: '' @ ms_name m @ [lf_char] else '''')
     @ concat (map (\<lambda>line. ''data: '' @ line @ [lf_char]) (split_on lf_char (if ms_data m = '''' then ''{}'' else ms_data m)))
     @ [lf_char]"

definition comment_line :: "string \<Rightarrow> string" where
  "comment_line txt = '': '' @ txt @ [lf_char, lf_char]"

definition retry_line :: "int \<Rightarrow> string" where
  "retry_line ms = ''retry: '' @ itoa ms @ [lf_char, lf_char]"

section \<open>Facts\<close>

text \<open>Every open channel is watched under its event, exactly once, and nothing else is.\<close>

definition broker_ok :: "broker \<Rightarrow> bool" where
  "broker_ok b \<longleftrightarrow> distinct (map fst (br_subs b))
     \<and> (\<forall>event cs. map_of (br_subs b) event = Some cs \<longrightarrow> cs \<noteq> [] \<and> distinct cs)
     \<and> (\<forall>event ch. ch \<in> set (watchers b event) \<longleftrightarrow> (\<exists>c. br_channels b ch = Some c \<and> ch_open c \<and> ch_event c = event))
     \<and> (\<forall>ch c. br_channels b ch = Some c \<longrightarrow> ch < br_next b \<and> ch_once c = (\<not> ch_open c) \<and> length (ch_buffer c) \<le> subscriber_buffer)"

lemma broker_ok_init: "broker_ok new_broker"
  by (simp add: broker_ok_def new_broker_def watchers_def)

lemma broker_okD:
  assumes "broker_ok b"
  shows "distinct (map fst (br_subs b))" "map_of (br_subs b) event = Some cs \<Longrightarrow> cs \<noteq> [] \<and> distinct cs"
    "ch \<in> set (watchers b event) \<longleftrightarrow> (\<exists>c. br_channels b ch = Some c \<and> ch_open c \<and> ch_event c = event)"
    "br_channels b ch = Some c \<Longrightarrow> ch < br_next b \<and> ch_once c = (\<not> ch_open c) \<and> length (ch_buffer c) \<le> subscriber_buffer"
  using assms unfolding broker_ok_def by blast+

lemma watchers_distinct: "broker_ok b \<Longrightarrow> distinct (watchers b event)"
  using broker_okD(2) [of b event] by (auto simp: watchers_def split: option.split)

lemma subscribe_ok:
  assumes "broker_ok b" "subscribe b event = (ch, b')"
  shows "broker_ok b'" "ch \<notin> dom (br_channels b)"
proof -
  have ch: "ch = br_next b" using assms(2) by (simp add: subscribe_def Let_def)
  then show fresh: "ch \<notin> dom (br_channels b)" using broker_okD(4) [OF assms(1)] by blast
  have w: "watchers b' e = (if e = event then watchers b event @ [ch] else watchers b e)" for e
    using assms(2) by (auto simp: subscribe_def Let_def watchers_def update_conv')
  have "map_of (br_subs b') e = Some cs \<Longrightarrow> cs \<noteq> [] \<and> distinct cs" for e cs
    using assms(2) broker_okD(2) [OF assms(1), of e cs] broker_okD(3) [OF assms(1)] watchers_distinct [OF assms(1), of event] fresh
    by (auto simp: subscribe_def Let_def update_conv' split: if_splits)
  moreover have "j \<in> set (watchers b' e) \<longleftrightarrow> (\<exists>c. br_channels b' j = Some c \<and> ch_open c \<and> ch_event c = e)" for j e
    using assms(2) broker_okD(3) [OF assms(1)] fresh unfolding w by (auto simp: subscribe_def Let_def split: if_splits)
  moreover have "br_channels b' j = Some c \<Longrightarrow> j < br_next b' \<and> ch_once c = (\<not> ch_open c) \<and> length (ch_buffer c) \<le> subscriber_buffer" for j c
    using assms(2) broker_okD(4) [OF assms(1), of j c] by (auto simp: subscribe_def Let_def subscriber_buffer_def split: if_splits)
  moreover have "distinct (map fst (br_subs b'))"
    using assms(2) broker_okD(1) [OF assms(1)] by (auto simp: subscribe_def Let_def distinct_update)
  ultimately show "broker_ok b'" unfolding broker_ok_def by blast
qed

lemma cancel_ok:
  assumes "broker_ok b"
  obtains b' where "cancel b ch = Some b'" "broker_ok b'" "watchers b' e = removeAll ch (watchers b e)"
    "\<And>j. j \<noteq> ch \<Longrightarrow> br_channels b' j = br_channels b j"
proof (cases "\<exists>c. br_channels b ch = Some c \<and> ch_open c")
  case False
  then have "cancel b ch = Some b" using broker_okD(4) [OF assms, of ch] by (auto simp: cancel_def split: option.split)
  moreover have "ch \<notin> set (watchers b e)" using False broker_okD(3) [OF assms] by blast
  ultimately show thesis using that assms by (simp add: removeAll_id)
next
  case True
  then obtain c where c: "br_channels b ch = Some c" "ch_open c" "\<not> ch_once c" using broker_okD(4) [OF assms] by blast
  then have "ch \<in> set (watchers b (ch_event c))" using broker_okD(3) [OF assms] by blast
  then obtain cs where cs: "map_of (br_subs b) (ch_event c) = Some cs" "ch \<in> set cs"
    by (cases "map_of (br_subs b) (ch_event c)") (simp_all add: watchers_def)
  define subs where "subs = (if removeAll ch cs = [] then AList.delete (ch_event c) (br_subs b) else AList.update (ch_event c) (removeAll ch cs) (br_subs b))"
  define b' where "b' = b\<lparr>br_subs := subs, br_channels := (br_channels b)(ch \<mapsto> c\<lparr>ch_open := False, ch_once := True\<rparr>)\<rparr>"
  have run: "cancel b ch = Some b'" using c cs by (simp add: cancel_def b'_def subs_def Let_def)
  have m: "map_of subs e' = (if e' = ch_event c then (if removeAll ch cs = [] then None else Some (removeAll ch cs)) else map_of (br_subs b) e')" for e'
    by (simp add: subs_def update_conv' delete_conv')
  have w: "watchers b' e' = (if e' = ch_event c then removeAll ch (watchers b e') else watchers b e')" for e'
    using cs by (simp add: watchers_def b'_def m)
  have other: "ch \<notin> set (watchers b e')" if "e' \<noteq> ch_event c" for e'
    using that c broker_okD(3) [OF assms] by auto
  then have "watchers b' e' = removeAll ch (watchers b e')" for e' by (simp add: w removeAll_id)
  moreover have "broker_ok b'"
  proof -
    have "j \<in> set (watchers b' e') \<longleftrightarrow> (\<exists>c. br_channels b' j = Some c \<and> ch_open c \<and> ch_event c = e')" for j e'
      using broker_okD(3) [OF assms] c other unfolding w by (auto simp: b'_def)
    moreover have "map_of (br_subs b') e' = Some xs \<Longrightarrow> xs \<noteq> [] \<and> distinct xs" for e' xs
      using broker_okD(2) [OF assms] cs(1) by (auto simp: b'_def m distinct_removeAll split: if_splits)
    moreover have "distinct (map fst (br_subs b'))"
      using broker_okD(1) [OF assms] by (simp add: b'_def subs_def distinct_update distinct_delete)
    moreover have "br_channels b' j = Some x \<Longrightarrow> j < br_next b' \<and> ch_once x = (\<not> ch_open x) \<and> length (ch_buffer x) \<le> subscriber_buffer" for j x
      using broker_okD(4) [OF assms] c(1) by (auto simp: b'_def split: if_splits)
    ultimately show ?thesis unfolding broker_ok_def by blast
  qed
  ultimately show thesis using that run by (simp add: b'_def)
qed

definition offered :: "message \<Rightarrow> channel \<Rightarrow> channel" where
  "offered m c = (if length (ch_buffer c) < subscriber_buffer then c\<lparr>ch_buffer := ch_buffer c @ [m]\<rparr> else c)"

lemma offer_all_Some:
  assumes "distinct chs" "\<forall>ch \<in> set chs. \<exists>c. cs ch = Some c \<and> ch_open c"
  shows "offer_all m chs cs = Some (\<lambda>ch. if ch \<in> set chs then map_option (offered m) (cs ch) else cs ch)"
  using assms
proof (induction chs arbitrary: cs)
  case (Cons ch chs)
  then obtain c where c: "cs ch = Some c" "ch_open c" by auto
  have "offer_all m chs (cs(ch \<mapsto> offered m c)) = Some (\<lambda>j. if j \<in> set chs then map_option (offered m) ((cs(ch \<mapsto> offered m c)) j) else (cs(ch \<mapsto> offered m c)) j)"
    using Cons.prems by (intro Cons.IH) auto
  moreover have "offer m c = Some (offered m c)" using c by (simp add: offer_def offered_def)
  ultimately show ?case using Cons.prems(1) c by (auto simp: fun_eq_iff)
qed simp

lemma offered_simps [simp]: "ch_open (offered m c) = ch_open c" "ch_event (offered m c) = ch_event c" "ch_once (offered m c) = ch_once c"
    "length (ch_buffer c) \<le> subscriber_buffer \<Longrightarrow> length (ch_buffer (offered m c)) \<le> subscriber_buffer"
  by (simp_all add: offered_def)

definition after_publish :: "broker \<Rightarrow> string \<Rightarrow> message \<Rightarrow> broker" where
  "after_publish b event m = b\<lparr>br_channels := (\<lambda>ch. if ch \<in> set (watchers b event) then map_option (offered m) (br_channels b ch) else br_channels b ch)\<rparr>"

lemma publish_ok:
  assumes "broker_ok b"
  shows "publish_to b event m = Some (after_publish b event m)" "broker_ok (after_publish b event m)"
proof -
  have "\<forall>ch \<in> set (watchers b event). \<exists>c. br_channels b ch = Some c \<and> ch_open c" using broker_okD(3) [OF assms] by blast
  from offer_all_Some [OF watchers_distinct [OF assms] this] show "publish_to b event m = Some (after_publish b event m)"
    by (simp add: publish_to_def after_publish_def)
  have "watchers (after_publish b event m) e = watchers b e" for e by (simp add: watchers_def after_publish_def)
  then show "broker_ok (after_publish b event m)"
    using assms unfolding broker_ok_def by (auto simp: after_publish_def split: if_splits)
qed

lemma receive_ok:
  assumes "broker_ok b" "receive b ch = (r, b')"
  shows "broker_ok b'" "watchers b' = watchers b"
proof -
  have "b' = b \<or> (\<exists>c m ms. br_channels b ch = Some c \<and> ch_buffer c = m # ms \<and> b' = b\<lparr>br_channels := (br_channels b)(ch \<mapsto> c\<lparr>ch_buffer := ms\<rparr>)\<rparr>)"
    using assms(2) by (auto simp: receive_def split: option.splits list.splits)
  then have "broker_ok b' \<and> watchers b' = watchers b"
  proof (elim disjE exE conjE)
    fix c m ms
    assume c: "br_channels b ch = Some c" "ch_buffer c = m # ms" "b' = b\<lparr>br_channels := (br_channels b)(ch \<mapsto> c\<lparr>ch_buffer := ms\<rparr>)\<rparr>"
    have w: "watchers b' = watchers b" by (simp add: fun_eq_iff watchers_def c(3))
    have "j \<in> set (watchers b' e) \<longleftrightarrow> (\<exists>x. br_channels b' j = Some x \<and> ch_open x \<and> ch_event x = e)" for j e
      unfolding w broker_okD(3) [OF assms(1)] using c by simp
    moreover have "br_channels b' j = Some x \<Longrightarrow> j < br_next b' \<and> ch_once x = (\<not> ch_open x) \<and> length (ch_buffer x) \<le> subscriber_buffer" for j x
      using broker_okD(4) [OF assms(1), of j] broker_okD(4) [OF assms(1), of ch c] c by (auto split: if_splits)
    moreover have "distinct (map fst (br_subs b'))" "map_of (br_subs b') e = Some cs \<Longrightarrow> cs \<noteq> [] \<and> distinct cs" for e cs
      using broker_okD(1,2) [OF assms(1)] by (simp_all add: c(3))
    ultimately have "broker_ok b'" unfolding broker_ok_def by blast
    then show ?thesis using w by blast
  qed (use assms(1) in simp)
  then show "broker_ok b'" "watchers b' = watchers b" by simp_all
qed

inductive broker_run :: "broker \<Rightarrow> bool" where
  idle: "broker_run new_broker"
| subscribed: "broker_run b \<Longrightarrow> subscribe b event = (ch, b') \<Longrightarrow> broker_run b'"
| cancelled: "broker_run b \<Longrightarrow> cancel b ch = Some b' \<Longrightarrow> broker_run b'"
| published: "broker_run b \<Longrightarrow> publish_to b event m = Some b' \<Longrightarrow> broker_run b'"
| was_read: "broker_run b \<Longrightarrow> receive b ch = (r, b') \<Longrightarrow> broker_run b'"

lemma run_ok: "broker_run b \<Longrightarrow> broker_ok b"
proof (induction rule: broker_run.induct)
  case (cancelled b ch b')
  from cancelled(3) show ?case by (rule cancel_ok [of b ch]) (use cancelled(2) in simp)
next
  case (published b event m b')
  then show ?case using publish_ok [OF published(3), of event m] by simp
qed (use broker_ok_init subscribe_ok receive_ok in blast)+


text \<open>
  Whatever subscribers, handlers and readers do, in any order: broadcasting never sends on a closed
  channel, cancelling never closes one twice and can be repeated, no buffer outgrows its bound, the open
  channels of an event are exactly those that are told about it, and when everybody has cancelled
  nothing is left in the broker.
\<close>

theorem broker_safe:
  assumes "broker_run b"
  shows "(\<forall>event m. publish_to b event m \<noteq> None) \<and> (\<forall>ch. cancel b ch \<noteq> None \<and> Option.bind (cancel b ch) (\<lambda>b'. cancel b' ch) = cancel b ch)
    \<and> (\<forall>ch c. br_channels b ch = Some c \<longrightarrow> length (ch_buffer c) \<le> 8)
    \<and> (\<forall>event. distinct (watchers b event) \<and> set (watchers b event) = {ch. \<exists>c. br_channels b ch = Some c \<and> ch_open c \<and> ch_event c = event})
    \<and> ((\<forall>ch c. br_channels b ch = Some c \<longrightarrow> \<not> ch_open c) \<longrightarrow> events_watched b = 0)"
proof -
  have ok: "broker_ok b" using run_ok [OF assms] .
  have twice: "cancel b ch \<noteq> None \<and> Option.bind (cancel b ch) (\<lambda>b'. cancel b' ch) = cancel b ch" for ch
  proof (rule cancel_ok [OF ok, of ch "''''"])
    fix b'
    assume run: "cancel b ch = Some b'"
    then have "cancel b' ch = Some b'" by (auto simp: cancel_def Let_def split: option.splits if_splits)
    then show ?thesis using run by simp
  qed
  have none: "events_watched b = 0" if closed: "\<forall>ch c. br_channels b ch = Some c \<longrightarrow> \<not> ch_open c"
  proof (rule ccontr)
    assume "events_watched b \<noteq> 0"
    then obtain event cs rest where "br_subs b = (event, cs) # rest"
      unfolding events_watched_def by (metis length_0_conv neq_Nil_conv surj_pair)
    then have cs: "map_of (br_subs b) event = Some cs" by simp
    then have "cs \<noteq> []" "watchers b event = cs" using broker_okD(2) [OF ok] by (auto simp: watchers_def)
    then have "hd cs \<in> set (watchers b event)" by simp
    then show False using closed broker_okD(3) [OF ok] by blast
  qed
  have "length (ch_buffer c) \<le> 8" if "br_channels b ch = Some c" for ch c
    using broker_okD(4) [OF ok that] by (simp add: subscriber_buffer_def)
  moreover have "set (watchers b event) = {ch. \<exists>c. br_channels b ch = Some c \<and> ch_open c \<and> ch_event c = event}" for event
    using broker_okD(3) [OF ok] by blast
  ultimately show ?thesis
    using twice none publish_ok(1) [OF ok] watchers_distinct [OF ok] by (intro conjI allI impI) auto
qed

text \<open>
  A broadcast wakes everybody who watches the event and nobody else. Each watcher has something unread
  afterwards: the message behind what was unread before, or, when the buffer is full, eight earlier ones;
  so a client that refetches on whatever it reads sees a state no older than the broadcast.
\<close>

theorem publish_wakes:
  assumes "broker_run b" "publish_to b event m = Some b'"
  shows "\<forall>ch. if ch \<in> set (watchers b event)
      then \<exists>c c'. br_channels b ch = Some c \<and> br_channels b' ch = Some c' \<and> ch_open c' \<and> ch_buffer c' \<noteq> []
        \<and> ch_buffer c' = ch_buffer c @ (if length (ch_buffer c) < 8 then [m] else [])
      else br_channels b' ch = br_channels b ch"
proof
  fix ch
  have ok: "broker_ok b" using run_ok [OF assms(1)] .
  have b': "b' = after_publish b event m" using publish_ok(1) [OF ok] assms(2) by simp
  show "if ch \<in> set (watchers b event)
      then \<exists>c c'. br_channels b ch = Some c \<and> br_channels b' ch = Some c' \<and> ch_open c' \<and> ch_buffer c' \<noteq> []
        \<and> ch_buffer c' = ch_buffer c @ (if length (ch_buffer c) < 8 then [m] else [])
      else br_channels b' ch = br_channels b ch"
  proof (cases "ch \<in> set (watchers b event)")
    case True
    then obtain c where c: "br_channels b ch = Some c" "ch_open c" using broker_okD(3) [OF ok] by blast
    have "br_channels b' ch = Some (offered m c)" using True c by (simp add: b' after_publish_def)
    then show ?thesis using True c by (auto simp: offered_def subscriber_buffer_def)
  qed (simp add: b' after_publish_def)
qed

lemma demo_broker: "broker_run (snd (subscribe new_broker ''e''))"
  by (rule subscribed [OF idle]) (simp add: subscribe_def Let_def)

lemma broker_safe_witness:
  "publish_to (snd (subscribe new_broker ''e'')) ''e'' \<lparr>ms_name = ''decided'', ms_data = ''x''\<rparr> \<noteq> None"
  using broker_safe [OF demo_broker] by blast

lemma publish_wakes_witness:
  "\<exists>b' c. publish_to (snd (subscribe new_broker ''e'')) ''e'' \<lparr>ms_name = ''decided'', ms_data = ''x''\<rparr> = Some b'
    \<and> br_channels b' 0 = Some c \<and> ch_buffer c \<noteq> []"
proof -
  obtain b' where b': "publish_to (snd (subscribe new_broker ''e'')) ''e'' \<lparr>ms_name = ''decided'', ms_data = ''x''\<rparr> = Some b'"
    using publish_ok(1) [OF run_ok [OF demo_broker]] by blast
  have "0 \<in> set (watchers (snd (subscribe new_broker ''e'')) ''e'')"
    by (simp add: subscribe_def watchers_def new_broker_def Let_def)
  then show ?thesis using publish_wakes [OF demo_broker b'] b' by (metis (no_types, lifting))
qed

section \<open>Reading the wire format\<close>

text \<open>What a client reads out of one record: the fields of its lines, data lines joined by line ends.\<close>

definition field_value :: "string \<Rightarrow> string \<Rightarrow> string option" where
  "field_value name line =
     (if take (length name + 2) line = name @ '': '' then Some (drop (length name + 2) line) else None)"

definition decode_record :: "string \<Rightarrow> message" where
  "decode_record s =
     (let rows = split_on lf_char s in
      \<lparr>ms_name = (case List.map_filter (field_value ''event'') rows of [] \<Rightarrow> '''' | n # _ \<Rightarrow> n),
       ms_data = join [lf_char] (List.map_filter (field_value ''data'') rows)\<rparr>)"

lemma join_split: "join [c] (split_on c s) = s"
proof (induction s)
  case (Cons x s)
  obtain p ps where p: "split_on c s = p # ps" by (cases "split_on c s") simp_all
  then show ?case using Cons by (auto split: if_splits)
qed simp

lemma encode_rows:
  assumes "lf_char \<notin> set (ms_name m)"
  shows "split_on lf_char (encode m) = (if ms_name m \<noteq> '''' then [''event: '' @ ms_name m] else [])
    @ map (\<lambda>line. ''data: '' @ line) (split_on lf_char (if ms_data m = '''' then ''{}'' else ms_data m)) @ [[], []]"
proof -
  let ?data = "map (\<lambda>line. ''data: '' @ line) (split_on lf_char (if ms_data m = '''' then ''{}'' else ms_data m))"
  let ?rows = "(if ms_name m \<noteq> '''' then [''event: '' @ ms_name m] else []) @ ?data @ [[]]"
  have "encode m = concat (map (\<lambda>p. p @ [lf_char]) ?rows)"
    by (simp add: encode_def comp_def)
  moreover have "\<forall>p \<in> set ?rows. lf_char \<notin> set p"
    using assms split_on_none [of _ lf_char] by (auto simp: lf_char_def)
  ultimately show ?thesis using split_on_concat [of ?rows lf_char] by simp
qed

text \<open>
  What is written on a stream is read back. A record with a name without a line end gives the client that
  name and the data, or an empty object where there is none, line ends in the data included.
\<close>

theorem encode_reads_back:
  assumes "lf_char \<notin> set (ms_name m)"
  shows "decode_record (encode m) = \<lparr>ms_name = ms_name m, ms_data = (if ms_data m = '''' then ''{}'' else ms_data m)\<rparr>"
proof -
  have data: "List.map_filter (field_value ''data'') (map (\<lambda>line. ''data: '' @ line) ls) = ls"
    "List.map_filter (field_value ''event'') (map (\<lambda>line. ''data: '' @ line) ls) = []" for ls
    by (induction ls) (simp_all add: List.map_filter_def field_value_def)
  have blank: "field_value name [] = None" for name by (simp add: field_value_def)
  have mf: "List.map_filter f (xs @ ys) = List.map_filter f xs @ List.map_filter f ys" for f :: "string \<Rightarrow> string option" and xs ys
    by (simp add: List.map_filter_def)
  have head: "List.map_filter (field_value ''event'') (if n \<noteq> '''' then [''event: '' @ n] else []) = (if n \<noteq> '''' then [n] else [])"
    "List.map_filter (field_value ''data'') (if n \<noteq> '''' then [''event: '' @ n] else []) = []" for n
    by (simp_all add: List.map_filter_def field_value_def)
  have tail: "List.map_filter (field_value name) [[], []] = []" for name by (simp add: List.map_filter_def blank)
  define d where "d = (if ms_data m = '''' then ''{}'' else ms_data m)"
  have "List.map_filter (field_value ''event'') (split_on lf_char (encode m)) = (if ms_name m \<noteq> '''' then [ms_name m] else [])"
    "List.map_filter (field_value ''data'') (split_on lf_char (encode m)) = split_on lf_char d"
    unfolding encode_rows [OF assms] d_def [symmetric] mf data head tail append_Nil append_Nil2 by (rule refl)+
  then show ?thesis by (simp add: decode_record_def Let_def join_split d_def)
qed

lemma encode_reads_back_witness:
  "decode_record (encode \<lparr>ms_name = ''decided'', ms_data = [CHR ''a'', lf_char, CHR ''b'']\<rparr>)
    = \<lparr>ms_name = ''decided'', ms_data = [CHR ''a'', lf_char, CHR ''b'']\<rparr>"
  using encode_reads_back [of "\<lparr>ms_name = ''decided'', ms_data = [CHR ''a'', lf_char, CHR ''b'']\<rparr>"] by (simp add: lf_char_def)

end
