(* ===== verification/Streams.thy ===== *)
theory Streams
  imports Broker Api
begin

text \<open>
  \<^verbatim>\<open>api/internal/server/stream.go\<close>: the connections that are held open and written to. A
  connection's handler takes one turn for every round of its \<^verbatim>\<open>select\<close>; the turns of all
  connections and the broadcasts of the other handlers interleave. Whether a write succeeds is an
  argument of the turn. Main fact: the broker knows exactly the connections that are open
  (\<open>streams_balanced\<close>).
\<close>

definition event_ping :: string where "event_ping = ''ping''"

definition heartbeat_interval :: duration where "heartbeat_interval = 15 * second"
definition reconnect_delay :: int where "reconnect_delay = 3000"

record stream =
  st_event :: string
  st_channel :: nat
  st_sent :: "string list"
  st_live :: bool

datatype turn = Hangup | Message | Heartbeat

text \<open>What the handler checks before it answers: the event exists and the writer can be flushed.\<close>

definition admit_stream :: "string \<Rightarrow> bool \<Rightarrow> string step" where
  "admit_stream slug flushes =
     call (event_by_slug slug) event_lookup_error (\<lambda>ev.
     if \<not> flushes then refuse 500 StreamingUnavailable else ret (se_id ev))"

text \<open>The deferred \<^verbatim>\<open>cancel\<close>, on every way out.\<close>

definition leave :: "stream \<Rightarrow> broker \<Rightarrow> (stream \<times> broker) option" where
  "leave c b = map_option (\<lambda>b'. (c\<lparr>st_live := False\<rparr>, b')) (cancel b (st_channel c))"

text \<open>Write a chunk, and leave when the client has gone; \<open>k\<close> is what follows.\<close>

definition write_chunk :: "bool \<Rightarrow> string \<Rightarrow> stream \<Rightarrow> broker \<Rightarrow> (stream \<Rightarrow> broker \<Rightarrow> (stream \<times> broker) option) \<Rightarrow> (stream \<times> broker) option" where
  "write_chunk ok chunk c b k = (if ok then k (c\<lparr>st_sent := st_sent c @ [chunk]\<rparr>) b else leave c b)"

definition open_stream :: "bool \<Rightarrow> bool \<Rightarrow> string \<Rightarrow> broker \<Rightarrow> (stream \<times> broker) option" where
  "open_stream ok1 ok2 event b =
     (let (ch, b') = subscribe b event; c = \<lparr>st_event = event, st_channel = ch, st_sent = [], st_live = True\<rparr> in
      write_chunk ok1 (retry_line reconnect_delay) c b' (\<lambda>c b.
      write_chunk ok2 (comment_line ''connected'') c b (\<lambda>c b. Some (c, b))))"

definition stream_turn :: "turn \<Rightarrow> bool \<Rightarrow> stream \<Rightarrow> broker \<Rightarrow> (stream \<times> broker) option" where
  "stream_turn t ok c b =
     (case t of
        Hangup \<Rightarrow> leave c b
      | Message \<Rightarrow> (case receive b (st_channel c) of
          (Ended, b') \<Rightarrow> leave c b'
        | (Got m, b') \<Rightarrow> write_chunk ok (encode m) c b' (\<lambda>c b. Some (c, b))
        | (Nothing, b') \<Rightarrow> Some (c, b'))
      | Heartbeat \<Rightarrow> write_chunk ok (encode \<lparr>ms_name = event_ping, ms_data = ''''\<rparr>) c b (\<lambda>c b. Some (c, b)))"

definition broadcast :: "broker option \<Rightarrow> string \<Rightarrow> string \<Rightarrow> broker option option" where
  "broadcast b event name =
     (case b of None \<Rightarrow> Some None
      | Some b \<Rightarrow> map_option Some (publish_to b event \<lparr>ms_name = name, ms_data = ''''\<rparr>))"

section \<open>All connections together\<close>

record hub =
  hu_broker :: broker
  hu_streams :: "nat \<rightharpoonup> stream"

definition empty_hub :: hub where
  "empty_hub = \<lparr>hu_broker = new_broker, hu_streams = Map.empty\<rparr>"

inductive hub_step :: "hub \<Rightarrow> hub \<Rightarrow> bool" where
  opened: "hu_streams h i = None \<Longrightarrow> open_stream ok1 ok2 event (hu_broker h) = Some (c, b)
    \<Longrightarrow> hub_step h \<lparr>hu_broker = b, hu_streams = (hu_streams h)(i \<mapsto> c)\<rparr>"
| turned: "hu_streams h i = Some c \<Longrightarrow> st_live c \<Longrightarrow> stream_turn t ok c (hu_broker h) = Some (c', b)
    \<Longrightarrow> hub_step h \<lparr>hu_broker = b, hu_streams = (hu_streams h)(i \<mapsto> c')\<rparr>"
| told: "broadcast (Some (hu_broker h)) event name = Some (Some b) \<Longrightarrow> hub_step h (h\<lparr>hu_broker := b\<rparr>)"

section \<open>Facts\<close>

lemma nobody_watched:
  assumes "broker_ok b" "\<And>event. watchers b event = []"
  shows "events_watched b = 0"
proof (rule ccontr)
  assume "events_watched b \<noteq> 0"
  then obtain event cs rest where "br_subs b = (event, cs) # rest"
    unfolding events_watched_def by (metis length_0_conv neq_Nil_conv surj_pair)
  then have "map_of (br_subs b) event = Some cs" by simp
  then show False using broker_okD(2) [OF assms(1)] assms(2) [of event] by (auto simp: watchers_def)
qed

definition live_channels :: "hub \<Rightarrow> string \<Rightarrow> nat set" where
  "live_channels h event = {ch. \<exists>i c. hu_streams h i = Some c \<and> st_live c \<and> st_event c = event \<and> st_channel c = ch}"

text \<open>The invariant: the watchers are the live connections, each with a channel of its own.\<close>

definition hub_ok :: "hub \<Rightarrow> bool" where
  "hub_ok h \<longleftrightarrow> broker_ok (hu_broker h)
     \<and> (\<forall>event. set (watchers (hu_broker h) event) = live_channels h event)
     \<and> (\<forall>i j c d. hu_streams h i = Some c \<and> hu_streams h j = Some d \<and> st_channel c = st_channel d \<longrightarrow> i = j)
     \<and> (\<forall>i c. hu_streams h i = Some c \<longrightarrow> st_channel c \<in> dom (br_channels (hu_broker h)))"

lemma hub_okD:
  assumes "hub_ok h"
  shows "broker_ok (hu_broker h)" "set (watchers (hu_broker h) event) = live_channels h event"
    "hu_streams h i = Some c \<Longrightarrow> hu_streams h j = Some d \<Longrightarrow> st_channel c = st_channel d \<Longrightarrow> i = j"
    "hu_streams h i = Some c \<Longrightarrow> st_channel c \<in> dom (br_channels (hu_broker h))"
  using assms unfolding hub_ok_def by blast+

lemma cancel_dom:
  "cancel b ch = Some b' \<Longrightarrow> dom (br_channels b) \<subseteq> dom (br_channels b')"
  by (auto simp: cancel_def Let_def split: option.splits if_splits)

lemma receive_dom: "receive b ch = (r, b') \<Longrightarrow> dom (br_channels b') = dom (br_channels b)"
  by (auto simp: receive_def dom_def split: option.splits list.splits if_splits)

text \<open>What one turn does to the broker, whatever branch it takes.\<close>

definition handled :: "stream \<Rightarrow> broker \<Rightarrow> stream \<Rightarrow> broker \<Rightarrow> bool" where
  "handled c b c' b' \<longleftrightarrow> broker_ok b' \<and> st_event c' = st_event c \<and> st_channel c' = st_channel c
     \<and> dom (br_channels b) \<subseteq> dom (br_channels b')
     \<and> (\<forall>event. set (watchers b' event) = (if st_live c' then set (watchers b event) else set (watchers b event) - {st_channel c}))"

lemma leave_handled:
  assumes "broker_ok b"
  shows "\<exists>b'. leave c b = Some (c\<lparr>st_live := False\<rparr>, b') \<and> handled c b (c\<lparr>st_live := False\<rparr>) b'"
proof -
  have w: "\<forall>e. watchers b' e = removeAll (st_channel c) (watchers b e)" if "cancel b (st_channel c) = Some b'" for b'
  proof
    fix e
    show "watchers b' e = removeAll (st_channel c) (watchers b e)"
      by (rule cancel_ok [OF assms, of "st_channel c" e]) (use that in simp)
  qed
  obtain b' where b': "cancel b (st_channel c) = Some b'" "broker_ok b'"
    using cancel_ok [OF assms, of "st_channel c"] by metis
  then show ?thesis using w [OF b'(1)] cancel_dom [OF b'(1)] by (auto simp: leave_def handled_def)
qed

lemma handled_refl: "broker_ok b \<Longrightarrow> st_live c' \<Longrightarrow> st_event c' = st_event c \<Longrightarrow> st_channel c' = st_channel c \<Longrightarrow> handled c b c' b"
  by (simp add: handled_def)

lemma write_handled:
  assumes "broker_ok b" "st_live c"
  shows "\<exists>c' b'. write_chunk ok chunk c b (\<lambda>c b. Some (c, b)) = Some (c', b') \<and> handled c b c' b'"
proof (cases ok)
  case True
  then show ?thesis using assms by (auto simp: write_chunk_def intro!: handled_refl)
next
  case False
  then show ?thesis using leave_handled [OF assms(1), of c] by (simp add: write_chunk_def) blast
qed

lemma handled_same:
  assumes "handled c b1 c' b'" "watchers b1 = watchers b" "dom (br_channels b1) = dom (br_channels b)"
  shows "handled c b c' b'"
  using assms by (simp add: handled_def)

lemma turn_handled:
  assumes "broker_ok b" "st_live c"
  shows "\<exists>c' b'. stream_turn t ok c b = Some (c', b') \<and> handled c b c' b'"
proof (cases t)
  case Hangup
  then show ?thesis using leave_handled [OF assms(1), of c] by (simp add: stream_turn_def) blast
next
  case Heartbeat
  then show ?thesis using write_handled [OF assms] by (simp add: stream_turn_def)
next
  case Message
  obtain r b1 where r: "receive b (st_channel c) = (r, b1)" by (cases "receive b (st_channel c)")
  note ok = receive_ok [OF assms(1) r] and same = receive_dom [OF r]
  have "\<exists>c' b'. stream_turn t ok c b = Some (c', b') \<and> handled c b1 c' b'"
  proof (cases r)
    case (Got m)
    then show ?thesis using write_handled [OF ok(1) assms(2)] r Message by (simp add: stream_turn_def)
  next
    case Ended
    then show ?thesis using leave_handled [OF ok(1), of c] r Message by (simp add: stream_turn_def) metis
  next
    case Nothing
    then show ?thesis using handled_refl [OF ok(1) assms(2)] r Message by (auto simp: stream_turn_def)
  qed
  then show ?thesis using handled_same [OF _ ok(2) same] by blast
qed

lemma handled_sent: "handled (c\<lparr>st_sent := x\<rparr>) b c' b' = handled c b c' b'"
  by (simp add: handled_def)

text \<open>A fresh connection before its greeting is written.\<close>

lemma open_handled:
  assumes "broker_ok b"
  shows "\<exists>ch b1 c' b'. subscribe b event = (ch, b1) \<and> open_stream ok1 ok2 event b = Some (c', b')
    \<and> handled \<lparr>st_event = event, st_channel = ch, st_sent = [], st_live = True\<rparr> b1 c' b'"
proof -
  obtain ch b1 where s: "subscribe b event = (ch, b1)" by (cases "subscribe b event")
  note ok = subscribe_ok(1) [OF assms s]
  let ?c = "\<lparr>st_event = event, st_channel = ch, st_sent = [], st_live = True\<rparr>"
  let ?c1 = "?c\<lparr>st_sent := [retry_line reconnect_delay]\<rparr>"
  have "\<exists>c' b'. open_stream ok1 ok2 event b = Some (c', b') \<and> handled ?c b1 c' b'"
  proof (cases ok1)
    case False
    then show ?thesis using leave_handled [OF ok, of ?c] s by (simp add: open_stream_def write_chunk_def) metis
  next
    case True
    obtain c' b' where w: "write_chunk ok2 (comment_line ''connected'') ?c1 b1 (\<lambda>c b. Some (c, b)) = Some (c', b')" "handled ?c1 b1 c' b'"
      using write_handled [OF ok, of ?c1 ok2 "comment_line ''connected''"] by auto
    then have "handled ?c b1 c' b'" using handled_sent [of "[retry_line reconnect_delay]" ?c] by simp
    moreover have "open_stream ok1 ok2 event b = Some (c', b')" using w(1) True s by (cases ok2) (simp_all add: open_stream_def write_chunk_def Let_def)
    ultimately show ?thesis by blast
  qed
  then show ?thesis using s by blast
qed

lemma hub_ok_set:
  assumes "hub_ok h" "hu_streams h i = Some c" "st_live c" "handled c (hu_broker h) c' b"
  shows "hub_ok \<lparr>hu_broker = b, hu_streams = (hu_streams h)(i \<mapsto> c')\<rparr>"
proof -
  note D = hub_okD [OF assms(1)] and H = assms(4) [unfolded handled_def]
  let ?h = "\<lparr>hu_broker = b, hu_streams = (hu_streams h)(i \<mapsto> c')\<rparr>"
  have own: "(\<exists>c. hu_streams ?h j = Some c \<and> st_live c \<and> st_event c = event \<and> st_channel c = ch) \<longleftrightarrow>
      (\<exists>c. hu_streams h j = Some c \<and> st_live c \<and> st_event c = event \<and> st_channel c = ch) \<and> (st_live c' \<or> ch \<noteq> st_channel c)" for j event ch
    using D(3) assms(2,3) H by (cases "j = i") auto
  then have "live_channels ?h event = (if st_live c' then live_channels h event else live_channels h event - {st_channel c})" for event
    unfolding live_channels_def by auto
  then have "set (watchers b event) = live_channels ?h event" for event using H D(2) by simp
  moreover have "k = j" if two: "hu_streams ?h k = Some x" "hu_streams ?h j = Some y" "st_channel x = st_channel y" for k j x y
  proof -
    obtain x' where "hu_streams h k = Some x'" "st_channel x' = st_channel x"
      using two(1) assms(2) H by (cases "k = i") auto
    moreover obtain y' where "hu_streams h j = Some y'" "st_channel y' = st_channel y"
      using two(2) assms(2) H by (cases "j = i") auto
    ultimately show ?thesis using D(3) two(3) by metis
  qed
  moreover have "st_channel x \<in> dom (br_channels b)" if kx: "hu_streams ?h k = Some x" for k x
  proof -
    obtain y where y: "hu_streams h k = Some y" "st_channel y = st_channel x"
      using kx assms(2) H by (cases "k = i") auto
    show ?thesis using D(4) [OF y(1)] y(2) H by auto
  qed
  ultimately show ?thesis using H unfolding hub_ok_def by (simp only: hub.simps) blast
qed

lemma ex_update_fresh:
  assumes "f i = None"
  shows "(\<exists>j c. (f(i \<mapsto> x)) j = Some c \<and> Q c) \<longleftrightarrow> Q x \<or> (\<exists>j c. f j = Some c \<and> Q c)"
proof -
  have "f j = Some c \<Longrightarrow> (f(i \<mapsto> x)) j = Some c" for j c using assms by auto
  then show ?thesis by (metis fun_upd_same fun_upd_other option.inject)
qed

lemma hub_step_ok:
  assumes "hub_step h h'" "hub_ok h"
  shows "hub_ok h'"
  using assms
proof (induction rule: hub_step.induct)
  case (turned h i c t ok c' b)
  then show ?case using turn_handled [OF hub_okD(1) turned(2), of h t ok] hub_ok_set by fastforce
next
  case (told h event name b)
  then obtain m where "publish_to (hu_broker h) event m = Some b" by (auto simp: broadcast_def)
  then have "b = after_publish (hu_broker h) event m" "broker_ok b" using publish_ok [OF hub_okD(1) [OF told(2)]] by auto
  moreover have "watchers (after_publish (hu_broker h) event m) = watchers (hu_broker h)"
    "dom (br_channels (after_publish (hu_broker h) event m)) = dom (br_channels (hu_broker h))"
    by (auto simp: fun_eq_iff watchers_def after_publish_def dom_def split: if_splits)
  ultimately show ?case using told(2) unfolding hub_ok_def live_channels_def by simp
next
  case (opened h i ok1 ok2 event c b)
  note D = hub_okD [OF opened(3)]
  obtain ch b1 where s: "subscribe (hu_broker h) event = (ch, b1)"
    "handled \<lparr>st_event = event, st_channel = ch, st_sent = [], st_live = True\<rparr> b1 c b"
    using open_handled [OF D(1), of event ok1 ok2] opened(2) by auto
  let ?c = "\<lparr>st_event = event, st_channel = ch, st_sent = [], st_live = True\<rparr>"
  let ?h = "\<lparr>hu_broker = b1, hu_streams = (hu_streams h)(i \<mapsto> ?c)\<rparr>"
  note fresh = subscribe_ok(2) [OF D(1) s(1)] and ok = subscribe_ok(1) [OF D(1) s(1)]
  have ch: "dom (br_channels b1) = insert ch (dom (br_channels (hu_broker h)))"
    "set (watchers b1 e) = (if e = event then insert ch (set (watchers (hu_broker h) e)) else set (watchers (hu_broker h) e))" for e
    using s(1) by (auto simp: subscribe_def Let_def watchers_def update_conv')
  have "live_channels ?h e = (if e = event then insert ch (live_channels h e) else live_channels h e)" for e
    unfolding live_channels_def hub.simps ex_update_fresh [where f = "hu_streams h" and i = i, OF opened(1)] by auto
  then have "set (watchers b1 e) = live_channels ?h e" for e using D(2) ch(2) by simp
  moreover have other: "st_channel x \<noteq> ch" "ch \<noteq> st_channel x" if "hu_streams h k = Some x" for k x using D(4) [OF that] fresh by auto
  moreover have "k = j" if "hu_streams ?h k = Some x" "hu_streams ?h j = Some y" "st_channel x = st_channel y" for k j x y
    using that D(3) other by (auto split: if_splits)
  moreover have "st_channel x \<in> dom (br_channels b1)" if "hu_streams ?h k = Some x" for k x
    using that D(4) ch(1) by (auto split: if_splits)
  ultimately have "hub_ok ?h" using ok unfolding hub_ok_def hub.simps by blast
  from hub_ok_set [OF this, of i ?c c b] s(2) show ?case by simp
qed

inductive hub_run :: "hub \<Rightarrow> bool" where
  started: "hub_run empty_hub"
| stepped: "hub_run h \<Longrightarrow> hub_step h h' \<Longrightarrow> hub_run h'"

lemma hub_run_ok: "hub_run h \<Longrightarrow> hub_ok h"
proof (induction rule: hub_run.induct)
  case started
  show ?case using broker_ok_init by (simp add: hub_ok_def empty_hub_def live_channels_def) (simp add: new_broker_def watchers_def)
qed (rule hub_step_ok)

text \<open>
  C13: However connections come and go, in any interleaving of their turns with each other and with
  broadcasts, the broker knows exactly the connections that are open: each once, under its event, with a
  channel no other has. No turn and no broadcast panics, and once every connection has ended nothing is
  left in the broker.
\<close>

theorem streams_balanced:
  assumes "hub_run h"
  shows "(\<forall>event. distinct (watchers (hu_broker h) event)
        \<and> set (watchers (hu_broker h) event) = {st_channel c |c i. hu_streams h i = Some c \<and> st_live c \<and> st_event c = event})
    \<and> (\<forall>i j c d. hu_streams h i = Some c \<and> hu_streams h j = Some d \<and> i \<noteq> j \<longrightarrow> st_channel c \<noteq> st_channel d)
    \<and> (\<forall>i c t ok. hu_streams h i = Some c \<and> st_live c \<longrightarrow> stream_turn t ok c (hu_broker h) \<noteq> None)
    \<and> (\<forall>event name. broadcast (Some (hu_broker h)) event name \<noteq> None)
    \<and> ((\<forall>i c. hu_streams h i = Some c \<longrightarrow> \<not> st_live c) \<longrightarrow> events_watched (hu_broker h) = 0)"
proof -
  have ok: "hub_ok h" by (rule hub_run_ok [OF assms])
  note D = hub_okD [OF ok]
  have none: "events_watched (hu_broker h) = 0" if "\<forall>i c. hu_streams h i = Some c \<longrightarrow> \<not> st_live c"
  proof -
    have "live_channels h event = {}" for event using that by (auto simp: live_channels_def)
    then have "watchers (hu_broker h) event = []" for event using D(2) [of event] by simp
    then show ?thesis by (rule nobody_watched [OF D(1)])
  qed
  have who: "set (watchers (hu_broker h) event) = {st_channel c |c i. hu_streams h i = Some c \<and> st_live c \<and> st_event c = event}" for event
    using D(2) [of event] by (auto simp: live_channels_def)
  have told: "broadcast (Some (hu_broker h)) event name \<noteq> None" for event name
    using publish_ok(1) [OF D(1)] by (simp add: broadcast_def)
  have turns: "stream_turn t ok c (hu_broker h) \<noteq> None" if "st_live c" for t ok c
    using turn_handled [OF D(1) that] by fastforce
  show ?thesis
  proof (intro conjI)
    show "\<forall>event. distinct (watchers (hu_broker h) event)
        \<and> set (watchers (hu_broker h) event) = {st_channel c |c i. hu_streams h i = Some c \<and> st_live c \<and> st_event c = event}"
      using who watchers_distinct [OF D(1)] by simp
    show "\<forall>i j c d. hu_streams h i = Some c \<and> hu_streams h j = Some d \<and> i \<noteq> j \<longrightarrow> st_channel c \<noteq> st_channel d"
      using D(3) by metis
  qed (use told turns none in simp_all)
qed


lemma streams_balanced_witness:
  "\<exists>h c. hub_run h \<and> hu_streams h 0 = Some c \<and> st_live c \<and> st_channel c \<in> set (watchers (hu_broker h) ''e'')
     \<and> stream_turn Hangup True c (hu_broker h) \<noteq> None"
proof -
  obtain c b where o1: "open_stream True True ''e'' new_broker = Some (c, b)" "st_live c" "st_event c = ''e''"
    by (simp add: open_stream_def write_chunk_def subscribe_def Let_def)
  let ?h = "\<lparr>hu_broker = b, hu_streams = (hu_streams empty_hub)(0 \<mapsto> c)\<rparr>"
  have run: "hub_run ?h"
    by (rule stepped [OF started], rule opened [of _ _ True True "''e''"]) (use o1 in \<open>simp_all add: empty_hub_def\<close>)
  have here: "hu_streams ?h 0 = Some c" by simp
  note all = streams_balanced [OF run]
  have "set (watchers (hu_broker ?h) ''e'') = {st_channel c |c i. hu_streams ?h i = Some c \<and> st_live c \<and> st_event c = ''e''}"
    by (rule all [THEN conjunct1, THEN spec, THEN conjunct2])
  then have "st_channel c \<in> set (watchers (hu_broker ?h) ''e'')" using here o1(2,3) by blast
  moreover have "stream_turn Hangup True c (hu_broker ?h) \<noteq> None"
    by (rule all [THEN conjunct2, THEN conjunct2, THEN conjunct1, rule_format, OF conjI [OF here o1(2)]])
  ultimately show ?thesis using run here o1(2) by blast
qed

end
