(* ===== verification/Service.thy ===== *)
theory Service
  imports GroupHandlerFacts DecideFacts CalendarHandlerFacts RateLimit Config Streams
begin

text \<open>
  The whole server: the route table of \<^verbatim>\<open>api/internal/server/server.go\<close>, the rate limit of
  \<^verbatim>\<open>ratelimit.go\<close> with the key of \<^verbatim>\<open>clientip.go\<close>, the open connections of
  \<^verbatim>\<open>stream.go\<close>, the two sweepers of \<^verbatim>\<open>cmd/api/purge.go\<close>, and all of them interleaved. A
  request is answered in one step; what it publishes reaches the broker within the step.

  Main facts: every state the server can reach keeps the integrity of the database and the bounds of the
  cache, the limiter and the broker (\<open>service_invariant\<close>); a request changes the tables only with the
  credential its route asks for, or on a limited route when the limiter lets it through
  (\<open>writes_need_credential\<close>); the key of a caller does not depend on what the caller put left of the
  proxy's entry (\<open>client_key_unforgeable\<close>); and a decision wakes every open connection of its event
  (\<open>decision_wakes\<close>).
\<close>

section \<open>The caller\<close>

record http_request =
  rq_method :: string
  rq_remote :: string
  rq_origin :: string
  rq_headers :: "string \<Rightarrow> string"

primrec client_ip :: "string list \<Rightarrow> http_request \<Rightarrow> string" where
  "client_ip [] rq = (case socket_host (rq_remote rq) of None \<Rightarrow> rq_remote rq | Some peer \<Rightarrow> peer)"
| "client_ip (h # hs) rq =
     (let v = trim_space (rq_headers rq h) in
      if v = '''' then client_ip hs rq
      else
        let a = (if CHR '','' \<in> set v then trim_space (after_last (CHR '','') v) else v) in
        if parse_ip a = None then client_ip hs rq else a)"

section \<open>State\<close>

record service =
  sc_base :: server
  sc_limiter :: "limiter option"
  sc_hub :: hub

type_synonym 'a serving = "(service, nat \<times> reason, nat \<times> 'a) op"

text \<open>
  \<^verbatim>\<open>New\<close>. A rate that is infinite would refill every bucket at once; the model has finite ones.
\<close>

definition finite_rate :: "settings \<Rightarrow> rat option" where
  "finite_rate cf = (case cf_per_minute cf of Finite r \<Rightarrow> if r > 0 then Some r else None | _ \<Rightarrow> None)"

definition new_service :: "settings \<Rightarrow> world \<Rightarrow> service" where
  "new_service cf w =
     \<lparr>sc_base = \<lparr>sv_world = w, sv_published = [], sv_proposals = new_proposal_cache (cf_cooldown cf)\<rparr>,
      sc_limiter = map_option (\<lambda>r. new_limiter (cf_burst cf) r (cf_max_keys cf)) (finite_rate cf),
      sc_hub = empty_hub\<rparr>"

text \<open>The fetcher that \<^verbatim>\<open>New\<close> wires in; \<open>describe\<close> is the text of an error.\<close>

definition guarded_fetch :: "settings \<Rightarrow> net \<Rightarrow> (guard_error \<Rightarrow> string) \<Rightarrow> fetcher" where
  "guarded_fetch cf nw describe raw =
     (case fst (get_url nw (fetch_policy cf) raw idle_wire) of
        Inr body \<Rightarrow> Inr body
      | Inl e \<Rightarrow> Inl (if blocked_error e then FetchBlocked (describe e) else FetchFailed))"

section \<open>A handler in the server\<close>

text \<open>What a handler publishes goes to the broker, one message after the other.\<close>

definition tell :: "broker option \<Rightarrow> string \<times> string \<Rightarrow> broker option" where
  "tell b m = Option.bind b (\<lambda>b. Option.bind (broadcast (Some b) (fst m) (snd m)) (\<lambda>r. r))"

definition deliver :: "(string \<times> string) list \<Rightarrow> broker \<Rightarrow> broker" where
  "deliver ms b = (case foldl tell (Some b) ms of Some b' \<Rightarrow> b' | None \<Rightarrow> b)"

definition on_base :: "'a handler \<Rightarrow> 'a serving" where
  "on_base h = (\<lambda>s. case h (sc_base s) of (r, base) \<Rightarrow>
     (r, s\<lparr>sc_base := base,
           sc_hub := (sc_hub s)\<lparr>hu_broker := deliver (drop (length (sv_published (sc_base s))) (sv_published base)) (hu_broker (sc_hub s))\<rparr>\<rparr>))"

definition rate_limit :: "settings \<Rightarrow> http_request \<Rightarrow> 'a serving \<Rightarrow> 'a serving" where
  "rate_limit cf rq next = (\<lambda>s. case sc_limiter s of
     None \<Rightarrow> next s
   | Some l \<Rightarrow>
       if rq_method rq = ''OPTIONS'' then next s
       else (case allow l (clock (sv_world (sc_base s))) (client_ip (cf_ip_headers cf) rq) of ((ok, wait), l') \<Rightarrow>
         let s' = s\<lparr>sc_limiter := Some l'\<rparr> in
         if \<not> ok then (Inl (429, TooManyRequests (wait div second + 1)), s') else next s'))"

section \<open>Routes\<close>

datatype endpoint =
    Health
  | CreateEvent "create_event_request option"
  | GetEvent string string
  | Join string "join_request option"
  | PutResponses string string "put_responses_request option"
  | Solve string
  | DecidedIcs string
  | Decide string string "decide_request option"
  | Reopen string string
  | ConnectIcs string string "string option"
  | Disconnect string string
  | Graduate string string "string option"
  | ClaimSeat string string
  | GetGroup string string
  | JoinGroup string "join_group_request option"
  | ClaimMember string "string option"
  | ConnectGroupIcs string string "string option"
  | DisconnectGroup string string
  | CreateGroupEvent string string "create_event_request option"
  | GroupProposal string string

datatype answer =
    Alive string | Created create_event_response | EventShown event_response | Joined join_response | Saved nat
  | Solved solve_response | File ics_file | Changed store_event | Connected connect_response | Disconnected string
  | Graduated graduate_response | GroupShown group_view | Membership member_token_response
  | GroupCreated create_group_event_response | Proposed "proposal_view option"

definition answering :: "('a \<Rightarrow> answer) \<Rightarrow> 'a handler \<Rightarrow> answer handler" where
  "answering f h = seq h (\<lambda>(status, body). reply status (f body))"

definition handle_health :: "settings \<Rightarrow> string handler" where
  "handle_health cf = reply 200 (cf_env cf)"

fun route :: "settings \<Rightarrow> env \<Rightarrow> (rat \<Rightarrow> rat \<Rightarrow> rat) \<Rightarrow> fetcher \<Rightarrow> endpoint \<Rightarrow> answer handler" where
  "route cf env pow fetch Health = answering Alive (handle_health cf)"
| "route cf env pow fetch (CreateEvent body) = answering Created (handle_create_event env body)"
| "route cf env pow fetch (GetEvent slug token) = answering EventShown (handle_get_event env slug token)"
| "route cf env pow fetch (Join slug body) = answering Joined (handle_join env slug body)"
| "route cf env pow fetch (PutResponses slug token body) = answering Saved (put_responses_route env slug token body)"
| "route cf env pow fetch (Solve slug) = answering Solved (handle_solve env pow slug)"
| "route cf env pow fetch (DecidedIcs slug) = answering File (handle_decided_ics env (cf_web_url cf) slug)"
| "route cf env pow fetch (Decide slug token body) = answering Changed (decide_route env pow slug token body)"
| "route cf env pow fetch (Reopen slug token) = answering Changed (reopen_route env slug token)"
| "route cf env pow fetch (ConnectIcs slug token body) = answering Connected (connect_route env fetch slug token body)"
| "route cf env pow fetch (Disconnect slug token) = answering Disconnected (disconnect_route env slug token)"
| "route cf env pow fetch (Graduate slug token body) = answering Graduated (graduate_route env slug token body)"
| "route cf env pow fetch (ClaimSeat slug token) = answering Joined (handle_claim_event_seat env slug token)"
| "route cf env pow fetch (GetGroup slug token) = answering GroupShown (handle_get_group env slug token)"
| "route cf env pow fetch (JoinGroup slug body) = answering Membership (handle_join_group env slug body)"
| "route cf env pow fetch (ClaimMember slug body) = answering Membership (handle_claim_group_member env slug body)"
| "route cf env pow fetch (ConnectGroupIcs slug token body) = answering Connected (connect_group_route env fetch slug token body)"
| "route cf env pow fetch (DisconnectGroup slug token) = answering Disconnected (disconnect_group_route env slug token)"
| "route cf env pow fetch (CreateGroupEvent slug token body) = answering GroupCreated (create_group_event_route env fetch slug token body)"
| "route cf env pow fetch (GroupProposal slug event) = answering Proposed (handle_group_proposal env fetch slug event)"

fun limited :: "endpoint \<Rightarrow> bool" where
  "limited (CreateEvent body) = True"
| "limited (Join slug body) = True"
| "limited (ClaimSeat slug token) = True"
| "limited (JoinGroup slug body) = True"
| "limited (ClaimMember slug body) = True"
| "limited _ = False"

definition handle_http ::
  "settings \<Rightarrow> env \<Rightarrow> (rat \<Rightarrow> rat \<Rightarrow> rat) \<Rightarrow> fetcher \<Rightarrow> http_request \<Rightarrow> endpoint \<Rightarrow> answer option serving" where
  "handle_http cf env pow fetch rq ep =
     (if co_answered (cors cf (rq_method rq) (rq_origin rq)) then (\<lambda>s. (Inr (204, None), s))
      else
        let h = on_base (seq (route cf env pow fetch ep) (\<lambda>(status, body). reply status (Some body)))
        in if limited ep then rate_limit cf rq h else h)"

section \<open>All the server does\<close>

inductive service_step ::
  "settings \<Rightarrow> env \<Rightarrow> (rat \<Rightarrow> rat \<Rightarrow> rat) \<Rightarrow> service \<Rightarrow> service \<Rightarrow> bool"
  for cf :: settings and env :: env and pow :: "rat \<Rightarrow> rat \<Rightarrow> rat" where
  asked: "handle_http cf env pow fetch rq ep s = (r, s') \<Longrightarrow> service_step cf env pow s s'"
| watched: "hub_step (sc_hub s) h \<Longrightarrow> service_step cf env pow s (s\<lparr>sc_hub := h\<rparr>)"
| passed: "t \<ge> clock (sv_world (sc_base s))
    \<Longrightarrow> service_step cf env pow s (s\<lparr>sc_base := (sc_base s)\<lparr>sv_world := (sv_world (sc_base s))\<lparr>clock := t\<rparr>\<rparr>\<rparr>)"
| purged: "sweep cancelled (sv_world (sc_base s)) = (r, w)
    \<Longrightarrow> service_step cf env pow s (s\<lparr>sc_base := (sc_base s)\<lparr>sv_world := w\<rparr>\<rparr>)"
| forgot: "sc_limiter s = Some l \<Longrightarrow> sweep_limiter l (clock (sv_world (sc_base s))) = (n, l')
    \<Longrightarrow> service_step cf env pow s (s\<lparr>sc_limiter := Some l'\<rparr>)"

inductive service_run ::
  "settings \<Rightarrow> env \<Rightarrow> (rat \<Rightarrow> rat \<Rightarrow> rat) \<Rightarrow> service \<Rightarrow> bool"
  for cf :: settings and env :: env and pow :: "rat \<Rightarrow> rat \<Rightarrow> rat" where
  started: "db_ok (tables w) \<Longrightarrow> service_run cf env pow (new_service cf w)"
| stepped: "service_run cf env pow s \<Longrightarrow> service_step cf env pow s s' \<Longrightarrow> service_run cf env pow s'"

section \<open>The caller's key\<close>

text \<open>
  A caller cannot choose the bucket it is counted in. Behind a proxy, where the header that is trusted
  first ends with the address the proxy appended, the key is that address, whatever stands to its left;
  without a trusted header it is the address of the socket, whatever headers the request carries.
\<close>

theorem client_key_unforgeable:
  assumes "trim_space (rq_headers rq h) = forged @ CHR '','' # appended" "CHR '','' \<notin> set appended"
    "parse_ip (trim_space appended) \<noteq> None"
  shows "client_ip (h # hs) rq = trim_space appended
    \<and> client_ip [] (rq\<lparr>rq_headers := any\<rparr>) = client_ip [] rq"
  using assms by (auto simp: after_last_append Let_def split: option.split)

lemma client_key_unforgeable_witness:
  "client_ip [''X-Forwarded-For''] \<lparr>rq_method = ''POST'', rq_remote = ''10.0.0.1:99'', rq_origin = '''',
     rq_headers = \<lambda>_. ''1.2.3.4,169.254.169.254''\<rparr> = ''169.254.169.254''"
proof -
  let ?rq = "\<lparr>rq_method = ''POST'', rq_remote = ''10.0.0.1:99'', rq_origin = '''', rq_headers = \<lambda>_. ''1.2.3.4,169.254.169.254''\<rparr>"
  have t: "trim_space ''1.2.3.4,169.254.169.254'' = ''1.2.3.4,169.254.169.254''" "trim_space ''169.254.169.254'' = ''169.254.169.254''"
    by (rule trim_space_word, simp)+
  have "client_ip (''X-Forwarded-For'' # []) ?rq = trim_space ''169.254.169.254'' \<and> client_ip [] (?rq\<lparr>rq_headers := \<lambda>_. ''''\<rparr>) = client_ip [] ?rq"
    by (rule client_key_unforgeable [of ?rq _ "''1.2.3.4''"]) (simp_all add: t parse_ip_examples)
  then show ?thesis by (simp only: t)
qed

section \<open>What the handlers keep\<close>

lemma preserves_keep_proposal [inv_intros]: "preserves (on_world P) (keep_proposal key r)"
  by (simp add: preserves_def keep_proposal_def)

lemma preserves_run [inv_intros]: "preserves P m \<Longrightarrow> preserves (on_world P) (run m)"
  by (auto simp: preserves_def run_apply split: prod.split)

lemma preserves_rank [inv_intros]:
  "preserves P (rank_event env pow ev)" "preserves P (rank_and_analyze env pow ev)"
  using reads_rank_event by (auto simp: preserves_def reads_only_def)

lemma preserves_computed [inv_intros]: "preserves P (compute_group_proposal env fetch g ev)"
  using compute_reads by (auto simp: preserves_def) (metis prod.collapse)

lemmas handler_defs = answering_def handle_health_def handle_create_event_def handle_get_event_def handle_join_def put_responses_route_def
  handle_put_responses_def handle_solve_def handle_decided_ics_def decide_route_def handle_decide_def reopen_route_def
  handle_reopen_def connect_route_def handle_connect_ics_def disconnect_route_def handle_disconnect_calendar_def
  apply_calendar_to_responses_def graduate_route_def handle_graduate_def handle_claim_event_seat_def handle_get_group_def
  handle_join_group_def handle_claim_group_member_def connect_group_route_def handle_connect_group_ics_def
  disconnect_group_route_def handle_disconnect_group_calendar_def create_group_event_route_def handle_create_group_event_def
  link_creator_def handle_group_proposal_def do_proposal_def cached_now_def

lemma preserves_fetch_error [inv_intros]:
  "(\<And>why. preserves P (f why)) \<Longrightarrow> preserves P m \<Longrightarrow> preserves P (case e of FetchBlocked why \<Rightarrow> f why | FetchFailed \<Rightarrow> m)"
  by (cases e) simp_all

lemma preserves_guarded [inv_intros]:
  "preserves (on_world intact) (handle_reopen env a)" "preserves (on_world intact) (handle_disconnect_calendar env a)"
  "preserves (on_world intact) (handle_disconnect_group_calendar env am)"
  by (simp only: handler_defs Let_def; intro inv_intros)+

lemma preserves_route: "preserves (on_world intact) (route cf env pow fetch ep)"
  by (cases ep; simp only: route.simps handler_defs Let_def; intro inv_intros)

abbreviation on_cache :: "(proposal_cache \<Rightarrow> bool) \<Rightarrow> server \<Rightarrow> bool" where
  "on_cache Q s \<equiv> Q (sv_proposals s)"

lemma cache_call:
  "(\<And>e. preserves (on_cache Q) (h e)) \<Longrightarrow> (\<And>a. preserves (on_cache Q) (k a)) \<Longrightarrow> preserves (on_cache Q) (call m h k)"
  by (auto simp: preserves_def call_apply split: prod.split sum.split)

lemma cache_world_run: "preserves (on_cache Q) (run m)" "preserves (on_cache Q) (publish event name)"
  by (auto simp: preserves_def run_apply publish_apply split: prod.split)

lemma cache_keep: "(\<And>c t. Q c \<Longrightarrow> Q (cache_store c t key r)) \<Longrightarrow> preserves (on_cache Q) (keep_proposal key r)"
  by (simp add: preserves_def keep_proposal_def)

lemma cache_guards:
  "(\<And>a. preserves (on_cache Q) (next a)) \<Longrightarrow> preserves (on_cache Q) (require_participant env slug header next)"
  "preserves (on_cache Q) (optional_participant env header event)"
  "(\<And>am. preserves (on_cache Q) (nextm am)) \<Longrightarrow> preserves (on_cache Q) (require_group_member env slug header nextm)"
  by (simp only: require_participant_def optional_participant_def require_group_member_def Let_def; intro inv_intros cache_call; assumption?)+

lemma cache_store_bound:
  "length (pc_values c) \<le> max_cached_proposals \<Longrightarrow> length (pc_values (cache_store c t key r)) \<le> max_cached_proposals"
proof -
  assume "length (pc_values c) \<le> max_cached_proposals"
  moreover have "length (pc_values (evict_stale c t)) \<le> length (pc_values c)" by (simp add: evict_stale_def)
  ultimately show ?thesis
    using length_put [of c t key r] length_put [of "evict_stale c t" t key r] by (auto simp: cache_store_def Let_def)
qed

abbreviation bounded_cache :: "server \<Rightarrow> bool" where
  "bounded_cache \<equiv> on_cache (\<lambda>c. length (pc_values c) \<le> max_cached_proposals)"

lemma cache_small:
  "preserves bounded_cache (handle_reopen env a)" "preserves bounded_cache (handle_disconnect_calendar env a)"
  "preserves bounded_cache (handle_disconnect_group_calendar env am)"
  by (simp only: handler_defs Let_def; intro inv_intros cache_call cache_world_run)+

lemma cache_route: "preserves bounded_cache (route cf env pow fetch ep)"
  by (cases ep; simp only: route.simps handler_defs Let_def;
      intro inv_intros cache_call cache_world_run cache_guards cache_small cache_keep cache_store_bound)

lemma purge_loop_ok: "db_ok (tables s) \<Longrightarrow> db_ok (tables (snd (purge_loop cancelled i acc s)))"
proof (induction cancelled i acc s rule: purge_loop.induct)
  case (1 cancelled i acc s)
  obtain r w where r: "purge_pass s = (r, w)" by (cases "purge_pass s")
  have ok: "db_ok (tables w)" using preservesD [OF preserves_delete_expired 1(2), of purge_batch] r by (simp add: purge_pass_def)
  show ?case
  proof (cases r)
    case (Inl e)
    then show ?thesis using r ok by (simp add: purge_loop.simps [of cancelled i acc s])
  next
    case (Inr n)
    then show ?thesis using r ok 1(1) [OF r [symmetric] Inr] by (simp add: purge_loop.simps [of cancelled i acc s])
  qed
qed

lemma sweep_ok: "db_ok (tables s) \<Longrightarrow> sweep cancelled s = (r, w) \<Longrightarrow> db_ok (tables w)"
  using purge_loop_ok [of s cancelled 0 0]
  by (auto simp: sweep_def purge_expired_def split: prod.splits purge_end.splits)

lemma deliver_ok: "hub_ok h \<Longrightarrow> hub_ok (h\<lparr>hu_broker := deliver ms (hu_broker h)\<rparr>)"
proof -
  assume h: "hub_ok h"
  have "\<exists>b. foldl tell (Some (hu_broker h)) ms = Some b \<and> hub_ok (h\<lparr>hu_broker := b\<rparr>)"
  proof (induction ms rule: rev_induct)
    case (snoc m ms)
    then obtain b where b: "foldl tell (Some (hu_broker h)) ms = Some b" "hub_ok (h\<lparr>hu_broker := b\<rparr>)" by blast
    then obtain b' where b': "broadcast (Some b) (fst m) (snd m) = Some (Some b')"
      using publish_ok(1) [OF hub_okD(1) [OF b(2)]] by (auto simp: broadcast_def)
    have "hub_ok (h\<lparr>hu_broker := b'\<rparr>)" using hub_step_ok [OF told, of "h\<lparr>hu_broker := b\<rparr>" "fst m" "snd m" b'] b(2) b' by simp
    moreover have "tell (Some b) m = Some b'" using b' by (simp add: tell_def)
    ultimately show ?case using b(1) by simp
  qed (use h in simp)
  then show ?thesis by (auto simp: deliver_def)
qed

definition limiter_small :: "limiter \<Rightarrow> bool" where
  "limiter_small l \<longleftrightarrow> int (tracked l) \<le> max 0 (li_max l)"

lemma spend_small:
  "limiter_small l \<Longrightarrow> map_of (li_buckets l) key \<noteq> None \<or> int (length (li_buckets l)) < li_max l
    \<Longrightarrow> spend l t key b = (r, l') \<Longrightarrow> limiter_small l' \<and> li_max l' = li_max l"
  by (cases "map_of (li_buckets l) key")
    (auto simp: spend_def Let_def limiter_small_def tracked_def length_update map_of_eq_None_iff [symmetric] simp del: map_of_eq_None_iff
      split: if_splits)

lemma evict_small: "limiter_small l \<Longrightarrow> limiter_small (evict l t) \<and> li_max (evict l t) = li_max l"
  using order_trans [OF of_nat_mono [OF evict_settings(4) [of l t]]] by (simp add: limiter_small_def tracked_def)

lemma allow_small:
  assumes "limiter_small l" "allow l t key = (r, l')"
  shows "limiter_small l' \<and> li_max l' = li_max l"
proof -
  have evicted: "limiter_small (evict l t)" using evict_small [OF assms(1)] by simp
  show ?thesis
  proof (cases "map_of (li_buckets l) key")
    case (Some b)
    then show ?thesis using assms spend_small [OF assms(1), of key] by (auto simp: allow_def)
  next
    case None
    show ?thesis
    proof (cases "int (length (li_buckets l)) \<ge> li_max l")
      case True
      then show ?thesis using None assms(2) evicted spend_small [OF evicted, of key t]
        by (auto simp: allow_def Let_def split: if_splits)
    next
      case False
      then show ?thesis using None assms spend_small [OF assms(1), of key] by (auto simp: allow_def Let_def)
    qed
  qed
qed

text \<open>The invariant of the whole server.\<close>

definition service_ok :: "settings \<Rightarrow> service \<Rightarrow> bool" where
  "service_ok cf s \<longleftrightarrow> db_ok (tables (sv_world (sc_base s))) \<and> bounded_cache (sc_base s) \<and> hub_ok (sc_hub s)
     \<and> (\<forall>l. sc_limiter s = Some l \<longrightarrow> limiter_small l \<and> li_max l = cf_max_keys cf)"

lemma on_base_ok:
  assumes "service_ok cf s" "preserves (on_world intact) h" "preserves bounded_cache h" "on_base h s = (r, s')"
  shows "service_ok cf s'"
proof -
  obtain x base where h: "h (sc_base s) = (x, base)" by (cases "h (sc_base s)")
  have "db_ok (tables (sv_world base))" "bounded_cache base"
    using preservesD [OF assms(2), of "sc_base s"] preservesD [OF assms(3), of "sc_base s"] assms(1) h by (simp_all add: service_ok_def)
  then show ?thesis using assms(1,4) h deliver_ok [of "sc_hub s"] by (auto simp: service_ok_def on_base_def)
qed

lemma handle_http_ok:
  assumes "service_ok cf s" "handle_http cf env pow fetch rq ep s = (r, s')"
  shows "service_ok cf s'"
proof -
  let ?h = "seq (route cf env pow fetch ep) (\<lambda>(status, body). reply status (Some body))"
  have keeps: "preserves (on_world intact) ?h" "preserves bounded_cache ?h"
    by (intro inv_intros preserves_route cache_route)+
  note base = on_base_ok [OF _ keeps]
  show ?thesis
  proof (cases "co_answered (cors cf (rq_method rq) (rq_origin rq)) \<or> \<not> limited ep \<or> rq_method rq = ''OPTIONS'' \<or> sc_limiter s = None")
    case True
    then show ?thesis using assms base [OF assms(1)]
      by (auto simp: handle_http_def rate_limit_def Let_def split: if_splits option.splits)
  next
    case False
    then obtain l where l: "sc_limiter s = Some l" by blast
    obtain ok wait l' where a: "allow l (clock (sv_world (sc_base s))) (client_ip (cf_ip_headers cf) rq) = ((ok, wait), l')"
      by (metis prod.collapse)
    have "service_ok cf (s\<lparr>sc_limiter := Some l'\<rparr>)"
      using assms(1) l allow_small [OF _ a] by (auto simp: service_ok_def)
    then show ?thesis using assms(2) base False l a
      by (auto simp: handle_http_def rate_limit_def Let_def split: if_splits)
  qed
qed

lemma service_step_ok: "service_step cf env pow s s' \<Longrightarrow> service_ok cf s \<Longrightarrow> service_ok cf s'"
proof (induction rule: service_step.induct)
  case (asked fetch rq ep s r s')
  then show ?case by (rule handle_http_ok [rotated])
next
  case (watched s h)
  then show ?case using hub_step_ok by (auto simp: service_ok_def)
next
  case (purged cancelled s r w)
  then show ?case using sweep_ok by (auto simp: service_ok_def)
next
  case (forgot s l n l')
  then show ?case using evict_small [of l "clock (sv_world (sc_base s))"]
    by (auto simp: service_ok_def sweep_limiter_def)
qed (auto simp: service_ok_def)

lemma new_service_ok: "db_ok (tables w) \<Longrightarrow> service_ok cf (new_service cf w)"
  using hub_run_ok [OF hub_run.started]
  by (auto simp: service_ok_def new_service_def new_proposal_cache_def limiter_small_def tracked_def new_limiter_def)

lemma service_run_ok: "service_run cf env pow s \<Longrightarrow> service_ok cf s"
  by (induction rule: service_run.induct) (auto intro: new_service_ok service_step_ok)

text \<open>
  C6: Whatever requests arrive, in whatever order, with the connections, the sweepers and the clock between
  them, and whatever the calendar hosts answer: the database keeps its integrity, the proposal cache and
  the limiter stay within their bounds, and the broker tells exactly the connections that are open.
\<close>

theorem service_invariant:
  assumes "service_run cf env pow s"
  shows "db_ok (tables (sv_world (sc_base s)))
    \<and> length (pc_values (sv_proposals (sc_base s))) \<le> 2000
    \<and> (\<forall>l. sc_limiter s = Some l \<longrightarrow> int (tracked l) \<le> max 0 (cf_max_keys cf))
    \<and> (\<forall>event. set (watchers (hu_broker (sc_hub s)) event)
         = {st_channel c |c i. hu_streams (sc_hub s) i = Some c \<and> st_live c \<and> st_event c = event})"
proof -
  have ok: "service_ok cf s" by (rule service_run_ok [OF assms])
  then have "set (watchers (hu_broker (sc_hub s)) event)
      = {st_channel c |c i. hu_streams (sc_hub s) i = Some c \<and> st_live c \<and> st_event c = event}" for event
    using hub_okD(2) [of "sc_hub s" event] by (auto simp: service_ok_def live_channels_def)
  then show ?thesis using ok by (auto simp: service_ok_def limiter_small_def max_cached_proposals_def)
qed

section \<open>Who may write\<close>

definition event_token :: "env \<Rightarrow> database \<Rightarrow> string \<Rightarrow> string \<Rightarrow> bool" where
  "event_token env d slug token \<longleftrightarrow> trim_space token \<noteq> '''' \<and>
     (\<exists>e \<in> set (tbl_events d). \<exists>p \<in> set (tbl_participants d). ev_slug e = slug \<and> pt_event p = ev_id e
        \<and> pt_token p = env_hash env (trim_space token))"

definition group_token :: "env \<Rightarrow> database \<Rightarrow> string \<Rightarrow> string \<Rightarrow> bool" where
  "group_token env d slug token \<longleftrightarrow> trim_space token \<noteq> '''' \<and>
     (\<exists>g \<in> set (tbl_groups d). \<exists>m \<in> set (tbl_members d). gr_slug g = slug \<and> gm_group m = gr_id g
        \<and> gm_token m = Some (env_hash env (trim_space token)))"

fun authorised :: "env \<Rightarrow> database \<Rightarrow> endpoint \<Rightarrow> bool" where
  "authorised env d (PutResponses slug token body) = event_token env d slug token"
| "authorised env d (Decide slug token body) = event_token env d slug token"
| "authorised env d (Reopen slug token) = event_token env d slug token"
| "authorised env d (ConnectIcs slug token body) = event_token env d slug token"
| "authorised env d (Disconnect slug token) = event_token env d slug token"
| "authorised env d (Graduate slug token body) = event_token env d slug token"
| "authorised env d (ConnectGroupIcs slug token body) = group_token env d slug token"
| "authorised env d (DisconnectGroup slug token) = group_token env d slug token"
| "authorised env d (CreateGroupEvent slug token body) = group_token env d slug token"
| "authorised env d _ = False"

lemma guard_state:
  assumes "scan_ok env" "require_participant env slug header next s = (r, s')"
  shows "s' = s \<or> event_token env (tables (sv_world s)) slug header"
proof -
  have scan: "env_scan env (uuid_string u) = Some u" for u using assms(1) by (simp add: scan_ok_def)
  show ?thesis
  proof (cases "find (\<lambda>e. ev_slug e = slug) (tbl_events (tables (sv_world s)))")
    case None
    then show ?thesis using assms(2)
      by (auto simp: require_participant_def call_apply event_by_slug_eq event_lookup_error_def Let_def split: if_splits)
  next
    case (Some e)
    have id: "env_scan env (se_id (decode_event e)) = Some (ev_id e)" by (simp add: decode_event_def scan)
    let ?P = "\<lambda>p. pt_event p = ev_id e \<and> pt_token p = env_hash env (trim_space header)"
    show ?thesis
    proof (cases "find ?P (tbl_participants (tables (sv_world s)))")
      case None
      then show ?thesis using assms(2) Some
        by (auto simp: require_participant_def call_apply event_by_slug_eq participant_by_token_eq [OF id] Let_def split: if_splits)
    next
      case (Some p)
      then show ?thesis using \<open>find (\<lambda>e. ev_slug e = slug) _ = Some e\<close> assms(2) find_Some_mem [OF Some] find_Some_mem
        by (fastforce simp: event_token_def require_participant_def Let_def split: if_splits)
    qed
  qed
qed

lemma member_guard_state:
  assumes "scan_ok env" "require_group_member env slug header next s = (r, s')"
  shows "s' = s \<or> group_token env (tables (sv_world s)) slug header"
proof -
  have scan: "env_scan env (uuid_string u) = Some u" for u using assms(1) by (simp add: scan_ok_def)
  show ?thesis
  proof (cases "find (\<lambda>g. gr_slug g = slug) (tbl_groups (tables (sv_world s)))")
    case None
    then show ?thesis using assms(2)
      by (auto simp: require_group_member_def call_apply group_by_slug_eq group_lookup_error_def Let_def split: if_splits)
  next
    case (Some g)
    have id: "env_scan env (sg_id (decode_group g)) = Some (gr_id g)" by (simp add: decode_group_def scan)
    let ?P = "\<lambda>m. gm_group m = gr_id g \<and> gm_token m = Some (env_hash env (trim_space header))"
    show ?thesis
    proof (cases "find ?P (tbl_members (tables (sv_world s)))")
      case None
      then show ?thesis using assms(2) Some
        by (auto simp: require_group_member_def call_apply group_by_slug_eq group_member_by_token_eq [OF id] Let_def split: if_splits)
    next
      case (Some m)
      then show ?thesis using \<open>find (\<lambda>g. gr_slug g = slug) _ = Some g\<close> assms(2) find_Some_mem [OF Some] find_Some_mem
        by (fastforce simp: group_token_def require_group_member_def Let_def split: if_splits)
    qed
  qed
qed

lemma reads_routes [reads_intros]:
  "reads_only (handle_get_event env slug token)" "reads_only (handle_decided_ics env web slug)" "reads_only (handle_get_group env slug token)"
  "reads_only (handle_health cf)"
  unfolding handle_get_event_def handle_decided_ics_def handle_get_group_def handle_health_def optional_participant_def Let_def clock_now_def
    group_by_id_def get_group_by_id_row_def group_by_slug_def group_members_def group_events_def group_member_by_token_def
    get_group_by_slug_row_def list_members_rows_def
    list_group_events_rows_def get_member_by_token_row_def
  by (intro reads_intros)+

text \<open>The proposal route changes the cache and nothing else.\<close>

abbreviation same_world :: "world \<Rightarrow> server \<Rightarrow> bool" where
  "same_world w s \<equiv> sv_world s = w"


lemma reads_group_lookup: "reads_only (group_by_slug slug)"
  unfolding group_by_slug_def get_group_by_slug_row_def by (intro reads_intros)

lemma proposal_frame: "preserves (same_world w) (handle_group_proposal env fetch slug event_slug)"
  unfolding handle_group_proposal_def do_proposal_def cached_now_def
  by (intro inv_intros; simp add: preserves_def keep_proposal_def reads_group_lookup [unfolded reads_only_def]
      reads_lookups(1) [unfolded reads_only_def])

lemma answering_state: "snd (answering f h s) = snd (h s)"
  by (auto simp: answering_def seq_apply split: prod.split sum.split)

lemma on_base_state: "sc_base (snd (on_base h s)) = snd (h (sc_base s))"
  by (simp add: on_base_def split: prod.split)

lemma http_state: "snd (seq h (\<lambda>(status, body). reply status (f body)) s) = snd (h s)"
  by (auto simp: seq_apply split: prod.split sum.split)

lemma guarded_world:
  assumes "scan_ok env"
  shows "sv_world (snd (require_participant env slug header next s)) = sv_world s \<or> event_token env (tables (sv_world s)) slug header"
    "sv_world (snd (require_group_member env slug header nextm s)) = sv_world s \<or> group_token env (tables (sv_world s)) slug header"
  using guard_state [OF assms, of slug header "next" s] member_guard_state [OF assms, of slug header nextm s]
  by (metis prod.collapse)+

lemma reads_world: "reads_only h \<Longrightarrow> sv_world (snd (h s)) = sv_world s"
  by (simp add: reads_only_def)

lemma guards_close:
  "scan_ok env \<Longrightarrow> \<not> event_token env (tables (sv_world s)) slug header \<Longrightarrow> sv_world (snd (require_participant env slug header next s)) = sv_world s"
  "scan_ok env \<Longrightarrow> \<not> group_token env (tables (sv_world s)) slug header \<Longrightarrow> sv_world (snd (require_group_member env slug header nextm s)) = sv_world s"
  using guarded_world by blast+

lemma route_writes:
  assumes "scan_ok env" "\<not> limited ep" "\<not> authorised env (tables (sv_world s)) ep"
  shows "sv_world (snd (route cf env pow fetch ep s)) = sv_world s"
proof -
  note guards = guards_close [OF assms(1)]
  note reads = reads_routes [THEN reads_world] reads_handle_solve [THEN reads_world]
  show ?thesis
    using assms(2,3) preservesD [OF proposal_frame [of "sv_world s" env fetch], of s]
    by (cases ep)
      (simp_all add: answering_state guards reads put_responses_route_def decide_route_def reopen_route_def connect_route_def disconnect_route_def
        graduate_route_def connect_group_route_def disconnect_group_route_def create_group_event_route_def)
qed

text \<open>
  C3: Nothing is written for a caller without a credential, except on the routes that count requests and
  only when the limiter lets the request pass. If a request changes anything in the database, its route is
  one of those, or it carries the token of a participant of the event, or of a member of the group, that
  its path names; and a preflight changes nothing at all.
\<close>

theorem writes_need_credential:
  assumes "scan_ok env" "handle_http cf env pow fetch rq ep s = (r, s')" "sv_world (sc_base s') \<noteq> sv_world (sc_base s)"
  shows "rq_method rq \<noteq> ''OPTIONS''
    \<and> (authorised env (tables (sv_world (sc_base s))) ep
       \<or> limited ep \<and> (case sc_limiter s of None \<Rightarrow> True
           | Some l \<Rightarrow> fst (fst (allow l (clock (sv_world (sc_base s))) (client_ip (cf_ip_headers cf) rq)))))"
proof -
  let ?h = "seq (route cf env pow fetch ep) (\<lambda>(status, body). reply status (Some body))"
  have run: "\<not> co_answered (cors cf (rq_method rq) (rq_origin rq))" using assms(2,3) by (auto simp: handle_http_def split: if_splits)
  then have opt: "rq_method rq \<noteq> ''OPTIONS''" by (simp add: cors_def)
  show ?thesis
  proof (cases "limited ep")
    case False
    then have "s' = snd (on_base ?h s)" using assms(2) run by (simp add: handle_http_def Let_def)
    then have "sv_world (sc_base s') = sv_world (snd (route cf env pow fetch ep (sc_base s)))"
      by (simp add: on_base_state http_state)
    then show ?thesis using route_writes [OF assms(1) False] assms(3) opt by metis
  next
    case True
    have "fst (fst (allow l (clock (sv_world (sc_base s))) (client_ip (cf_ip_headers cf) rq)))" if "sc_limiter s = Some l" for l
    proof (rule ccontr)
      assume "\<not> ?thesis"
      then have "sc_base s' = sc_base s"
        using assms(2) run opt True that by (auto simp: handle_http_def rate_limit_def Let_def split: prod.splits)
      then show False using assms(3) by simp
    qed
    then show ?thesis using True opt by (auto split: option.split)
  qed
qed

section \<open>Decisions\<close>

lemma decide_publishes:
  assumes "scan_ok env" "decide_route env pow slug token body s = (Inr r, s')"
    "find (\<lambda>e. ev_slug e = slug) (tbl_events (tables (sv_world s))) = Some e"
  shows "sv_published s' = sv_published s @ [(uuid_string (ev_id e), ''decided'')]"
proof (rule require_participant_Inr [OF assms(1) assms(2) [unfolded decide_route_def]])
  fix e' p
  assume e': "find (\<lambda>e. ev_slug e = slug) (tbl_events (tables (sv_world s))) = Some e'"
    and run: "handle_decide env pow \<lparr>au_event = decode_event e', au_participant = decode_participant p\<rparr> body s = (Inr r, s')"
  have same: "e' = e" using e' assms(3) by simp
  let ?a = "\<lparr>au_event = decode_event e, au_participant = decode_participant p\<rparr>"
  obtain x s1 where x: "rank_event env pow (decode_event e) s = (x, s1)" by (cases "rank_event env pow (decode_event e) s")
  have s1: "s1 = s" using reads_onlyD [OF reads_rank_event(1) x] .
  show ?thesis
    using run x by (cases x)
      (auto simp: handle_decide_def same s1 decoded_apply catch_apply call_apply publish_apply seq_apply decode_event_def
        split: if_splits option.splits prod.splits sum.splits)
qed

lemma deliver_one:
  "broker_ok b \<Longrightarrow> deliver [(event, name)] b = after_publish b event \<lparr>ms_name = name, ms_data = ''''\<rparr>"
  using publish_ok(1) [of b event "\<lparr>ms_name = name, ms_data = ''''\<rparr>"] by (simp add: deliver_def tell_def broadcast_def)

text \<open>
  C7: A decision reaches everybody who is watching. In every reachable state, when a request to decide an
  event succeeds, each connection that is open on the event has something unread, and its next turn writes
  a record to its client; a connection of another event is left as it was.
\<close>

theorem decision_wakes:
  assumes "scan_ok env" "service_run cf env pow s"
    "handle_http cf env pow fetch rq (Decide slug token body) s = (Inr (200, answer), s')"
    "find (\<lambda>e. ev_slug e = slug) (tbl_events (tables (sv_world (sc_base s)))) = Some e"
    "hu_streams (sc_hub s) i = Some c" "st_live c"
  shows "hu_streams (sc_hub s') i = Some c
    \<and> (if st_event c = uuid_string (ev_id e)
       then \<exists>m b. stream_turn Message True c (hu_broker (sc_hub s')) = Some (c\<lparr>st_sent := st_sent c @ [encode m]\<rparr>, b)
       else br_channels (hu_broker (sc_hub s')) (st_channel c) = br_channels (hu_broker (sc_hub s)) (st_channel c))"
proof -
  have ok: "hub_ok (sc_hub s)" using service_run_ok [OF assms(2)] by (simp add: service_ok_def)
  let ?b = "hu_broker (sc_hub s)" and ?m = "\<lparr>ms_name = ''decided'', ms_data = ''''\<rparr>" and ?event = "uuid_string (ev_id e)"
  note D = hub_okD [OF ok]
  obtain r base where r: "decide_route env pow slug token body (sc_base s) = (Inr r, base)"
      "s' = s\<lparr>sc_base := base, sc_hub := (sc_hub s)\<lparr>hu_broker := deliver (drop (length (sv_published (sc_base s))) (sv_published base)) ?b\<rparr>\<rparr>"
    using assms(3) by (auto simp: handle_http_def on_base_def answering_def seq_apply split: if_splits prod.splits sum.splits)
  have b': "hu_broker (sc_hub s') = after_publish ?b ?event ?m"
    using decide_publishes [OF assms(1) r(1) assms(4)] deliver_one [OF D(1)] r(2) by simp
  have watch: "st_channel c \<in> set (watchers ?b event) \<longleftrightarrow> st_event c = event" for event
  proof
    assume "st_channel c \<in> set (watchers ?b event)"
    then obtain j d where d: "hu_streams (sc_hub s) j = Some d" "st_event d = event" "st_channel d = st_channel c"
      unfolding D(2) live_channels_def by blast
    then have "j = i" using D(3) [OF d(1) assms(5)] by simp
    then show "st_event c = event" using d assms(5) by simp
  next
    assume "st_event c = event"
    then show "st_channel c \<in> set (watchers ?b event)" unfolding D(2) live_channels_def using assms(5,6) by blast
  qed
  show ?thesis
  proof (cases "st_event c = ?event")
    case False
    then show ?thesis using r(2) assms(5) watch [of ?event] b' by (simp add: after_publish_def)
  next
    case True
    then obtain k where k: "br_channels ?b (st_channel c) = Some k"
      using watch [of ?event] broker_okD(3) [OF D(1)] by blast
    have there: "br_channels (hu_broker (sc_hub s')) (st_channel c) = Some (offered ?m k)"
      using k True watch [of ?event] b' by (simp add: after_publish_def)
    moreover obtain m ms where m: "ch_buffer (offered ?m k) = m # ms"
      by (cases "ch_buffer (offered ?m k)") (auto simp: offered_def subscriber_buffer_def split: if_splits)
    ultimately have "stream_turn Message True c (hu_broker (sc_hub s')) = Some (c\<lparr>st_sent := st_sent c @ [encode m]\<rparr>,
        snd (receive (hu_broker (sc_hub s')) (st_channel c)))"
      by (simp add: stream_turn_def receive_def write_chunk_def)
    then show ?thesis using True r(2) assms(5) by auto
  qed
qed

section \<open>Examples\<close>

definition demo_settings :: settings where
  "demo_settings = config_from_env (\<lambda>_. '''') (\<lambda>_. None) (\<lambda>_. None)"

definition demo_rq :: "string \<Rightarrow> http_request" where
  "demo_rq meth = \<lparr>rq_method = meth, rq_remote = ''192.0.2.1:99'', rq_origin = '''', rq_headers = \<lambda>_. ''''\<rparr>"

lemma demo_service: "service_run demo_settings demo_env pow (new_service demo_settings demo_world)"
  "sc_base (new_service demo_settings demo_world) = demo_server" "sc_hub (new_service demo_settings demo_world) = empty_hub"
proof -
  have "db_ok (tables demo_world)" using demo_ok by (simp add: demo_world_def)
  then show "service_run demo_settings demo_env pow (new_service demo_settings demo_world)" by (rule service_run.started)
  have "cf_cooldown demo_settings = 30 * second" by (simp add: demo_settings_def config_from_env_def duration_env_def)
  then show "sc_base (new_service demo_settings demo_world) = demo_server" "sc_hub (new_service demo_settings demo_world) = empty_hub"
    by (simp_all add: new_service_def demo_server_def)
qed

lemma service_invariant_witness:
  "db_ok (tables (sv_world (sc_base (new_service demo_settings demo_world))))
   \<and> length (pc_values (sv_proposals (sc_base (new_service demo_settings demo_world)))) \<le> 2000"
  using service_invariant [OF demo_service(1)] by blast

definition demo_open :: service where
  "demo_open = \<lparr>sc_base = demo_group_server, sc_limiter = None, sc_hub = empty_hub\<rparr>"

lemma writes_need_credential_witness:
  "\<exists>r s'. handle_http demo_settings demo_env (\<lambda>_ _. 1) demo_fetch (demo_rq ''POST'') (ClaimSeat ''abc'' ''Ann'') demo_open = (r, s')
    \<and> sv_world (sc_base s') \<noteq> sv_world (sc_base demo_open) \<and> rq_method (demo_rq ''POST'') \<noteq> ''OPTIONS''"
proof -
  obtain answer where a: "handle_claim_event_seat demo_env ''abc'' ''Ann'' demo_group_server
      = (Inr (200, answer), demo_group_server\<lparr>sv_world := demo_seat_world\<rparr>)" using demo_seat_claimed by blast
  obtain r s' where h: "handle_http demo_settings demo_env (\<lambda>_ _. 1) demo_fetch (demo_rq ''POST'') (ClaimSeat ''abc'' ''Ann'') demo_open = (r, s')"
    by fastforce
  have "sv_world (sc_base s') = demo_seat_world"
    using h a by (auto simp: handle_http_def cors_def demo_rq_def rate_limit_def demo_open_def on_base_def answering_def seq_apply)
  then have "sv_world (sc_base s') \<noteq> sv_world (sc_base demo_open)"
    by (auto simp: demo_open_def demo_group_server_def demo_seat_world_def dest: arg_cong [of _ _ drawn])
  then show ?thesis using writes_need_credential [OF demo_scan(1) h] h by blast
qed

lemma decision_wakes_witness:
  "\<exists>s c s' answer m b. service_run demo_settings demo_env (\<lambda>_ _. 1) s \<and> hu_streams (sc_hub s) 0 = Some c
     \<and> handle_http demo_settings demo_env (\<lambda>_ _. 1) demo_fetch (demo_rq ''POST'') (Decide ''abc'' ''Ann'' (Some demo_choice)) s = (Inr (200, answer), s')
     \<and> stream_turn Message True c (hu_broker (sc_hub s')) = Some (c\<lparr>st_sent := st_sent c @ [encode m]\<rparr>, b)"
proof -
  let ?start = "new_service demo_settings demo_world"
  obtain c b where o1: "open_stream True True (uuid_string 1) new_broker = Some (c, b)" "st_live c" "st_event c = uuid_string 1"
    by (simp add: open_stream_def write_chunk_def subscribe_def Let_def)
  let ?h = "\<lparr>hu_broker = b, hu_streams = (hu_streams empty_hub)(0 \<mapsto> c)\<rparr>"
  let ?s = "?start\<lparr>sc_hub := ?h\<rparr>"
  have joined: "hub_step (sc_hub ?start) ?h"
    unfolding demo_service(3) by (rule opened [of _ _ True True "uuid_string 1"]) (use o1 in \<open>simp_all add: empty_hub_def\<close>)
  have "service_step demo_settings demo_env (\<lambda>_ _. 1) ?start ?s" by (rule watched [where s = ?start and h = ?h, OF joined])
  with demo_service(1) have run: "service_run demo_settings demo_env (\<lambda>_ _. 1) ?s" by (rule service_run.stepped)
  have base: "sc_base ?s = demo_server" using demo_service(2) by simp
  obtain ev s1 where d: "decide_route demo_env (\<lambda>_ _. 1) ''abc'' ''Ann'' (Some demo_choice) demo_server = (Inr (200, ev), s1)"
    using demo_decide by blast
  obtain s' where h: "handle_http demo_settings demo_env (\<lambda>_ _. 1) demo_fetch (demo_rq ''POST'') (Decide ''abc'' ''Ann'' (Some demo_choice)) ?s
      = (Inr (200, Some (Changed ev)), s')"
    using d by (simp add: handle_http_def cors_def demo_rq_def on_base_def answering_def seq_apply base)
  have e: "find (\<lambda>e. ev_slug e = ''abc'') (tbl_events (tables (sv_world (sc_base ?s)))) = Some demo_event"
    unfolding base by (simp add: demo_server_def demo_world_def demo_db_def demo_event_def)
  have here: "hu_streams (sc_hub ?s) 0 = Some c" by simp
  have "st_event c = uuid_string (ev_id demo_event)" using o1(3) by (simp add: demo_event_def)
  with decision_wakes [OF demo_scan(1) run h e here o1(2)] obtain m b' where
    "stream_turn Message True c (hu_broker (sc_hub s')) = Some (c\<lparr>st_sent := st_sent c @ [encode m]\<rparr>, b')" by auto
  then show ?thesis using run here h by blast
qed

end
