(* ===== verification/Startup.thy ===== *)
theory Startup
  imports Config RateLimit Purge
begin

text \<open>
  How the process comes up and goes down: \<^verbatim>\<open>run\<close> of \<^verbatim>\<open>api/cmd/api/main.go\<close>, the limiter's
  sweeper of \<^verbatim>\<open>purge.go\<close>, and \<^verbatim>\<open>Up\<close> of \<^verbatim>\<open>api/internal/migrate/migrate.go\<close>. What the
  migration library, the database and the network answer are outcomes given from outside: nothing is
  said here about what goose does to the schema, and it works on other connections than the one that
  holds the advisory lock. Main facts: whatever is started is stopped in reverse order, and the listener
  comes last (\<open>run_nested\<close>); goose is called only while the lock is held, and a lock that was taken is
  given back however \<^verbatim>\<open>Up\<close> ends (\<open>migrate_up_nested\<close>).
\<close>

section \<open>The limiter's sweeper\<close>

definition limiter_sweep_interval :: duration where
  "limiter_sweep_interval = 5 * minute"

fun limiter_ticks :: "signal list \<Rightarrow> limiter \<Rightarrow> limiter" where
  "limiter_ticks [] l = l"
| "limiter_ticks (Stop # sigs) l = l"
| "limiter_ticks (Tick t # sigs) l = limiter_ticks sigs (snd (sweep_limiter l t))"

definition start_limiter_sweep :: "limiter option \<Rightarrow> signal list \<Rightarrow> limiter option" where
  "start_limiter_sweep l sigs = map_option (limiter_ticks sigs) l"

section \<open>The life of the process\<close>

datatype action =
    NotifySignals | IgnoreSignals | Migrate | ConnectStore | CloseStore | StartPurge | StopPurge | StartSweep | StopSweep
  | Listen | Drain

datatype run_error = NoZones | NoDatabase | MigrationFailed | ConnectFailed | ListenFailed | DrainFailed

text \<open>What the outside decides: migration, connection, and how serving ends.\<close>

datatype serving_end = Died | Closed | Signalled bool

record outcomes =
  oc_migrated :: bool
  oc_connected :: bool
  oc_end :: serving_end

text \<open>What is done, in order, and what is returned.\<close>

type_synonym ('a, 'r) life = "'a list \<times> 'r"

text \<open>\<^verbatim>\<open>defer\<close>: the second action runs after the rest, however that ends.\<close>

definition before :: "'a \<Rightarrow> ('a, 'r) life \<Rightarrow> ('a, 'r) life" where
  "before a l = (a # fst l, snd l)"

definition finally_do :: "'a \<Rightarrow> ('a, 'r) life \<Rightarrow> ('a, 'r) life" where
  "finally_do z l = (fst l @ [z], snd l)"

definition deferring :: "'a \<Rightarrow> 'a \<Rightarrow> ('a, 'r) life \<Rightarrow> ('a, 'r) life" where
  "deferring a z l = before a (finally_do z l)"

definition serve_http :: "serving_end \<Rightarrow> (action, run_error option) life" where
  "serve_http e = (case e of
     Died \<Rightarrow> ([Listen], Some ListenFailed)
   | Closed \<Rightarrow> ([Listen], None)
   | Signalled drained \<Rightarrow> ([Listen, Drain], if drained then None else Some DrainFailed))"

definition run_process :: "env \<Rightarrow> settings \<Rightarrow> outcomes \<Rightarrow> (action, run_error option) life" where
  "run_process env cf oc =
     deferring NotifySignals IgnoreSignals
       (if \<not> zones_available env then ([], Some NoZones)
        else if cf_database cf = '''' then ([], Some NoDatabase)
        else
          let rest = (if \<not> oc_connected oc then ([ConnectStore], Some ConnectFailed)
            else deferring ConnectStore CloseStore (deferring StartPurge StopPurge (deferring StartSweep StopSweep (serve_http (oc_end oc)))))
          in if cf_migrate cf
             then before Migrate (if \<not> oc_migrated oc then ([], Some MigrationFailed) else rest)
             else rest)"


text \<open>
  Whatever fails, the process stops what it started, in reverse order: it is told about signals for its
  whole life; the sweepers run only while the store is open; and it listens only with a time zone
  database, a database address, a migrated schema unless that is switched off, and a store it has reached.
\<close>

theorem run_nested:
  "\<exists>pre body. fst (run_process env cf oc) = NotifySignals # pre @ body @ [IgnoreSignals]
    \<and> set pre \<subseteq> {Migrate}
    \<and> (body = [] \<or> body = [ConnectStore]
       \<or> (\<exists>tail \<in> {[Listen], [Listen, Drain]}. body = [ConnectStore, StartPurge, StartSweep] @ tail @ [StopSweep, StopPurge, CloseStore]))
    \<and> (Listen \<in> set (fst (run_process env cf oc)) \<longleftrightarrow>
        zones_available env \<and> cf_database cf \<noteq> '''' \<and> oc_connected oc \<and> (cf_migrate cf \<longrightarrow> oc_migrated oc))
    \<and> (snd (run_process env cf oc) = None \<longleftrightarrow> Listen \<in> set (fst (run_process env cf oc)) \<and> oc_end oc \<in> {Closed, Signalled True})"
proof -
  let ?rest = "if \<not> oc_connected oc then [ConnectStore] else [ConnectStore, StartPurge, StartSweep] @ fst (serve_http (oc_end oc)) @ [StopSweep, StopPurge, CloseStore]"
  show ?thesis
  proof (cases "zones_available env \<and> cf_database cf \<noteq> ''''")
    case False
    then show ?thesis by (intro exI [of _ "[]"]) (auto simp: run_process_def deferring_def before_def finally_do_def)
  next
    case True
    then show ?thesis
      by (intro exI [of _ "if cf_migrate cf then [Migrate] else []"] exI [of _ "if cf_migrate cf \<and> \<not> oc_migrated oc then [] else ?rest"])
        (cases "oc_end oc"; auto simp: run_process_def deferring_def before_def finally_do_def serve_http_def Let_def)
  qed
qed

section \<open>Migrations\<close>

datatype up_action =
    OpenPool | ClosePool | TakeConn | CloseConn | TakeLock | ReleaseLock | SetDialect | ReadVersion | ApplyPending

datatype up_error = OpenFailed | ConnFailed | LockFailed | DialectFailed | VersionFailed | ApplyFailed

text \<open>What \<^verbatim>\<open>Up\<close> logs when it succeeds.\<close>

datatype up_report = UpToDate int | Migrated int int

record up_outcomes =
  uo_opened :: bool
  uo_conn :: bool
  uo_locked :: bool
  uo_dialect :: bool
  uo_before :: "int option"
  uo_applied :: bool
  uo_after :: "int option"

text \<open>The calls of goose, which \<^verbatim>\<open>Up\<close> makes once it has the lock.\<close>

definition goose_calls :: "up_outcomes \<Rightarrow> (up_action, up_error + up_report) life" where
  "goose_calls oc =
     before SetDialect (if \<not> uo_dialect oc then ([], Inl DialectFailed)
     else before ReadVersion (case uo_before oc of
         None \<Rightarrow> ([], Inl VersionFailed)
       | Some b \<Rightarrow> before ApplyPending (if \<not> uo_applied oc then ([], Inl ApplyFailed)
           else before ReadVersion (case uo_after oc of
               None \<Rightarrow> ([], Inl VersionFailed)
             | Some v \<Rightarrow> ([], Inr (if b = v then UpToDate v else Migrated b v))))))"

definition migrate_up :: "up_outcomes \<Rightarrow> (up_action, up_error + up_report) life" where
  "migrate_up oc =
     before OpenPool (if \<not> uo_opened oc then ([], Inl OpenFailed)
     else finally_do ClosePool (before TakeConn (if \<not> uo_conn oc then ([], Inl ConnFailed)
       else finally_do CloseConn (before TakeLock (if \<not> uo_locked oc then ([], Inl LockFailed)
         else finally_do ReleaseLock (goose_calls oc))))))"

text \<open>
  However \<^verbatim>\<open>Up\<close> ends, goose has been called only between taking the lock and giving it back, a lock that
  was taken is given back, and it reports success only when every call succeeded.
\<close>

theorem migrate_up_nested:
  "(fst (migrate_up oc) = (if \<not> uo_opened oc then [OpenPool]
      else if \<not> uo_conn oc then [OpenPool, TakeConn, ClosePool]
      else if \<not> uo_locked oc then [OpenPool, TakeConn, TakeLock, CloseConn, ClosePool]
      else [OpenPool, TakeConn, TakeLock] @ fst (goose_calls oc) @ [ReleaseLock, CloseConn, ClosePool]))
    \<and> set (fst (goose_calls oc)) \<subseteq> {SetDialect, ReadVersion, ApplyPending}
    \<and> (snd (migrate_up oc) = Inr r \<longleftrightarrow> uo_opened oc \<and> uo_conn oc \<and> uo_locked oc \<and> uo_dialect oc \<and> uo_applied oc
        \<and> (\<exists>b v. uo_before oc = Some b \<and> uo_after oc = Some v \<and> r = (if b = v then UpToDate v else Migrated b v)))"
  by (auto simp: migrate_up_def goose_calls_def before_def finally_do_def split: option.split)

end
