(* ===== verification/Spec2Isabelle.thy ===== *)
theory Spec2Isabelle
  imports Service Startup
begin

text \<open>
  A verification development for the Go API of Overlap, a group scheduling tool. An organizer opens an
  event over a window of dates and hours, people answer for its slots, a solver ranks the slots, the
  organizer decides one. A decided event can graduate into a group whose members' calendars then yield
  proposals. Everything under \<^verbatim>\<open>src/api\<close> that computes is modelled; the web client is not.

  \<^bold>\<open>How the parts work together.\<close> A request passes CORS, the rate limit of its route and the check of its
  token (\<open>Config\<close>, \<open>RateLimit\<close>, \<open>Api\<close>), reaches a handler, which reads the request (\<open>Requests\<close>), calls the
  store, which runs SQL statements in a transaction (\<open>Database\<close>), and answers; what it publishes goes
  through the broker to the open connections (\<open>Broker\<close>, \<open>Streams\<close>). Calendars come in through the fetch
  guard and the feed parser (\<open>FetchGuard\<close>, \<open>Icsparse\<close>) and go out through the renderer (\<open>Ics\<close>). \<open>Service\<close>
  puts all of it together: its state is the world (tables, clock, counter of random draws), the cache of
  proposals, the limiter, the broker and the connections, and its steps are requests, turns of
  connections, sweeps and the passing of time, in any order.

  \<^bold>\<open>Which theory models what.\<close> Names follow the code, in lower case with underscores; record fields carry a
  prefix of their type.
  \<^item> The language and its library: \<open>Prelude\<close> (instants and durations as integers of nanoseconds, zones as
    functions), \<open>GoTime\<close>, \<open>GoFloat\<close> (binary64 as rationals with rounding), \<open>GoSort\<close> (\<^verbatim>\<open>sort.SliceStable\<close>),
    \<open>GoText\<close>, \<open>GoFormat\<close>, \<open>GoNet\<close> and \<open>Effects\<close> (operations that fail or change a state).
  \<^item> \<^verbatim>\<open>internal/slots\<close>: \<open>Slots\<close>. \<^verbatim>\<open>internal/solver\<close>: \<open>Scoring\<close>, \<open>Ranking\<close>, \<open>Dominance\<close>. \<^verbatim>\<open>internal/dayparts\<close>:
    \<open>Dayparts\<close>. \<^verbatim>\<open>internal/results\<close>: \<open>Results\<close>. \<^verbatim>\<open>internal/proposal\<close>: \<open>Proposal\<close>.
  \<^item> \<^verbatim>\<open>internal/icsparse\<close>: \<open>Intervals\<close>, \<open>Icsparse\<close>, \<open>IcsparseFacts\<close>. \<^verbatim>\<open>internal/ics\<close>: \<open>Ics\<close>, \<open>IcsFacts\<close>.
  \<^item> \<^verbatim>\<open>internal/dbgen\<close> and the constraints of \<^verbatim>\<open>api/migrations\<close>: \<open>Database\<close> (one definition for each statement),
    \<open>Integrity\<close>. \<^verbatim>\<open>internal/store\<close> and \<^verbatim>\<open>internal/tz\<close>: \<open>Convert\<close>, \<open>Store\<close>, \<open>StoreFacts\<close>, \<open>Purge\<close>, \<open>StoreGroups\<close>,
    \<open>GroupFacts\<close>, \<open>Graduation\<close>.
  \<^item> \<^verbatim>\<open>internal/server\<close>: \<open>Requests\<close>, \<open>RequestFacts\<close>, \<open>Api\<close> (middleware of \<^verbatim>\<open>auth.go\<close>), \<open>EventHandlers\<close>,
    \<open>SolveHandlers\<close>, \<open>CalendarHandlers\<close>, \<open>GroupHandlers\<close>, each with its theory of facts (\<open>DecideFacts\<close> is that
    of deciding), \<open>ProposalCache\<close>, \<open>Streams\<close>, \<open>Config\<close>, and \<open>Service\<close> for \<^verbatim>\<open>server.go\<close>, \<^verbatim>\<open>ratelimit.go\<close> and
    \<^verbatim>\<open>clientip.go\<close>.
  \<^item> \<^verbatim>\<open>internal/ratelimit\<close>: \<open>RateLimit\<close>. \<^verbatim>\<open>internal/sse\<close>: \<open>Broker\<close>. \<^verbatim>\<open>internal/fetchguard\<close>: \<open>FetchGuard\<close>.
  \<^item> \<^verbatim>\<open>cmd/api\<close> and \<^verbatim>\<open>internal/migrate\<close>: \<open>Startup\<close>, with the expiry sweep in \<open>Purge\<close>.

  \<^bold>\<open>What the lemmas show.\<close>
  \<^item> Results: an expansion lists exactly the instants of its grid (\<open>Slots\<close>); scores account for everybody,
    stay in range and are monotone in binary64 (\<open>Scoring\<close>); the ranking is an orderly permutation
    (\<open>Ranking\<close>); the verdict agrees with a specification over all completions of the open answers
    (\<open>Dominance\<close>, \<open>DecideFacts\<close>); a proposal is the earliest common free slot (\<open>Proposal\<close>,
    \<open>GroupHandlerFacts\<close>).
  \<^item> State: every statement, transaction and handler keeps the integrity \<open>db_ok\<close> (\<open>Integrity\<close> up to
    \<open>Service\<close>), what is stored is read back, refusals change nothing, purging removes what has expired.
  \<^item> Calendars: merging is a normal form; a rendered event is read back; jumping ahead in a series changes
    nothing where the code is right, and the recurrences it gets wrong have a theorem each.
  \<^item> Protection: no write without a credential or an admission (\<open>Service\<close>), no fetch into the private
    network (\<open>FetchGuard\<close>), a limiter that is exact and whose sweep is never noticed (\<open>RateLimit\<close>).
  \<^item> Concurrency, as invariants of step relations: callers of the proposal cache (with progress), streams
    and broadcasts, and the whole service.
  \<^item> Process: what is started is stopped in reverse order, and a migration lock that was taken is given
    back, however the calls in between end (\<open>Startup\<close>).
  The locales state the interfaces between the parts (rounding, stable sorting, normalised calendars and
  so on) and are interpreted on the definitions of the model, in the theory that provides them.

  \<^bold>\<open>Conditions.\<close> Several theorems hold under a condition that the code needs: the analysis of the poll is
  exact where every unanswered slot is at a sociable hour for whoever has not answered it (\<open>Dominance\<close> has
  a counterexample at others), jumping ahead in a series is exact in UTC (\<open>IcsparseFacts\<close> has a daily series
  that drifts across a gap), a limiter at capacity lets new keys through unmetered, and a proposal cache
  whose time is zero is off.

  \<^bold>\<open>Bounds and fuel.\<close> Recursion over redirects has \<open>max_redirects + 1\<close> steps of fuel, and \<open>fetch_only_public\<close>
  shows that it never runs out, since the code stops at the third request. A slug is drawn
  \<open>slug_attempts\<close> times as in the code. A recurrence stops at \<open>max_occurrences\<close> as in the code; the model
  recurses on that bound. The purge loop has a measure instead of fuel, the number of expired events.
  Binary64 has an unbounded exponent and no fused operations: scores, token counts and ages neither
  overflow nor become subnormal.

  \<^bold>\<open>Parameters.\<close> The zone database, random identifiers and bytes, SHA-256 and the identifier parser are
  fields of \<open>env\<close>; \<open>scan_ok\<close> states what is relied on of identifiers, and \<open>zone_ok\<close> of a zone, near the
  wall clocks in question only: at most one transition within four days, which if it goes back does so
  by half an hour, one hour or two. Most zones at most times are so; the theory \<open>Slots\<close> has the three hours
  of Antarctica/Casey as a counterexample to the code. URL parser, resolver and servers are a
  \<open>net\<close>; \<^verbatim>\<open>math.Pow\<close>, \<^verbatim>\<open>time.ParseDuration\<close> and \<^verbatim>\<open>strconv.ParseFloat\<close> are arguments; the single-flight group of
  \<^verbatim>\<open>golang.org/x/sync\<close> is the parameter \<open>lead\<close> with the law \<open>single_flight\<close>; a request body arrives decoded
  from JSON; what goose, Postgres and the network answer to \<open>migrate_up\<close> and \<open>run_process\<close> is given.

  \<^bold>\<open>Not modelled.\<close> Failures of the database connection, the connection pool (\<^verbatim>\<open>store.go\<close>), isolation levels
  beyond one transaction at a time, panic recovery, request logging, response headers other than CORS,
  JSON encoding, the timeouts of \<^verbatim>\<open>net/http\<close> and the limit on concurrent fetches: they are input and output
  or belong to libraries. So is what goose does to the schema, and that several processes which migrate at
  once do not disturb each other: it rests on goose and on the advisory lock of Postgres. A rate limit set to infinity is left out, because it would need infinite
  arithmetic. \<^verbatim>\<open>cmd/migrate\<close> only passes its arguments to goose. The web client (\<^verbatim>\<open>src/web\<close>) is TypeScript and
  Svelte; of the logic above it repeats only the day parts, for display.
\<close>

end
